(* ===== verification/Prelude.thy ===== *)
theory Prelude
  imports Main "HOL-Library.Word" "HOL-Library.Signed_Division" "HOL-Library.Monad_Syntax"
begin

unbundle bit_operations_syntax

text \<open>
  Shared vocabulary of the development: the machine types of the program, the generic facts about
  words read from their most significant bit (the order in which the bit vectors of
  \<^verbatim>\<open>utility/BitVector.hpp\<close> number their bits), about word arrays, and the fact collections
  that carry the component proofs.
\<close>

named_theorems hbit_simps "bits of a word counted from the top"
named_theorems bv_simps "bits of a bit vector after an operation"
named_theorems inv_intros "operations keep the invariant of their component"

type_synonym u8 = "8 word"
type_synonym u16 = "16 word"
type_synonym u32 = "32 word"
type_synonym u64 = "64 word"

section \<open>Words read from the most significant bit\<close>

text \<open>\<open>hbit w k\<close> is bit \<open>k\<close> of \<open>w\<close> counted from the top; it is false past the width.\<close>

definition hbit :: "'a::len word \<Rightarrow> nat \<Rightarrow> bool" where
  "hbit w k \<longleftrightarrow> k < LENGTH('a) \<and> bit w (LENGTH('a) - 1 - k)"

lemma hbit_less: "hbit w k \<Longrightarrow> k < LENGTH('a)" for w :: "'a::len word"
  by (simp add: hbit_def)

lemma hbit_beyond [simp]: "LENGTH('a) \<le> k \<Longrightarrow> \<not> hbit w k" for w :: "'a::len word"
  by (simp add: hbit_def)

lemma bit_hbit: "i < LENGTH('a) \<Longrightarrow> bit w i \<longleftrightarrow> hbit w (LENGTH('a) - 1 - i)" for w :: "'a::len word"
  by (simp add: hbit_def)

lemma word_eq_hbitI:
  fixes v w :: "'a::len word"
  assumes "\<And>k. k < LENGTH('a) \<Longrightarrow> hbit v k = hbit w k"
  shows "v = w"
proof (rule bit_word_eqI)
  fix n assume "n < LENGTH('a)"
  with assms [of "LENGTH('a) - 1 - n"] show "bit v n = bit w n"
    by (simp add: bit_hbit)
qed

lemma hbit_0 [simp]: "\<not> hbit 0 k"
  by (simp add: hbit_def)

lemma hbit_max [hbit_simps]: "hbit (- 1 :: 'a::len word) k \<longleftrightarrow> k < LENGTH('a)"
  by (simp add: hbit_def)

lemma hbit_and [hbit_simps]: "hbit (v AND w) k \<longleftrightarrow> hbit v k \<and> hbit w k"
  by (auto simp: hbit_def bit_simps)

lemma hbit_or [hbit_simps]: "hbit (v OR w) k \<longleftrightarrow> hbit v k \<or> hbit w k"
  by (auto simp: hbit_def bit_simps)

lemma hbit_not [hbit_simps]: "hbit (NOT w) k \<longleftrightarrow> k < LENGTH('a) \<and> \<not> hbit w k" for w :: "'a::len word"
  by (auto simp: hbit_def bit_simps)

lemma hbit_push [hbit_simps]: "hbit (push_bit n w) k \<longleftrightarrow> hbit w (k + n)" for w :: "'a::len word"
proof -
  have "n \<le> LENGTH('a) - 1 - k \<longleftrightarrow> k + n < LENGTH('a)" if "k < LENGTH('a)"
    using that by arith
  moreover have "LENGTH('a) - 1 - k - n = LENGTH('a) - 1 - (k + n)"
    by arith
  ultimately show ?thesis by (auto simp: hbit_def bit_simps)
qed

lemma hbit_drop [hbit_simps]:
  "hbit (drop_bit n w) k \<longleftrightarrow> k < LENGTH('a) \<and> n \<le> k \<and> hbit w (k - n)" for w :: "'a::len word"
proof (cases "k < LENGTH('a) \<and> n \<le> k")
  case True
  then have "n + (LENGTH('a) - 1 - k) = LENGTH('a) - 1 - (k - n)" by arith
  moreover have "k - n < LENGTH('a)" using True by arith
  ultimately show ?thesis using True by (simp add: hbit_def bit_simps)
next
  case False
  have "\<not> bit w (n + (LENGTH('a) - 1 - k))" if "k < LENGTH('a)" "\<not> n \<le> k"
    by (rule impossible_bit) (use that in \<open>simp add: possible_bit_def\<close>)
  with False show ?thesis by (auto simp: hbit_def bit_simps)
qed

lemma hbit_mask [hbit_simps]: "hbit (mask n :: 'a::len word) k \<longleftrightarrow> k < LENGTH('a) \<and> LENGTH('a) \<le> k + n"
  by (auto simp: hbit_def bit_simps)

lemma hbit_double [hbit_simps]: "hbit (w * 2) k \<longleftrightarrow> hbit w (Suc k)" "hbit (2 * w) k \<longleftrightarrow> hbit w (Suc k)"
  using hbit_push [of 1 w k] by (simp_all add: push_bit_eq_mult mult.commute)

lemma hbit_half [hbit_simps]:
  "hbit (w div 2) k \<longleftrightarrow> k < LENGTH('a) \<and> 1 \<le> k \<and> hbit w (k - 1)" for w :: "'a::len word"
  using hbit_drop [of 1 w k] by (simp add: drop_bit_eq_div)

lemma unat_half_less: "w \<noteq> 0 \<Longrightarrow> unat (drop_bit 1 w) < unat w" for w :: "'a::len word"
proof -
  assume "w \<noteq> 0"
  then have "0 < unat w" by (simp add: unat_gt_0)
  then have "unat w div 2 < unat w" by simp
  moreover have "unat (drop_bit 1 w) = unat w div 2"
    by (simp only: unat_drop_bit_eq) (simp add: drop_bit_eq_div)
  ultimately show ?thesis by simp
qed

lemma word_nonzero_hbit: "w \<noteq> 0 \<longleftrightarrow> (\<exists>k. hbit w k)"
proof
  assume "w \<noteq> 0"
  show "\<exists>k. hbit w k"
  proof (rule ccontr)
    assume "\<not> (\<exists>k. hbit w k)"
    then have "w = 0" by (intro word_eq_hbitI) simp
    with \<open>w \<noteq> 0\<close> show False ..
  qed
qed auto

lemma finite_hbit [simp]: "finite {k. hbit w k}" for w :: "'a::len word"
  by (rule finite_subset [of _ "{..<LENGTH('a)}"]) (auto dest: hbit_less)

section \<open>Positions in an array of 64-bit words\<close>

lemma div_mod_64 [simp]: "(i::nat) div 64 * 64 + i mod 64 = i"
  by simp

lemma word_index_less: "(i::nat) < 64 * n \<Longrightarrow> i div 64 < n"
  by (simp add: less_mult_imp_div_less mult.commute)

lemma word_decomp:
  obtains q k where "(i::nat) = 64 * q + k" "k < 64" "i div 64 = q" "i mod 64 = k"
  by (rule that [of "i div 64" "i mod 64"]) simp_all

lemma word_pos_eq_iff: "(i::nat) div 64 = j div 64 \<Longrightarrow> i mod 64 = j mod 64 \<longleftrightarrow> i = j"
  by (metis div_mod_64)

lemma le_word_iff: "64 * s \<le> (i::nat) \<longleftrightarrow> s \<le> i div 64"
  by (simp add: less_eq_div_iff_mult_less_eq mult.commute)

lemma less_word_iff: "(i::nat) < 64 * s \<longleftrightarrow> i div 64 < s"
  by (simp add: div_less_iff_less_mult mult.commute)

text \<open>Positions of a range that starts at a word boundary: whole words, then part of a word.\<close>

lemma aligned_range_split:
  fixes i s r :: nat
  shows "64 * s \<le> i \<and> i < 64 * s + r \<longleftrightarrow>
    (s \<le> i div 64 \<and> i div 64 < s + r div 64) \<or> (i div 64 = s + r div 64 \<and> i mod 64 < r mod 64)"
proof -
  obtain q k where i: "i = 64 * q + k" "k < 64" "i div 64 = q" "i mod 64 = k" by (rule word_decomp)
  obtain m l where r: "r = 64 * m + l" "l < 64" "r div 64 = m" "r mod 64 = l" by (rule word_decomp)
  have "64 * s \<le> 64 * q + k \<longleftrightarrow> s \<le> q" using i(2) by arith
  moreover have "64 * q + k < 64 * s + (64 * m + l) \<longleftrightarrow> q < s + m \<or> (q = s + m \<and> k < l)"
    using i(2) r(2) by arith
  ultimately show ?thesis unfolding i(3,4) r(3,4) by (auto simp: i(1) r(1))
qed

section \<open>Signed machine integers\<close>

text \<open>
  A signed integer of the code is a word read by \<open>sint\<close>. Signed arithmetic that leaves the range is
  undefined behaviour of the program: the result is \<open>None\<close>. A narrowing conversion wraps.
\<close>

definition checked32 :: "int \<Rightarrow> u32 option" where
  "checked32 x = (if - (2 ^ 31) \<le> x \<and> x < 2 ^ 31 then Some (word_of_int x) else None)"

definition checked64 :: "int \<Rightarrow> u64 option" where
  "checked64 x = (if - (2 ^ 63) \<le> x \<and> x < 2 ^ 63 then Some (word_of_int x) else None)"

definition narrow32 :: "int \<Rightarrow> int" where
  "narrow32 x = sint (word_of_int x :: u32)"

lemma sint32_bounds: "- (2 ^ 31) \<le> sint (w :: u32)" "sint (w :: u32) < 2 ^ 31"
  using sint_greater_eq [of w] sint_less [of w] by simp_all

lemma sint64_bounds: "- (2 ^ 63) \<le> sint (w :: u64)" "sint (w :: u64) < 2 ^ 63"
  using sint_greater_eq [of w] sint_less [of w] by simp_all

lemma sint_of_int32: "- (2 ^ 31) \<le> x \<Longrightarrow> x < 2 ^ 31 \<Longrightarrow> sint (word_of_int x :: u32) = x"
  by (simp add: sint_sbintrunc' signed_take_bit_int_eq_self)

lemma sint_of_int64: "- (2 ^ 63) \<le> x \<Longrightarrow> x < 2 ^ 63 \<Longrightarrow> sint (word_of_int x :: u64) = x"
  by (simp add: sint_sbintrunc' signed_take_bit_int_eq_self)

lemma checked32_sint: "checked32 x = Some w \<longleftrightarrow> sint w = x"
  using sint32_bounds [of w] by (auto simp: checked32_def sint_of_int32)

lemma checked64_sint: "checked64 x = Some w \<longleftrightarrow> sint w = x"
  using sint64_bounds [of w] by (auto simp: checked64_def sint_of_int64)

lemma checked64_self [simp]: "checked64 (sint w) = Some w"
  by (simp add: checked64_sint)

lemma checked32_self [simp]: "checked32 (sint w) = Some w"
  by (simp add: checked32_sint)

lemma narrow32_id: "- (2 ^ 31) \<le> x \<Longrightarrow> x < 2 ^ 31 \<Longrightarrow> narrow32 x = x"
  by (simp add: narrow32_def sint_of_int32)

end
