(* ===== verification/BitManip.thy ===== *)
theory BitManip
  imports Prelude
begin

text \<open>
  \<^verbatim>\<open>utility/BitManipulation.hpp\<close>: population count, leading and trailing zero count, as the
  portable loops of the header (the compiler intrinsics, where configured, replace the loops by an
  instruction with the same result on nonzero words). Each definition is polymorphic in the width,
  as the templates are. The loops consume the word, so they end; the lemmas give what they count.
\<close>

section \<open>Population count\<close>

function population_count_loop :: "'a::len word \<Rightarrow> nat \<Rightarrow> nat" where
  "population_count_loop word count =
     (if word = 0 then count
      else population_count_loop (drop_bit 1 word)
             (if word AND 1 \<noteq> 0 then count + 1 else count))"
  by pat_completeness auto
termination
proof (relation "measure (\<lambda>(word, count). unat word)")
  fix word :: "'a word" and count :: nat
  assume "word \<noteq> 0"
  then have "unat (drop_bit 1 word) < unat word" by (rule unat_half_less)
  then show "((drop_bit 1 word, if word AND 1 \<noteq> 0 then count + 1 else count), word, count)
        \<in> measure (\<lambda>(word, count). unat word)"
    by (simp only: in_measure case_prod_conv)
qed simp

declare population_count_loop.simps [simp del]

definition population_count :: "'a::len word \<Rightarrow> nat" where
  "population_count word = population_count_loop word 0"

lemma bit_set_finite [simp]: "finite {i. bit w i}" for w :: "'a::len word"
  by (rule finite_subset [of _ "{..<LENGTH('a)}"]) (auto dest: bit_imp_le_length)

lemma card_bits_step:
  fixes w :: "'a::len word"
  shows "card {i. bit w i} = card {i. bit (drop_bit 1 w) i} + (if w AND 1 \<noteq> 0 then 1 else 0)"
proof -
  have odd: "w AND 1 \<noteq> 0 \<longleftrightarrow> bit w 0"
    by (simp add: and_one_eq bit_0 odd_iff_mod_2_eq_one)
  have split: "{i. bit w i} = Suc ` {i. bit (drop_bit 1 w) i} \<union> (if bit w 0 then {0} else {})"
  proof (intro set_eqI)
    fix i show "i \<in> {i. bit w i} \<longleftrightarrow> i \<in> Suc ` {i. bit (drop_bit 1 w) i} \<union> (if bit w 0 then {0} else {})"
      by (cases i) (auto simp: bit_drop_bit_eq)
  qed
  have "card (Suc ` {i. bit (drop_bit 1 w) i}) = card {i. bit (drop_bit 1 w) i}"
    by (rule card_image) simp
  then show ?thesis
    unfolding split odd by (subst card_Un_disjoint) auto
qed

lemma population_count_loop_card: "population_count_loop w c = c + card {i. bit w i}"
proof (induction w c rule: population_count_loop.induct)
  case (1 w c)
  then show ?case
    by (subst population_count_loop.simps) (simp add: card_bits_step [of w])
qed

lemma population_count_hbit: "population_count w = card {k. hbit w k}" for w :: "'a::len word"
proof -
  have flip: "LENGTH('a) - Suc (LENGTH('a) - Suc i) = i" if "bit w i" for i
    using bit_imp_le_length [OF that] by simp
  have "bij_betw (\<lambda>i. LENGTH('a) - 1 - i) {i. bit w i} {k. hbit w k}"
    by (rule bij_betw_byWitness [where f' = "\<lambda>i. LENGTH('a) - 1 - i"])
      (auto simp: hbit_def flip)
  then show ?thesis
    by (simp add: population_count_def population_count_loop_card bij_betw_same_card)
qed

section \<open>Leading zero count\<close>

definition TopBit :: "'a::len word" where
  "TopBit = push_bit (LENGTH('a) - 1) 1"

lemma hbit_TopBit [hbit_simps]: "hbit TopBit k \<longleftrightarrow> k = 0"
  unfolding TopBit_def hbit_push by (auto simp: hbit_def bit_1_iff)

lemma and_TopBit: "w AND TopBit \<noteq> 0 \<longleftrightarrow> hbit w 0"
  by (simp add: word_nonzero_hbit hbit_simps)

lemma and_TopBit_0: "w AND TopBit = 0 \<longleftrightarrow> \<not> hbit w 0"
  using and_TopBit [of w] by blast

lemma Least_hbit_push: "(LEAST k. hbit (push_bit 1 w) k) = (LEAST k. hbit w (Suc k))"
  by (simp only: hbit_push add_Suc_right add_0_right One_nat_def)

text \<open>
  The loop of the header runs on a nonzero word only (its caller tests it), and shifting a nonzero
  word whose top bit is clear keeps it nonzero, so the exit \<open>word = 0\<close> below is never the one taken;
  it is there because a HOL function is total.
\<close>

function leading_zero_count_loop :: "'a::len word \<Rightarrow> nat \<Rightarrow> nat" where
  "leading_zero_count_loop word count =
     (if word = 0 \<or> word AND TopBit \<noteq> 0 then count
      else leading_zero_count_loop (push_bit 1 word) (count + 1))"
  by pat_completeness auto
termination
proof (relation "measure (\<lambda>(word, count). LEAST k. hbit word k)")
  fix word :: "'a word" and count :: nat
  assume "\<not> (word = 0 \<or> word AND TopBit \<noteq> 0)"
  then have nz: "\<exists>k. hbit word k" and top: "\<not> hbit word 0"
    by (simp_all add: word_nonzero_hbit and_TopBit_0)
  then have "(LEAST k. hbit word k) = Suc (LEAST k. hbit word (Suc k))"
    by (metis Least_Suc)
  then show "((push_bit 1 word, count + 1), word, count) \<in> measure (\<lambda>(word, count). LEAST k. hbit word k)"
    using Least_hbit_push [of word] by simp
qed simp

declare leading_zero_count_loop.simps [simp del]

definition leading_zero_count :: "'a::len word \<Rightarrow> nat" where
  "leading_zero_count word = (if word \<noteq> 0 then leading_zero_count_loop word 0 else LENGTH('a))"

lemma leading_zero_count_loop_Least:
  "w \<noteq> 0 \<Longrightarrow> leading_zero_count_loop w c = c + (LEAST k. hbit w k)"
proof (induction w c rule: leading_zero_count_loop.induct)
  case (1 w c)
  show ?case
  proof (cases "hbit w 0")
    case True
    then have "(LEAST k. hbit w k) = 0" by (simp add: Least_eq_0)
    with True show ?thesis
      by (subst leading_zero_count_loop.simps) (simp add: and_TopBit)
  next
    case False
    from 1(2) obtain k where k: "hbit w k" by (auto simp: word_nonzero_hbit)
    with False obtain j where j: "hbit w (Suc j)" by (cases k) auto
    have nz: "push_bit 1 w \<noteq> 0"
      using j by (auto simp only: word_nonzero_hbit hbit_push add_Suc_right add_0_right One_nat_def)
    have "(LEAST k. hbit w k) = Suc (LEAST k. hbit w (Suc k))"
      using k False by (metis Least_Suc)
    moreover have "leading_zero_count_loop (push_bit 1 w) (c + 1) = c + 1 + (LEAST k. hbit (push_bit 1 w) k)"
      by (rule 1(1)) (use False 1(2) nz in \<open>simp_all add: and_TopBit_0\<close>)
    ultimately show ?thesis using False 1(2)
      by (subst leading_zero_count_loop.simps) (simp add: and_TopBit_0 hbit_double)
  qed
qed

lemma leading_zero_count_hbit:
  assumes "hbit w k" shows "hbit w (leading_zero_count w)"
    and "j < leading_zero_count w \<Longrightarrow> \<not> hbit w j"
proof -
  have eq: "leading_zero_count w = (LEAST k. hbit w k)"
    using assms by (auto simp: leading_zero_count_def leading_zero_count_loop_Least)
  show "hbit w (leading_zero_count w)" unfolding eq using assms by (rule LeastI)
  show "j < leading_zero_count w \<Longrightarrow> \<not> hbit w j" unfolding eq by (rule not_less_Least)
qed

section \<open>Trailing zero count\<close>

text \<open>As above: the caller tests the word, so the exit \<open>word = 0\<close> is never the one taken.\<close>

function trailing_zero_count_loop :: "'a::len word \<Rightarrow> nat \<Rightarrow> nat" where
  "trailing_zero_count_loop word count =
     (if word = 0 \<or> word AND 1 \<noteq> 0 then count
      else trailing_zero_count_loop (drop_bit 1 word) (count + 1))"
  by pat_completeness auto
termination
proof (relation "measure (\<lambda>(word, count). unat word)")
  fix word :: "'a word" and count :: nat
  assume "\<not> (word = 0 \<or> word AND 1 \<noteq> 0)"
  then have "unat (drop_bit 1 word) < unat word" using unat_half_less by blast
  then show "((drop_bit 1 word, count + 1), word, count) \<in> measure (\<lambda>(word, count). unat word)"
    by (simp only: in_measure case_prod_conv)
qed simp

declare trailing_zero_count_loop.simps [simp del]

definition trailing_zero_count :: "'a::len word \<Rightarrow> nat" where
  "trailing_zero_count word = (if word \<noteq> 0 then trailing_zero_count_loop word 0 else LENGTH('a))"

lemma and_one_bit: "w AND 1 \<noteq> 0 \<longleftrightarrow> bit w 0" for w :: "'a::len word"
  by (simp add: and_one_eq bit_0 odd_iff_mod_2_eq_one)

lemma and_one_bit_0: "w AND 1 = 0 \<longleftrightarrow> \<not> bit w 0" for w :: "'a::len word"
  using and_one_bit [of w] by blast

lemma word_nonzero_bit: "w \<noteq> 0 \<longleftrightarrow> (\<exists>k. bit w k)" for w :: "'a::len word"
  using bit_eq_iff [of w 0] by (auto dest: bit_imp_possible_bit)

lemma trailing_zero_count_loop_Least:
  fixes w :: "'a::len word"
  shows "w \<noteq> 0 \<Longrightarrow> trailing_zero_count_loop w c = c + (LEAST k. bit w k)"
proof (induction w c rule: trailing_zero_count_loop.induct)
  case (1 w c)
  show ?case
  proof (cases "bit w 0")
    case True
    then have "(LEAST k. bit w k) = 0" by (simp add: Least_eq_0)
    with True show ?thesis
      by (subst trailing_zero_count_loop.simps) (simp add: and_one_bit)
  next
    case False
    from 1(2) obtain k where k: "bit w k" by (auto simp: word_nonzero_bit)
    with False obtain j where j: "bit w (Suc j)" by (cases k) auto
    have nz: "drop_bit 1 w \<noteq> 0"
      using j by (auto simp only: word_nonzero_bit bit_drop_bit_eq comp_def plus_1_eq_Suc)
    have "(LEAST k. bit w k) = Suc (LEAST k. bit w (Suc k))"
      using k False by (metis Least_Suc)
    moreover have "trailing_zero_count_loop (drop_bit 1 w) (c + 1) = c + 1 + (LEAST k. bit (drop_bit 1 w) k)"
      by (rule 1(1)) (use False 1(2) nz in \<open>simp_all add: and_one_bit_0\<close>)
    ultimately show ?thesis using False 1(2)
      by (subst trailing_zero_count_loop.simps) (simp add: and_one_bit_0 bit_drop_bit_eq)
  qed
qed

lemma trailing_zero_count_hbit:
  fixes w :: "'a::len word"
  assumes "hbit w k"
  shows "trailing_zero_count w < LENGTH('a)"
    and "hbit w (LENGTH('a) - 1 - trailing_zero_count w)"
    and "LENGTH('a) - 1 - trailing_zero_count w < j \<Longrightarrow> \<not> hbit w j"
proof -
  have b: "bit w (LENGTH('a) - 1 - k)" using assms by (simp add: hbit_def)
  then have eq: "trailing_zero_count w = (LEAST k. bit w k)"
    using assms by (auto simp: trailing_zero_count_def trailing_zero_count_loop_Least)
  have t: "bit w (trailing_zero_count w)" unfolding eq using b by (rule LeastI)
  then show l: "trailing_zero_count w < LENGTH('a)" by (rule bit_imp_le_length)
  show "hbit w (LENGTH('a) - 1 - trailing_zero_count w)"
    using t l by (simp add: hbit_def)
  assume j: "LENGTH('a) - 1 - trailing_zero_count w < j"
  show "\<not> hbit w j"
  proof
    assume "hbit w j"
    then have "j < LENGTH('a)" "bit w (LENGTH('a) - 1 - j)" by (simp_all add: hbit_def)
    moreover have "LENGTH('a) - 1 - j < trailing_zero_count w" using j l \<open>j < LENGTH('a)\<close> by arith
    ultimately show False unfolding eq using not_less_Least by blast
  qed
qed

end
