(* ===== verification/BitVector.thy ===== *)
theory BitVector
  imports BitManip
begin

text \<open>
  \<^verbatim>\<open>utility/BitVector.hpp\<close>, class \<^verbatim>\<open>BitVector<false>\<close>: a vector of bits in an array of 64-bit words,
  bit \<open>i\<close> being bit \<open>i mod 64\<close>, counted from the top, of word \<open>i div 64\<close>. Sizes and positions are
  \<^typ>\<open>nat\<close>; no arithmetic on them wraps while \<open>num_bits < 2 ^ 63\<close>, which the invariant demands, and the
  one sentinel the code uses (\<open>size_t\<close>'s maximum) is the constant \<open>size_max\<close>. The exception are the shifts,
  whose distance may be any \<open>size_t\<close>: there (\<open>BitShift\<close>) the sums are written with the wrap-around.

  The words live in an allocation of \<open>data_array_size\<close> words. A store outside it changes no word of
  the vector, but it is a memory error of the C++ program: the field \<open>stray\<close> is a ghost flag that is
  raised by such a store and never lowered, so that theorems can say which calls make one.
\<close>

section \<open>State and memory\<close>

record bitvector =
  data_array :: "u64 list"
  num_bits :: nat
  stray :: bool

definition size_max :: nat where
  "size_max = 2 ^ 64 - 1"

definition data_array_size :: "nat \<Rightarrow> nat" where
  "data_array_size n = n div 64 + (if n mod 64 \<noteq> 0 then 1 else 0)"

abbreviation word_at :: "bitvector \<Rightarrow> nat \<Rightarrow> u64" where
  "word_at bv j \<equiv> data_array bv ! j"

abbreviation num_words :: "bitvector \<Rightarrow> nat" where
  "num_words bv \<equiv> length (data_array bv)"

definition put_word :: "nat \<Rightarrow> u64 \<Rightarrow> bitvector \<Rightarrow> bitvector" where
  "put_word j w bv =
     (if j < num_words bv then bv\<lparr>data_array := (data_array bv)[j := w]\<rparr> else bv\<lparr>stray := True\<rparr>)"

definition map_words :: "(nat \<Rightarrow> u64) \<Rightarrow> bitvector \<Rightarrow> bitvector" where
  "map_words f bv = bv\<lparr>data_array := map f [0..<num_words bv]\<rparr>"

text \<open>\<open>memset\<close>, \<open>memcpy\<close> and \<open>memmove\<close> on whole words; a region that leaves the array is stray.\<close>

definition memset_words :: "nat \<Rightarrow> nat \<Rightarrow> u64 \<Rightarrow> bitvector \<Rightarrow> bitvector" where
  "memset_words start n w bv =
     (map_words (\<lambda>j. if start \<le> j \<and> j < start + n then w else word_at bv j) bv)
       \<lparr>stray := stray bv \<or> (0 < n \<and> num_words bv < start + n)\<rparr>"

definition memcpy_words :: "bitvector \<Rightarrow> nat \<Rightarrow> bitvector \<Rightarrow> bitvector" where
  "memcpy_words other n bv =
     (map_words (\<lambda>j. if j < n then word_at other j else word_at bv j) bv)
       \<lparr>stray := stray bv \<or> num_words bv < n\<rparr>"

definition memmove_words :: "nat \<Rightarrow> nat \<Rightarrow> nat \<Rightarrow> bitvector \<Rightarrow> bitvector" where
  "memmove_words dest src n bv =
     (map_words (\<lambda>j. if dest \<le> j \<and> j < dest + n then word_at bv (src + (j - dest)) else word_at bv j) bv)
       \<lparr>stray := stray bv \<or> (0 < n \<and> num_words bv < dest + n)\<rparr>"

section \<open>Construction and sizes\<close>

definition BytesNeeded :: "bool \<Rightarrow> nat \<Rightarrow> nat" where
  "BytesNeeded enable_short_version n =
     (if enable_short_version \<and> n = 0 then 0
      else if enable_short_version \<and> n < 9 then 1
      else if enable_short_version \<and> n < 17 then 2
      else if enable_short_version \<and> n < 33 then 4
      else if n mod 64 \<noteq> 0 then (n div 64 + 1) * 8
      else (n div 64) * 8)"

definition MaxCapacityForBytes :: "bool \<Rightarrow> nat \<Rightarrow> nat" where
  "MaxCapacityForBytes enable_short_version num_bytes =
     (if num_bytes = 0 then 0
      else if enable_short_version \<and> 1 \<le> num_bytes \<and> num_bytes < 2 then 8
      else if enable_short_version \<and> 2 \<le> num_bytes \<and> num_bytes < 4 then 16
      else if enable_short_version \<and> 4 \<le> num_bytes \<and> num_bytes < 8 then 32
      else (num_bytes div 8) * 64)"

definition clear :: "bitvector \<Rightarrow> bitvector" where
  "clear bv = memset_words 0 (BytesNeeded False (num_bits bv) div 8) 0 bv"

text \<open>The owning constructor: \<open>malloc\<close> leaves the words arbitrary (\<open>garbage\<close>), \<open>clear\<close> zeroes them.\<close>

definition BitVector_new :: "(nat \<Rightarrow> u64) \<Rightarrow> nat \<Rightarrow> bitvector" where
  "BitVector_new garbage n =
     clear \<lparr>data_array = map garbage [0..<data_array_size n], num_bits = n, stray = False\<rparr>"

section \<open>Single bits, words and ranges\<close>

definition MaskBitRange :: "nat \<Rightarrow> nat \<Rightarrow> 'a::len word" where
  "MaskBitRange start_bit_num range_num_bits =
     (let range = (if range_num_bits > LENGTH('a) then LENGTH('a) else range_num_bits)
      in if range \<noteq> 0 then drop_bit start_bit_num (push_bit (LENGTH('a) - range) (- 1)) else 0)"

definition getBit :: "bitvector \<Rightarrow> nat \<Rightarrow> bool" where
  "getBit bv bit_num = (push_bit (bit_num mod 64) (word_at bv (bit_num div 64)) AND TopBit \<noteq> 0)"

definition getBitWord :: "bitvector \<Rightarrow> nat \<Rightarrow> u64" where
  "getBitWord bv word_id = word_at bv word_id"

definition setBit :: "nat \<Rightarrow> bool \<Rightarrow> bitvector \<Rightarrow> bitvector" where
  "setBit bit_num val bv =
     (if val then put_word (bit_num div 64)
         (word_at bv (bit_num div 64) OR drop_bit (bit_num mod 64) TopBit) bv
      else put_word (bit_num div 64)
         (word_at bv (bit_num div 64) AND NOT (drop_bit (bit_num mod 64) TopBit)) bv)"

definition set_or_unset :: "bool \<Rightarrow> u64 \<Rightarrow> u64 \<Rightarrow> u64" where
  "set_or_unset val w m = (if val then w OR m else w AND NOT m)"

text \<open>
  The part of \<open>setBitRangeRegularVersion\<close> from the first whole word on: whole words by \<open>memset\<close>, then
  the first part of the last word. The last store happens also when no bits remain for it.
\<close>

definition setBitRange_whole :: "nat \<Rightarrow> nat \<Rightarrow> bool \<Rightarrow> bitvector \<Rightarrow> bitvector" where
  "setBitRange_whole start_element range_num_bits val bv =
     (let range_elements = range_num_bits div 64;
          bv1 = memset_words start_element range_elements (if val then - 1 else 0) bv;
          last = start_element + range_elements
      in put_word last (set_or_unset val (word_at bv1 last) (MaskBitRange 0 (range_num_bits mod 64))) bv1)"

definition setBitRange :: "nat \<Rightarrow> nat \<Rightarrow> bool \<Rightarrow> bitvector \<Rightarrow> bitvector" where
  "setBitRange start_bit_num range_num_bits val bv =
     (let start_element = start_bit_num div 64;
          start_lower_bits = start_bit_num mod 64
      in if start_lower_bits \<noteq> 0 then
           (let bv1 = put_word start_element
                        (set_or_unset val (word_at bv start_element)
                           (MaskBitRange start_lower_bits range_num_bits)) bv;
                range = range_num_bits + start_lower_bits
            in if range \<le> 64 then bv1 else setBitRange_whole (start_element + 1) (range - 64) val bv1)
         else setBitRange_whole start_element range_num_bits val bv)"

definition setBitWord :: "nat \<Rightarrow> u64 \<Rightarrow> bitvector \<Rightarrow> bitvector" where
  "setBitWord word_id val bv =
     (let bv1 = put_word word_id val bv
      in if word_id = num_words bv - 1 \<and> num_bits bv mod 64 \<noteq> 0
         then put_word word_id (word_at bv1 word_id AND push_bit (64 - num_bits bv mod 64) (- 1)) bv1
         else bv1)"

section \<open>Whole-vector operations\<close>

definition assignFrom :: "bitvector \<Rightarrow> bitvector \<Rightarrow> bitvector" where
  "assignFrom other bv = memcpy_words other (BytesNeeded False (num_bits bv) div 8) bv"

definition assignFromLonger :: "bitvector \<Rightarrow> bitvector \<Rightarrow> bitvector" where
  "assignFromLonger other bv =
     (let bv1 = memcpy_words other (BytesNeeded False (num_bits bv) div 8) bv;
          last = num_words bv - 1
      in if num_bits bv mod 64 \<noteq> 0
         then put_word last (word_at bv1 last AND MaskBitRange 0 (num_bits bv mod 64)) bv1 else bv1)"

definition FlipLimitedBits :: "'a::len word \<Rightarrow> nat \<Rightarrow> 'a word" where
  "FlipLimitedBits item n =
     (let item = NOT item in if n \<noteq> 0 then item AND push_bit (LENGTH('a) - n) (- 1) else item)"

definition flipBits :: "bitvector \<Rightarrow> bitvector" where
  "flipBits bv =
     (if num_bits bv = 0 then bv
      else let bv1 = map_words (\<lambda>j. if j < num_words bv - 1 then NOT (word_at bv j) else word_at bv j) bv;
               last = num_words bv - 1
           in put_word last (FlipLimitedBits (word_at bv1 last) (num_bits bv mod 64)) bv1)"

definition intersectWith :: "bitvector \<Rightarrow> bitvector \<Rightarrow> bitvector" where
  "intersectWith other bv = map_words (\<lambda>j. word_at bv j AND word_at other j) bv"

definition unionWith :: "bitvector \<Rightarrow> bitvector \<Rightarrow> bitvector" where
  "unionWith other bv = map_words (\<lambda>j. word_at bv j OR word_at other j) bv"

definition unsetFrom :: "bitvector \<Rightarrow> bitvector \<Rightarrow> bitvector" where
  "unsetFrom other bv =
     (let limit = (if num_words bv < num_words other then num_words bv else num_words other)
      in map_words (\<lambda>j. if j < limit then word_at bv j AND NOT (word_at other j) else word_at bv j) bv)"

section \<open>Abstraction and invariant\<close>

text \<open>
  \<open>bit_at bv i\<close> reads bit \<open>i\<close> of the array (padding included), \<open>bv_set bv\<close> is the set the vector
  represents. The invariant: the array has the size the constructor gives it, and the padding bits
  of the last word are zero, which the counting and searching operations rely on.
\<close>

definition bit_at :: "bitvector \<Rightarrow> nat \<Rightarrow> bool" where
  "bit_at bv i \<longleftrightarrow> i < 64 * num_words bv \<and> hbit (word_at bv (i div 64)) (i mod 64)"

definition bv_set :: "bitvector \<Rightarrow> nat set" where
  "bv_set bv = {i. i < num_bits bv \<and> getBit bv i}"

definition bv_wf :: "bitvector \<Rightarrow> bool" where
  "bv_wf bv \<longleftrightarrow> num_words bv = data_array_size (num_bits bv) \<and> num_bits bv < 2 ^ 63"

definition bv_inv :: "bitvector \<Rightarrow> bool" where
  "bv_inv bv \<longleftrightarrow> bv_wf bv \<and> (\<forall>i\<ge>num_bits bv. \<not> bit_at bv i)"

lemma data_array_size_bounds:
  "n \<le> 64 * data_array_size n" "64 * data_array_size n < n + 64"
  unfolding data_array_size_def by presburger+

lemma data_array_size_mono: "m \<le> n \<Longrightarrow> data_array_size m \<le> data_array_size n"
  using data_array_size_bounds(2) [of m] data_array_size_bounds(1) [of n] by linarith

lemma bv_wf_num_words: "bv_wf bv \<Longrightarrow> num_words bv = data_array_size (num_bits bv)"
  by (simp add: bv_wf_def)

lemma bv_inv_wf [dest]: "bv_inv bv \<Longrightarrow> bv_wf bv"
  by (simp add: bv_inv_def)

lemma bv_wf_less: "bv_wf bv \<Longrightarrow> i < num_bits bv \<Longrightarrow> i < 64 * num_words bv"
  using data_array_size_bounds(1) [of "num_bits bv"] by (simp add: bv_wf_def)

lemma bv_wf_le: "bv_wf bv \<Longrightarrow> n \<le> num_bits bv \<Longrightarrow> n \<le> 64 * num_words bv"
  using data_array_size_bounds(1) [of "num_bits bv"] by (simp add: bv_wf_def)

lemma bv_inv_padding: "bv_inv bv \<Longrightarrow> num_bits bv \<le> i \<Longrightarrow> \<not> bit_at bv i"
  by (simp add: bv_inv_def)

lemma bit_at_less: "bit_at bv i \<Longrightarrow> i < 64 * num_words bv"
  by (simp add: bit_at_def)

lemma BytesNeeded_words: "BytesNeeded False n div 8 = data_array_size n"
  by (simp add: BytesNeeded_def data_array_size_def)

lemma getBit_bit_at: "i < 64 * num_words bv \<Longrightarrow> getBit bv i = bit_at bv i"
  by (simp add: getBit_def bit_at_def and_TopBit hbit_push)

lemma bv_set_bit_at: "bv_wf bv \<Longrightarrow> bv_set bv = {i. i < num_bits bv \<and> bit_at bv i}"
  by (auto simp: bv_set_def getBit_bit_at bv_wf_less)

lemma bv_inv_set: "bv_inv bv \<Longrightarrow> bv_set bv = {i. bit_at bv i}"
  by (auto simp: bv_set_bit_at bv_inv_wf bv_inv_padding simp flip: not_less)
    (use bv_inv_padding not_less in blast)

lemma bv_set_less: "i \<in> bv_set bv \<Longrightarrow> i < num_bits bv"
  by (simp add: bv_set_def)

lemma finite_bv_set [simp]: "finite (bv_set bv)"
  by (simp add: bv_set_def)

lemma hbit_word_at: "k < 64 \<Longrightarrow> j < num_words bv \<Longrightarrow> hbit (word_at bv j) k = bit_at bv (64 * j + k)"
  by (simp add: bit_at_def)

lemma hbit_word_div: "i < 64 * num_words bv \<Longrightarrow> hbit (word_at bv (i div 64)) (i mod 64) = bit_at bv i"
  by (simp add: bit_at_def)

lemma bit_at_hbit: "bit_at bv i \<Longrightarrow> hbit (word_at bv (i div 64)) (i mod 64)"
  by (simp add: bit_at_def)

lemma not_bit_at: "\<not> i < 64 * num_words bv \<Longrightarrow> \<not> bit_at bv i"
  by (simp add: bit_at_def)

lemma bit_in_word': "i div 64 = j \<Longrightarrow> i mod 64 = k \<Longrightarrow> j < num_words bv \<Longrightarrow> bit_at bv i = hbit (word_at bv j) k"
  by (auto simp: bit_at_def less_word_iff)

text \<open>Two vectors of one length with the same set are the same array.\<close>

lemma bv_inv_eqI:
  assumes "bv_inv a" "bv_inv b" "num_bits a = num_bits b" "bv_set a = bv_set b"
  shows "data_array a = data_array b"
proof (rule nth_equalityI)
  show len: "num_words a = num_words b"
    using assms by (simp add: bv_inv_wf bv_wf_num_words)
  fix j assume j: "j < num_words a"
  show "word_at a j = word_at b j"
  proof (rule word_eq_hbitI)
    fix k assume "k < LENGTH(64)"
    moreover have "bit_at a (64 * j + k) = bit_at b (64 * j + k)"
      using assms by (metis bv_inv_set mem_Collect_eq)
    ultimately show "hbit (word_at a j) k = hbit (word_at b j) k"
      using j len by (simp add: hbit_word_at)
  qed
qed

section \<open>Memory operations, bit by bit\<close>

lemma put_word_simps [simp]:
  "num_words (put_word j w bv) = num_words bv" "num_bits (put_word j w bv) = num_bits bv"
  by (simp_all add: put_word_def)

lemma map_words_simps [simp]:
  "num_words (map_words f bv) = num_words bv" "num_bits (map_words f bv) = num_bits bv"
  "stray (map_words f bv) = stray bv"
  by (simp_all add: map_words_def)

lemma memset_words_simps [simp]:
  "num_words (memset_words s n w bv) = num_words bv" "num_bits (memset_words s n w bv) = num_bits bv"
  by (simp_all add: memset_words_def)

lemma memcpy_words_simps [simp]:
  "num_words (memcpy_words b n bv) = num_words bv" "num_bits (memcpy_words b n bv) = num_bits bv"
  by (simp_all add: memcpy_words_def)

lemma memmove_words_simps [simp]:
  "num_words (memmove_words d s n bv) = num_words bv" "num_bits (memmove_words d s n bv) = num_bits bv"
  by (simp_all add: memmove_words_def)

lemma word_at_put_word: "i < num_words bv \<Longrightarrow> word_at (put_word j w bv) i = (if i = j then w else word_at bv i)"
  by (simp add: put_word_def nth_list_update)

lemma word_at_map_words: "j < num_words bv \<Longrightarrow> word_at (map_words f bv) j = f j"
  by (simp add: map_words_def)

lemma word_at_memset_words:
  "j < num_words bv \<Longrightarrow> word_at (memset_words s n w bv) j = (if s \<le> j \<and> j < s + n then w else word_at bv j)"
  by (simp add: memset_words_def word_at_map_words)

lemma word_at_memmove_words:
  "j < num_words bv \<Longrightarrow> word_at (memmove_words d s n bv) j =
     (if d \<le> j \<and> j < d + n then word_at bv (s + (j - d)) else word_at bv j)"
  by (simp add: memmove_words_def word_at_map_words)

lemma stray_simps [simp]:
  "stray (put_word j w bv) \<longleftrightarrow> stray bv \<or> num_words bv \<le> j"
  "stray (memset_words s n w bv) \<longleftrightarrow> stray bv \<or> (0 < n \<and> num_words bv < s + n)"
  "stray (memcpy_words b n bv) \<longleftrightarrow> stray bv \<or> num_words bv < n"
  "stray (memmove_words d s n bv) \<longleftrightarrow> stray bv \<or> (0 < n \<and> num_words bv < d + n)"
  by (auto simp: put_word_def memset_words_def memcpy_words_def memmove_words_def)

lemma bit_at_put_word [bv_simps]:
  "bit_at (put_word j w bv) i \<longleftrightarrow>
     (if i div 64 = j \<and> j < num_words bv then hbit w (i mod 64) else bit_at bv i)"
  by (auto simp: bit_at_def word_at_put_word word_index_less dest: word_index_less)

lemma bit_at_map_words [bv_simps]:
  "bit_at (map_words f bv) i \<longleftrightarrow> i < 64 * num_words bv \<and> hbit (f (i div 64)) (i mod 64)"
  by (auto simp: bit_at_def word_at_map_words word_index_less)

lemma bit_at_memset_words [bv_simps]:
  "bit_at (memset_words s n w bv) i \<longleftrightarrow>
     (if s \<le> i div 64 \<and> i div 64 < s + n then i < 64 * num_words bv \<and> hbit w (i mod 64) else bit_at bv i)"
  by (auto simp: bit_at_def word_at_memset_words word_index_less)

lemma bit_at_memcpy_words [bv_simps]:
  "bit_at (memcpy_words b n bv) i \<longleftrightarrow>
     (if i div 64 < n then i < 64 * num_words bv \<and> hbit (word_at b (i div 64)) (i mod 64) else bit_at bv i)"
  by (auto simp: bit_at_def memcpy_words_def word_at_map_words word_index_less)

lemma hbit_MaskBitRange [hbit_simps]:
  "hbit (MaskBitRange s r :: 'a::len word) k \<longleftrightarrow> k < LENGTH('a) \<and> s \<le> k \<and> k < s + r"
  by (auto simp: MaskBitRange_def Let_def hbit_simps)

lemma hbit_set_or_unset [hbit_simps]:
  "hbit (set_or_unset val w m) k \<longleftrightarrow> k < 64 \<and> (if hbit m k then val else hbit w k)"
  by (auto simp: set_or_unset_def hbit_simps dest: hbit_less)

lemma hbit_high_mask [hbit_simps]:
  "n \<le> LENGTH('a) \<Longrightarrow> hbit (push_bit (LENGTH('a) - n) (- 1 :: 'a::len word)) k \<longleftrightarrow> k < n"
  by (auto simp: hbit_simps)

section \<open>Operations, bit by bit\<close>

text \<open>
  For each operation: the bits it leaves, hence the set it represents, that it keeps the invariant,
  and when it makes a stray store.
\<close>

lemma op_invI:
  assumes "bv_inv bv" "num_words r = num_words bv" "num_bits r = num_bits bv"
    and "\<And>i. num_bits bv \<le> i \<Longrightarrow> bit_at r i \<Longrightarrow> bit_at bv i"
  shows "bv_inv r"
  using assms unfolding bv_inv_def bv_wf_def by (metis)

lemma bv_wf_word_index: "bv_wf bv \<Longrightarrow> i < num_bits bv \<Longrightarrow> i div 64 < num_words bv"
  by (rule word_index_less) (rule bv_wf_less)

lemma bv_wf_last:
  assumes "bv_wf bv" "num_bits bv mod 64 \<noteq> 0"
  shows "num_words bv = Suc (num_bits bv div 64)"
  using assms by (simp add: bv_wf_def data_array_size_def)

lemma bv_wf_exact:
  assumes "bv_wf bv" "num_bits bv mod 64 = 0"
  shows "num_words bv = num_bits bv div 64"
  using assms by (simp add: bv_wf_def data_array_size_def)

subsection \<open>Construction\<close>

lemma clear_simps [simp]:
  "num_words (clear bv) = num_words bv" "num_bits (clear bv) = num_bits bv"
  by (simp_all add: clear_def)

lemma bit_at_clear [bv_simps]: "bv_wf bv \<Longrightarrow> \<not> bit_at (clear bv) i"
  by (auto simp: clear_def bv_simps BytesNeeded_words bv_wf_def dest: bit_at_less word_index_less)

lemma stray_clear: "bv_wf bv \<Longrightarrow> stray (clear bv) \<longleftrightarrow> stray bv"
  by (simp add: clear_def BytesNeeded_words bv_wf_def)

lemma clear_inv [inv_intros]: "bv_wf bv \<Longrightarrow> bv_inv (clear bv)"
  by (simp add: bv_inv_def bit_at_clear) (simp add: bv_wf_def)

lemma BitVector_new_inv [inv_intros]: "n < 2 ^ 63 \<Longrightarrow> bv_inv (BitVector_new g n)"
  unfolding BitVector_new_def by (rule clear_inv) (simp add: bv_wf_def)

lemma BitVector_new_simps [simp]:
  "num_bits (BitVector_new g n) = n" "num_words (BitVector_new g n) = data_array_size n"
  by (simp_all add: BitVector_new_def)

lemma BitVector_new_set [simp]: "n < 2 ^ 63 \<Longrightarrow> bv_set (BitVector_new g n) = {}"
  using BitVector_new_inv [of n g] by (simp add: bv_inv_set BitVector_new_def bit_at_clear bv_wf_def)

lemma BitVector_new_stray [simp]: "n < 2 ^ 63 \<Longrightarrow> \<not> stray (BitVector_new g n)"
  by (simp add: BitVector_new_def stray_clear bv_wf_def)

subsection \<open>Single bits and words\<close>

lemma setBit_simps [simp]:
  "num_words (setBit i v bv) = num_words bv" "num_bits (setBit i v bv) = num_bits bv"
  by (simp_all add: setBit_def)

lemma bit_at_setBit [bv_simps]:
  assumes "i < 64 * num_words bv"
  shows "bit_at (setBit i v bv) j \<longleftrightarrow> (if j = i then v else bit_at bv j)"
proof -
  have same: "j div 64 = i div 64 \<and> j mod 64 = i mod 64 \<longleftrightarrow> j = i"
    by (metis div_mod_64)
  have idx: "i div 64 < num_words bv" using assms by (rule word_index_less)
  have word: "hbit (word_at bv (j div 64)) (j mod 64) = bit_at bv j" if "j div 64 = i div 64"
    using that idx by (intro hbit_word_div) (simp add: less_word_iff)
  show ?thesis
  proof (cases "j div 64 = i div 64")
    case True
    with same have "j mod 64 = i mod 64 \<longleftrightarrow> j = i" by simp
    then show ?thesis
      using True idx word [OF True]
      by (cases "j mod 64 \<le> i mod 64") (auto simp: setBit_def bit_at_put_word hbit_simps)
  next
    case False
    then have "j \<noteq> i" by auto
    with False show ?thesis by (simp add: setBit_def bit_at_put_word)
  qed
qed

lemma setBit_inv [inv_intros]: "bv_inv bv \<Longrightarrow> i < num_bits bv \<Longrightarrow> bv_inv (setBit i v bv)"
  by (rule op_invI) (auto simp: bit_at_setBit bv_wf_less bv_inv_wf split: if_splits)

lemma setBit_set:
  "bv_inv bv \<Longrightarrow> i < num_bits bv \<Longrightarrow>
    bv_set (setBit i v bv) = (if v then insert i (bv_set bv) else bv_set bv - {i})"
  by (auto simp: bv_inv_set setBit_inv bit_at_setBit bv_wf_less bv_inv_wf)

lemma setBit_stray: "bv_wf bv \<Longrightarrow> i < num_bits bv \<Longrightarrow> stray (setBit i v bv) \<longleftrightarrow> stray bv"
  using bv_wf_word_index [of bv i] by (auto simp: setBit_def)

lemma setBitWord_simps [simp]:
  "num_words (setBitWord j w bv) = num_words bv" "num_bits (setBitWord j w bv) = num_bits bv"
  by (simp_all add: setBitWord_def Let_def)

lemma bit_at_setBitWord [bv_simps]:
  assumes "bv_wf bv" "j < num_words bv"
  shows "bit_at (setBitWord j w bv) i \<longleftrightarrow>
    (if i div 64 = j then i < num_bits bv \<and> hbit w (i mod 64) else bit_at bv i)"
proof (cases "j = num_words bv - 1 \<and> num_bits bv mod 64 \<noteq> 0")
  case True
  then have j: "j = num_bits bv div 64" using bv_wf_last [OF assms(1)] by simp
  have "i mod 64 < num_bits bv mod 64 \<longleftrightarrow> i < num_bits bv" if "i div 64 = j"
    using that aligned_range_split [of 0 i "num_bits bv"] unfolding j by simp
  moreover have "num_bits bv mod 64 \<le> 64" by (simp add: less_imp_le)
  ultimately show ?thesis
    using True assms(2)
    by (auto simp: setBitWord_def Let_def bv_simps hbit_simps word_at_put_word hbit_high_mask [where 'a=64, simplified])
next
  case False
  have "i < num_bits bv" if "i div 64 = j"
  proof (cases "num_bits bv mod 64 = 0")
    case True
    then show ?thesis using bv_wf_exact [OF assms(1)] assms(2) that less_word_iff [of i "num_bits bv div 64"] by auto
  next
    case False
    then have "j < num_bits bv div 64"
      using \<open>\<not> (j = num_words bv - 1 \<and> num_bits bv mod 64 \<noteq> 0)\<close> bv_wf_last [OF assms(1)] assms(2) by simp
    then show ?thesis using that less_word_iff [of i "num_bits bv div 64"] by (simp add: less_le_trans)
  qed
  then show ?thesis
    using False assms(2) by (auto simp: setBitWord_def Let_def bv_simps)
qed

lemma setBitWord_inv [inv_intros]: "bv_inv bv \<Longrightarrow> j < num_words bv \<Longrightarrow> bv_inv (setBitWord j w bv)"
  by (rule op_invI) (auto simp: bit_at_setBitWord bv_inv_wf split: if_splits)

subsection \<open>Ranges\<close>

lemma setBitRange_whole_simps [simp]:
  "num_words (setBitRange_whole s r v bv) = num_words bv"
  "num_bits (setBitRange_whole s r v bv) = num_bits bv"
  by (simp_all add: setBitRange_whole_def Let_def)

lemma setBitRange_simps [simp]:
  "num_words (setBitRange s r v bv) = num_words bv" "num_bits (setBitRange s r v bv) = num_bits bv"
  by (simp_all add: setBitRange_def Let_def)

lemma bit_at_setBitRange_whole:
  assumes "64 * s + r \<le> 64 * num_words bv"
  shows "bit_at (setBitRange_whole s r v bv) i \<longleftrightarrow>
    (if 64 * s \<le> i \<and> i < 64 * s + r then v else bit_at bv i)"
proof -
  define e where "e = s + r div 64"
  have last: "hbit (MaskBitRange 0 (r mod 64) :: u64) (i mod 64) \<longleftrightarrow> i mod 64 < r mod 64"
    by (auto simp: hbit_simps)
  note split = aligned_range_split [of s i r, folded e_def]
  have inside: "i < 64 * num_words bv" if "s \<le> i div 64 \<and> i div 64 < e"
    using that assms split by simp
  have e_in: "e < num_words bv" if "i mod 64 < r mod 64"
    using that assms div_mod_64 [of r] unfolding e_def by arith
  have word: "hbit (word_at bv e) (i mod 64) = bit_at bv i" if "i div 64 = e" "e < num_words bv"
    using that hbit_word_div [of i bv] by (metis bit_at_def div_less_iff_less_mult mult.commute zero_less_numeral)
  show ?thesis
  proof (cases "i div 64 = e")
    case True
    then show ?thesis
      unfolding split setBitRange_whole_def Let_def e_def [symmetric]
      using e_in word by (auto simp: bit_at_put_word bit_at_memset_words hbit_set_or_unset last
          word_at_memset_words e_def)
  next
    case False
    then show ?thesis
      unfolding split setBitRange_whole_def Let_def e_def [symmetric]
      using inside by (auto simp: bit_at_put_word bit_at_memset_words hbit_simps e_def)
  qed
qed

lemma stray_setBitRange_whole:
  assumes "64 * s + r \<le> 64 * num_words bv"
  shows "stray (setBitRange_whole s r v bv) \<longleftrightarrow> stray bv \<or> 64 * s + r = 64 * num_words bv"
proof -
  obtain m l where r: "r = 64 * m + l" "l < 64" "r div 64 = m" "r mod 64 = l" by (rule word_decomp)
  then have "num_words bv \<le> s + m \<longleftrightarrow> 64 * s + r = 64 * num_words bv" and "\<not> num_words bv < s + m"
    using assms by auto
  then show ?thesis by (simp add: setBitRange_whole_def Let_def r(3))
qed

lemma bit_at_setBitRange [bv_simps]:
  assumes "start + len \<le> 64 * num_words bv"
  shows "bit_at (setBitRange start len v bv) i \<longleftrightarrow>
    (if start \<le> i \<and> i < start + len then v else bit_at bv i)"
proof (cases "start mod 64 = 0 \<or> len = 0")
  case True
  obtain s l where s: "start = 64 * s + l" "l < 64" "start div 64 = s" "start mod 64 = l" by (rule word_decomp)
  show ?thesis
  proof (cases "l = 0")
    case True
    then show ?thesis
      using assms s by (simp add: setBitRange_def bit_at_setBitRange_whole)
  next
    case False
    with True s have [simp]: "len = 0" by simp
    have "MaskBitRange l 0 = (0 :: u64)" by (rule word_eq_hbitI) (simp add: hbit_simps)
    moreover have "hbit (word_at bv s) (i mod 64) = bit_at bv i" if "i div 64 = s" "s < num_words bv"
      using that hbit_word_div [of i bv] by (simp add: less_word_iff)
    ultimately show ?thesis using False s
      by (auto simp: setBitRange_def Let_def bit_at_put_word set_or_unset_def)
  qed
next
  case False
  obtain s l where s: "start = 64 * s + l" "l < 64" "start div 64 = s" "start mod 64 = l" by (rule word_decomp)
  obtain q k where i: "i = 64 * q + k" "k < 64" "i div 64 = q" "i mod 64 = k" by (rule word_decomp)
  have s_in: "s < num_words bv" using assms s(1) False by linarith
  have word: "hbit (word_at bv s) k = bit_at bv i" if "q = s"
    using that hbit_word_div [of i bv] s_in i by (simp add: less_word_iff)
  define bv1 where "bv1 = put_word s (set_or_unset v (word_at bv s) (MaskBitRange l len)) bv"
  have bv1: "bit_at bv1 i \<longleftrightarrow> (if q = s then if l \<le> k \<and> k < l + len then v else bit_at bv i else bit_at bv i)"
    using s_in word i by (auto simp: bv1_def bit_at_put_word hbit_simps)
  show ?thesis
  proof (cases "len + l \<le> 64")
    case True
    have "start \<le> i \<and> i < start + len \<longleftrightarrow> q = s \<and> l \<le> k \<and> k < l + len"
      unfolding s(1) i(1) using True s(2) i(2) by (cases q s rule: linorder_cases) linarith+
    moreover have "setBitRange start len v bv = bv1"
      using False True by (simp add: setBitRange_def Let_def s(3,4) bv1_def)
    ultimately show ?thesis by (simp add: bv1)
  next
    case long: False
    have "start \<le> i \<and> i < start + len \<longleftrightarrow>
        (q = s \<and> l \<le> k) \<or> (64 * Suc s \<le> i \<and> i < 64 * Suc s + (len + l - 64))"
      unfolding s(1) i(1) using long s(2) i(2) by (cases q s rule: linorder_cases) auto
    moreover have "64 * Suc s + (len + l - 64) \<le> 64 * num_words bv1"
      using assms long unfolding s(1) by (simp add: bv1_def)
    moreover have "setBitRange start len v bv = setBitRange_whole (Suc s) (len + l - 64) v bv1"
      using False long by (simp add: setBitRange_def Let_def s(3,4) bv1_def)
    moreover have "64 * Suc s \<le> i \<Longrightarrow> q \<noteq> s" and "q = s \<Longrightarrow> k < l + len"
      using i(1,2) long by auto
    ultimately show ?thesis by (simp add: bit_at_setBitRange_whole bv1)
  qed
qed

lemma setBitRange_inv [inv_intros]:
  "bv_inv bv \<Longrightarrow> start + len \<le> num_bits bv \<Longrightarrow> bv_inv (setBitRange start len v bv)"
  by (rule op_invI) (auto simp: bit_at_setBitRange [OF bv_wf_le] bv_inv_wf split: if_splits)

lemma setBitRange_set:
  assumes "bv_inv bv" "start + len \<le> num_bits bv"
  shows "bv_set (setBitRange start len v bv) =
    (if v then bv_set bv \<union> {start..<start + len} else bv_set bv - {start..<start + len})"
proof -
  note bits = bit_at_setBitRange [OF bv_wf_le [OF bv_inv_wf [OF assms(1)] assms(2)]]
  show ?thesis
    unfolding bv_inv_set [OF assms(1)] bv_inv_set [OF setBitRange_inv [OF assms]]
    by (auto simp: bits split: if_splits)
qed

text \<open>
  The last store of \<open>setBitRange\<close> is stray exactly when the range ends with the array and does not
  lie within one word that it enters part-way.
\<close>

lemma setBitRange_stray:
  assumes "bv_wf bv" "start + len \<le> num_bits bv" "start < num_bits bv \<or> num_bits bv = 0"
  shows "stray (setBitRange start len v bv) \<longleftrightarrow>
    stray bv \<or> (start + len = num_bits bv \<and> num_bits bv mod 64 = 0 \<and>
                 (start mod 64 = 0 \<or> 64 < start mod 64 + len))"
proof -
  obtain s l where s: "start = 64 * s + l" "l < 64" "start div 64 = s" "start mod 64 = l" by (rule word_decomp)
  have le: "num_bits bv \<le> 64 * num_words bv"
    using assms(1) data_array_size_bounds(1) by (simp add: bv_wf_num_words)
  have whole: "num_bits bv = 64 * num_words bv \<longleftrightarrow> num_bits bv mod 64 = 0"
    using assms(1) unfolding bv_wf_def data_array_size_def by auto
  have s_in: "s < num_words bv" if "l \<noteq> 0"
    using that assms(2,3) le s(1) by linarith
  have whole_end: "64 * (num_words bv) = start + len \<longleftrightarrow> start + len = num_bits bv \<and> num_bits bv mod 64 = 0"
    using assms(2) le whole by auto
  show ?thesis
  proof (cases "l = 0")
    case True
    then have "setBitRange start len v bv = setBitRange_whole s len v bv" "start = 64 * s"
      by (simp_all add: setBitRange_def Let_def s)
    moreover have "64 * s + len \<le> 64 * num_words bv"
      using assms(2) le \<open>start = 64 * s\<close> by simp
    ultimately show ?thesis using whole_end by (auto simp: stray_setBitRange_whole)
  next
    case False
    define bv1 where "bv1 = put_word s (set_or_unset v (word_at bv s) (MaskBitRange l len)) bv"
    have bv1: "stray bv1 \<longleftrightarrow> stray bv" "num_words bv1 = num_words bv"
      using s_in [OF False] by (simp_all add: bv1_def)
    have eq: "setBitRange start len v bv =
        (if len + l \<le> 64 then bv1 else setBitRange_whole (Suc s) (len + l - 64) v bv1)"
      using False by (simp add: setBitRange_def Let_def s(3,4) bv1_def)
    have split: "64 * Suc s + (len + l - 64) = start + len" if "\<not> len + l \<le> 64"
      using that s(1) by arith
    have "64 * Suc s + (len + l - 64) \<le> 64 * num_words bv1" if "\<not> len + l \<le> 64"
      unfolding split [OF that] bv1 using assms(2) le by simp
    then show ?thesis
      using whole_end split bv1 False unfolding eq s(4)
      by (auto simp: stray_setBitRange_whole add.commute)
  qed
qed

subsection \<open>Whole-vector operations\<close>

lemma assign_simps [simp]:
  "num_words (assignFrom b bv) = num_words bv" "num_bits (assignFrom b bv) = num_bits bv"
  "num_words (assignFromLonger b bv) = num_words bv" "num_bits (assignFromLonger b bv) = num_bits bv"
  by (simp_all add: assignFrom_def assignFromLonger_def Let_def)

lemma bitwise_simps [simp]:
  "num_words (flipBits bv) = num_words bv" "num_bits (flipBits bv) = num_bits bv"
  "num_words (intersectWith b bv) = num_words bv" "num_bits (intersectWith b bv) = num_bits bv"
  "num_words (unionWith b bv) = num_words bv" "num_bits (unionWith b bv) = num_bits bv"
  "num_words (unsetFrom b bv) = num_words bv" "num_bits (unsetFrom b bv) = num_bits bv"
  by (simp_all add: flipBits_def intersectWith_def unionWith_def unsetFrom_def Let_def)

lemma bitwise_stray [simp]:
  "stray (intersectWith b bv) = stray bv" "stray (unionWith b bv) = stray bv"
  "stray (unsetFrom b bv) = stray bv"
  by (simp_all add: intersectWith_def unionWith_def unsetFrom_def Let_def)

lemma bit_at_assignFrom [bv_simps]:
  assumes "bv_wf bv" "num_words b = num_words bv"
  shows "bit_at (assignFrom b bv) i \<longleftrightarrow> bit_at b i"
  using assms hbit_word_div [of i b] not_bit_at [of i b] not_bit_at [of i bv]
  by (auto simp: assignFrom_def bit_at_memcpy_words BytesNeeded_words bv_wf_def less_word_iff)

lemma same_size_words: "bv_wf a \<Longrightarrow> bv_wf b \<Longrightarrow> num_bits a = num_bits b \<Longrightarrow> num_words a = num_words b"
  by (simp add: bv_wf_def)

lemma assignFrom_inv [inv_intros]:
  "bv_inv b \<Longrightarrow> bv_wf bv \<Longrightarrow> num_bits b = num_bits bv \<Longrightarrow> bv_inv (assignFrom b bv)"
  using same_size_words [of b bv]
  by (auto simp: bv_inv_def bit_at_assignFrom) (simp add: bv_wf_def)

lemma assignFrom_set:
  "bv_inv b \<Longrightarrow> bv_wf bv \<Longrightarrow> num_bits b = num_bits bv \<Longrightarrow> bv_set (assignFrom b bv) = bv_set b"
  using same_size_words [of b bv] by (auto simp: bv_inv_set assignFrom_inv bit_at_assignFrom bv_inv_wf)

lemma assignFrom_stray [simp]: "bv_wf bv \<Longrightarrow> stray (assignFrom b bv) = stray bv"
  by (simp add: assignFrom_def BytesNeeded_words bv_wf_def)

lemma bit_at_assignFromLonger [bv_simps]:
  assumes "bv_wf bv" "bv_wf b" "num_bits bv \<le> num_bits b"
  shows "bit_at (assignFromLonger b bv) i \<longleftrightarrow> i < num_bits bv \<and> bit_at b i"
proof -
  define n where "n = num_words bv"
  have n: "n = data_array_size (num_bits bv)" using assms(1) by (simp add: n_def bv_wf_def)
  have le: "n \<le> num_words b"
    using assms unfolding n bv_wf_def by (simp add: data_array_size_mono)
  have copy: "bit_at (memcpy_words b n bv) i \<longleftrightarrow> i < 64 * n \<and> bit_at b i"
    using le hbit_word_div [of i b] not_bit_at [of i bv]
    by (auto simp: bit_at_memcpy_words less_word_iff n_def)
  show ?thesis
  proof (cases "num_bits bv mod 64 = 0")
    case True
    then have "64 * n = num_bits bv" using bv_wf_exact [OF assms(1)] n_def by auto
    then show ?thesis using True copy
      by (simp add: assignFromLonger_def Let_def BytesNeeded_words flip: n)
  next
    case False
    define m where "m = num_bits bv div 64"
    have nm: "n = Suc m" using bv_wf_last [OF assms(1) False] by (simp add: n_def m_def)
    have lt: "i < num_bits bv \<longleftrightarrow> i div 64 < m \<or> i div 64 = m \<and> i mod 64 < num_bits bv mod 64"
      using aligned_range_split [of 0 i "num_bits bv"] by (simp add: m_def)
    have word: "hbit (word_at (memcpy_words b n bv) m) (i mod 64) = bit_at b i" if "i div 64 = m"
      using that hbit_word_div [of i "memcpy_words b n bv"] copy nm
      by (simp add: less_word_iff n_def [symmetric])
    have "assignFromLonger b bv = put_word m (word_at (memcpy_words b n bv) m AND
        MaskBitRange 0 (num_bits bv mod 64)) (memcpy_words b n bv)"
      using False nm by (simp add: assignFromLonger_def Let_def BytesNeeded_words flip: n n_def)
    then show ?thesis
      using nm n_def lt copy word by (auto simp: bit_at_put_word hbit_simps less_word_iff)
  qed
qed

lemma assignFromLonger_inv [inv_intros]:
  "bv_wf bv \<Longrightarrow> bv_wf b \<Longrightarrow> num_bits bv \<le> num_bits b \<Longrightarrow> bv_inv (assignFromLonger b bv)"
  by (auto simp: bv_inv_def bit_at_assignFromLonger) (simp add: bv_wf_def)

lemma assignFromLonger_set:
  assumes "bv_wf bv" "bv_wf b" "num_bits bv \<le> num_bits b"
  shows "bv_set (assignFromLonger b bv) = bv_set b \<inter> {..<num_bits bv}"
  using assms by (auto simp: bv_inv_set assignFromLonger_inv bit_at_assignFromLonger bv_set_bit_at)

lemma hbit_FlipLimitedBits [hbit_simps]:
  "n \<le> LENGTH('a) \<Longrightarrow> hbit (FlipLimitedBits w n) k \<longleftrightarrow> \<not> hbit w k \<and> k < (if n = 0 then LENGTH('a) else n)"
  for w :: "'a::len word"
  by (auto simp: FlipLimitedBits_def Let_def hbit_simps)

lemma bit_at_flipBits [bv_simps]:
  assumes "bv_wf bv"
  shows "bit_at (flipBits bv) i \<longleftrightarrow> i < num_bits bv \<and> \<not> bit_at bv i"
proof (cases "num_bits bv = 0")
  case True
  then show ?thesis using assms by (simp add: flipBits_def bv_wf_def data_array_size_def bit_at_def)
next
  case False
  define m where "m = num_words bv - 1"
  have nm: "num_words bv = Suc m"
    using False assms by (cases "num_bits bv mod 64 = 0") (auto simp: m_def bv_wf_def data_array_size_def)
  define bv1 where "bv1 = map_words (\<lambda>j. if j < m then NOT (word_at bv j) else word_at bv j) bv"
  have eq: "flipBits bv = put_word m (FlipLimitedBits (word_at bv m) (num_bits bv mod 64)) bv1"
    using False nm by (simp add: flipBits_def Let_def bv1_def word_at_map_words)
  have word: "hbit (word_at bv (i div 64)) (i mod 64) = bit_at bv i" if "i div 64 \<le> m"
    using that nm by (intro hbit_word_div) (simp add: less_word_iff)
  have lt: "i < num_bits bv \<longleftrightarrow>
      i div 64 < m \<or> i div 64 = m \<and> i mod 64 < (if num_bits bv mod 64 = 0 then 64 else num_bits bv mod 64)"
  proof (cases "num_bits bv mod 64 = 0")
    case True
    then have "num_bits bv = 64 * Suc m" using bv_wf_exact [OF assms] nm by auto
    then show ?thesis by (auto simp: less_word_iff simp flip: less_Suc_eq_le)
  next
    case False
    then have "m = num_bits bv div 64" using bv_wf_last [OF assms] nm by simp
    then show ?thesis using False aligned_range_split [of 0 i "num_bits bv"] by simp
  qed
  show ?thesis
    using word nm unfolding eq lt
    by (auto simp: bit_at_put_word bit_at_map_words bv1_def hbit_FlipLimitedBits hbit_not less_word_iff)
qed

lemma flipBits_inv [inv_intros]: "bv_inv bv \<Longrightarrow> bv_inv (flipBits bv)"
  by (auto simp: bv_inv_def bit_at_flipBits) (simp add: bv_wf_def)

lemma flipBits_set: "bv_inv bv \<Longrightarrow> bv_set (flipBits bv) = {..<num_bits bv} - bv_set bv"
  by (auto simp: bv_inv_set flipBits_inv bit_at_flipBits bv_inv_wf)

lemma flipBits_stray [simp]: "bv_wf bv \<Longrightarrow> stray (flipBits bv) = stray bv"
  by (cases "num_words bv") (auto simp: flipBits_def Let_def bv_wf_def data_array_size_def
      div_greater_zero_iff dvd_imp_le split: if_splits)

lemma bit_at_intersectWith [bv_simps]:
  "num_words b = num_words bv \<Longrightarrow> bit_at (intersectWith b bv) i \<longleftrightarrow> bit_at bv i \<and> bit_at b i"
  by (auto simp: intersectWith_def bit_at_map_words hbit_and hbit_word_div dest: bit_at_less)

lemma bit_at_unionWith [bv_simps]:
  "num_words b = num_words bv \<Longrightarrow> bit_at (unionWith b bv) i \<longleftrightarrow> bit_at bv i \<or> bit_at b i"
  by (auto simp: unionWith_def bit_at_map_words hbit_or hbit_word_div dest: bit_at_less bit_at_hbit)

lemma bit_at_unsetFrom [bv_simps]:
  "bit_at (unsetFrom b bv) i \<longleftrightarrow> bit_at bv i \<and> \<not> bit_at b i"
proof (cases "i < 64 * num_words bv \<and> i < 64 * num_words b")
  case True
  then show ?thesis
    by (auto simp: unsetFrom_def Let_def bit_at_map_words hbit_simps hbit_word_div simp flip: less_word_iff)
next
  case False
  then have "\<not> bit_at bv i \<or> \<not> bit_at b i" by (auto dest: bit_at_less)
  with False show ?thesis
    by (auto simp: unsetFrom_def Let_def bit_at_map_words hbit_word_div simp flip: less_word_iff
        dest: bit_at_less bit_at_hbit)
qed

lemma intersectWith_inv [inv_intros]:
  "bv_inv bv \<Longrightarrow> bv_inv b \<Longrightarrow> num_bits b = num_bits bv \<Longrightarrow> bv_inv (intersectWith b bv)"
  by (rule op_invI [of bv]) (auto simp: bit_at_intersectWith same_size_words bv_inv_wf)

lemma unionWith_inv [inv_intros]:
  "bv_inv bv \<Longrightarrow> bv_inv b \<Longrightarrow> num_bits b = num_bits bv \<Longrightarrow> bv_inv (unionWith b bv)"
  by (rule op_invI [of bv]) (auto simp: bit_at_unionWith same_size_words bv_inv_wf dest: bv_inv_padding)

lemma unsetFrom_inv [inv_intros]: "bv_inv bv \<Longrightarrow> bv_inv (unsetFrom b bv)"
  by (rule op_invI [of bv]) (auto simp: bit_at_unsetFrom)

lemma intersectWith_set:
  "bv_inv bv \<Longrightarrow> bv_inv b \<Longrightarrow> num_bits b = num_bits bv \<Longrightarrow>
    bv_set (intersectWith b bv) = bv_set bv \<inter> bv_set b"
  by (auto simp: bv_inv_set intersectWith_inv bit_at_intersectWith same_size_words bv_inv_wf)

lemma unionWith_set:
  "bv_inv bv \<Longrightarrow> bv_inv b \<Longrightarrow> num_bits b = num_bits bv \<Longrightarrow>
    bv_set (unionWith b bv) = bv_set bv \<union> bv_set b"
  by (auto simp: bv_inv_set unionWith_inv bit_at_unionWith same_size_words bv_inv_wf)

lemma unsetFrom_set: "bv_inv bv \<Longrightarrow> bv_inv b \<Longrightarrow> bv_set (unsetFrom b bv) = bv_set bv - bv_set b"
  by (auto simp: bv_inv_set unsetFrom_inv bit_at_unsetFrom)

end
