(* ===== verification/BitShift.thy ===== *)
theory BitShift
  imports BitVector
begin

text \<open>
  The tail shifts of \<^verbatim>\<open>utility/BitVector.hpp\<close> (\<open>shiftTailForwardRegularVersion\<close> and
  \<open>shiftTailBackwardRegularVersion\<close>): the bits from \<open>tail_start\<close> on move by \<open>shift_distance\<close> positions,
  the bits before it stay, the positions left empty become zero. Both work word by word, in place.
  The distance is any \<open>size_t\<close>, so the sum \<open>tail_start + shift_distance\<close> of the guards and the number of
  words given to \<open>memset\<close> and \<open>memmove\<close> are computed as the code does, with the wrap-around.
\<close>

section \<open>Sizes that wrap\<close>

definition size_add :: "nat \<Rightarrow> nat \<Rightarrow> nat" where
  "size_add a b = (a + b) mod 2 ^ 64"

lemma size_add_eq: "a + b < 2 ^ 64 \<Longrightarrow> size_add a b = a + b"
  by (simp add: size_add_def)

lemma size_add_wraps: "a < 2 ^ 64 \<Longrightarrow> b < 2 ^ 64 \<Longrightarrow> 2 ^ 64 \<le> a + b \<Longrightarrow> size_add a b < a"
proof -
  assume a: "a < 2 ^ 64" "b < 2 ^ 64" "2 ^ 64 \<le> a + b"
  have "(a + b) mod 2 ^ 64 = (a + b - 2 ^ 64) mod 2 ^ 64" using a(3) by (rule le_mod_geq)
  also have "\<dots> = a + b - 2 ^ 64" using a(1,2) by (intro mod_less) simp
  finally show ?thesis using a(2,3) by (simp add: size_add_def)
qed

text \<open>
  The words that \<open>(a - b) * sizeof(std::size_t)\<close> bytes hold: if \<open>b\<close> is larger, the product is taken
  modulo \<open>2 ^ 64\<close>, that is the number of words modulo \<open>2 ^ 61\<close>.
\<close>

definition words_left :: "nat \<Rightarrow> nat \<Rightarrow> nat" where
  "words_left a b = (if b \<le> a then a - b else 2 ^ 61 - (b - a))"

lemma words_left_bytes:
  assumes "a < 2 ^ 61" "b < 2 ^ 61"
  shows "int (8 * words_left a b) = ((int a - int b) * 8) mod 2 ^ 64"
proof (cases "b \<le> a")
  case True
  then show ?thesis using assms by (simp add: words_left_def of_nat_diff algebra_simps)
next
  case False
  have "((int a - int b) * 8) mod 2 ^ 64 = ((int a - int b) * 8 + 2 ^ 64) mod 2 ^ 64" by simp
  also have "\<dots> = (int a - int b) * 8 + 2 ^ 64" using False assms by (intro mod_pos_pos_trivial) simp_all
  finally show ?thesis using False assms by (simp add: words_left_def of_nat_diff algebra_simps)
qed

lemma words_left_le [simp]: "b \<le> a \<Longrightarrow> words_left a b = a - b"
  by (simp add: words_left_def)

section \<open>Forward\<close>

function shiftForward_loop :: "nat \<Rightarrow> nat \<Rightarrow> nat \<Rightarrow> bitvector \<Rightarrow> bitvector \<times> nat \<times> nat" where
  "shiftForward_loop src_lower_bits dest src bv =
     (if src < num_words bv - 1
      then shiftForward_loop src_lower_bits (dest + 1) (src + 1)
             (put_word dest (push_bit src_lower_bits (word_at bv src) OR
                             drop_bit (64 - src_lower_bits) (word_at bv (src + 1))) bv)
      else (bv, dest, src))"
  by pat_completeness auto
termination
  by (relation "measure (\<lambda>(l, dest, src, bv). num_words bv - src)") auto

declare shiftForward_loop.simps [simp del]

text \<open>The second half of the function: whole destination words from \<open>dest\<close> on, then zeros.\<close>

definition shiftForward_words :: "nat \<Rightarrow> nat \<Rightarrow> nat \<Rightarrow> bitvector \<Rightarrow> bitvector" where
  "shiftForward_words src_lower_bits dest src bv =
     (let (bv', dest') =
        (if src_lower_bits \<noteq> 0
         then let (bv1, d, s) = shiftForward_loop src_lower_bits dest src bv
              in (put_word d (push_bit src_lower_bits (word_at bv1 s)) bv1, d)
         else (memmove_words dest src (words_left (num_words bv) src) bv, dest + (num_words bv - src) - 1))
      in memset_words (dest' + 1) (words_left (num_words bv) (dest' + 1)) 0 bv')"

definition shiftTailForward :: "nat \<Rightarrow> nat \<Rightarrow> bitvector \<Rightarrow> bitvector" where
  "shiftTailForward tail_start shift_distance bv =
     (if shift_distance = 0 then bv
      else
        let dest = tail_start div 64;
            dest_lower_bits = tail_start mod 64;
            src = size_add tail_start shift_distance div 64;
            src_lower_bits = size_add tail_start shift_distance mod 64
        in if num_words bv \<le> src then
             (if dest_lower_bits \<noteq> 0
              then memset_words (dest + 1) (words_left (num_words bv) (dest + 1)) 0
                     (put_word dest (word_at bv dest AND MaskBitRange 0 dest_lower_bits) bv)
              else memset_words dest (words_left (num_words bv) dest) 0 bv)
           else if dest_lower_bits \<noteq> 0 then
             (let bv1 = put_word dest
                    ((word_at bv dest AND MaskBitRange 0 dest_lower_bits) OR
                     drop_bit dest_lower_bits (push_bit src_lower_bits (word_at bv src))) bv
              in if dest_lower_bits < src_lower_bits then
                   (let dest_lower_bits = dest_lower_bits + (64 - src_lower_bits);
                        src = src + 1
                    in if src = num_words bv
                       then memset_words (dest + 1) (words_left (num_words bv) (dest + 1)) 0 bv1
                       else shiftForward_words (64 - dest_lower_bits) (dest + 1) src
                              (put_word dest (word_at bv1 dest OR
                                 drop_bit dest_lower_bits (word_at bv1 src)) bv1))
                 else
                   (let src_lower_bits = src_lower_bits + (64 - dest_lower_bits)
                    in shiftForward_words (src_lower_bits mod 64) (dest + 1) (src + src_lower_bits div 64) bv1))
           else shiftForward_words src_lower_bits dest src bv)"

section \<open>Backward\<close>

function shiftBackward_loop :: "nat \<Rightarrow> nat \<Rightarrow> nat \<Rightarrow> nat \<Rightarrow> bitvector \<Rightarrow> bitvector" where
  "shiftBackward_loop shift_elements shift_lower_bits limit element bv =
     (if limit < element
      then shiftBackward_loop shift_elements shift_lower_bits limit (element - 1)
             (put_word element
                (drop_bit shift_lower_bits (word_at bv (element - shift_elements)) OR
                 push_bit (64 - shift_lower_bits) (word_at bv (element - shift_elements - 1))) bv)
      else bv)"
  by pat_completeness auto
termination
  by (relation "measure (\<lambda>(e, l, limit, element, bv). element)") auto

declare shiftBackward_loop.simps [simp del]

text \<open>The case where the shift is not a multiple of the word size, and the case where it is.\<close>

definition shiftBackward_bits :: "nat \<Rightarrow> nat \<Rightarrow> nat \<Rightarrow> nat \<Rightarrow> bitvector \<Rightarrow> bitvector" where
  "shiftBackward_bits te tail_start_lower_bits shift_elements shift_lower_bits bv =
     (let tail_bits = drop_bit tail_start_lower_bits (push_bit tail_start_lower_bits (word_at bv te));
          bv1 = shiftBackward_loop shift_elements shift_lower_bits (te + shift_elements + 1) (num_words bv - 1) bv;
          bv2 = (if te + shift_elements + 1 < num_words bv
                 then put_word (te + shift_elements + 1)
                        (drop_bit shift_lower_bits (word_at bv1 (te + 1)) OR
                         push_bit (64 - shift_lower_bits) tail_bits) bv1
                 else bv1)
      in if shift_elements \<noteq> 0 then
           (let bv3 = put_word (te + shift_elements) (drop_bit shift_lower_bits tail_bits) bv2;
                bv4 = (if tail_start_lower_bits \<noteq> 0
                       then put_word te (word_at bv3 te AND NOT (MaskBitRange tail_start_lower_bits 64)) bv3
                       else bv3)
            in memset_words (te + 1) (shift_elements - 1) 0 bv4)
         else if tail_start_lower_bits \<noteq> 0
         then put_word te
                ((word_at bv2 te AND MaskBitRange 0 tail_start_lower_bits) OR
                 drop_bit shift_lower_bits (word_at bv2 te AND MaskBitRange tail_start_lower_bits 64)) bv2
         else put_word te (drop_bit shift_lower_bits (word_at bv2 te)) bv2)"

definition shiftBackward_words :: "nat \<Rightarrow> nat \<Rightarrow> nat \<Rightarrow> bitvector \<Rightarrow> bitvector" where
  "shiftBackward_words te tail_start_lower_bits shift_elements bv =
     (let bv1 = memmove_words (te + shift_elements) te (words_left (num_words bv) (te + shift_elements)) bv
      in if tail_start_lower_bits \<noteq> 0 then
           (let bv2 = put_word te (word_at bv1 te AND MaskBitRange 0 tail_start_lower_bits) bv1;
                bv3 = put_word (te + shift_elements)
                        (word_at bv2 (te + shift_elements) AND MaskBitRange tail_start_lower_bits 64) bv2
            in memset_words (te + 1) (shift_elements - 1) 0 bv3)
         else memset_words te shift_elements 0 bv1)"

definition shiftTailBackward :: "nat \<Rightarrow> nat \<Rightarrow> bitvector \<Rightarrow> bitvector" where
  "shiftTailBackward tail_start shift_distance bv =
     (if shift_distance = 0 then bv
      else
        let te = tail_start div 64;
            tail_start_lower_bits = tail_start mod 64;
            partial = (if tail_start_lower_bits \<noteq> 0 then 1 else 0)
        in if num_bits bv < size_add tail_start shift_distance then
             (let full_words = num_words bv - te - partial;
                  bv1 = (if full_words \<noteq> 0 then memset_words (te + partial) full_words 0 bv else bv)
              in if tail_start_lower_bits \<noteq> 0
                 then put_word te (word_at bv1 te AND NOT (MaskBitRange tail_start_lower_bits 64)) bv1
                 else bv1)
           else
             (let shift_elements = shift_distance div 64;
                  shift_lower_bits = shift_distance mod 64;
                  bv1 = (if shift_lower_bits \<noteq> 0
                         then shiftBackward_bits te tail_start_lower_bits shift_elements shift_lower_bits bv
                         else shiftBackward_words te tail_start_lower_bits shift_elements bv);
                  last = num_words bv - 1
              in if num_bits bv mod 64 \<noteq> 0
                 then put_word last (word_at bv1 last AND MaskBitRange 0 (num_bits bv mod 64)) bv1
                 else bv1))"

section \<open>Correctness of the forward shift\<close>

lemma shiftForward_loop_spec:
  assumes "dest \<le> src" "src < num_words bv"
  shows "\<exists>bv'. shiftForward_loop l dest src bv = (bv', dest + (num_words bv - 1 - src), num_words bv - 1) \<and>
    num_words bv' = num_words bv \<and> num_bits bv' = num_bits bv \<and> stray bv' = stray bv \<and>
    (\<forall>j<num_words bv. word_at bv' j =
      (if dest \<le> j \<and> j < dest + (num_words bv - 1 - src)
       then push_bit l (word_at bv (src + (j - dest))) OR drop_bit (64 - l) (word_at bv (src + (j - dest) + 1))
       else word_at bv j))"
  using assms
proof (induction "num_words bv - src" arbitrary: dest src bv)
  case 0
  then show ?case by simp
next
  case (Suc m)
  show ?case
  proof (cases "src < num_words bv - 1")
    case False
    then have "src = num_words bv - 1" using Suc.prems by simp
    then show ?thesis by (subst shiftForward_loop.simps) auto
  next
    case True
    define bv1 where "bv1 = put_word dest (push_bit l (word_at bv src) OR
        drop_bit (64 - l) (word_at bv (src + 1))) bv"
    have d: "dest < num_words bv" using Suc.prems by simp
    have bv1: "num_words bv1 = num_words bv" "num_bits bv1 = num_bits bv" "stray bv1 = stray bv"
      using d by (simp_all add: bv1_def)
    have w1: "word_at bv1 j = (if j = dest then push_bit l (word_at bv src) OR
        drop_bit (64 - l) (word_at bv (src + 1)) else word_at bv j)" if "j < num_words bv" for j
      using that by (simp add: bv1_def word_at_put_word)
    have step: "shiftForward_loop l dest src bv = shiftForward_loop l (Suc dest) (Suc src) bv1"
      using True by (subst shiftForward_loop.simps) (simp add: bv1_def)
    have prem: "m = num_words bv1 - Suc src" "Suc dest \<le> Suc src" "Suc src < num_words bv1"
      using Suc.hyps(2) Suc.prems True bv1(1) by simp_all
    obtain bv' where IH: "shiftForward_loop l (Suc dest) (Suc src) bv1 =
        (bv', Suc dest + (num_words bv1 - 1 - Suc src), num_words bv1 - 1)"
      "num_words bv' = num_words bv1" "num_bits bv' = num_bits bv1" "stray bv' = stray bv1"
      "\<forall>j<num_words bv1. word_at bv' j =
        (if Suc dest \<le> j \<and> j < Suc dest + (num_words bv1 - 1 - Suc src)
         then push_bit l (word_at bv1 (Suc src + (j - Suc dest))) OR
              drop_bit (64 - l) (word_at bv1 (Suc src + (j - Suc dest) + 1))
         else word_at bv1 j)"
      using Suc.hyps(1) [OF prem] by blast
    have "word_at bv' j =
      (if dest \<le> j \<and> j < dest + (num_words bv - 1 - src)
       then push_bit l (word_at bv (src + (j - dest))) OR drop_bit (64 - l) (word_at bv (src + (j - dest) + 1))
       else word_at bv j)" if j: "j < num_words bv" for j
    proof (cases "Suc dest \<le> j \<and> j < Suc dest + (num_words bv - 1 - Suc src)")
      case in_range: True
      have idx: "Suc src + (j - Suc dest) = src + (j - dest)" using in_range by arith
      let ?s = "src + (j - dest)"
      have s: "?s + 1 < num_words bv" using in_range True by linarith
      have ne: "?s \<noteq> dest" "?s + 1 \<noteq> dest" using in_range Suc.prems(1) by linarith+
      have "word_at bv1 ?s = word_at bv ?s" "word_at bv1 (?s + 1) = word_at bv (?s + 1)"
        using s ne by (simp_all add: w1)
      moreover have "dest \<le> j \<and> j < dest + (num_words bv - 1 - src)" using in_range True by linarith
      moreover have "word_at bv' j = push_bit l (word_at bv1 ?s) OR drop_bit (64 - l) (word_at bv1 (?s + 1))"
        using IH(5) [rule_format, of j] j in_range unfolding bv1(1) if_P [OF in_range] idx by blast
      ultimately show ?thesis by simp
    next
      case False
      have "word_at bv' j = word_at bv1 j"
        using IH(5) [rule_format, of j] j unfolding bv1(1) if_not_P [OF False] by blast
      moreover have eq: "dest \<le> j \<and> j < dest + (num_words bv - 1 - src) \<longleftrightarrow> j = dest"
        using False True by linarith
      ultimately show ?thesis unfolding eq using w1 [OF j] by auto
    qed
    moreover have "Suc dest + (num_words bv1 - 1 - Suc src) = dest + (num_words bv - 1 - src)"
      using True bv1(1) by simp
    ultimately show ?thesis using IH step bv1 by (intro exI [of _ bv']) simp
  qed
qed

lemma bit_at_pos: "k < 64 \<Longrightarrow> j < num_words bv \<Longrightarrow> bit_at bv (64 * j + k) = hbit (word_at bv j) k"
  by (simp add: hbit_word_at)

lemma bit_at_beyond: "64 * num_words bv \<le> i \<Longrightarrow> \<not> bit_at bv i"
  by (simp add: bit_at_def)

text \<open>Bit \<open>k\<close> of a word composed from word \<open>s\<close> and the next, shifted forward by \<open>l\<close>.\<close>

lemma hbit_forward_pair:
  assumes "k < 64" "0 < l" "l < 64" "Suc s < num_words bv"
  shows "hbit (push_bit l (word_at bv s) OR drop_bit (64 - l) (word_at bv (Suc s))) k =
    bit_at bv (64 * s + (k + l))"
proof (cases "k + l < 64")
  case True
  then show ?thesis using assms
    by (simp only: bit_at_pos hbit_or hbit_push hbit_drop) auto
next
  case False
  then have "64 * s + (k + l) = 64 * Suc s + (k - (64 - l))" "k - (64 - l) < 64" "64 - l \<le> k"
    using assms by auto
  then show ?thesis using assms False
    by (simp only: bit_at_pos hbit_or hbit_push hbit_drop) auto
qed

lemma hbit_forward_last:
  assumes "k < 64" "Suc s = num_words bv"
  shows "hbit (push_bit l (word_at bv s)) k = bit_at bv (64 * s + (k + l))"
proof (cases "k + l < 64")
  case True
  then have "bit_at bv (64 * s + (k + l)) = hbit (word_at bv s) (k + l)"
    using assms by (intro bit_at_pos) simp_all
  then show ?thesis by (simp only: hbit_push)
next
  case False
  then have "64 * num_words bv \<le> 64 * s + (k + l)" using assms by simp
  with False show ?thesis by (simp add: hbit_push bit_at_beyond)
qed

lemma shiftForward_words_simps:
  assumes "dest \<le> src" "src < num_words bv \<or> l = 0 \<and> 0 < dest \<and> src = num_words bv"
  shows "num_words (shiftForward_words l dest src bv) = num_words bv"
    and "num_bits (shiftForward_words l dest src bv) = num_bits bv"
    and "stray (shiftForward_words l dest src bv) = stray bv"
proof -
  let ?r = "shiftForward_words l dest src bv"
  have "num_words ?r = num_words bv \<and> num_bits ?r = num_bits bv \<and> stray ?r = stray bv"
  proof (cases "l = 0")
    case True
    then show ?thesis using assms by (auto simp: shiftForward_words_def Let_def)
  next
    case False
    then have "src < num_words bv" using assms(2) by simp
    with shiftForward_loop_spec [OF assms(1) this, of l] obtain bv1 where
      "shiftForward_loop l dest src bv = (bv1, dest + (num_words bv - 1 - src), num_words bv - 1)"
      "num_words bv1 = num_words bv" "num_bits bv1 = num_bits bv" "stray bv1 = stray bv" by blast
    moreover have "dest + (num_words bv - 1 - src) < num_words bv"
      using assms(1) \<open>src < num_words bv\<close> by linarith
    ultimately show ?thesis using False
      by (simp add: shiftForward_words_def Let_def del: One_nat_def)
  qed
  then show "num_words ?r = num_words bv" "num_bits ?r = num_bits bv" "stray ?r = stray bv" by simp_all
qed

lemma bit_at_shiftForward_words:
  assumes "dest \<le> src" "l < 64" "src < num_words bv \<or> l = 0 \<and> 0 < dest \<and> src = num_words bv"
  shows "bit_at (shiftForward_words l dest src bv) i \<longleftrightarrow>
    (if i < 64 * dest then bit_at bv i else bit_at bv (i - 64 * dest + (64 * src + l)))"
proof (cases "i < 64 * num_words bv")
  case False
  have "\<not> bit_at (shiftForward_words l dest src bv) i"
    using False shiftForward_words_simps(1) [OF assms(1,3)] by (simp add: bit_at_beyond)
  moreover have "64 * num_words bv \<le> (i - 64 * dest + (64 * src + l))" using False assms(1) by simp
  ultimately show ?thesis using False by (simp add: bit_at_beyond)
next
  case True
  obtain q k where i: "i = 64 * q + k" "k < 64" "i div 64 = q" "i mod 64 = k" by (rule word_decomp)
  have q: "q < num_words bv" using True i(3) by (simp add: less_word_iff)
  have lt: "i < 64 * dest \<longleftrightarrow> q < dest" by (simp add: less_word_iff i(3))
  have idx: "i - 64 * dest + (64 * src + l) = 64 * (src + (q - dest)) + (k + l)" if "dest \<le> q"
    using that i(1) by (simp add: algebra_simps)
  have self: "bit_at (shiftForward_words l dest src bv) i =
      hbit (word_at (shiftForward_words l dest src bv) q) k" and self0: "bit_at bv i = hbit (word_at bv q) k"
    using q i shiftForward_words_simps(1) [OF assms(1,3)] by (simp_all add: bit_in_word')
  show ?thesis
  proof (cases "l = 0")
    case True
    define d where "d = dest + (num_words bv - src)"
    have d0: "0 < d" using assms(3) by (auto simp: d_def)
    have w: "word_at (shiftForward_words l dest src bv) q =
      (if d \<le> q then 0 else if dest \<le> q then word_at bv (src + (q - dest)) else word_at bv q)"
      using True q d0 by (auto simp: shiftForward_words_def Let_def word_at_memset_words word_at_memmove_words d_def)
    have "64 * num_words bv \<le> 64 * (src + (q - dest)) + k" if "d \<le> q"
      using that assms(1,3) by (auto simp: d_def)
    moreover have "src + (q - dest) < num_words bv" if "dest \<le> q" "\<not> d \<le> q"
      using that by (auto simp: d_def)
    moreover have "dest \<le> q" if "d \<le> q" using that by (simp add: d_def)
    ultimately show ?thesis
      unfolding self self0 lt w using idx True i(2) by (auto simp: bit_at_beyond bit_at_pos)
  next
    case l: False
    then have src: "src < num_words bv" using assms(3) by simp
    define d where "d = dest + (num_words bv - 1 - src)"
    obtain bv1 where loop: "shiftForward_loop l dest src bv = (bv1, d, num_words bv - 1)"
      "num_words bv1 = num_words bv"
      "\<forall>j<num_words bv. word_at bv1 j = (if dest \<le> j \<and> j < d
         then push_bit l (word_at bv (src + (j - dest))) OR drop_bit (64 - l) (word_at bv (src + (j - dest) + 1))
         else word_at bv j)"
      using shiftForward_loop_spec [OF assms(1) src, of l] by (auto simp: d_def)
    have dle: "d \<le> num_words bv - 1" using assms(1) src by (simp add: d_def)
    have w: "word_at (shiftForward_words l dest src bv) q =
      (if q < dest then word_at bv q
       else if q < d then push_bit l (word_at bv (src + (q - dest))) OR drop_bit (64 - l) (word_at bv (src + (q - dest) + 1))
       else if q = d then push_bit l (word_at bv (num_words bv - 1)) else 0)"
      using l q loop dle src by (auto simp: shiftForward_words_def Let_def word_at_memset_words word_at_put_word d_def)
    consider "q < dest" | "dest \<le> q" "q < d" | "dest \<le> q" "q = d" | "d < q" "dest \<le> q"
      unfolding d_def by linarith
    then show ?thesis
    proof cases
      case 1
      then show ?thesis unfolding self self0 lt w by simp
    next
      case 2
      then have "Suc (src + (q - dest)) < num_words bv" by (simp add: d_def)
      then show ?thesis
        unfolding self lt w idx [OF 2(1)] using 2 hbit_forward_pair [OF i(2) _ assms(2)] l by simp
    next
      case 3
      then have "src + (q - dest) = num_words bv - 1" using src by (simp add: d_def)
      moreover have "Suc (num_words bv - 1) = num_words bv" using src by simp
      ultimately show ?thesis
        unfolding self lt w idx [OF 3(1)] using 3 hbit_forward_last [OF i(2)] by simp
    next
      case 4
      then have "num_words bv \<le> src + (q - dest)" using src by (simp add: d_def)
      then have "64 * num_words bv \<le> 64 * (src + (q - dest)) + (k + l)" by simp
      then show ?thesis
        unfolding self lt w idx [OF 4(2)] using 4 by (simp add: bit_at_beyond)
    qed
  qed
qed

text \<open>The first destination word when the tail does not start at a word boundary.\<close>

lemma hbit_forward_first:
  assumes "k < 64" "j < num_words bv"
  shows "hbit ((word_at bv d AND MaskBitRange 0 dl) OR drop_bit dl (push_bit sl (word_at bv j))) k \<longleftrightarrow>
    (if k < dl then hbit (word_at bv d) k else k - dl + sl < 64 \<and> bit_at bv (64 * j + (k - dl + sl)))"
proof (cases "k - dl + sl < 64")
  case True
  then have "bit_at bv (64 * j + (k - dl + sl)) = hbit (word_at bv j) (k - dl + sl)"
    using assms(2) by (intro bit_at_pos)
  then show ?thesis using assms True
    by (simp only: hbit_or hbit_and hbit_drop hbit_push hbit_MaskBitRange) auto
next
  case False
  then show ?thesis using assms
    by (simp only: hbit_or hbit_and hbit_drop hbit_push hbit_MaskBitRange) auto
qed

definition shift_ok :: "bitvector \<Rightarrow> bitvector \<Rightarrow> nat \<Rightarrow> nat \<Rightarrow> bool" where
  "shift_ok bv r ts sd \<longleftrightarrow>
     num_words r = num_words bv \<and> num_bits r = num_bits bv \<and> stray r = stray bv \<and>
     (\<forall>i. bit_at r i \<longleftrightarrow> (if i < ts then bit_at bv i else bit_at bv (i + sd)))"

lemma shift_okI:
  assumes "num_words r = num_words bv" "num_bits r = num_bits bv" "stray r = stray bv"
    and "\<And>q k. q < num_words bv \<Longrightarrow> k < 64 \<Longrightarrow>
      hbit (word_at r q) k \<longleftrightarrow> (if 64 * q + k < ts then bit_at bv (64 * q + k) else bit_at bv (64 * q + k + sd))"
  shows "shift_ok bv r ts sd"
proof -
  have "bit_at r i \<longleftrightarrow> (if i < ts then bit_at bv i else bit_at bv (i + sd))" for i
  proof (cases "i < 64 * num_words bv")
    case False
    then show ?thesis using assms(1) by (simp add: bit_at_beyond)
  next
    case True
    obtain q k where i: "i = 64 * q + k" "k < 64" "i div 64 = q" "i mod 64 = k" by (rule word_decomp)
    have "q < num_words bv" using True i(3) by (simp add: less_word_iff)
    then show ?thesis using assms(1) assms(4) [of q k] i by (simp add: bit_in_word')
  qed
  with assms show ?thesis by (simp add: shift_ok_def)
qed

text \<open>The tail is shifted out completely.\<close>

lemma shiftForward_zero:
  assumes "ts div 64 < num_words bv" "64 * num_words bv \<le> ts + sd"
  shows "shift_ok bv
    (if ts mod 64 \<noteq> 0
     then memset_words (ts div 64 + 1) (num_words bv - (ts div 64 + 1)) 0
            (put_word (ts div 64) (word_at bv (ts div 64) AND MaskBitRange 0 (ts mod 64)) bv)
     else memset_words (ts div 64) (num_words bv - ts div 64) 0 bv) ts sd"
    (is "shift_ok bv ?r ts sd")
proof (rule shift_okI)
  obtain d dl where ts: "ts = 64 * d + dl" "dl < 64" "ts div 64 = d" "ts mod 64 = dl" by (rule word_decomp)
  show "num_words ?r = num_words bv" "num_bits ?r = num_bits bv" by simp_all
  show "stray ?r = stray bv" using assms by auto
  fix q k :: nat
  assume q: "q < num_words bv" and k: "k < 64"
  have zero: "\<not> bit_at bv (64 * q + k + sd)" if "\<not> 64 * q + k < ts"
    using that assms(2) by (intro notI) (drule bit_at_less, simp)
  have lt: "64 * q + k < ts \<longleftrightarrow> q < d \<or> (q = d \<and> k < dl)" using ts(1,2) k by arith
  show "hbit (word_at ?r q) k \<longleftrightarrow>
    (if 64 * q + k < ts then bit_at bv (64 * q + k) else bit_at bv (64 * q + k + sd))"
    using zero q k unfolding lt ts(3,4)
    by (auto simp: word_at_memset_words word_at_put_word hbit_simps bit_at_pos)
qed

text \<open>The words after the first, once the first is right.\<close>

lemma shiftForward_rest:
  assumes same: "num_words bv1 = num_words bv" "num_bits bv1 = num_bits bv" "stray bv1 = stray bv"
    and others: "\<And>j. j < num_words bv \<Longrightarrow> j \<noteq> ts div 64 \<Longrightarrow> word_at bv1 j = word_at bv j"
    and first: "\<And>k. k < 64 \<Longrightarrow> hbit (word_at bv1 (ts div 64)) k \<longleftrightarrow>
      (if k < ts mod 64 then hbit (word_at bv (ts div 64)) k else bit_at bv (64 * (ts div 64) + k + sd))"
    and d: "ts div 64 < num_words bv"
    and src: "ts div 64 + 1 \<le> src" "l < 64"
      "src < num_words bv \<or> l = 0 \<and> 0 < ts div 64 + 1 \<and> src = num_words bv"
    and dist: "64 * src + l = 64 * (ts div 64 + 1) + sd"
  shows "shift_ok bv (shiftForward_words l (ts div 64 + 1) src bv1) ts sd"
proof -
  let ?r = "shiftForward_words l (ts div 64 + 1) src bv1"
  have src1: "src < num_words bv1 \<or> l = 0 \<and> 0 < ts div 64 + 1 \<and> src = num_words bv1"
    using src(3) unfolding same .
  obtain d dl where ts: "ts = 64 * d + dl" "dl < 64" "ts div 64 = d" "ts mod 64 = dl" by (rule word_decomp)
  have other_bit: "bit_at bv1 i = bit_at bv i" if "64 * d + 64 \<le> i" for i
  proof (cases "i < 64 * num_words bv")
    case True
    obtain q k where i: "i = 64 * q + k" "k < 64" "i div 64 = q" "i mod 64 = k" by (rule word_decomp)
    have "q < num_words bv" using True i(3) by (simp add: less_word_iff)
    moreover have "q \<noteq> d" using that i by linarith
    ultimately show ?thesis using others [of q] same i by (simp add: bit_in_word' ts(3))
  qed (use same in \<open>simp add: bit_at_beyond\<close>)
  have lt: "64 * q + k < ts \<longleftrightarrow> q < d \<or> (q = d \<and> k < dl)" if "k < 64" for q k
    using ts(1,2) that by arith
  show ?thesis
  proof (rule shift_okI)
    show "num_words ?r = num_words bv" "num_bits ?r = num_bits bv" "stray ?r = stray bv"
      using shiftForward_words_simps [OF src(1) src1] same by simp_all
    fix q k :: nat
    assume q: "q < num_words bv" and k: "k < 64"
    have r: "hbit (word_at ?r q) k = bit_at ?r (64 * q + k)"
      using q k same shiftForward_words_simps(1) [OF src(1) src1] by (simp add: bit_at_pos)
    have shifted: "64 * q + k - 64 * (ts div 64 + 1) + (64 * src + l) = 64 * q + k + sd" if "d < q"
      using that unfolding dist ts(3) by simp
    have le: "64 * q + k < 64 * (ts div 64 + 1) \<longleftrightarrow> q \<le> d"
      using k unfolding ts(3) less_word_iff by (simp add: less_Suc_eq_le)
    consider "q < d" | "q = d" | "d < q" by linarith
    then show "hbit (word_at ?r q) k \<longleftrightarrow>
      (if 64 * q + k < ts then bit_at bv (64 * q + k) else bit_at bv (64 * q + k + sd))"
    proof cases
      case 1
      then show ?thesis unfolding r bit_at_shiftForward_words [OF src(1,2) src1] lt [OF k] le
        using q k same others [of q] by (simp add: bit_at_pos ts(3))
    next
      case 2
      have "bit_at bv1 (64 * d + k) = hbit (word_at bv1 d) k" "bit_at bv (64 * d + k) = hbit (word_at bv d) k"
        using k q same 2 by (simp_all add: bit_at_pos)
      then show ?thesis unfolding r bit_at_shiftForward_words [OF src(1,2) src1] lt [OF k] le
        using first [OF k] 2 by (simp add: ts(3,4))
    next
      case 3
      have "bit_at bv1 (64 * q + k + sd) = bit_at bv (64 * q + k + sd)" using 3 by (intro other_bit) simp
      then show ?thesis unfolding r bit_at_shiftForward_words [OF src(1,2) src1] lt [OF k] le shifted [OF 3]
        using 3 by simp
    qed
  qed
qed

lemma shiftTailForward_ok:
  assumes dw: "ts div 64 < num_words bv" and nowrap: "ts + sd < 2 ^ 64"
  shows "shift_ok bv (shiftTailForward ts sd bv) ts sd"
proof (cases "sd = 0")
  case True
  then show ?thesis by (simp add: shiftTailForward_def shift_ok_def)
next
  case sd: False
  obtain d dl where ts: "ts = 64 * d + dl" "dl < 64" "ts div 64 = d" "ts mod 64 = dl" by (rule word_decomp)
  obtain s sl where src: "ts + sd = 64 * s + sl" "sl < 64" "(ts + sd) div 64 = s" "(ts + sd) mod 64 = sl"
    by (rule word_decomp)
  have ds: "d \<le> s" using ts(1,2) src(1,2) by linarith
  show ?thesis
  proof (cases "num_words bv \<le> s")
    case True
    then have "64 * num_words bv \<le> ts + sd" using src(1) by simp
    from shiftForward_zero [OF dw this] True dw show ?thesis
      using sd by (simp add: shiftTailForward_def size_add_eq [OF nowrap] Let_def ts(3,4) src(3,4) split: if_splits)
  next
    case s: False
    show ?thesis
    proof (cases "dl = 0")
      case True
      have eq: "shiftTailForward ts sd bv = shiftForward_words sl d s bv"
        using True s sd by (simp add: shiftTailForward_def size_add_eq [OF nowrap] Let_def ts(3,4) src(3,4))
      have sr: "s < num_words bv \<or> sl = 0 \<and> 0 < d \<and> s = num_words bv" using s by simp
      have "i - 64 * d + (64 * s + sl) = i + sd" if "\<not> i < 64 * d" for i
        using that True ts(1) src(1) by linarith
      then show ?thesis unfolding eq shift_ok_def
        using shiftForward_words_simps [OF ds sr] bit_at_shiftForward_words [OF ds src(2) sr] True ts(1) by simp
    next
      case dl: False
      define w where "w = (word_at bv d AND MaskBitRange 0 dl) OR drop_bit dl (push_bit sl (word_at bv s))"
      define bv1 where "bv1 = put_word d w bv"
      have w: "hbit w k \<longleftrightarrow>
        (if k < dl then hbit (word_at bv d) k else k - dl + sl < 64 \<and> bit_at bv (64 * s + (k - dl + sl)))"
        if "k < 64" for k
        unfolding w_def using that s by (intro hbit_forward_first) simp_all
      have d: "d < num_words bv" using dw by (simp add: ts(3))
      have bv1: "num_words bv1 = num_words bv" "num_bits bv1 = num_bits bv" "stray bv1 = stray bv"
        "word_at bv1 d = w" "\<And>j. j < num_words bv \<Longrightarrow> j \<noteq> d \<Longrightarrow> word_at bv1 j = word_at bv j"
        using d by (simp_all add: bv1_def word_at_put_word)
      have idx: "64 * d + k + sd = 64 * s + (k - dl + sl)" if "\<not> k < dl" for k
        using that ts(1) src(1) by linarith
      show ?thesis
      proof (cases "dl < sl")
        case True
        define e where "e = dl + (64 - sl)"
        have esl: "e + sl = dl + 64" using src(2) by (simp add: e_def)
        have e: "e < 64" "0 < e" "dl < e" using True src(2) dl by (simp_all add: e_def)
        show ?thesis
        proof (cases "s + 1 = num_words bv")
          case end_reached: True
          let ?r = "memset_words (d + 1) (num_words bv - (d + 1)) 0 bv1"
          have eq: "shiftTailForward ts sd bv = ?r"
            using True s sd dl end_reached d
            by (simp add: shiftTailForward_def size_add_eq [OF nowrap] Let_def ts(3,4) src(3,4) bv1_def w_def)
          have lt: "64 * q + k < ts \<longleftrightarrow> q < d \<or> (q = d \<and> k < dl)" if "k < 64" for q k
            using ts(1,2) that by arith
          show ?thesis unfolding eq
          proof (rule shift_okI)
            show "num_words ?r = num_words bv" "num_bits ?r = num_bits bv" "stray ?r = stray bv"
              using bv1 d by auto
            fix q k :: nat
            assume q: "q < num_words bv" and k: "k < 64"
            consider "q < d" | "q = d" | "d < q" by linarith
            then show "hbit (word_at ?r q) k \<longleftrightarrow>
              (if 64 * q + k < ts then bit_at bv (64 * q + k) else bit_at bv (64 * q + k + sd))"
            proof cases
              case 1
              then show ?thesis unfolding lt [OF k]
                using q k bv1 by (simp add: word_at_memset_words bit_at_pos)
            next
              case 2
              have "64 * num_words bv \<le> 64 * s + (k - dl + sl)" if "\<not> k - dl + sl < 64"
                using that end_reached by linarith
              then have "k - dl + sl < 64 \<and> bit_at bv (64 * s + (k - dl + sl)) \<longleftrightarrow>
                bit_at bv (64 * s + (k - dl + sl))" using bit_at_beyond by blast
              then have wk: "hbit w k \<longleftrightarrow> (if k < dl then hbit (word_at bv d) k else bit_at bv (64 * d + k + sd))"
                using w [OF k] idx [of k] by (cases "k < dl") simp_all
              have "hbit (word_at ?r q) k = hbit w k" "bit_at bv (64 * d + k) = hbit (word_at bv d) k"
                using 2 q k bv1 by (simp_all add: word_at_memset_words bit_at_pos)
              then show ?thesis unfolding lt [OF k] using wk 2 by simp
            next
              case 3
              have "64 * num_words bv \<le> 64 * q + k + sd"
                using 3 end_reached ts(1) src(1) True src(2) by linarith
              then show ?thesis unfolding lt [OF k]
                using 3 q k bv1 by (simp add: word_at_memset_words bit_at_beyond)
            qed
          qed
        next
          case more: False
          then have s1: "s + 1 < num_words bv" using s by simp
          define bv2 where "bv2 = put_word d (w OR drop_bit e (word_at bv (s + 1))) bv1"
          have ne: "s + 1 \<noteq> d" using ds by simp
          have eq: "shiftTailForward ts sd bv = shiftForward_words (64 - e) (d + 1) (s + 1) bv2"
            using True s sd dl more bv1(4) bv1(5) [OF s1 ne]
            by (simp add: shiftTailForward_def size_add_eq [OF nowrap] Let_def ts(3,4) src(3,4) bv1_def [symmetric]
                w_def [symmetric] e_def bv2_def)
          show ?thesis unfolding eq
          proof (rule shiftForward_rest [of _ _ ts, unfolded ts(3,4)])
            show "num_words bv2 = num_words bv" "num_bits bv2 = num_bits bv" "stray bv2 = stray bv"
              using bv1 d by (simp_all add: bv2_def)
            show "word_at bv2 j = word_at bv j" if "j < num_words bv" "j \<noteq> d" for j
              using that bv1 by (simp add: bv2_def word_at_put_word)
            show "hbit (word_at bv2 d) k \<longleftrightarrow>
              (if k < dl then hbit (word_at bv d) k else bit_at bv (64 * d + k + sd))" if k: "k < 64" for k
            proof (cases "k < e")
              case True
              have "k - dl + sl < 64" if "\<not> k < dl" using True that unfolding e_def by linarith
              then show ?thesis using w [OF k] True idx [of k] d bv1(1)
                by (auto simp: bv2_def word_at_put_word hbit_or hbit_drop)
            next
              case False
              then have "\<not> k < dl" "\<not> k - dl + sl < 64" using e(3) unfolding e_def by linarith+
              moreover have "64 * d + k + sd = 64 * (s + 1) + (k - e)"
                using idx [OF \<open>\<not> k < dl\<close>] False esl e(3) by simp
              moreover have "bit_at bv (64 * (s + 1) + (k - e)) = hbit (word_at bv (s + 1)) (k - e)"
                using k s1 by (intro bit_at_pos) simp_all
              ultimately show ?thesis using w [OF k] False k d bv1(1)
                by (simp add: bv2_def word_at_put_word hbit_or hbit_drop)
            qed
            show "d < num_words bv" by (rule d)
            show "d + 1 \<le> s + 1" using ds by simp
            show "64 - e < 64" using e(2) by simp
            show "s + 1 < num_words bv \<or> 64 - e = 0 \<and> 0 < d + 1 \<and> s + 1 = num_words bv" using s1 by simp
            show "64 * (s + 1) + (64 - e) = 64 * (d + 1) + sd"
              using ts(1) src(1) esl e(1) by simp
          qed
        qed
      next
        case False
        define l where "l = (sl + (64 - dl)) mod 64"
        define src' where "src' = s + (sl + (64 - dl)) div 64"
        have eq: "shiftTailForward ts sd bv = shiftForward_words l (d + 1) src' bv1"
          using False s sd dl
          by (simp add: shiftTailForward_def size_add_eq [OF nowrap] Let_def ts(3,4) src(3,4) bv1_def w_def l_def src'_def)
        have total: "64 * src' + l = 64 * s + (sl + (64 - dl))"
          unfolding l_def src'_def by (simp add: algebra_simps)
        have l: "l < 64" by (simp add: l_def)
        show ?thesis unfolding eq
        proof (rule shiftForward_rest [of _ _ ts, unfolded ts(3,4)])
          show "num_words bv1 = num_words bv" "num_bits bv1 = num_bits bv" "stray bv1 = stray bv"
            "\<And>j. j < num_words bv \<Longrightarrow> j \<noteq> d \<Longrightarrow> word_at bv1 j = word_at bv j" by (fact bv1)+
          show "hbit (word_at bv1 d) k \<longleftrightarrow>
            (if k < dl then hbit (word_at bv d) k else bit_at bv (64 * d + k + sd))" if k: "k < 64" for k
          proof -
            have "k - dl + sl < 64" using False k src(2) by linarith
            then show ?thesis using w [OF k] idx [of k] unfolding bv1(4) by (cases "k < dl") simp_all
          qed
          show "d < num_words bv" "l < 64" by (fact d l)+
          show "64 * src' + l = 64 * (d + 1) + sd"
            using total ts(1,2) src(1) by simp
          then show "d + 1 \<le> src'" using l sd by simp
          show "src' < num_words bv \<or> l = 0 \<and> 0 < d + 1 \<and> src' = num_words bv"
            using total l s False ts(2) dl by linarith
        qed
      qed
    qed
  qed
qed

lemma shiftTailForward_simps:
  assumes "bv_wf bv" "ts < num_bits bv" "ts + sd < 2 ^ 64"
  shows "num_words (shiftTailForward ts sd bv) = num_words bv"
    and "num_bits (shiftTailForward ts sd bv) = num_bits bv"
    and "stray (shiftTailForward ts sd bv) = stray bv"
    and "bit_at (shiftTailForward ts sd bv) i \<longleftrightarrow> (if i < ts then bit_at bv i else bit_at bv (i + sd))"
  using shiftTailForward_ok [OF bv_wf_word_index [OF assms(1,2)] assms(3)] by (simp_all add: shift_ok_def)

lemma shiftTailForward_inv [inv_intros]:
  "bv_inv bv \<Longrightarrow> ts < num_bits bv \<Longrightarrow> ts + sd < 2 ^ 64 \<Longrightarrow> bv_inv (shiftTailForward ts sd bv)"
  unfolding bv_inv_def by (simp add: shiftTailForward_simps) (simp add: bv_wf_def shiftTailForward_simps)

lemma shiftTailForward_set:
  assumes "bv_inv bv" "ts < num_bits bv" "ts + sd < 2 ^ 64"
  shows "bv_set (shiftTailForward ts sd bv) = {i \<in> bv_set bv. i < ts} \<union> {i. ts \<le> i \<and> i + sd \<in> bv_set bv}"
  using assms shiftTailForward_inv [OF assms]
  by (auto simp: bv_inv_set shiftTailForward_simps bv_inv_wf split: if_splits)

section \<open>Correctness of the backward shift\<close>

lemma shiftBackward_loop_spec:
  assumes "element < num_words bv" "se < limit"
  shows "num_words (shiftBackward_loop se l limit element bv) = num_words bv \<and>
    num_bits (shiftBackward_loop se l limit element bv) = num_bits bv \<and>
    stray (shiftBackward_loop se l limit element bv) = stray bv \<and>
    (\<forall>j<num_words bv. word_at (shiftBackward_loop se l limit element bv) j =
       (if limit < j \<and> j \<le> element
        then drop_bit l (word_at bv (j - se)) OR push_bit (64 - l) (word_at bv (j - se - 1))
        else word_at bv j))"
  using assms
proof (induction se l limit element bv rule: shiftBackward_loop.induct)
  case (1 se l limit element bv)
  show ?case
  proof (cases "limit < element")
    case False
    then show ?thesis by (subst (1 2 3 4) shiftBackward_loop.simps) auto
  next
    case True
    let ?w = "drop_bit l (word_at bv (element - se)) OR push_bit (64 - l) (word_at bv (element - se - 1))"
    let ?bv1 = "put_word element ?w bv"
    have step: "shiftBackward_loop se l limit element bv = shiftBackward_loop se l limit (element - 1) ?bv1"
      using True by (subst shiftBackward_loop.simps) simp
    have w1: "word_at ?bv1 j = (if j = element then ?w else word_at bv j)" if "j < num_words bv" for j
      using that by (simp add: word_at_put_word)
    have low: "word_at ?bv1 j = word_at bv j" if "j < element" for j
      using that 1(2) w1 [of j] by simp
    have IH: "num_words (shiftBackward_loop se l limit (element - 1) ?bv1) = num_words bv \<and>
      num_bits (shiftBackward_loop se l limit (element - 1) ?bv1) = num_bits bv \<and>
      stray (shiftBackward_loop se l limit (element - 1) ?bv1) = stray bv \<and>
      (\<forall>j<num_words bv. word_at (shiftBackward_loop se l limit (element - 1) ?bv1) j =
       (if limit < j \<and> j \<le> element - 1
        then drop_bit l (word_at ?bv1 (j - se)) OR push_bit (64 - l) (word_at ?bv1 (j - se - 1))
        else word_at ?bv1 j))"
      using 1(1) [OF True] 1(2,3) by simp
    have "word_at (shiftBackward_loop se l limit (element - 1) ?bv1) j =
       (if limit < j \<and> j \<le> element
        then drop_bit l (word_at bv (j - se)) OR push_bit (64 - l) (word_at bv (j - se - 1))
        else word_at bv j)" if j: "j < num_words bv" for j
    proof -
      have IHj: "word_at (shiftBackward_loop se l limit (element - 1) ?bv1) j =
        (if limit < j \<and> j \<le> element - 1
         then drop_bit l (word_at ?bv1 (j - se)) OR push_bit (64 - l) (word_at ?bv1 (j - se - 1))
         else word_at ?bv1 j)" using IH j by blast
      consider "j = element" | "j < element" | "element < j" by linarith
      then show ?thesis
      proof cases
        case 1
        then show ?thesis using IHj w1 [OF j] True by auto
      next
        case 2
        then have "j - se < element" "j - se - 1 < element" by linarith+
        then have "word_at ?bv1 (j - se) = word_at bv (j - se)"
          "word_at ?bv1 (j - se - 1) = word_at bv (j - se - 1)" "word_at ?bv1 j = word_at bv j"
          using 2 by (simp_all only: low)
        moreover have "j \<le> element - 1" "j \<le> element" using 2 by linarith+
        ultimately show ?thesis using IHj by (simp only: simp_thms)
      next
        case 3
        then show ?thesis using IHj w1 [OF j] by auto
      qed
    qed
    with IH show ?thesis unfolding step by blast
  qed
qed

text \<open>
  What both cases of the shift leave in word \<open>j\<close>, bit by bit. The disjunct \<open>lo = 0 \<and> l \<noteq> 0\<close> is the first
  word of the tail, which the code does not clear when the tail starts at a word boundary.
\<close>

definition shifted_bit :: "bitvector \<Rightarrow> nat \<Rightarrow> nat \<Rightarrow> nat \<Rightarrow> nat \<Rightarrow> nat \<Rightarrow> nat \<Rightarrow> bool" where
  "shifted_bit bv te lo se l j k =
     (if j < te then hbit (word_at bv j) k
      else if j = te \<and> 0 < se then (k < lo \<or> (lo = 0 \<and> l \<noteq> 0)) \<and> hbit (word_at bv te) k
      else if j < te + se then False
      else if j = te + se then
        (se = 0 \<and> k < lo \<and> hbit (word_at bv te) k) \<or> (l \<le> k \<and> lo \<le> k - l \<and> hbit (word_at bv te) (k - l))
      else if l \<le> k then (j - se = te \<longrightarrow> lo \<le> k - l) \<and> hbit (word_at bv (j - se)) (k - l)
      else (j - se - 1 = te \<longrightarrow> lo \<le> k + (64 - l)) \<and> hbit (word_at bv (j - se - 1)) (k + (64 - l)))"

lemma hbit_tail_bits:
  "hbit (drop_bit lo (push_bit lo (w :: u64))) k \<longleftrightarrow> lo \<le> k \<and> hbit w k"
  by (auto simp: hbit_drop hbit_push dest: hbit_less)

lemma shiftBackward_words_spec:
  assumes "te + se \<le> num_words bv" "te + se = num_words bv \<longrightarrow> lo = 0" "0 < se" "lo < 64"
  shows "num_words (shiftBackward_words te lo se bv) = num_words bv"
    and "num_bits (shiftBackward_words te lo se bv) = num_bits bv"
    and "stray (shiftBackward_words te lo se bv) = stray bv"
    and "\<And>j k. j < num_words bv \<Longrightarrow> k < 64 \<Longrightarrow>
      hbit (word_at (shiftBackward_words te lo se bv) j) k \<longleftrightarrow> shifted_bit bv te lo se 0 j k"
proof -
  let ?r = "shiftBackward_words te lo se bv"
  show "num_words ?r = num_words bv" "num_bits ?r = num_bits bv"
    by (simp_all add: shiftBackward_words_def Let_def)
  show "stray ?r = stray bv" using assms by (auto simp: shiftBackward_words_def Let_def)
  fix j k :: nat
  assume j: "j < num_words bv" and k: "k < 64"
  define n where "n = words_left (num_words bv) (te + se)"
  have inside: "j < te + se + n" using j assms(1) by (simp add: n_def)
  define bv1 where "bv1 = memmove_words (te + se) te n bv"
  have r: "?r = (if lo \<noteq> 0 then
      (let bv2 = put_word te (word_at bv1 te AND MaskBitRange 0 lo) bv1;
           bv3 = put_word (te + se) (word_at bv2 (te + se) AND MaskBitRange lo 64) bv2
       in memset_words (te + 1) (se - 1) 0 bv3)
    else memset_words te se 0 bv1)"
    unfolding shiftBackward_words_def Let_def bv1_def n_def by (rule refl)
  have n1: "num_words bv1 = num_words bv" by (simp add: bv1_def)
  have b1: "word_at bv1 i = (if te + se \<le> i then word_at bv (i - se) else word_at bv i)"
    if "i < num_words bv" for i
    using that assms(1) by (auto simp: bv1_def word_at_memmove_words n_def)
  show "hbit (word_at ?r j) k \<longleftrightarrow> shifted_bit bv te lo se 0 j k"
  proof (cases "lo = 0")
    case True
    then have "word_at ?r j = (if te \<le> j \<and> j < te + se then 0 else if te + se \<le> j then word_at bv (j - se) else word_at bv j)"
      unfolding r using j b1 [OF j] n1 by (simp add: word_at_memset_words)
    then show ?thesis using True assms(3) by (auto simp: shifted_bit_def)
  next
    case False
    then have S: "te + se < num_words bv" using assms(1,2) by linarith
    have "word_at ?r j = (if te < j \<and> j < te + se then 0
      else if j = te + se then word_at bv te AND MaskBitRange lo 64
      else if j = te then word_at bv te AND MaskBitRange 0 lo
      else if te + se \<le> j then word_at bv (j - se) else word_at bv j)"
      using j False b1 [OF j] b1 [of te] b1 [OF S] S assms(3)
      unfolding r by (auto simp: Let_def word_at_memset_words word_at_put_word n1)
    then show ?thesis using False assms(3,4) k by (auto simp: shifted_bit_def hbit_simps)
  qed
qed

lemma shiftBackward_bits_spec:
  assumes "te + se < num_words bv" "lo < 64" "0 < l" "l < 64"
  shows "num_words (shiftBackward_bits te lo se l bv) = num_words bv"
    and "num_bits (shiftBackward_bits te lo se l bv) = num_bits bv"
    and "stray (shiftBackward_bits te lo se l bv) = stray bv"
    and "\<And>j k. j < num_words bv \<Longrightarrow> k < 64 \<Longrightarrow>
      hbit (word_at (shiftBackward_bits te lo se l bv) j) k \<longleftrightarrow> shifted_bit bv te lo se l j k"
proof -
  let ?r = "shiftBackward_bits te lo se l bv"
  define tail where "tail = drop_bit lo (push_bit lo (word_at bv te))"
  define bv1 where "bv1 = shiftBackward_loop se l (te + se + 1) (num_words bv - 1) bv"
  have "num_words bv - 1 < num_words bv" "se < te + se + 1" using assms(1) by simp_all
  note loop = shiftBackward_loop_spec [OF this, of l, folded bv1_def]
  have bv1: "num_words bv1 = num_words bv" "num_bits bv1 = num_bits bv" "stray bv1 = stray bv"
    using loop by blast+
  have w1: "word_at bv1 j = (if te + se + 1 < j
      then drop_bit l (word_at bv (j - se)) OR push_bit (64 - l) (word_at bv (j - se - 1)) else word_at bv j)"
    if "j < num_words bv" for j
    using loop that by (auto simp: less_eq_Suc_le)
  define bv2 where "bv2 = (if te + se + 1 < num_words bv
      then put_word (te + se + 1) (drop_bit l (word_at bv1 (te + 1)) OR push_bit (64 - l) tail) bv1 else bv1)"
  have bv2: "num_words bv2 = num_words bv" "num_bits bv2 = num_bits bv" "stray bv2 = stray bv"
    using bv1 by (auto simp: bv2_def)
  have w2: "word_at bv2 j = (if te + se + 1 < j
      then drop_bit l (word_at bv (j - se)) OR push_bit (64 - l) (word_at bv (j - se - 1))
      else if j = te + se + 1 then drop_bit l (word_at bv (te + 1)) OR push_bit (64 - l) tail
      else word_at bv j)"
    if "j < num_words bv" for j
    using that w1 [OF that] w1 [of "te + 1"] bv1 by (auto simp: bv2_def word_at_put_word)
  have tail: "hbit tail k \<longleftrightarrow> lo \<le> k \<and> hbit (word_at bv te) k" for k
    by (simp add: tail_def hbit_tail_bits)
  have te: "te < num_words bv" using assms(1) by simp
  have r: "?r = (if se \<noteq> 0 then
      (let bv3 = put_word (te + se) (drop_bit l tail) bv2;
           bv4 = (if lo \<noteq> 0 then put_word te (word_at bv3 te AND NOT (MaskBitRange lo 64)) bv3 else bv3)
       in memset_words (te + 1) (se - 1) 0 bv4)
    else if lo \<noteq> 0
    then put_word te ((word_at bv2 te AND MaskBitRange 0 lo) OR
                      drop_bit l (word_at bv2 te AND MaskBitRange lo 64)) bv2
    else put_word te (drop_bit l (word_at bv2 te)) bv2)"
    unfolding shiftBackward_bits_def Let_def tail_def bv1_def bv2_def by (rule refl)
  show "num_words ?r = num_words bv" "num_bits ?r = num_bits bv" "stray ?r = stray bv"
    using bv2 te assms(1) by (auto simp: r Let_def)
  fix j k :: nat
  assume j: "j < num_words bv" and k: "k < 64"
  have high: "hbit (word_at bv2 j) k \<longleftrightarrow> shifted_bit bv te lo se l j k" if "te + se < j"
  proof (cases "j = te + se + 1")
    case True
    then have "hbit (word_at bv2 j) k \<longleftrightarrow> hbit (drop_bit l (word_at bv (te + 1)) OR push_bit (64 - l) tail) k"
      using w2 [OF j] by simp
    also have "\<dots> \<longleftrightarrow> shifted_bit bv te lo se l j k"
      unfolding shifted_bit_def hbit_or hbit_drop hbit_push tail using True k assms(3,4) by (auto dest: hbit_less)
    finally show ?thesis .
  next
    case False
    then have f: "te + se + 1 < j" using that by simp
    have "hbit (word_at bv2 j) k \<longleftrightarrow>
      hbit (drop_bit l (word_at bv (j - se)) OR push_bit (64 - l) (word_at bv (j - se - 1))) k"
      unfolding w2 [OF j] if_P [OF f] ..
    also have "\<dots> \<longleftrightarrow> shifted_bit bv te lo se l j k"
      unfolding shifted_bit_def hbit_or hbit_drop hbit_push using f k assms(3,4) by (auto dest: hbit_less)
    finally show ?thesis .
  qed
  show "hbit (word_at ?r j) k \<longleftrightarrow> shifted_bit bv te lo se l j k"
  proof (cases "se = 0")
    case True
    have "word_at ?r j = (if j = te
      then (word_at bv te AND MaskBitRange 0 lo) OR drop_bit l (word_at bv te AND MaskBitRange lo 64)
      else word_at bv2 j)" if "lo \<noteq> 0"
      unfolding r using True that j te bv2 w2 [OF te] by (simp add: word_at_put_word)
    moreover have "word_at ?r j = (if j = te then drop_bit l (word_at bv te) else word_at bv2 j)" if "lo = 0"
      unfolding r using True that j te bv2 w2 [OF te] by (simp add: word_at_put_word)
    moreover have "word_at bv2 j = word_at bv j" if "j < te" using w2 [OF j] that by simp
    ultimately show ?thesis using high True k assms(2)
      by (cases j te rule: linorder_cases; cases "lo = 0")
        (auto simp: shifted_bit_def hbit_simps)
  next
    case False
    have rj: "word_at ?r j = (if te < j \<and> j < te + se then 0
      else if j = te + se then drop_bit l tail
      else if j = te \<and> lo \<noteq> 0 then word_at bv te AND NOT (MaskBitRange lo 64)
      else word_at bv2 j)"
      unfolding r using False j te bv2 w2 [OF te] assms(1) by (auto simp: Let_def word_at_put_word word_at_memset_words)
    consider "j < te" | "j = te" | "te < j" "j < te + se" | "j = te + se" | "te + se < j" by linarith
    then show ?thesis
    proof cases
      case 1
      then show ?thesis using rj w2 [OF j] by (simp add: shifted_bit_def)
    next
      case 2
      then show ?thesis using rj w2 [OF j] False k assms(3) by (auto simp: shifted_bit_def hbit_simps)
    next
      case 3
      then show ?thesis using rj by (simp add: shifted_bit_def)
    next
      case 4
      then show ?thesis using rj False k by (simp add: shifted_bit_def hbit_drop tail)
    next
      case 5
      then show ?thesis using rj high by simp
    qed
  qed
qed

lemma shifted_bit_at:
  assumes "ts = 64 * te + lo" "sd = 64 * se + l" "lo < 64" "l < 64" "k < 64" "j < num_words bv" "te < num_words bv"
  shows "shifted_bit bv te lo se l j k \<longleftrightarrow>
    (if 64 * j + k < ts then bit_at bv (64 * j + k)
     else if 64 * j + k < ts + sd
     then lo = 0 \<and> l \<noteq> 0 \<and> 0 < se \<and> 64 * j + k < 64 * te + 64 \<and> bit_at bv (64 * j + k)
     else bit_at bv (64 * j + k - sd))"
proof -
  have here: "hbit (word_at bv j) k = bit_at bv (64 * j + k)"
    using assms(5,6) by (simp add: bit_at_pos)
  consider "j < te" | "j = te" "0 < se" | "te < j" "j < te + se" | "j = te" "se = 0" | "j = te + se" "0 < se"
    | "te + se < j" by linarith
  then show ?thesis
  proof cases
    case 1
    then have "64 * j + k < ts" using assms by linarith
    then show ?thesis using 1 here by (simp add: shifted_bit_def)
  next
    case 2
    have "64 * j + k < ts + sd" "64 * j + k < ts \<longleftrightarrow> k < lo" "64 * j + k < 64 * te + 64"
      using 2 assms(1,2,5) by (simp, simp, simp)
    then show ?thesis using 2 here by (auto simp: shifted_bit_def)
  next
    case 3
    have "64 * j + k < ts + sd" "\<not> 64 * j + k < ts" "\<not> 64 * j + k < 64 * te + 64"
      using 3 assms(1,2,3,5) by linarith+
    then show ?thesis using 3 by (simp add: shifted_bit_def)
  next
    case 4
    have i: "64 * j + k < ts \<longleftrightarrow> k < lo" "64 * j + k < ts + sd \<longleftrightarrow> k < lo + l" "\<not> 0 < se"
      using 4 assms(1,2) by simp_all
    have "hbit (word_at bv te) (k - l) = bit_at bv (64 * j + k - sd)" if "\<not> k < lo + l"
    proof -
      have "64 * j + k - sd = 64 * te + (k - l)" using that 4 assms(2) by simp
      then show ?thesis using assms(5,7) by (simp add: bit_at_pos)
    qed
    moreover have "l \<le> k \<and> lo \<le> k - l \<longleftrightarrow> \<not> k < lo + l" by linarith
    moreover have "k < lo \<Longrightarrow> k < lo + l" by linarith
    ultimately show ?thesis using 4 here unfolding i by (auto simp: shifted_bit_def)
  next
    case 5
    have i: "64 * j + k < ts + sd \<longleftrightarrow> k < lo + l"
      using 5 assms(1,2) by simp
    have ge: "\<not> 64 * j + k < ts" "\<not> 64 * j + k < 64 * te + 64" using 5 assms(1,3) by linarith+
    have "hbit (word_at bv te) (k - l) = bit_at bv (64 * j + k - sd)" if "\<not> k < lo + l"
    proof -
      have "64 * j + k - sd = 64 * te + (k - l)" using that 5 assms(2) by simp
      then show ?thesis using assms(5,7) by (simp add: bit_at_pos)
    qed
    moreover have "l \<le> k \<and> lo \<le> k - l \<longleftrightarrow> \<not> k < lo + l" by linarith
    ultimately show ?thesis using 5 ge unfolding i by (auto simp: shifted_bit_def)
  next
    case 6
    have ge: "\<not> 64 * j + k < ts" "\<not> 64 * j + k < 64 * te + 64" using 6 assms(1,3) by linarith+
    show ?thesis
    proof (cases "l \<le> k")
      case True
      have "64 * (te + se) + 64 \<le> 64 * j" using 6 by simp
      then have nlt: "\<not> 64 * j + k < ts + sd" using True assms(1,2,3) by simp
      have "64 * j = 64 * (j - se) + 64 * se" using 6 by (simp add: algebra_simps)
      then have "64 * j + k - sd = 64 * (j - se) + (k - l)" using True assms(2) by linarith
      moreover have "bit_at bv (64 * (j - se) + (k - l)) = hbit (word_at bv (j - se)) (k - l)"
        using assms(5,6) by (intro bit_at_pos) simp_all
      ultimately show ?thesis using 6 ge nlt True by (auto simp: shifted_bit_def)
    next
      case False
      obtain m where m_def: "j - se = Suc m" using 6 by (cases "j - se") simp_all
      have m: "j = m + se + 1" "te \<le> m" using 6 m_def by linarith+
      have lt: "64 * j + k < ts + sd \<longleftrightarrow> m = te \<and> k + (64 - l) < lo"
      proof (cases "m = te")
        case True
        then show ?thesis using m(1) assms(1,2,4) by (simp, arith)
      next
        case False
        then have "64 * te + 64 \<le> 64 * m" using m(2) by simp
        then have "\<not> 64 * j + k < ts + sd" using m(1) assms(1,2,3,4) by simp
        then show ?thesis using False by simp
      qed
      have "64 * j + k - sd = 64 * m + (k + (64 - l))" using m(1) False assms(2,4) by simp
      moreover have "bit_at bv (64 * m + (k + (64 - l))) = hbit (word_at bv m) (k + (64 - l))"
        using False m(1) assms(4,6) by (intro bit_at_pos) simp_all
      ultimately show ?thesis using 6 ge False unfolding lt
        using m_def by (auto simp: shifted_bit_def)
    qed
  qed
qed

text \<open>When the first word of the tail keeps its bits although the shift has moved them.\<close>

definition keeps_first_word :: "nat \<Rightarrow> nat \<Rightarrow> bool" where
  "keeps_first_word ts sd \<longleftrightarrow> ts mod 64 = 0 \<and> sd mod 64 \<noteq> 0 \<and> 64 \<le> sd"

lemma shiftTailBackward_simps:
  assumes inv: "bv_inv bv" and ts_less: "ts < num_bits bv" and nowrap: "ts + sd < 2 ^ 64"
  shows "num_words (shiftTailBackward ts sd bv) = num_words bv"
    and "num_bits (shiftTailBackward ts sd bv) = num_bits bv"
    and "stray (shiftTailBackward ts sd bv) = stray bv"
    and "bit_at (shiftTailBackward ts sd bv) i \<longleftrightarrow> i < num_bits bv \<and>
      (if i < ts then bit_at bv i
       else if i < ts + sd
       then keeps_first_word ts sd \<and> ts + sd \<le> num_bits bv \<and> i < ts + 64 \<and> bit_at bv i
       else bit_at bv (i - sd))"
proof -
  let ?r = "shiftTailBackward ts sd bv"
  let ?spec = "\<lambda>i. if i < ts then bit_at bv i
       else if i < ts + sd
       then keeps_first_word ts sd \<and> ts + sd \<le> num_bits bv \<and> i < ts + 64 \<and> bit_at bv i
       else bit_at bv (i - sd)"
  note wf = bv_inv_wf [OF inv]
  obtain te lo where ts: "ts = 64 * te + lo" "lo < 64" "ts div 64 = te" "ts mod 64 = lo" by (rule word_decomp)
  obtain se l where sd: "sd = 64 * se + l" "l < 64" "sd div 64 = se" "sd mod 64 = l" by (rule word_decomp)
  have te: "te < num_words bv" using bv_wf_word_index [OF wf ts_less] ts(3) by simp
  have fits: "num_bits bv \<le> 64 * num_words bv" using bv_wf_le [OF wf, of "num_bits bv"] by simp
  have "num_words ?r = num_words bv \<and> num_bits ?r = num_bits bv \<and> stray ?r = stray bv \<and>
    (\<forall>i. bit_at ?r i \<longleftrightarrow> i < num_bits bv \<and> ?spec i)"
  proof (cases "sd = 0")
    case True
    then show ?thesis using bv_inv_padding [OF inv]
      by (auto simp: shiftTailBackward_def simp flip: not_le)
  next
    case sd0: False
    show ?thesis
    proof (cases "num_bits bv < ts + sd")
      case True
      define r where "r = ?r"
      have "num_words r = num_words bv" "num_bits r = num_bits bv" "stray r = stray bv"
        using True sd0 te by (auto simp: r_def shiftTailBackward_def size_add_eq [OF nowrap] Let_def ts(3,4))
      moreover have "bit_at r i \<longleftrightarrow> i < ts \<and> bit_at bv i" for i
      proof (cases "i < 64 * num_words bv")
        case False
        then show ?thesis using \<open>num_words r = num_words bv\<close> by (simp add: bit_at_beyond)
      next
        case in_words: True
        obtain q k where i: "i = 64 * q + k" "k < 64" "i div 64 = q" "i mod 64 = k" by (rule word_decomp)
        have q: "q < num_words bv" using in_words i(3) by (simp add: less_word_iff)
        have lt: "i < ts \<longleftrightarrow> q < te \<or> (q = te \<and> k < lo)"
          using i(1,2) ts(1,2) by (cases q te rule: linorder_cases) simp_all
        have "word_at r q = (if te < q then 0 else if q < te then word_at bv q
          else if lo = 0 then 0 else word_at bv q AND NOT (MaskBitRange lo 64))"
          unfolding r_def using True sd0 te q
          by (auto simp: shiftTailBackward_def size_add_eq [OF nowrap] Let_def ts(3,4) word_at_put_word word_at_memset_words)
        then show ?thesis unfolding lt using q i \<open>num_words r = num_words bv\<close>
          by (auto simp: bit_in_word' hbit_simps)
      qed
      ultimately show ?thesis using True ts_less unfolding r_def by auto
    next
      case False
      define r where "r = (if l \<noteq> 0 then shiftBackward_bits te lo se l bv else shiftBackward_words te lo se bv)"
      have room: "64 * (te + se) + (lo + l) \<le> 64 * num_words bv"
        using False fits ts(1) sd(1) by simp
      have rspec: "num_words r = num_words bv" "num_bits r = num_bits bv" "stray r = stray bv"
        "\<And>j k. j < num_words bv \<Longrightarrow> k < 64 \<Longrightarrow> hbit (word_at r j) k \<longleftrightarrow> shifted_bit bv te lo se l j k"
      proof -
        have *: "num_words r = num_words bv \<and> num_bits r = num_bits bv \<and> stray r = stray bv \<and>
          (\<forall>j k. j < num_words bv \<longrightarrow> k < 64 \<longrightarrow> hbit (word_at r j) k \<longleftrightarrow> shifted_bit bv te lo se l j k)"
        proof (cases "l = 0")
          case True
          have "te + se \<le> num_words bv" "te + se = num_words bv \<longrightarrow> lo = 0" "0 < se"
            using room sd0 sd(1) True by simp_all
          from shiftBackward_words_spec [OF this ts(2)] show ?thesis unfolding r_def using True by simp
        next
          case l: False
          have "te + se < num_words bv" "0 < l" using room l by simp_all
          from shiftBackward_bits_spec [OF this(1) ts(2) this(2) sd(2)] show ?thesis unfolding r_def using l by simp
        qed
        then show "num_words r = num_words bv" "num_bits r = num_bits bv" "stray r = stray bv"
          "\<And>j k. j < num_words bv \<Longrightarrow> k < 64 \<Longrightarrow> hbit (word_at r j) k \<longleftrightarrow> shifted_bit bv te lo se l j k"
          by blast+
      qed
      have keeps: "keeps_first_word ts sd \<longleftrightarrow> lo = 0 \<and> l \<noteq> 0 \<and> 0 < se"
        using sd(1,2) by (auto simp: keeps_first_word_def ts(4) sd(4))
      have bit: "bit_at r i \<longleftrightarrow> ?spec i" if "i < 64 * num_words bv" for i
      proof -
        obtain q k where i: "i = 64 * q + k" "k < 64" "i div 64 = q" "i mod 64 = k" by (rule word_decomp)
        have q: "q < num_words bv" using that i(3) by (simp add: less_word_iff)
        have "bit_at r i = hbit (word_at r q) k" using q i rspec(1) by (simp add: bit_in_word')
        then show ?thesis
          unfolding rspec(4) [OF q i(2)] shifted_bit_at [OF ts(1) sd(1) ts(2) sd(2) i(2) q te]
          using False keeps ts(1) i(1) by auto
      qed
      have eq: "?r = (if num_bits bv mod 64 \<noteq> 0
        then put_word (num_words bv - 1) (word_at r (num_words bv - 1) AND MaskBitRange 0 (num_bits bv mod 64)) r else r)"
        using False sd0 unfolding r_def by (simp add: shiftTailBackward_def size_add_eq [OF nowrap] Let_def ts(3,4) sd(3,4))
      have "bit_at ?r i \<longleftrightarrow> i < num_bits bv \<and> bit_at r i" for i
      proof (cases "num_bits bv mod 64 = 0")
        case True
        then have "64 * num_words bv = num_bits bv" using bv_wf_exact [OF wf] by (metis mult_div_mod_eq add_0_right)
        then show ?thesis unfolding eq using True rspec(1) bit_at_less [of r i] by auto
      next
        case ne: False
        obtain q k where i: "i = 64 * q + k" "k < 64" "i div 64 = q" "i mod 64 = k" by (rule word_decomp)
        obtain m x where n: "num_bits bv = 64 * m + x" "x < 64" "num_bits bv div 64 = m" "num_bits bv mod 64 = x"
          by (rule word_decomp)
        have nw: "num_words bv = Suc m" using bv_wf_last [OF wf ne] n(3) by simp
        have lt: "i < num_bits bv \<longleftrightarrow> q < m \<or> (q = m \<and> k < x)"
          using i(1,2) n(1,2) by (cases q m rule: linorder_cases) simp_all
        have bw: "q \<le> m \<Longrightarrow> bit_at r i = hbit (word_at r q) k" using i rspec(1) nw by (simp add: bit_in_word')
        have beyond: "m < q \<Longrightarrow> \<not> bit_at r i"
          using i(3) rspec(1) nw bit_at_less [of r i] by (auto simp: less_word_iff)
        show ?thesis
          unfolding eq lt using ne bw beyond i nw rspec(1,2) n(4)
          by (cases q m rule: linorder_cases) (auto simp: bit_at_put_word hbit_and hbit_MaskBitRange)
      qed
      moreover have "i < 64 * num_words bv" if "i < num_bits bv" for i using that fits by simp
      moreover have "num_words ?r = num_words bv" "num_bits ?r = num_bits bv" "stray ?r = stray bv"
        unfolding eq using rspec(1-3) te by auto
      ultimately show ?thesis using bit by blast
    qed
  qed
  then show "num_words ?r = num_words bv" "num_bits ?r = num_bits bv" "stray ?r = stray bv"
    "bit_at ?r i \<longleftrightarrow> i < num_bits bv \<and> ?spec i" by blast+
qed

lemma shiftTailBackward_inv [inv_intros]:
  "bv_inv bv \<Longrightarrow> ts < num_bits bv \<Longrightarrow> ts + sd < 2 ^ 64 \<Longrightarrow> bv_inv (shiftTailBackward ts sd bv)"
  by (rule op_invI) (auto simp: shiftTailBackward_simps)

lemma shiftTailBackward_set:
  assumes "bv_inv bv" "ts < num_bits bv" "ts + sd < 2 ^ 64"
  shows "bv_set (shiftTailBackward ts sd bv) =
    {i \<in> bv_set bv. i < ts} \<union> {i. ts + sd \<le> i \<and> i < num_bits bv \<and> i - sd \<in> bv_set bv} \<union>
    (if keeps_first_word ts sd \<and> ts + sd \<le> num_bits bv then {i \<in> bv_set bv. ts \<le> i \<and> i < ts + 64} else {})"
proof (rule set_eqI)
  fix i
  have pad: "bit_at bv i \<Longrightarrow> i < num_bits bv" using bv_inv_padding [OF assms(1), of i] by linarith
  show "i \<in> bv_set (shiftTailBackward ts sd bv) \<longleftrightarrow> i \<in>
    {i \<in> bv_set bv. i < ts} \<union> {i. ts + sd \<le> i \<and> i < num_bits bv \<and> i - sd \<in> bv_set bv} \<union>
    (if keeps_first_word ts sd \<and> ts + sd \<le> num_bits bv then {i \<in> bv_set bv. ts \<le> i \<and> i < ts + 64} else {})"
  proof (cases "keeps_first_word ts sd \<and> ts + sd \<le> num_bits bv")
    case True
    then have "i < ts + 64 \<Longrightarrow> i < ts + sd" by (simp add: keeps_first_word_def)
    then show ?thesis using True assms(2) pad
      by (simp add: bv_inv_set [OF assms(1)] bv_inv_set [OF shiftTailBackward_inv [OF assms]]
          shiftTailBackward_simps(4) [OF assms]) linarith
  next
    case False
    have "bit_at (shiftTailBackward ts sd bv) i \<longleftrightarrow>
      i < num_bits bv \<and> (if i < ts then bit_at bv i else ts + sd \<le> i \<and> bit_at bv (i - sd))"
      using False unfolding shiftTailBackward_simps(4) [OF assms] by auto
    then show ?thesis unfolding if_not_P [OF False] using assms(2) pad
      by (auto simp: bv_inv_set [OF assms(1)] bv_inv_set [OF shiftTailBackward_inv [OF assms]])
  qed
qed

text \<open>
  A distance so large that the sum with \<open>tail_start\<close> wraps passes the guard: the shift then writes beyond
  the array.
\<close>

lemma shiftTailBackward_wraps:
  assumes inv: "bv_inv bv" and ts: "ts < num_bits bv" and sd: "sd < 2 ^ 64" and wraps: "2 ^ 64 \<le> ts + sd"
  shows "stray (shiftTailBackward ts sd bv)"
proof -
  have bits: "num_bits bv < 2 ^ 63" and words: "64 * num_words bv < num_bits bv + 64"
    using bv_inv_wf [OF inv] data_array_size_bounds(2) [of "num_bits bv"] by (simp_all add: bv_wf_def)
  have "size_add ts sd < ts" using ts bits sd wraps by (intro size_add_wraps) simp_all
  then have guard: "\<not> num_bits bv < size_add ts sd" using ts by simp
  have powers: "(2::nat) ^ 58 = 288230376151711744" "(2::nat) ^ 63 = 9223372036854775808"
    "(2::nat) ^ 64 = 18446744073709551616" by simp_all
  have "ts \<le> 64 * (ts div 64) + 63" "sd \<le> 64 * (sd div 64) + 63" "64 * (ts div 64) \<le> ts" "64 * (sd div 64) \<le> sd"
    by presburger+
  then have se: "num_words bv < ts div 64 + sd div 64" "0 < sd div 64" "sd div 64 < 2 ^ 58" "ts div 64 < 2 ^ 58"
    using bits words ts sd wraps unfolding powers by - linarith+
  then have n: "0 < words_left (num_words bv) (ts div 64 + sd div 64)" by (simp add: words_left_def)
  have loop: "num_words (shiftBackward_loop (sd div 64) l (ts div 64 + sd div 64 + 1) (num_words bv - 1) bv) =
    num_words bv" for l
  proof -
    have "\<not> ts div 64 + sd div 64 + 1 < num_words bv - 1" using se(1) by linarith
    then show ?thesis by (subst shiftBackward_loop.simps) (simp only: if_False)
  qed
  have "stray (shiftBackward_bits (ts div 64) lo (sd div 64) l bv)" for lo l
    using se(1,2) loop [of l] by (simp add: shiftBackward_bits_def Let_def)
  moreover have "stray (shiftBackward_words (ts div 64) lo (sd div 64) bv)" for lo
    using se(1) n by (simp add: shiftBackward_words_def Let_def)
  moreover have "sd \<noteq> 0" using se(2) by auto
  ultimately show ?thesis using guard by (simp add: shiftTailBackward_def Let_def)
qed

end
