(* ===== verification/BitSearch.thy ===== *)
theory BitSearch
  imports BitVector
begin

text \<open>
  The read-only queries of \<^verbatim>\<open>utility/BitVector.hpp\<close>: \<open>any\<close>, \<open>all\<close>, \<open>onesCount\<close> and the four searches
  \<open>firstOne\<close>, \<open>firstZero\<close>, \<open>lastOne\<close>, \<open>lastZero\<close>. Each walks the words and uses a zero count inside the
  word it finds. The lemmas refine the searches to the bit-by-bit specifications \<open>first_from\<close> and
  \<open>last_before\<close>.
\<close>

section \<open>Definitions\<close>

definition bv_any :: "bitvector \<Rightarrow> bool" where
  "bv_any bv \<longleftrightarrow> list_ex (\<lambda>w. w \<noteq> 0) (data_array bv)"

definition bv_all :: "bitvector \<Rightarrow> bool" where
  "bv_all bv =
     (let tail_element_bits = num_bits bv mod 64;
          whole = num_words bv - (if tail_element_bits \<noteq> 0 then 1 else 0)
      in list_all (\<lambda>w. w = - 1) (take whole (data_array bv)) \<and>
         (tail_element_bits = 0 \<or>
          word_at bv (num_words bv - 1) = push_bit (64 - tail_element_bits) (- 1)))"

definition onesCount :: "bitvector \<Rightarrow> nat" where
  "onesCount bv = foldl (\<lambda>count w. count + population_count w) 0 (data_array bv)"

text \<open>
  The word loops of the forward searches: \<open>idx\<close> is the index of the first word of the remaining words,
  \<open>n\<close> the result when no word is left.
\<close>

fun firstOne_loop :: "nat \<Rightarrow> nat \<Rightarrow> u64 list \<Rightarrow> nat" where
  "firstOne_loop n idx [] = n"
| "firstOne_loop n idx (w # ws) =
     (if w \<noteq> 0 then push_bit 6 idx OR leading_zero_count w else firstOne_loop n (idx + 1) ws)"

definition firstOne :: "bitvector \<Rightarrow> nat \<Rightarrow> nat" where
  "firstOne bv position =
     (if num_bits bv = 0 then 0
      else if position mod 64 \<noteq> 0 then
        (let base = position - position mod 64;
             val = word_at bv (position div 64) AND drop_bit (position mod 64) (- 1)
         in if val \<noteq> 0 then base OR leading_zero_count val
            else let idx = (base + 64) div 64
                 in firstOne_loop (num_bits bv) idx (drop idx (data_array bv)))
      else let idx = position div 64
           in firstOne_loop (num_bits bv) idx (drop idx (data_array bv)))"

fun firstZero_loop :: "nat \<Rightarrow> nat \<Rightarrow> u64 list \<Rightarrow> nat" where
  "firstZero_loop n idx [] = n"
| "firstZero_loop n idx (w # ws) =
     (let inverse = NOT w
      in if inverse \<noteq> 0 then push_bit 6 idx OR leading_zero_count inverse
         else firstZero_loop n (idx + 1) ws)"

definition firstZero :: "bitvector \<Rightarrow> nat \<Rightarrow> nat" where
  "firstZero bv position =
     (if num_bits bv = 0 then 0
      else if position mod 64 \<noteq> 0 then
        (let base = position - position mod 64;
             val = NOT (word_at bv (position div 64) OR push_bit (64 - position mod 64) (- 1))
         in if val \<noteq> 0 then base OR leading_zero_count val
            else let idx = (base + 64) div 64
                 in firstZero_loop (num_bits bv) idx (drop idx (data_array bv)))
      else let idx = position div 64
           in firstZero_loop (num_bits bv) idx (drop idx (data_array bv)))"

text \<open>The word loops of the backward searches count \<open>array_idx\<close> down to the first word.\<close>

fun lastOne_loop :: "bitvector \<Rightarrow> nat \<Rightarrow> nat" where
  "lastOne_loop bv 0 =
     (if word_at bv 0 \<noteq> 0 then 64 - trailing_zero_count (word_at bv 0) - 1 else num_bits bv)"
| "lastOne_loop bv (Suc i) =
     (if word_at bv (Suc i) \<noteq> 0 then push_bit 6 (Suc i + 1) - trailing_zero_count (word_at bv (Suc i)) - 1
      else lastOne_loop bv i)"

definition lastOne :: "bitvector \<Rightarrow> nat \<Rightarrow> nat" where
  "lastOne bv pos =
     (let position = (if pos = size_max then num_bits bv else pos)
      in if position = 0 then num_bits bv
         else let array_idx = (position - 1) div 64
              in if position mod 64 \<noteq> 0 then
                   (let val = word_at bv array_idx AND push_bit (64 - position mod 64) (- 1)
                    in if val \<noteq> 0 then push_bit 6 (array_idx + 1) - trailing_zero_count val - 1
                       else if array_idx \<noteq> 0 then lastOne_loop bv (array_idx - 1) else num_bits bv)
                 else lastOne_loop bv array_idx)"

fun lastZero_loop :: "bitvector \<Rightarrow> nat \<Rightarrow> nat" where
  "lastZero_loop bv 0 =
     (let inverse = NOT (word_at bv 0)
      in if inverse \<noteq> 0 then 64 - trailing_zero_count inverse - 1 else num_bits bv)"
| "lastZero_loop bv (Suc i) =
     (let inverse = NOT (word_at bv (Suc i))
      in if inverse \<noteq> 0 then push_bit 6 (Suc i + 1) - trailing_zero_count inverse - 1
         else lastZero_loop bv i)"

definition lastZero :: "bitvector \<Rightarrow> nat \<Rightarrow> nat" where
  "lastZero bv pos =
     (let position = (if pos = size_max then num_bits bv else pos)
      in if position = 0 then num_bits bv
         else let array_idx = (position - 1) div 64
              in if position mod 64 \<noteq> 0 then
                   (let val = NOT (word_at bv array_idx OR NOT (push_bit (64 - position mod 64) (- 1)))
                    in if val \<noteq> 0 then push_bit 6 (array_idx + 1) - trailing_zero_count val - 1
                       else if array_idx \<noteq> 0 then lastZero_loop bv (array_idx - 1) else num_bits bv)
                 else lastZero_loop bv array_idx)"

section \<open>Specifications of the searches\<close>

text \<open>\<open>first_from P p n\<close> is the first position of \<open>[p, n)\<close> with \<open>P\<close>, \<open>last_before P p n\<close> the last position
  below \<open>p\<close> with \<open>P\<close>; both are \<open>n\<close> when there is none.\<close>

definition first_from :: "(nat \<Rightarrow> bool) \<Rightarrow> nat \<Rightarrow> nat \<Rightarrow> nat" where
  "first_from P p n = (case filter P [p..<n] of [] \<Rightarrow> n | i # _ \<Rightarrow> i)"

definition last_before :: "(nat \<Rightarrow> bool) \<Rightarrow> nat \<Rightarrow> nat \<Rightarrow> nat" where
  "last_before P p n = (case rev (filter P [0..<p]) of [] \<Rightarrow> n | i # _ \<Rightarrow> i)"

lemma filter_upt_first:
  assumes "p \<le> r" "r < n" "P r" "\<And>i. p \<le> i \<Longrightarrow> i < r \<Longrightarrow> \<not> P i"
  shows "\<exists>rest. filter P [p..<n] = r # rest"
proof -
  have "[p..<n] = [p..<r] @ r # [Suc r..<n]"
    using assms(1,2) by (metis le_add_diff_inverse less_imp_le upt_add_eq_append upt_conv_Cons)
  moreover have "filter P [p..<r] = []" using assms(4) by (simp add: filter_empty_conv)
  ultimately show ?thesis using assms(3) by simp
qed

lemma first_from_eqI:
  assumes "\<And>i. p \<le> i \<Longrightarrow> i < r \<Longrightarrow> i < n \<Longrightarrow> \<not> P i" and "r = n \<or> (p \<le> r \<and> r < n \<and> P r)"
  shows "first_from P p n = r"
proof (cases "p \<le> r \<and> r < n \<and> P r")
  case True
  then obtain rest where "filter P [p..<n] = r # rest"
    using filter_upt_first [of p r n P] assms(1) by (meson less_trans)
  then show ?thesis by (simp add: first_from_def)
next
  case False
  then have "r = n" using assms(2) by blast
  then have "filter P [p..<n] = []" using assms(1) by (simp add: filter_empty_conv)
  then show ?thesis using \<open>r = n\<close> by (simp add: first_from_def)
qed

lemma first_from_spec:
  assumes "p \<le> n"
  shows "p \<le> first_from P p n" "first_from P p n \<le> n"
    and "first_from P p n < n \<Longrightarrow> P (first_from P p n)"
    and "p \<le> i \<Longrightarrow> i < first_from P p n \<Longrightarrow> \<not> P i"
proof -
  have "p \<le> first_from P p n \<and> first_from P p n \<le> n \<and> (first_from P p n < n \<longrightarrow> P (first_from P p n))
    \<and> (\<forall>i. p \<le> i \<longrightarrow> i < first_from P p n \<longrightarrow> \<not> P i)"
  proof (cases "\<exists>i. p \<le> i \<and> i < n \<and> P i")
    case True
    define r where "r = (LEAST i. p \<le> i \<and> i < n \<and> P i)"
    have L: "p \<le> r \<and> r < n \<and> P r" unfolding r_def using True by (rule LeastI_ex)
    have N: "\<not> P i" if "p \<le> i" "i < r" for i
      using not_less_Least [of i "\<lambda>i. p \<le> i \<and> i < n \<and> P i"] that L unfolding r_def by auto
    have "first_from P p n = r" by (rule first_from_eqI) (use N L in auto)
    then show ?thesis using L N by auto
  next
    case False
    then have "first_from P p n = n" by (intro first_from_eqI) auto
    then show ?thesis using False assms by auto
  qed
  then show "p \<le> first_from P p n" "first_from P p n \<le> n"
    and "first_from P p n < n \<Longrightarrow> P (first_from P p n)"
    and "p \<le> i \<Longrightarrow> i < first_from P p n \<Longrightarrow> \<not> P i"
    by blast+
qed

lemma filter_upt_last:
  assumes "r < p" "P r" "\<And>i. r < i \<Longrightarrow> i < p \<Longrightarrow> \<not> P i"
  shows "\<exists>rest. rev (filter P [0..<p]) = r # rest"
proof -
  have "[0..<p] = [0..<r] @ r # [Suc r..<p]"
    using assms(1) upt_add_eq_append [of 0 r "p - r"] by (simp add: upt_conv_Cons)
  moreover have "filter P [Suc r..<p] = []" using assms(3) by (simp add: filter_empty_conv)
  ultimately show ?thesis using assms(2) by simp
qed

lemma last_before_eqI:
  assumes "r < p \<Longrightarrow> P r" and "\<And>i. i < p \<Longrightarrow> r < i \<or> p \<le> r \<Longrightarrow> \<not> P i" and "p \<le> r \<Longrightarrow> r = n"
  shows "last_before P p n = r"
proof (cases "r < p")
  case True
  then obtain rest where "rev (filter P [0..<p]) = r # rest"
    using filter_upt_last [of r p P] assms by metis
  then show ?thesis by (simp add: last_before_def)
next
  case False
  then have "filter P [0..<p] = []" using assms(2) by (simp add: filter_empty_conv)
  then show ?thesis using False assms(3) by (simp add: last_before_def)
qed

section \<open>Counting queries\<close>

lemma ex_word_nonzero: "(\<exists>j<num_words bv. word_at bv j \<noteq> 0) \<longleftrightarrow> (\<exists>i. bit_at bv i)"
proof
  assume "\<exists>j<num_words bv. word_at bv j \<noteq> 0"
  then obtain j k where "j < num_words bv" "hbit (word_at bv j) k" by (auto simp: word_nonzero_hbit)
  moreover have "k < 64" using hbit_less [OF \<open>hbit (word_at bv j) k\<close>] by simp
  ultimately have "bit_at bv (64 * j + k)" by (simp flip: hbit_word_at)
  then show "\<exists>i. bit_at bv i" ..
next
  assume "\<exists>i. bit_at bv i"
  then obtain i where "i < 64 * num_words bv" "hbit (word_at bv (i div 64)) (i mod 64)"
    by (auto simp: bit_at_def)
  then show "\<exists>j<num_words bv. word_at bv j \<noteq> 0"
    by (intro exI [of _ "i div 64"]) (auto simp: word_nonzero_hbit less_word_iff)
qed

lemma bv_any_set: "bv_inv bv \<Longrightarrow> bv_any bv \<longleftrightarrow> bv_set bv \<noteq> {}"
  using ex_word_nonzero [of bv] by (auto simp: bv_any_def list_ex_length bv_inv_set)

definition array_bits :: "u64 list \<Rightarrow> nat set" where
  "array_bits ws = {i. i < 64 * length ws \<and> hbit (ws ! (i div 64)) (i mod 64)}"

lemma array_bits_snoc:
  "array_bits (ws @ [w]) = array_bits ws \<union> (\<lambda>k. 64 * length ws + k) ` {k. hbit w k}"
proof (intro set_eqI)
  fix i :: nat
  obtain q k where i: "i = 64 * q + k" "k < 64" "i div 64 = q" "i mod 64 = k" by (rule word_decomp)
  have "i \<in> (\<lambda>k. 64 * length ws + k) ` {k. hbit w k} \<longleftrightarrow> q = length ws \<and> hbit w k"
  proof
    assume "i \<in> (\<lambda>k. 64 * length ws + k) ` {k. hbit w k}"
    then obtain l where l: "i = 64 * length ws + l" "hbit w l" by auto
    then have "l < 64" using hbit_less by fastforce
    then have "i div 64 = length ws" "i mod 64 = l" using l(1) by simp_all
    then show "q = length ws \<and> hbit w k" using l i by simp
  qed (use i in auto)
  then show "i \<in> array_bits (ws @ [w]) \<longleftrightarrow>
      i \<in> array_bits ws \<union> (\<lambda>k. 64 * length ws + k) ` {k. hbit w k}"
    by (auto simp: array_bits_def less_word_iff i nth_append)
qed

lemma card_array_bits: "foldl (\<lambda>count w. count + population_count w) 0 ws = card (array_bits ws)"
proof (induction ws rule: rev_induct)
  case Nil
  then show ?case by (simp add: array_bits_def)
next
  case (snoc w ws)
  have "card ((\<lambda>k. 64 * length ws + k) ` {k. hbit w k}) = population_count w"
    by (simp add: population_count_hbit card_image)
  moreover have "array_bits ws \<inter> (\<lambda>k. 64 * length ws + k) ` {k. hbit w k} = {}"
    by (auto simp: array_bits_def)
  moreover have "finite (array_bits ws)" by (simp add: array_bits_def)
  ultimately show ?case using snoc by (simp add: array_bits_snoc card_Un_disjoint)
qed

lemma onesCount_card: "bv_inv bv \<Longrightarrow> onesCount bv = card (bv_set bv)"
  by (simp add: onesCount_def card_array_bits bv_inv_set array_bits_def bit_at_def)

lemma word64_eq_iff: "v = w \<longleftrightarrow> (\<forall>k<64. hbit v k = hbit w k)" for v w :: u64
  by (rule iffI, simp) (rule word_eq_hbitI, simp)

lemma word_all_ones: "w = - 1 \<longleftrightarrow> (\<forall>k<64. hbit w k)" for w :: u64
  by (simp only: word64_eq_iff hbit_max) simp

lemma bv_all_set:
  assumes "bv_inv bv"
  shows "bv_all bv \<longleftrightarrow> bv_set bv = {..<num_bits bv}"
proof -
  define t where "t = num_bits bv mod 64"
  define m where "m = num_bits bv div 64"
  have wf: "bv_wf bv" using assms ..
  have size: "num_words bv = m + (if t \<noteq> 0 then 1 else 0)"
    using wf by (simp add: bv_wf_def data_array_size_def t_def m_def)
  have "(\<forall>j<m. word_at bv j = - 1) \<longleftrightarrow> (\<forall>i<64 * m. bit_at bv i)"
  proof -
    have "(\<forall>j<m. \<forall>k<64. bit_at bv (64 * j + k)) \<longleftrightarrow> (\<forall>i<64 * m. bit_at bv i)"
    proof (intro iffI allI impI)
      fix i assume "\<forall>j<m. \<forall>k<64. bit_at bv (64 * j + k)" "i < 64 * m"
      moreover have "i = 64 * (i div 64) + i mod 64" "i mod 64 < 64" by simp_all
      ultimately show "bit_at bv i" by (metis less_word_iff)
    next
      fix j k :: nat
      assume "\<forall>i<64 * m. bit_at bv i" "j < m" "k < 64"
      moreover have "64 * j + k < 64 * m" using \<open>j < m\<close> \<open>k < 64\<close> by simp
      ultimately show "bit_at bv (64 * j + k)" by blast
    qed
    then show ?thesis using size by (simp add: word_all_ones hbit_word_at)
  qed
  moreover have "word_at bv m = push_bit (64 - t) (- 1) \<longleftrightarrow> (\<forall>k<t. bit_at bv (64 * m + k))" if "t \<noteq> 0"
  proof -
    have m_in: "m < num_words bv" using that size by simp
    have tl: "t < 64" by (simp add: t_def)
    have pad: "\<not> hbit (word_at bv m) k" if "t \<le> k" for k
    proof (cases "k < 64")
      case True
      have "num_bits bv \<le> 64 * m + k" using that div_mod_64 [of "num_bits bv"] unfolding t_def m_def by linarith
      then show ?thesis using bv_inv_padding [OF assms] True m_in by (simp add: hbit_word_at)
    qed simp
    have hm: "hbit (push_bit (64 - t) (- 1 :: u64)) k \<longleftrightarrow> k < t" for k
      using hbit_high_mask [of t k, where 'a=64] tl by simp
    have "word_at bv m = push_bit (64 - t) (- 1) \<longleftrightarrow> (\<forall>k<64. hbit (word_at bv m) k \<longleftrightarrow> k < t)"
      by (simp only: word64_eq_iff hm)
    also have "\<dots> \<longleftrightarrow> (\<forall>k<t. hbit (word_at bv m) k)"
      using pad tl not_less [of _ t] less_trans [OF _ tl] by blast
    also have "\<dots> \<longleftrightarrow> (\<forall>k<t. bit_at bv (64 * m + k))"
      using hbit_word_at [OF less_trans [OF _ tl] m_in] by blast
    finally show ?thesis .
  qed
  moreover have "(\<forall>i<num_bits bv. bit_at bv i) \<longleftrightarrow> (\<forall>i<64 * m. bit_at bv i) \<and> (\<forall>k<t. bit_at bv (64 * m + k))"
  proof -
    have n: "num_bits bv = 64 * m + t" by (simp add: m_def t_def)
    have "(\<forall>i<a + t. P i) \<longleftrightarrow> (\<forall>i<a. P i) \<and> (\<forall>k<t. P (a + k))" for a :: nat and P
      by (metis add_diff_inverse_nat nat_add_left_cancel_less trans_less_add1)
    then show ?thesis unfolding n .
  qed
  moreover have "bv_set bv = {..<num_bits bv} \<longleftrightarrow> (\<forall>i<num_bits bv. bit_at bv i)"
    using bv_set_bit_at [OF wf] by auto
  ultimately show ?thesis
    using size by (auto simp: bv_all_def Let_def list_all_length t_def [symmetric])
qed

section \<open>Searches\<close>

lemma push_6_or: "k < 64 \<Longrightarrow> push_bit 6 (j::nat) OR k = 64 * j + k"
proof -
  assume "k < 64"
  then have k: "take_bit 6 k = k" by (simp add: take_bit_nat_eq_self_iff)
  have "push_bit 6 j AND take_bit 6 k = 0"
    by (rule bit_eqI) (simp add: bit_simps bit_push_bit_iff_nat)
  then have "push_bit 6 j + take_bit 6 k = push_bit 6 j OR take_bit 6 k" by (rule disjunctive_add_eq_or)
  then show ?thesis using k by (simp add: push_bit_eq_mult mult.commute)
qed

text \<open>What a forward search from \<open>p\<close> must return on the bits of an array; and a backward search below \<open>p\<close>.\<close>

definition found_first :: "(nat \<Rightarrow> bool) \<Rightarrow> nat \<Rightarrow> nat \<Rightarrow> nat \<Rightarrow> bool" where
  "found_first P p n r \<longleftrightarrow>
     (p \<le> r \<and> P r \<and> (\<forall>i. p \<le> i \<and> i < r \<longrightarrow> \<not> P i)) \<or> (r = n \<and> (\<forall>i\<ge>p. \<not> P i))"

definition found_last :: "(nat \<Rightarrow> bool) \<Rightarrow> nat \<Rightarrow> nat \<Rightarrow> nat \<Rightarrow> bool" where
  "found_last P p n r \<longleftrightarrow>
     (r < p \<and> P r \<and> (\<forall>i. r < i \<and> i < p \<longrightarrow> \<not> P i)) \<or> (r = n \<and> (\<forall>i<p. \<not> P i))"

lemma word_first:
  fixes w :: u64
  assumes "w \<noteq> 0"
  obtains k where "leading_zero_count w = k" "k < 64" "hbit w k" "\<And>l. l < k \<Longrightarrow> \<not> hbit w l"
proof -
  obtain j where "hbit w j" using assms by (auto simp: word_nonzero_hbit)
  from leading_zero_count_hbit [OF this] show thesis
    using that [of "leading_zero_count w"] hbit_less [of w "leading_zero_count w"] by simp
qed

lemma word_last:
  fixes w :: u64 and j :: nat
  assumes "w \<noteq> 0"
  obtains k where "k < 64" "push_bit 6 (j + 1) - trailing_zero_count w - 1 = 64 * j + k" "hbit w k"
    "\<And>l. k < l \<Longrightarrow> \<not> hbit w l"
proof -
  obtain i where "hbit w i" using assms by (auto simp: word_nonzero_hbit)
  note t = trailing_zero_count_hbit [OF this]
  have "push_bit 6 (j + 1) - trailing_zero_count w - 1 = 64 * j + (63 - trailing_zero_count w)"
    using t(1) by (simp add: push_bit_eq_mult)
  then show thesis using that [of "63 - trailing_zero_count w"] t by simp
qed

lemma found_first_skip:
  "found_first P q n r \<Longrightarrow> p \<le> q \<Longrightarrow> (\<And>i. p \<le> i \<Longrightarrow> i < q \<Longrightarrow> \<not> P i) \<Longrightarrow> found_first P p n r"
  unfolding found_first_def by (meson le_trans not_le)

lemma found_last_skip:
  "found_last P q n r \<Longrightarrow> q \<le> p \<Longrightarrow> (\<And>i. q \<le> i \<Longrightarrow> i < p \<Longrightarrow> \<not> P i) \<Longrightarrow> found_last P p n r"
  unfolding found_last_def by (meson less_le_trans not_le)

lemma found_first_hit: "P r \<Longrightarrow> p \<le> r \<Longrightarrow> (\<And>i. p \<le> i \<Longrightarrow> i < r \<Longrightarrow> \<not> P i) \<Longrightarrow> found_first P p n r"
  by (simp add: found_first_def)

lemma found_first_none: "(\<And>i. p \<le> i \<Longrightarrow> \<not> P i) \<Longrightarrow> found_first P p n n"
  by (simp add: found_first_def)

lemma found_last_hit: "P r \<Longrightarrow> r < p \<Longrightarrow> (\<And>i. r < i \<Longrightarrow> i < p \<Longrightarrow> \<not> P i) \<Longrightarrow> found_last P p n r"
  by (simp add: found_last_def)

text \<open>Inside word \<open>j\<close>, the bits outside positions \<open>[lo, hi)\<close> of the word do not matter.\<close>

lemma bit_in_word: "i div 64 = j \<Longrightarrow> j < num_words bv \<Longrightarrow> bit_at bv i = hbit (word_at bv j) (i mod 64)"
  by (auto simp: bit_at_def less_word_iff)

lemma firstOne_loop_found:
  "found_first (bit_at bv) (64 * idx) n (firstOne_loop n idx (drop idx (data_array bv)))"
proof (induction "num_words bv - idx" arbitrary: idx)
  case 0
  then have "drop idx (data_array bv) = []" "\<not> i < 64 * num_words bv" if "64 * idx \<le> i" for i
    using that by simp_all
  then have "drop idx (data_array bv) = []" and "\<And>i. 64 * idx \<le> i \<Longrightarrow> \<not> bit_at bv i"
    using 0 by (auto dest: bit_at_less)
  then show ?case by (simp add: found_first_none)
next
  case (Suc m)
  then have idx: "idx < num_words bv" by simp
  then have drop: "drop idx (data_array bv) = word_at bv idx # drop (Suc idx) (data_array bv)"
    by (rule Cons_nth_drop_Suc [symmetric])
  show ?case
  proof (cases "word_at bv idx = 0")
    case True
    have skip: "\<not> bit_at bv i" if "64 * idx \<le> i" "i < 64 * Suc idx" for i
    proof -
      have "i div 64 = idx" using that by (simp add: le_word_iff less_word_iff)
      then show ?thesis using idx True by (simp add: bit_in_word)
    qed
    have "found_first (bit_at bv) (64 * Suc idx) n
        (firstOne_loop n (Suc idx) (drop (Suc idx) (data_array bv)))"
      by (rule Suc.hyps(1)) (use Suc.hyps(2) in simp)
    then have "found_first (bit_at bv) (64 * idx) n
        (firstOne_loop n (Suc idx) (drop (Suc idx) (data_array bv)))"
      by (rule found_first_skip) (simp, rule skip)
    then show ?thesis unfolding drop using True by simp
  next
    case False
    obtain k where k: "leading_zero_count (word_at bv idx) = k" "k < 64" "hbit (word_at bv idx) k"
      "\<And>l. l < k \<Longrightarrow> \<not> hbit (word_at bv idx) l"
      using word_first [OF False] by blast
    have "found_first (bit_at bv) (64 * idx) n (64 * idx + k)"
    proof (rule found_first_hit)
      show "bit_at bv (64 * idx + k)" using k idx by (simp add: bit_at_def)
      fix i assume i: "64 * idx \<le> i" "i < 64 * idx + k"
      then have "i div 64 = idx" "i mod 64 < k" using k(2) aligned_range_split [of idx i k] by auto
      then show "\<not> bit_at bv i" using k(4) idx by (simp add: bit_in_word)
    qed simp
    then show ?thesis unfolding drop using False k(1,2) by (simp add: push_6_or)
  qed
qed

lemma firstOne_found:
  assumes "p < num_bits bv" "p < 64 * num_words bv"
  shows "found_first (bit_at bv) p (num_bits bv) (firstOne bv p)"
proof -
  obtain q l where p: "p = 64 * q + l" "l < 64" "p div 64 = q" "p mod 64 = l" by (rule word_decomp)
  note loop = firstOne_loop_found [of bv _ "num_bits bv"]
  show ?thesis
  proof (cases "l = 0")
    case True
    then show ?thesis using loop [of q] assms(1) p by (simp add: firstOne_def Let_def)
  next
    case False
    define w where "w = word_at bv q AND drop_bit l (- 1)"
    have q_in: "q < num_words bv" using assms(2) p by (simp add: less_word_iff)
    have w: "hbit w k \<longleftrightarrow> l \<le> k \<and> hbit (word_at bv q) k" for k
      using hbit_less [of "word_at bv q" k] by (auto simp: w_def hbit_and hbit_drop hbit_max hbit_mask)
    have base: "p - l = push_bit 6 q" using p(1) by (simp add: push_bit_eq_mult)
    show ?thesis
    proof (cases "w = 0")
      case True
      have skip: "\<not> bit_at bv i" if "p \<le> i" "i < 64 * Suc q" for i
      proof -
        have i: "i div 64 = q" using that p(1) by auto
        then have "l \<le> i mod 64" using that(1) p(1) by (metis add_le_cancel_left mult_div_mod_eq)
        then show ?thesis using True w [of "i mod 64"] i q_in by (simp add: bit_in_word)
      qed
      have "p \<le> 64 * Suc q" using p(1,2) by simp
      with loop have "found_first (bit_at bv) p (num_bits bv)
          (firstOne_loop (num_bits bv) (Suc q) (drop (Suc q) (data_array bv)))"
        by (rule found_first_skip) (rule skip)
      moreover have "(p - l + 64) div 64 = Suc q" using p(1) by simp
      ultimately show ?thesis
        using True [unfolded w_def] False assms(1) p(3,4) by (simp add: firstOne_def Let_def)
    next
      case nz: False
      obtain k where k: "leading_zero_count w = k" "k < 64" "hbit w k" "\<And>l. l < k \<Longrightarrow> \<not> hbit w l"
        using word_first [OF nz] by blast
      have "found_first (bit_at bv) p (num_bits bv) (64 * q + k)"
      proof (rule found_first_hit)
        show "bit_at bv (64 * q + k)" using k(2,3) w q_in by (simp add: bit_at_def)
        show "p \<le> 64 * q + k" using k(3) w p(1) by simp
        fix i assume i: "p \<le> i" "i < 64 * q + k"
        then have "i div 64 = q" "i mod 64 < k" using k(2) p(1) aligned_range_split [of q i k] by auto
        moreover from this have "l \<le> i mod 64" using i(1) p(1) by (metis add_le_cancel_left mult_div_mod_eq)
        ultimately show "\<not> bit_at bv i" using k(4) w q_in by (simp add: bit_in_word)
      qed
      then show ?thesis
        using nz [unfolded w_def] False assms(1) p(3,4) k(1) [unfolded w_def] k(2) base
        by (simp add: firstOne_def Let_def push_6_or)
    qed
  qed
qed

text \<open>\<open>firstZero\<close> is \<open>firstOne\<close> on the complemented words.\<close>

definition complement :: "bitvector \<Rightarrow> bitvector" where
  "complement bv = bv\<lparr>data_array := map NOT (data_array bv)\<rparr>"

lemma complement_simps [simp]:
  "num_words (complement bv) = num_words bv" "num_bits (complement bv) = num_bits bv"
  by (simp_all add: complement_def)

lemma word_at_complement: "j < num_words bv \<Longrightarrow> word_at (complement bv) j = NOT (word_at bv j)"
  by (simp add: complement_def)

lemma bit_at_complement: "bit_at (complement bv) i \<longleftrightarrow> i < 64 * num_words bv \<and> \<not> bit_at bv i"
  by (auto simp: bit_at_def word_at_complement less_word_iff hbit_not)

lemma firstZero_loop_complement: "firstZero_loop n idx ws = firstOne_loop n idx (map NOT ws)"
  by (induction ws arbitrary: idx) (simp_all add: Let_def)

lemma firstZero_complement:
  assumes "p < 64 * num_words bv"
  shows "firstZero bv p = firstOne (complement bv) p"
proof -
  have m: "NOT (w OR push_bit (64 - l) (- 1)) = NOT w AND drop_bit l (- 1)" if "l < 64" for w :: u64 and l
  proof (rule word_eq_hbitI)
    fix k assume "k < LENGTH(64)"
    moreover have "hbit (push_bit (64 - l) (- 1 :: u64)) k \<longleftrightarrow> k < l"
      using hbit_high_mask [of l k, where 'a=64] that by simp
    ultimately show "hbit (NOT (w OR push_bit (64 - l) (- 1))) k = hbit (NOT w AND drop_bit l (- 1)) k"
      by (auto simp: hbit_not hbit_or hbit_and hbit_drop hbit_max)
  qed
  have "drop idx (data_array (complement bv)) = map NOT (drop idx (data_array bv))" for idx
    by (simp add: complement_def drop_map)
  then show ?thesis
    using assms m by (simp add: firstZero_def firstOne_def Let_def firstZero_loop_complement
        word_at_complement less_word_iff)
qed

theorem firstOne_first:
  assumes "bv_inv bv" "p < num_bits bv"
  shows "firstOne bv p = first_from (getBit bv) p (num_bits bv)"
proof (rule first_from_eqI [symmetric])
  have wf: "bv_wf bv" using assms(1) ..
  have f: "found_first (bit_at bv) p (num_bits bv) (firstOne bv p)"
    using assms bv_wf_less [OF wf assms(2)] by (intro firstOne_found)
  have in_range: "bit_at bv i \<longleftrightarrow> getBit bv i" if "i < num_bits bv" for i
    using getBit_bit_at [OF bv_wf_less [OF wf that]] by simp
  show "\<not> getBit bv i" if "p \<le> i" "i < firstOne bv p" "i < num_bits bv" for i
    using f that in_range unfolding found_first_def by blast
  show "firstOne bv p = num_bits bv \<or>
      p \<le> firstOne bv p \<and> firstOne bv p < num_bits bv \<and> getBit bv (firstOne bv p)"
    using f in_range bv_inv_padding [OF assms(1)] unfolding found_first_def by (metis not_less)
qed

theorem firstZero_first:
  assumes "bv_inv bv" "p < num_bits bv"
  shows "firstZero bv p = first_from (\<lambda>i. \<not> getBit bv i) p (num_bits bv)"
proof (rule first_from_eqI [symmetric])
  have wf: "bv_wf bv" using assms(1) ..
  have p_in: "p < 64 * num_words bv" using bv_wf_less [OF wf assms(2)] .
  define r where "r = firstZero bv p"
  have in_range: "bit_at bv i \<longleftrightarrow> getBit bv i" if "i < num_bits bv" for i
    using getBit_bit_at [OF bv_wf_less [OF wf that]] by simp
  have "found_first (bit_at (complement bv)) p (num_bits bv) r"
    unfolding r_def firstZero_complement [OF p_in]
    using firstOne_found [of p "complement bv"] assms(2) p_in by simp
  then have f: "p \<le> r \<and> r < 64 * num_words bv \<and> \<not> bit_at bv r \<and>
        (\<forall>i. p \<le> i \<and> i < r \<longrightarrow> i < 64 * num_words bv \<longrightarrow> bit_at bv i) \<or>
      r = num_bits bv \<and> (\<forall>i\<ge>p. i < 64 * num_words bv \<longrightarrow> bit_at bv i)"
    unfolding found_first_def bit_at_complement by blast
  have le: "r \<le> num_bits bv"
  proof (rule ccontr)
    assume "\<not> r \<le> num_bits bv"
    then have "num_bits bv < 64 * num_words bv \<and> bit_at bv (num_bits bv)"
      using f assms(2) by auto
    then show False using bv_inv_padding [OF assms(1)] by blast
  qed
  show "\<not> \<not> getBit bv i" if "p \<le> i" "i < firstZero bv p" "i < num_bits bv" for i
    using f that in_range bv_wf_less [OF wf] unfolding r_def [symmetric] by blast
  show "firstZero bv p = num_bits bv \<or>
      p \<le> firstZero bv p \<and> firstZero bv p < num_bits bv \<and> \<not> getBit bv (firstZero bv p)"
    using f in_range le unfolding r_def [symmetric] by (cases "r = num_bits bv") auto
qed

lemma lastOne_word_hit:
  fixes w :: u64
  assumes "w \<noteq> 0" "j < num_words bv" "h \<le> 64" "0 < h" "\<And>k. hbit w k \<longleftrightarrow> k < h \<and> hbit (word_at bv j) k"
  shows "found_last (bit_at bv) (64 * j + h) n (push_bit 6 (j + 1) - trailing_zero_count w - 1)"
proof -
  obtain k where k: "k < 64" "push_bit 6 (j + 1) - trailing_zero_count w - 1 = 64 * j + k" "hbit w k"
    "\<And>l. k < l \<Longrightarrow> \<not> hbit w l"
    using word_last [OF assms(1), where j = j] by metis
  have "found_last (bit_at bv) (64 * j + h) n (64 * j + k)"
  proof (rule found_last_hit)
    show "bit_at bv (64 * j + k)" "64 * j + k < 64 * j + h" using k assms(2,5) by (simp_all add: bit_at_def)
    fix i assume i: "64 * j + k < i" "i < 64 * j + h"
    obtain q l where d: "i = 64 * q + l" "l < 64" "i div 64 = q" "i mod 64 = l" by (rule word_decomp)
    have "q = j" using i d(1,2) assms(3) by simp
    then have "k < l" "l < h" using i d(1) by simp_all
    then show "\<not> bit_at bv i" using k(4) assms(2,5) d(3,4) \<open>q = j\<close> by (simp add: bit_in_word)
  qed
  then show ?thesis unfolding k(2) .
qed

lemma lastOne_word_miss:
  assumes "j < num_words bv" "\<And>k. k < h \<Longrightarrow> \<not> hbit (word_at bv j) k" "h \<le> 64"
    and "64 * j \<le> i" "i < 64 * j + h"
  shows "\<not> bit_at bv i"
proof -
  obtain q l where d: "i = 64 * q + l" "l < 64" "i div 64 = q" "i mod 64 = l" by (rule word_decomp)
  then have "q = j" using assms(3-5) by simp
  then have "l < h" using d assms(5) by simp
  then show ?thesis using assms(1,2) bit_in_word [of i j bv] \<open>q = j\<close> d(3,4) by simp
qed

lemma lastOne_loop_found:
  "j < num_words bv \<Longrightarrow> found_last (bit_at bv) (64 * Suc j) (num_bits bv) (lastOne_loop bv j)"
proof (induction j)
  case 0
  show ?case
  proof (cases "word_at bv 0 = 0")
    case True
    then have "\<not> bit_at bv i" if "i < 64" for i
      using that 0 by (simp add: bit_in_word)
    then show ?thesis using True by (simp add: found_last_def)
  next
    case False
    have "found_last (bit_at bv) (64 * 0 + 64) (num_bits bv)
        (push_bit 6 (0 + 1) - trailing_zero_count (word_at bv 0) - 1)"
      by (rule lastOne_word_hit [OF False 0]) (use hbit_less [of "word_at bv 0"] in auto)
    then show ?thesis using False by (simp add: push_bit_eq_mult)
  qed
next
  case (Suc j)
  show ?case
  proof (cases "word_at bv (Suc j) = 0")
    case True
    have "found_last (bit_at bv) (64 * Suc j) (num_bits bv) (lastOne_loop bv j)" using Suc by simp
    then have "found_last (bit_at bv) (64 * Suc (Suc j)) (num_bits bv) (lastOne_loop bv j)"
      by (rule found_last_skip) (use lastOne_word_miss [OF Suc.prems, of 64] True in simp_all)
    then show ?thesis using True by simp
  next
    case False
    have "found_last (bit_at bv) (64 * Suc j + 64) (num_bits bv)
        (push_bit 6 (Suc j + 1) - trailing_zero_count (word_at bv (Suc j)) - 1)"
      by (rule lastOne_word_hit [OF False Suc.prems]) (use hbit_less [of "word_at bv (Suc j)"] in auto)
    then show ?thesis using False by (simp add: add.commute)
  qed
qed

lemma lastOne_found:
  assumes "p \<le> 64 * num_words bv" "p \<noteq> size_max"
  shows "found_last (bit_at bv) p (num_bits bv) (lastOne bv p)"
proof (cases "p = 0")
  case True
  then show ?thesis using assms by (simp add: lastOne_def found_last_def)
next
  case False
  obtain q l where p: "p = 64 * q + l" "l < 64" "p div 64 = q" "p mod 64 = l" by (rule word_decomp)
  show ?thesis
  proof (cases "l = 0")
    case True
    then obtain j where j: "q = Suc j" using False p(1) by (cases q) auto
    then have "(p - 1) div 64 = j" "j < num_words bv" using True p(1) assms(1) by simp_all
    then show ?thesis using lastOne_loop_found [of j bv] True False j p assms(2)
      by (simp add: lastOne_def)
  next
    case l: False
    define w where "w = word_at bv q AND push_bit (64 - l) (- 1)"
    have q_in: "q < num_words bv" using assms(1) p(1) l by linarith
    have idx: "(p - 1) div 64 = q" using p(1,2) l by simp
    have w: "hbit w k \<longleftrightarrow> k < l \<and> hbit (word_at bv q) k" for k
      using hbit_high_mask [of l k, where 'a=64] p(2) by (auto simp: w_def hbit_and)
    have code: "lastOne bv p =
       (if w \<noteq> 0 then push_bit 6 (q + 1) - trailing_zero_count w - 1
        else if q \<noteq> 0 then lastOne_loop bv (q - 1) else num_bits bv)"
      using False l assms(2) p(4) idx by (simp add: lastOne_def Let_def w_def)
    show ?thesis
    proof (cases "w = 0")
      case False
      then show ?thesis
        unfolding code using lastOne_word_hit [OF False q_in _ _ w] p(1,2) l by simp
    next
      case True
      have miss: "\<not> bit_at bv i" if "64 * q \<le> i" "i < p" for i
        using lastOne_word_miss [OF q_in, of l i] True w p(1,2) that by simp
      show ?thesis
      proof (cases q)
        case 0
        then show ?thesis unfolding code using True miss by (simp add: found_last_def)
      next
        case (Suc j)
        then have "found_last (bit_at bv) (64 * q) (num_bits bv) (lastOne_loop bv j)"
          using lastOne_loop_found [of j bv] q_in by simp
        then have "found_last (bit_at bv) p (num_bits bv) (lastOne_loop bv j)"
          by (rule found_last_skip) (use p(1) miss in simp_all)
        then show ?thesis unfolding code using True Suc by simp
      qed
    qed
  qed
qed

lemma size_max_big: "bv_wf bv \<Longrightarrow> p \<le> num_bits bv \<Longrightarrow> p \<noteq> size_max"
  by (auto simp: bv_wf_def size_max_def)

lemma lastOne_default: "lastOne bv size_max = lastOne bv (num_bits bv)"
  by (simp add: lastOne_def)

lemma last_before_found:
  assumes "found_last P p n r" "p \<le> n" "\<And>i. i < p \<Longrightarrow> P i \<longleftrightarrow> Q i"
  shows "last_before Q p n = r"
  by (rule last_before_eqI) (use assms in \<open>auto simp: found_last_def\<close>)

theorem lastOne_last:
  assumes "bv_wf bv" "p \<le> num_bits bv"
  shows "lastOne bv p = last_before (getBit bv) p (num_bits bv)"
  using lastOne_found [OF bv_wf_le [OF assms] size_max_big [OF assms]] assms(2)
  by (intro last_before_found [symmetric])
    (simp_all add: getBit_bit_at bv_wf_less [OF assms(1)])

lemma lastZero_loop_complement: "j < num_words bv \<Longrightarrow> lastZero_loop bv j = lastOne_loop (complement bv) j"
  by (induction j) (simp_all add: Let_def word_at_complement)

lemma lastZero_complement:
  assumes "p \<le> 64 * num_words bv" "p \<noteq> size_max"
  shows "lastZero bv p = lastOne (complement bv) p"
proof (cases "p = 0")
  case False
  then have "(p - 1) div 64 < num_words bv" using assms(1) by (simp flip: less_word_iff)
  moreover have "NOT (w OR NOT m) = NOT w AND m" for w m :: u64 by simp
  ultimately show ?thesis using False assms(2)
    by (simp add: lastZero_def lastOne_def Let_def word_at_complement lastZero_loop_complement)
qed (use assms(2) in \<open>simp add: lastZero_def lastOne_def\<close>)

theorem lastZero_last:
  assumes "bv_wf bv" "p \<le> num_bits bv"
  shows "lastZero bv p = last_before (\<lambda>i. \<not> getBit bv i) p (num_bits bv)"
proof -
  note le = bv_wf_le [OF assms] size_max_big [OF assms]
  have "found_last (bit_at (complement bv)) p (num_bits bv) (lastZero bv p)"
    using lastOne_found [of p "complement bv"] le by (simp add: lastZero_complement)
  then show ?thesis
    by (rule last_before_found [OF _ assms(2), symmetric])
      (use assms bv_wf_less [OF assms(1)] in \<open>simp add: bit_at_complement getBit_bit_at\<close>)
qed

end
