(* ===== verification/BitProps.thy ===== *)
theory BitProps
  imports BitShift BitSearch
begin

text \<open>
  The properties of the bit vector: what each operation does to the set the vector represents, that
  it keeps the invariant, and when it stores outside the array.
\<close>

section \<open>Sizes\<close>

lemma capacity_words: "BytesNeeded False n = data_array_size n * 8"
  by (simp add: BytesNeeded_def data_array_size_def)

lemma MaxCapacity_words: "MaxCapacityForBytes False (m * 8) = 64 * m"
  by (simp add: MaxCapacityForBytes_def)

lemma size_least: "n \<le> 64 * m \<Longrightarrow> data_array_size n \<le> m"
  using data_array_size_mono [of n "64 * m"] by (simp add: data_array_size_def)

lemma MaxCapacity_long: "MaxCapacityForBytes False b = 64 * (b div 8)"
  by (simp add: MaxCapacityForBytes_def)

text \<open>The bytes reserved for \<open>n\<close> bits hold at least \<open>n\<close> bits, and no smaller number of bytes does.\<close>

theorem capacity_round_trip:
  "n \<le> MaxCapacityForBytes e (BytesNeeded e n) \<and>
   (n \<le> MaxCapacityForBytes e b \<longrightarrow> BytesNeeded e n \<le> b)"
proof (cases "e \<and> n < 33")
  case True
  then consider "n = 0" | "0 < n" "n < 9" | "9 \<le> n" "n < 17" | "17 \<le> n" "n < 33" by linarith
  then show ?thesis
    using True by cases (auto simp: BytesNeeded_def MaxCapacityForBytes_def split: if_splits)
next
  case False
  have need: "BytesNeeded e n = data_array_size n * 8"
    using False by (auto simp: BytesNeeded_def data_array_size_def)
  have "e \<longrightarrow> 0 < data_array_size n" using False by (auto simp: data_array_size_def)
  then have "MaxCapacityForBytes e (data_array_size n * 8) = 64 * data_array_size n"
    by (auto simp: MaxCapacityForBytes_def)
  moreover have "data_array_size n \<le> b div 8" if "n \<le> MaxCapacityForBytes e b"
  proof -
    have "n \<le> 64 * (b div 8)"
      using that False by (auto simp: MaxCapacityForBytes_def split: if_splits)
    then show ?thesis by (rule size_least)
  qed
  ultimately show ?thesis
    unfolding need using data_array_size_bounds(1) [of n] by auto
qed

theorem capacity_round_trip_witness:
  "20 \<le> MaxCapacityForBytes True (BytesNeeded True 20) \<and> BytesNeeded True 20 \<le> 4 \<and> 20 \<le> MaxCapacityForBytes True 4 \<and>
   BytesNeeded True 20 = 4 \<and> BytesNeeded False 20 = 8"
  using capacity_round_trip [of 20 True 4] by (simp add: BytesNeeded_def MaxCapacityForBytes_def)

section \<open>The represented set\<close>

text \<open>
  C2: setting one bit or a range inside the vector keeps the invariant and adds the positions to the
  represented set, or removes them.
\<close>

theorem bit_setters:
  assumes "bv_inv bv" "i < num_bits bv" "s + n \<le> num_bits bv"
  shows "bv_inv (setBit i v bv) \<and>
    bv_set (setBit i v bv) = (if v then insert i (bv_set bv) else bv_set bv - {i}) \<and>
    bv_inv (setBitRange s n v bv) \<and>
    bv_set (setBitRange s n v bv) = (if v then bv_set bv \<union> {s..<s + n} else bv_set bv - {s..<s + n})"
  using assms by (simp only: setBit_inv setBit_set setBitRange_inv setBitRange_set simp_thms)

theorem bit_setters_witness:
  "bv_set (setBitRange 3 60 True (BitVector_new (\<lambda>_. 7) 70)) = {3..<63}"
  using bit_setters [of "BitVector_new (\<lambda>_. 7) 70" 69 3 60 True] BitVector_new_inv [of 70 "\<lambda>_. 7"] by simp

text \<open>
  C3: a range store writes outside the allocated words exactly when the range ends at the end of a
  vector whose length is a multiple of 64, and is aligned or longer than its first word.
\<close>

theorem setBitRange_out_of_bounds:
  assumes "bv_wf bv" "start + len \<le> num_bits bv" "start < num_bits bv \<or> num_bits bv = 0"
  shows "stray (setBitRange start len v bv) \<longleftrightarrow>
    stray bv \<or> (start + len = num_bits bv \<and> num_bits bv mod 64 = 0 \<and>
                 (start mod 64 = 0 \<or> 64 < start mod 64 + len))"
  using assms by (rule setBitRange_stray)

theorem setBitRange_out_of_bounds_witness:
  "stray (setBitRange 0 128 True (BitVector_new (\<lambda>_. 0) 128)) \<and>
   \<not> stray (setBitRange 0 127 True (BitVector_new (\<lambda>_. 0) 128))"
  using setBitRange_out_of_bounds [of "BitVector_new (\<lambda>_. 0) 128" 0 128 True]
    setBitRange_out_of_bounds [of "BitVector_new (\<lambda>_. 0) 128" 0 127 True]
    BitVector_new_inv [of 128 "\<lambda>_. 0", THEN bv_inv_wf] by simp

text \<open>
  C1: on vectors of one length, the whole-vector operations are the set operations; they keep the
  invariant and store nowhere else.
\<close>

theorem set_algebra:
  assumes "bv_inv bv" "bv_inv b" "num_bits b = num_bits bv"
  shows "bv_set (flipBits bv) = {..<num_bits bv} - bv_set bv \<and>
    bv_set (intersectWith b bv) = bv_set bv \<inter> bv_set b \<and>
    bv_set (unionWith b bv) = bv_set bv \<union> bv_set b \<and>
    bv_set (unsetFrom b bv) = bv_set bv - bv_set b \<and>
    bv_set (assignFrom b bv) = bv_set b \<and> bv_set (clear bv) = {} \<and>
    (\<forall>r \<in> {flipBits bv, intersectWith b bv, unionWith b bv, unsetFrom b bv, assignFrom b bv, clear bv}.
       bv_inv r \<and> num_bits r = num_bits bv \<and> stray r = stray bv)"
proof -
  have "bv_set (clear bv) = {}"
    using bv_inv_set [OF clear_inv [OF bv_inv_wf [OF assms(1)]]] bit_at_clear [OF bv_inv_wf [OF assms(1)]] by simp
  note wf = bv_inv_wf [OF assms(1)]
  note sets = flipBits_set [OF assms(1)] intersectWith_set [OF assms] unionWith_set [OF assms]
    unsetFrom_set [OF assms(1,2)] assignFrom_set [OF assms(2) wf assms(3)] \<open>bv_set (clear bv) = {}\<close>
  note invs = flipBits_inv [OF assms(1)] intersectWith_inv [OF assms] unionWith_inv [OF assms]
    unsetFrom_inv [OF assms(1), of b] assignFrom_inv [OF assms(2) wf assms(3)] clear_inv [OF wf]
  show ?thesis using sets invs stray_clear [OF wf] flipBits_stray [OF wf] assignFrom_stray [OF wf, of b] by simp
qed

theorem set_algebra_witness:
  "bv_set (flipBits (BitVector_new (\<lambda>_. 0) 70)) = {..<70} \<and>
   bv_set (unsetFrom (setBit 3 True (BitVector_new (\<lambda>_. 0) 70)) (flipBits (BitVector_new (\<lambda>_. 0) 70))) = {..<70} - {3}"
proof -
  let ?z = "BitVector_new (\<lambda>_. 0) 70"
  have z: "bv_inv ?z" by (rule BitVector_new_inv) simp
  have f: "bv_inv (flipBits ?z)" "num_bits (flipBits ?z) = 70" "bv_set (flipBits ?z) = {..<70}"
    using set_algebra [OF z z] by (simp_all del: lessThan_nat_numeral)
  have s: "bv_inv (setBit 3 True ?z)" "bv_set (setBit 3 True ?z) = {3}"
    using setBit_inv [OF z] setBit_set [OF z] by simp_all
  show ?thesis using set_algebra [OF f(1) s(1)] f s by (simp del: lessThan_nat_numeral)
qed

text \<open>copying from a longer vector keeps its bits below the length of the copy, and no others.\<close>

theorem assign_from_longer:
  assumes "bv_wf bv" "bv_inv b" "num_bits bv \<le> num_bits b"
  shows "bv_inv (assignFromLonger b bv) \<and> bv_set (assignFromLonger b bv) = bv_set b \<inter> {..<num_bits bv}"
  using assms by (simp add: assignFromLonger_inv assignFromLonger_set bv_inv_wf)

theorem assign_from_longer_witness:
  "bv_set (assignFromLonger (flipBits (BitVector_new (\<lambda>_. 0) 200)) (BitVector_new (\<lambda>_. 0) 70)) = {..<70}"
proof -
  have z: "bv_inv (BitVector_new (\<lambda>_. 0) 200)" "bv_wf (BitVector_new (\<lambda>_. 0) 70)"
    using BitVector_new_inv [of 200] BitVector_new_inv [of 70] by auto
  have "{..<200} \<inter> {..<70} = {..<70::nat}" by (rule Int_absorb1) simp
  then show ?thesis
    using assign_from_longer [OF z(2) flipBits_inv [OF z(1)]] flipBits_set [OF z(1)]
    by (simp del: lessThan_nat_numeral)
qed

section \<open>Queries\<close>

text \<open>the counting queries read the represented set.\<close>

theorem counting_queries:
  assumes "bv_inv bv"
  shows "(bv_any bv \<longleftrightarrow> bv_set bv \<noteq> {}) \<and> (bv_all bv \<longleftrightarrow> bv_set bv = {..<num_bits bv}) \<and>
    onesCount bv = card (bv_set bv)"
  using bv_any_set [OF assms] bv_all_set [OF assms] onesCount_card [OF assms] by simp

theorem counting_queries_witness:
  "onesCount (flipBits (BitVector_new (\<lambda>_. 0) 70)) = 70 \<and> bv_all (flipBits (BitVector_new (\<lambda>_. 0) 70))"
proof -
  have z: "bv_inv (BitVector_new (\<lambda>_. 0) 70)" by (rule BitVector_new_inv) simp
  show ?thesis using counting_queries [OF flipBits_inv [OF z]] flipBits_set [OF z]
    by (simp del: lessThan_nat_numeral)
qed

text \<open>
  C4: the word-wise searches agree with the searches bit by bit: the first position at or after the
  given one, the last position before it, and the length when there is none.
\<close>

theorem searches:
  assumes "bv_inv bv" "p < num_bits bv"
  shows "firstOne bv p = first_from (getBit bv) p (num_bits bv) \<and>
    firstZero bv p = first_from (\<lambda>i. \<not> getBit bv i) p (num_bits bv) \<and>
    lastOne bv p = last_before (getBit bv) p (num_bits bv) \<and>
    lastZero bv p = last_before (\<lambda>i. \<not> getBit bv i) p (num_bits bv)"
  using firstOne_first [OF assms] firstZero_first [OF assms]
    lastOne_last [OF bv_inv_wf [OF assms(1)], of p] lastZero_last [OF bv_inv_wf [OF assms(1)], of p] assms(2)
  by simp

theorem searches_witness:
  "firstOne (setBit 66 True (BitVector_new (\<lambda>_. 0) 70)) 3 = 66"
proof -
  let ?z = "BitVector_new (\<lambda>_. 0) 70"
  have z: "bv_inv ?z" by (rule BitVector_new_inv) simp
  have s: "bv_inv (setBit 66 True ?z)" "bv_set (setBit 66 True ?z) = {66}"
    using setBit_inv [OF z] setBit_set [OF z] by simp_all
  have "firstOne (setBit 66 True ?z) 3 = first_from (getBit (setBit 66 True ?z)) 3 70"
    using searches [OF s(1)] by simp
  also have "\<dots> = 66"
  proof (rule first_from_eqI)
    have "66 \<in> bv_set (setBit 66 True ?z)" using s(2) by simp
    then show "66 = (70::nat) \<or> 3 \<le> (66::nat) \<and> (66::nat) < 70 \<and> getBit (setBit 66 True ?z) 66"
      by (simp add: bv_set_def)
    show "\<not> getBit (setBit 66 True ?z) i" if "i < 66" "i < 70" for i
    proof -
      have "i \<notin> bv_set (setBit 66 True ?z)" using s(2) that by simp
      then show ?thesis using that by (simp add: bv_set_def)
    qed
  qed
  finally show ?thesis .
qed

section \<open>Shifts\<close>

text \<open>
  the forward shift moves the bits from \<open>tail_start + shift_distance\<close> on back to \<open>tail_start\<close>, keeps
  the bits before it and fills the end with zeros; it keeps the invariant and makes no stray store, as
  long as the sum of the two does not wrap.
\<close>

theorem shift_forward:
  assumes "bv_inv bv" "ts < num_bits bv" "ts + sd < 2 ^ 64"
  shows "bv_inv (shiftTailForward ts sd bv) \<and> stray (shiftTailForward ts sd bv) = stray bv \<and>
    bv_set (shiftTailForward ts sd bv) =
      {i \<in> bv_set bv. i < ts} \<union> {i. ts \<le> i \<and> i + sd \<in> bv_set bv}"
  using shiftTailForward_inv [OF assms] shiftTailForward_simps(3) [OF bv_inv_wf [OF assms(1)] assms(2,3)]
    shiftTailForward_set [OF assms] by simp

theorem shift_forward_witness:
  "bv_set (shiftTailForward 5 61 (setBit 66 True (BitVector_new (\<lambda>_. 0) 70))) = {5}"
proof -
  let ?z = "BitVector_new (\<lambda>_. 0) 70"
  have z: "bv_inv ?z" by (rule BitVector_new_inv) simp
  have s: "bv_inv (setBit 66 True ?z)" "bv_set (setBit 66 True ?z) = {66}"
    using setBit_inv [OF z] setBit_set [OF z] by simp_all
  show ?thesis using shift_forward [OF s(1), of 5 61] s(2) by auto
qed

text \<open>
  C5: the backward shift moves the tail up by \<open>shift_distance\<close>, drops what leaves the vector and clears
  the gap, except that a tail that starts at a word boundary and moves by at least a word, but not by
  whole words, leaves a copy of its first word in the gap. It does so for every distance whose sum with
  \<open>tail_start\<close> is a \<open>size_t\<close>; a larger \<open>size_t\<close> distance wraps in the guard, and the call then makes a
  stray store (and no other call does).
\<close>

theorem shift_backward:
  assumes "bv_inv bv" "ts < num_bits bv" "sd < 2 ^ 64"
  shows "(stray (shiftTailBackward ts sd bv) \<longleftrightarrow> stray bv \<or> 2 ^ 64 \<le> ts + sd) \<and>
    (ts + sd < 2 ^ 64 \<longrightarrow>
      bv_inv (shiftTailBackward ts sd bv) \<and>
      bv_set (shiftTailBackward ts sd bv) =
        {i \<in> bv_set bv. i < ts} \<union> {i. ts + sd \<le> i \<and> i < num_bits bv \<and> i - sd \<in> bv_set bv} \<union>
        (if keeps_first_word ts sd \<and> ts + sd \<le> num_bits bv then {i \<in> bv_set bv. ts \<le> i \<and> i < ts + 64} else {}))"
proof (cases "ts + sd < 2 ^ 64")
  case True
  note nowrap = assms(1,2) True
  show ?thesis using True shiftTailBackward_inv [OF nowrap] shiftTailBackward_simps(3) [OF nowrap]
      shiftTailBackward_set [OF nowrap] by simp
next
  case False
  then show ?thesis using shiftTailBackward_wraps [OF assms] by simp
qed

theorem shift_backward_witness:
  "bv_set (shiftTailBackward 0 65 (setBit 3 True (BitVector_new (\<lambda>_. 0) 200))) = {3, 68} \<and>
   bv_set (shiftTailBackward 1 65 (setBit 3 True (BitVector_new (\<lambda>_. 0) 200))) = {68} \<and>
   stray (shiftTailBackward 64 (2 ^ 64 - 64) (setBit 3 True (BitVector_new (\<lambda>_. 0) 200)))"
proof -
  let ?z = "BitVector_new (\<lambda>_. 0) 200"
  have z: "bv_inv ?z" by (rule BitVector_new_inv) simp
  have s: "bv_inv (setBit 3 True ?z)" "bv_set (setBit 3 True ?z) = {3}"
    using setBit_inv [OF z] setBit_set [OF z] by simp_all
  have "bv_set (shiftTailBackward 0 65 (setBit 3 True ?z)) =
    {i. i = 3 \<and> i < 0} \<union> {i. 65 \<le> i \<and> i < 200 \<and> i - 65 = 3} \<union> {i. i = 3 \<and> i < 64}"
    using shift_backward [OF s(1), of 0 65] s(2) by (simp add: keeps_first_word_def)
  moreover have "bv_set (shiftTailBackward 1 65 (setBit 3 True ?z)) =
    {i. i = 3 \<and> i < 1} \<union> {i. 66 \<le> i \<and> i < 200 \<and> i - 65 = 3}"
    using shift_backward [OF s(1), of 1 65] s(2) by (simp add: keeps_first_word_def)
  moreover have "stray (shiftTailBackward 64 (2 ^ 64 - 64) (setBit 3 True ?z))"
    using shift_backward [OF s(1), of 64 "2 ^ 64 - 64"] by simp
  moreover have "65 \<le> i \<and> i < 200 \<and> i - 65 = 3 \<longleftrightarrow> i = 68" "66 \<le> i \<and> i < 200 \<and> i - 65 = 3 \<longleftrightarrow> i = 68"
    "i = 3 \<and> i < 64 \<longleftrightarrow> i = 3" "i = 3 \<and> i < 1 \<longleftrightarrow> False" for i :: nat
    by (linarith, linarith, linarith, simp)
  ultimately show ?thesis by (simp only:) auto
qed

end
