(* ===== verification/TidStore.thy ===== *)
theory TidStore
  imports Prelude
begin

text \<open>
  The interface that the expression evaluator uses of a tuple-ID sequence: a mutable set of positions
  below a fixed length. A client of it walks over some positions and sets each according to a test,
  or combines whole sequences; the locale states what it relies on and proves those loops once.
\<close>

locale tid_store =
  fixes inv :: "'s \<Rightarrow> bool"
    and len :: "'s \<Rightarrow> nat"
    and mem :: "'s \<Rightarrow> nat set"
    and put :: "nat \<Rightarrow> bool \<Rightarrow> 's \<Rightarrow> 's"
    and flip :: "'s \<Rightarrow> 's"
    and isect :: "'s \<Rightarrow> 's \<Rightarrow> 's"
    and join :: "'s \<Rightarrow> 's \<Rightarrow> 's"
    and copy :: "'s \<Rightarrow> 's \<Rightarrow> 's"
  assumes mem_len: "inv s \<Longrightarrow> t \<in> mem s \<Longrightarrow> t < len s"
    and put_inv: "inv s \<Longrightarrow> t < len s \<Longrightarrow> inv (put t b s)"
    and put_len: "len (put t b s) = len s"
    and put_mem: "inv s \<Longrightarrow> t < len s \<Longrightarrow> mem (put t b s) = (if b then insert t (mem s) else mem s - {t})"
    and flip_inv: "inv s \<Longrightarrow> inv (flip s)"
    and flip_len: "len (flip s) = len s"
    and flip_mem: "inv s \<Longrightarrow> mem (flip s) = {..<len s} - mem s"
    and isect_inv: "inv s \<Longrightarrow> inv u \<Longrightarrow> len u = len s \<Longrightarrow> inv (isect u s)"
    and isect_len: "len (isect u s) = len s"
    and isect_mem: "inv s \<Longrightarrow> inv u \<Longrightarrow> len u = len s \<Longrightarrow> mem (isect u s) = mem s \<inter> mem u"
    and join_inv: "inv s \<Longrightarrow> inv u \<Longrightarrow> len u = len s \<Longrightarrow> inv (join u s)"
    and join_len: "len (join u s) = len s"
    and join_mem: "inv s \<Longrightarrow> inv u \<Longrightarrow> len u = len s \<Longrightarrow> mem (join u s) = mem s \<union> mem u"
    and copy_inv: "inv s \<Longrightarrow> inv u \<Longrightarrow> len u = len s \<Longrightarrow> inv (copy u s)"
    and copy_len: "len (copy u s) = len s"
    and copy_mem: "inv s \<Longrightarrow> inv u \<Longrightarrow> len u = len s \<Longrightarrow> mem (copy u s) = mem u"
begin

text \<open>A loop that sets each visited position to the result of a test.\<close>

lemma put_loop:
  assumes "inv s" "\<And>t. t \<in> set ts \<Longrightarrow> t < len s"
  shows "inv (fold (\<lambda>t. put t (P t)) ts s)"
    and "len (fold (\<lambda>t. put t (P t)) ts s) = len s"
    and "mem (fold (\<lambda>t. put t (P t)) ts s) = (mem s - set ts) \<union> {t \<in> set ts. P t}"
proof -
  have "inv (fold (\<lambda>t. put t (P t)) ts s) \<and> len (fold (\<lambda>t. put t (P t)) ts s) = len s \<and>
    mem (fold (\<lambda>t. put t (P t)) ts s) = (mem s - set ts) \<union> {t \<in> set ts. P t}"
    using assms
  proof (induction ts arbitrary: s)
    case Nil
    then show ?case by simp
  next
    case (Cons t ts)
    have t: "t < len s" using Cons.prems(2) by simp
    have "inv (put t (P t) s)" using Cons.prems(1) t by (rule put_inv)
    moreover have "\<And>u. u \<in> set ts \<Longrightarrow> u < len (put t (P t) s)"
      using Cons.prems(2) by (simp add: put_len)
    ultimately have "inv (fold (\<lambda>t. put t (P t)) ts (put t (P t) s)) \<and>
      len (fold (\<lambda>t. put t (P t)) ts (put t (P t) s)) = len (put t (P t) s) \<and>
      mem (fold (\<lambda>t. put t (P t)) ts (put t (P t) s)) =
        (mem (put t (P t) s) - set ts) \<union> {t \<in> set ts. P t}"
      by (rule Cons.IH)
    then show ?case using put_mem [OF Cons.prems(1) t, of "P t"] by (auto simp: put_len)
  qed
  then show "inv (fold (\<lambda>t. put t (P t)) ts s)" "len (fold (\<lambda>t. put t (P t)) ts s) = len s"
    "mem (fold (\<lambda>t. put t (P t)) ts s) = (mem s - set ts) \<union> {t \<in> set ts. P t}"
    by blast+
qed

text \<open>Into an empty sequence, the loop leaves exactly the positions that pass.\<close>

lemma put_loop_empty:
  assumes "inv s" "mem s = {}" "\<And>t. t \<in> set ts \<Longrightarrow> t < len s"
  shows "mem (fold (\<lambda>t. put t (P t)) ts s) = {t \<in> set ts. P t}"
  using put_loop(3) [OF assms(1,3), where P = P] assms(2) by simp

text \<open>Narrowing a sequence by the results of operands, each evaluated under the sequence so far.\<close>

lemma narrow_loop:
  assumes "inv s"
    and "\<And>x u. x \<in> set xs \<Longrightarrow> inv u \<Longrightarrow> len u = len s \<Longrightarrow>
      inv (f x u) \<and> len (f x u) = len s \<and> mem (f x u) \<inter> mem u = {t \<in> mem u. P x t}"
  shows "inv (fold (\<lambda>x u. isect (f x u) u) xs s) \<and> len (fold (\<lambda>x u. isect (f x u) u) xs s) = len s \<and>
    mem (fold (\<lambda>x u. isect (f x u) u) xs s) = {t \<in> mem s. \<forall>x \<in> set xs. P x t}"
  using assms
proof (induction xs arbitrary: s)
  case Nil
  then show ?case by simp
next
  case (Cons x xs)
  have x: "inv (f x s)" "len (f x s) = len s" "mem (f x s) \<inter> mem s = {t \<in> mem s. P x t}"
    using Cons.prems(2) [of x s] Cons.prems(1) by simp_all
  have s1: "inv (isect (f x s) s)" "len (isect (f x s) s) = len s"
    "mem (isect (f x s) s) = {t \<in> mem s. P x t}"
    using isect_inv [OF Cons.prems(1) x(1,2)] isect_mem [OF Cons.prems(1) x(1,2)] x(3)
    by (simp_all add: isect_len Int_commute)
  have "\<And>y u. y \<in> set xs \<Longrightarrow> inv u \<Longrightarrow> len u = len (isect (f x s) s) \<Longrightarrow>
      inv (f y u) \<and> len (f y u) = len (isect (f x s) s) \<and> mem (f y u) \<inter> mem u = {t \<in> mem u. P y t}"
    using Cons.prems(2) s1(2) by simp
  from Cons.IH [OF s1(1) this] show ?case using s1(2,3) by auto
qed

text \<open>
  Collecting the results of operands, each evaluated only where no earlier one matched: the union
  grows, the positions still to check shrink.
\<close>

lemma collect_loop:
  assumes "inv r" "inv c" "len r = len c"
    and "\<And>x u. x \<in> set xs \<Longrightarrow> inv u \<Longrightarrow> len u = len c \<Longrightarrow>
      inv (f x u) \<and> len (f x u) = len c \<and> mem (f x u) = {t \<in> mem u. P x t}"
  shows "inv (fst (fold (\<lambda>x (r, c). (join (f x c) r, isect (flip (f x c)) c)) xs (r, c))) \<and>
    len (fst (fold (\<lambda>x (r, c). (join (f x c) r, isect (flip (f x c)) c)) xs (r, c))) = len c \<and>
    mem (fst (fold (\<lambda>x (r, c). (join (f x c) r, isect (flip (f x c)) c)) xs (r, c))) =
      mem r \<union> {t \<in> mem c. \<exists>x \<in> set xs. P x t}"
  using assms
proof (induction xs arbitrary: r c)
  case Nil
  then show ?case by simp
next
  case (Cons x xs)
  have x: "inv (f x c)" "len (f x c) = len c" "mem (f x c) = {t \<in> mem c. P x t}"
    using Cons.prems(4) [of x c] Cons.prems(2) by simp_all
  have r1: "inv (join (f x c) r)" "len (join (f x c) r) = len r" "mem (join (f x c) r) = mem r \<union> {t \<in> mem c. P x t}"
    using join_inv [OF Cons.prems(1) x(1)] join_mem [OF Cons.prems(1) x(1)] x(2,3) Cons.prems(3)
    by (simp_all add: join_len)
  have o: "inv (flip (f x c))" "len (flip (f x c)) = len c" "mem (flip (f x c)) = {..<len c} - mem (f x c)"
    using flip_inv [OF x(1)] flip_mem [OF x(1)] x(2) by (simp_all add: flip_len)
  have c1: "inv (isect (flip (f x c)) c)" "len (isect (flip (f x c)) c) = len c"
    "mem (isect (flip (f x c)) c) = {t \<in> mem c. \<not> P x t}"
    using isect_inv [OF Cons.prems(2) o(1,2)] isect_mem [OF Cons.prems(2) o(1,2)] o(3) x(3)
      mem_len [OF Cons.prems(2)] by (auto simp: isect_len)
  have "\<And>y u. y \<in> set xs \<Longrightarrow> inv u \<Longrightarrow> len u = len (isect (flip (f x c)) c) \<Longrightarrow>
      inv (f y u) \<and> len (f y u) = len (isect (flip (f x c)) c) \<and> mem (f y u) = {t \<in> mem u. P y t}"
    using Cons.prems(4) c1(2) by simp
  moreover have "len (join (f x c) r) = len (isect (flip (f x c)) c)" using r1(2) c1(2) Cons.prems(3) by simp
  ultimately show ?case using Cons.IH [OF r1(1) c1(1)] r1(3) c1(2,3) by auto
qed

end

end
