(* ===== verification/TupleIds.thy ===== *)
theory TupleIds
  imports BitSearch TidStore
begin

text \<open>
  \<^verbatim>\<open>common/TupleIdSequence.hpp\<close>: a set of tuple IDs, kept as a bit vector with one bit per slot, and
  its constant iterator. A \<^verbatim>\<open>tuple_id\<close> is a 32-bit signed integer: passing one to the bit vector
  converts it to \<^verbatim>\<open>size_t\<close>, returning a position as one narrows it.

  The iterator is a position: the next set bit, \<open>num_bits\<close> at the end, the maximal \<open>size_t\<close> before the
  beginning. The section on iteration shows that the loop from \<open>begin\<close> to \<open>end\<close> returns and visits the
  members in increasing order.
\<close>

section \<open>State and operations\<close>

type_synonym tuple_id = int

definition tid_to_size :: "tuple_id \<Rightarrow> nat" where
  "tid_to_size t = nat (t mod 2 ^ 64)"

definition size_to_tid :: "nat \<Rightarrow> tuple_id" where
  "size_to_tid n = (int n + 2 ^ 31) mod 2 ^ 32 - 2 ^ 31"

record tuple_id_sequence =
  internal_bitvector :: bitvector

definition TupleIdSequence_new :: "(nat \<Rightarrow> u64) \<Rightarrow> tuple_id \<Rightarrow> tuple_id_sequence" where
  "TupleIdSequence_new garbage n = \<lparr>internal_bitvector = BitVector_new garbage (tid_to_size n)\<rparr>"

definition TupleIdSequence_from :: "(nat \<Rightarrow> u64) \<Rightarrow> tuple_id \<Rightarrow> bitvector \<Rightarrow> tuple_id_sequence" where
  "TupleIdSequence_from garbage n bv =
     \<lparr>internal_bitvector = assignFromLonger bv (BitVector_new garbage (tid_to_size n))\<rparr>"

definition tis_set :: "tuple_id \<Rightarrow> bool \<Rightarrow> tuple_id_sequence \<Rightarrow> tuple_id_sequence" where
  "tis_set tuple on s = s\<lparr>internal_bitvector := setBit (tid_to_size tuple) on (internal_bitvector s)\<rparr>"

definition tis_setRange :: "tuple_id \<Rightarrow> tuple_id \<Rightarrow> bool \<Rightarrow> tuple_id_sequence \<Rightarrow> tuple_id_sequence" where
  "tis_setRange first_tuple num_tuples on s =
     (if num_tuples > 0
      then s\<lparr>internal_bitvector :=
             setBitRange (tid_to_size first_tuple) (tid_to_size num_tuples) on (internal_bitvector s)\<rparr>
      else s)"

definition tis_setWord :: "nat \<Rightarrow> u64 \<Rightarrow> tuple_id_sequence \<Rightarrow> tuple_id_sequence" where
  "tis_setWord word_id w s = s\<lparr>internal_bitvector := setBitWord word_id w (internal_bitvector s)\<rparr>"

definition tis_get :: "tuple_id_sequence \<Rightarrow> tuple_id \<Rightarrow> bool" where
  "tis_get s tuple = getBit (internal_bitvector s) (tid_to_size tuple)"

definition tis_getWord :: "tuple_id_sequence \<Rightarrow> nat \<Rightarrow> u64" where
  "tis_getWord s word_id = getBitWord (internal_bitvector s) word_id"

definition tis_empty :: "tuple_id_sequence \<Rightarrow> bool" where
  "tis_empty s = (\<not> bv_any (internal_bitvector s))"

definition tis_length :: "tuple_id_sequence \<Rightarrow> nat" where
  "tis_length s = num_bits (internal_bitvector s)"

definition tis_numTuples :: "tuple_id_sequence \<Rightarrow> nat" where
  "tis_numTuples s = onesCount (internal_bitvector s)"

definition tis_front :: "tuple_id_sequence \<Rightarrow> tuple_id" where
  "tis_front s = size_to_tid (firstOne (internal_bitvector s) 0)"

definition tis_back :: "tuple_id_sequence \<Rightarrow> tuple_id" where
  "tis_back s = size_to_tid (lastOne (internal_bitvector s) size_max)"

definition tis_invert :: "tuple_id_sequence \<Rightarrow> tuple_id_sequence" where
  "tis_invert s = s\<lparr>internal_bitvector := flipBits (internal_bitvector s)\<rparr>"

definition tis_assignFrom :: "tuple_id_sequence \<Rightarrow> tuple_id_sequence \<Rightarrow> tuple_id_sequence" where
  "tis_assignFrom other s =
     s\<lparr>internal_bitvector := assignFrom (internal_bitvector other) (internal_bitvector s)\<rparr>"

definition tis_intersectWith :: "tuple_id_sequence \<Rightarrow> tuple_id_sequence \<Rightarrow> tuple_id_sequence" where
  "tis_intersectWith other s =
     s\<lparr>internal_bitvector := intersectWith (internal_bitvector other) (internal_bitvector s)\<rparr>"

definition tis_intersectWithComplement :: "tuple_id_sequence \<Rightarrow> tuple_id_sequence \<Rightarrow> tuple_id_sequence" where
  "tis_intersectWithComplement other s =
     s\<lparr>internal_bitvector := unsetFrom (internal_bitvector other) (internal_bitvector s)\<rparr>"

definition tis_unionWith :: "tuple_id_sequence \<Rightarrow> tuple_id_sequence \<Rightarrow> tuple_id_sequence" where
  "tis_unionWith other s =
     s\<lparr>internal_bitvector := unionWith (internal_bitvector other) (internal_bitvector s)\<rparr>"

section \<open>The iterator\<close>

definition iter_begin :: "bitvector \<Rightarrow> nat" where
  "iter_begin bv = firstOne bv 0"

definition iter_before_begin :: "bitvector \<Rightarrow> nat" where
  "iter_before_begin bv = size_max"

definition iter_end :: "bitvector \<Rightarrow> nat" where
  "iter_end bv = num_bits bv"

definition iter_inc :: "bitvector \<Rightarrow> nat \<Rightarrow> nat" where
  "iter_inc bv current_position =
     (let search_pos = (current_position + 1) mod 2 ^ 64
      in if search_pos < num_bits bv then firstOne bv search_pos else num_bits bv)"

definition iter_dec :: "bitvector \<Rightarrow> nat \<Rightarrow> nat" where
  "iter_dec bv current_position =
     (let pos = lastOne bv current_position in if pos = num_bits bv then size_max else pos)"

definition iter_deref :: "nat \<Rightarrow> tuple_id" where
  "iter_deref current_position = size_to_tid current_position"

text \<open>
  The loop \<^verbatim>\<open>for (it = begin(); it != end(); ++it)\<close> as the list of IDs it visits; \<open>None\<close> is a loop that
  does not return. Clients of a sequence walk over \<open>tis_tuples\<close>.
\<close>

partial_function (option) iter_loop :: "bitvector \<Rightarrow> nat \<Rightarrow> tuple_id list option" where
  "iter_loop bv pos =
     (if pos = iter_end bv then Some []
      else Option.bind (iter_loop bv (iter_inc bv pos)) (\<lambda>ts. Some (iter_deref pos # ts)))"

definition tis_tuples :: "tuple_id_sequence \<Rightarrow> tuple_id list" where
  "tis_tuples s =
     (case iter_loop (internal_bitvector s) (iter_begin (internal_bitvector s)) of
        None \<Rightarrow> [] | Some ts \<Rightarrow> ts)"

section \<open>Abstraction\<close>

text \<open>\<open>tis_slots s\<close> is the set of slots that are on; the length of a sequence is that of a block.\<close>

definition tis_inv :: "tuple_id_sequence \<Rightarrow> bool" where
  "tis_inv s \<longleftrightarrow> bv_inv (internal_bitvector s) \<and> tis_length s < 2 ^ 31"

definition tis_slots :: "tuple_id_sequence \<Rightarrow> nat set" where
  "tis_slots s = bv_set (internal_bitvector s)"

lemma tis_inv_bv [dest]: "tis_inv s \<Longrightarrow> bv_inv (internal_bitvector s)"
  by (simp add: tis_inv_def)

lemma tid_to_size_int [simp]: "n < 2 ^ 64 \<Longrightarrow> tid_to_size (int n) = n"
  by (simp add: tid_to_size_def)

lemma tid_to_size_nonneg: "0 \<le> t \<Longrightarrow> t < 2 ^ 31 \<Longrightarrow> tid_to_size t = nat t"
  by (simp add: tid_to_size_def)

lemma size_to_tid_int [simp]: "n < 2 ^ 31 \<Longrightarrow> size_to_tid n = int n"
  by (simp add: size_to_tid_def)

lemma slots_less: "t \<in> tis_slots s \<Longrightarrow> t < tis_length s"
  by (simp add: tis_slots_def tis_length_def bv_set_less)

lemma finite_slots [simp]: "finite (tis_slots s)"
  by (simp add: tis_slots_def)

lemma inv_length: "tis_inv s \<Longrightarrow> tis_length s < 2 ^ 31"
  by (simp add: tis_inv_def)

lemma length_simps [simp]:
  "tis_length (tis_set t on s) = tis_length s"
  "tis_length (tis_invert s) = tis_length s"
  "tis_length (tis_assignFrom u s) = tis_length s"
  "tis_length (tis_intersectWith u s) = tis_length s"
  "tis_length (tis_intersectWithComplement u s) = tis_length s"
  "tis_length (tis_unionWith u s) = tis_length s"
  by (simp_all add: tis_length_def tis_set_def tis_invert_def tis_assignFrom_def tis_intersectWith_def
      tis_intersectWithComplement_def tis_unionWith_def)

lemma new_length: "n < 2 ^ 31 \<Longrightarrow> tis_length (TupleIdSequence_new g (int n)) = n"
  by (simp add: TupleIdSequence_new_def tis_length_def)

lemma new_inv [inv_intros]: "n < 2 ^ 31 \<Longrightarrow> tis_inv (TupleIdSequence_new g (int n))"
  by (simp add: tis_inv_def new_length) (simp add: TupleIdSequence_new_def BitVector_new_inv)

lemma new_slots: "n < 2 ^ 31 \<Longrightarrow> tis_slots (TupleIdSequence_new g (int n)) = {}"
  by (simp add: tis_slots_def TupleIdSequence_new_def)
text \<open>Each operation on slots.\<close>

lemma set_inv [inv_intros]: "tis_inv s \<Longrightarrow> t < tis_length s \<Longrightarrow> tis_inv (tis_set (int t) on s)"
  by (simp add: tis_inv_def) (simp add: tis_set_def tis_length_def setBit_inv)

lemma set_slots:
  "tis_inv s \<Longrightarrow> t < tis_length s \<Longrightarrow>
    tis_slots (tis_set (int t) on s) = (if on then insert t (tis_slots s) else tis_slots s - {t})"
  using inv_length [of s] by (simp add: tis_slots_def tis_set_def tis_length_def setBit_set tis_inv_bv)

lemma get_slots: "t < tis_length s \<Longrightarrow> tis_inv s \<Longrightarrow> tis_get s (int t) \<longleftrightarrow> t \<in> tis_slots s"
  using inv_length [of s] by (simp add: tis_get_def tis_slots_def bv_set_def tis_length_def)

lemma setRange_length [simp]: "tis_length (tis_setRange a n on s) = tis_length s"
  by (simp add: tis_setRange_def tis_length_def)

lemma setRange_inv [inv_intros]:
  assumes "tis_inv s" "a + n \<le> tis_length s"
  shows "tis_inv (tis_setRange (int a) (int n) on s)"
  using assms inv_length [OF assms(1)]
  by (simp add: tis_inv_def) (simp add: tis_setRange_def tis_length_def setBitRange_inv)

lemma setRange_slots:
  assumes "tis_inv s" "a + n \<le> tis_length s"
  shows "tis_slots (tis_setRange (int a) (int n) on s) =
    (if on then tis_slots s \<union> {a..<a + n} else tis_slots s - {a..<a + n})"
proof -
  have "tid_to_size (int a) = a" "tid_to_size (int n) = n"
    using assms inv_length [OF assms(1)] by simp_all
  then show ?thesis
    using assms by (simp add: tis_setRange_def tis_slots_def tis_length_def setBitRange_set tis_inv_bv)
qed

lemma invert_inv [inv_intros]: "tis_inv s \<Longrightarrow> tis_inv (tis_invert s)"
  by (simp add: tis_inv_def) (simp add: tis_invert_def flipBits_inv)

lemma invert_slots: "tis_inv s \<Longrightarrow> tis_slots (tis_invert s) = {..<tis_length s} - tis_slots s"
  by (simp add: tis_slots_def tis_invert_def tis_length_def flipBits_set tis_inv_bv)

lemma same_bits: "tis_length u = tis_length s \<Longrightarrow>
    num_bits (internal_bitvector u) = num_bits (internal_bitvector s)"
  by (simp add: tis_length_def)

lemma assignFrom_tis_inv [inv_intros]:
  "tis_inv s \<Longrightarrow> tis_inv u \<Longrightarrow> tis_length u = tis_length s \<Longrightarrow> tis_inv (tis_assignFrom u s)"
  using same_bits [of u s]
  by (simp add: tis_inv_def) (simp add: tis_assignFrom_def assignFrom_inv bv_inv_wf)

lemma assignFrom_slots:
  "tis_inv s \<Longrightarrow> tis_inv u \<Longrightarrow> tis_length u = tis_length s \<Longrightarrow> tis_slots (tis_assignFrom u s) = tis_slots u"
  using same_bits [of u s]
  by (simp add: tis_slots_def tis_assignFrom_def assignFrom_set bv_inv_wf tis_inv_bv)

lemma intersect_inv [inv_intros]:
  "tis_inv s \<Longrightarrow> tis_inv u \<Longrightarrow> tis_length u = tis_length s \<Longrightarrow> tis_inv (tis_intersectWith u s)"
  using same_bits [of u s]
  by (simp add: tis_inv_def) (simp add: tis_intersectWith_def intersectWith_inv)

lemma intersect_slots:
  "tis_inv s \<Longrightarrow> tis_inv u \<Longrightarrow> tis_length u = tis_length s \<Longrightarrow>
    tis_slots (tis_intersectWith u s) = tis_slots s \<inter> tis_slots u"
  using same_bits [of u s]
  by (simp add: tis_slots_def tis_intersectWith_def intersectWith_set tis_inv_bv)

lemma complement_inv [inv_intros]:
  "tis_inv s \<Longrightarrow> tis_inv u \<Longrightarrow> tis_length u = tis_length s \<Longrightarrow> tis_inv (tis_intersectWithComplement u s)"
  by (simp add: tis_inv_def) (simp add: tis_intersectWithComplement_def unsetFrom_inv)

lemma complement_slots:
  "tis_inv s \<Longrightarrow> tis_inv u \<Longrightarrow> tis_slots (tis_intersectWithComplement u s) = tis_slots s - tis_slots u"
  by (simp add: tis_slots_def tis_intersectWithComplement_def unsetFrom_set tis_inv_bv)

lemma union_inv [inv_intros]:
  "tis_inv s \<Longrightarrow> tis_inv u \<Longrightarrow> tis_length u = tis_length s \<Longrightarrow> tis_inv (tis_unionWith u s)"
  using same_bits [of u s]
  by (simp add: tis_inv_def) (simp add: tis_unionWith_def unionWith_inv)

lemma union_slots:
  "tis_inv s \<Longrightarrow> tis_inv u \<Longrightarrow> tis_length u = tis_length s \<Longrightarrow>
    tis_slots (tis_unionWith u s) = tis_slots s \<union> tis_slots u"
  using same_bits [of u s]
  by (simp add: tis_slots_def tis_unionWith_def unionWith_set tis_inv_bv)

lemma empty_slots: "tis_inv s \<Longrightarrow> tis_empty s \<longleftrightarrow> tis_slots s = {}"
  by (simp add: tis_empty_def tis_slots_def bv_any_set tis_inv_bv)

lemma numTuples_slots: "tis_inv s \<Longrightarrow> tis_numTuples s = card (tis_slots s)"
  by (simp add: tis_numTuples_def tis_slots_def onesCount_card tis_inv_bv)

interpretation tids: tid_store tis_inv tis_length tis_slots "\<lambda>t. tis_set (int t)" tis_invert
  tis_intersectWith tis_unionWith tis_assignFrom
  by unfold_locales
    (simp_all add: slots_less set_inv set_slots invert_inv invert_slots intersect_inv intersect_slots
      union_inv union_slots assignFrom_tis_inv assignFrom_slots)

section \<open>Iteration\<close>

lemma first_from_cong: "(\<And>i. i < n \<Longrightarrow> P i = Q i) \<Longrightarrow> first_from P p n = first_from Q p n"
  unfolding first_from_def by (auto intro!: arg_cong [where f = "case_list n (\<lambda>i _. i)"] filter_cong)

lemma filter_upt_first_from:
  assumes "p \<le> n"
  shows "filter P [p..<n] = (if first_from P p n < n then first_from P p n # filter P [Suc (first_from P p n)..<n] else [])"
proof -
  let ?r = "first_from P p n"
  note spec = first_from_spec [OF assms, where P = P]
  have pre: "filter P [p..<?r] = []" using spec(4) by (simp add: filter_empty_conv)
  show ?thesis
  proof (cases "?r < n")
    case True
    then have "[p..<n] = [p..<?r] @ ?r # [Suc ?r..<n]"
      using spec(1) by (metis le_add_diff_inverse less_imp_le upt_add_eq_append upt_conv_Cons)
    then show ?thesis using True pre spec(3) by simp
  next
    case False
    then have "?r = n" using spec(2) by simp
    then show ?thesis using pre by simp
  qed
qed

lemma iter_inc_next:
  assumes "bv_inv bv" "pos < num_bits bv"
  shows "iter_inc bv pos = first_from (getBit bv) (Suc pos) (num_bits bv)"
proof -
  have "num_bits bv < 2 ^ 63" using assms(1) by (simp add: bv_inv_def bv_wf_def)
  then have "(pos + 1) mod 2 ^ 64 = Suc pos" using assms(2) by simp
  then show ?thesis using assms
    by (auto simp: iter_inc_def Let_def firstOne_first first_from_def)
qed

lemma iter_begin_first: "bv_inv bv \<Longrightarrow> iter_begin bv = first_from (getBit bv) 0 (num_bits bv)"
proof (cases "num_bits bv = 0")
  case True
  then show ?thesis by (simp add: iter_begin_def firstOne_def first_from_def)
next
  case False
  assume "bv_inv bv"
  with False show ?thesis by (simp add: iter_begin_def firstOne_first)
qed

text \<open>The loop returns and visits the members in increasing order, from any position it can be at.\<close>

lemma iter_loop_from:
  assumes "bv_inv bv" "p \<le> num_bits bv"
  shows "iter_loop bv (first_from (getBit bv) p (num_bits bv)) =
    Some (map size_to_tid (filter (getBit bv) [p..<num_bits bv]))"
  using assms(2)
proof (induction "num_bits bv - p" arbitrary: p rule: less_induct)
  case less
  let ?r = "first_from (getBit bv) p (num_bits bv)"
  note spec = first_from_spec [OF less.prems, where P = "getBit bv"]
  show ?case
  proof (cases "?r < num_bits bv")
    case True
    have "iter_loop bv (first_from (getBit bv) (Suc ?r) (num_bits bv)) =
      Some (map size_to_tid (filter (getBit bv) [Suc ?r..<num_bits bv]))"
      using True spec(1) by (intro less.hyps) simp_all
    then have "iter_loop bv ?r = Some (size_to_tid ?r # map size_to_tid (filter (getBit bv) [Suc ?r..<num_bits bv]))"
      using True iter_inc_next [OF assms(1) True]
      by (subst iter_loop.simps) (simp add: iter_end_def iter_deref_def)
    then show ?thesis using filter_upt_first_from [OF less.prems, of "getBit bv"] True by simp
  next
    case False
    then have "?r = num_bits bv" using spec(2) by simp
    then show ?thesis using filter_upt_first_from [OF less.prems, of "getBit bv"]
      by (subst iter_loop.simps) (simp add: iter_end_def)
  qed
qed

lemma iter_loop_begin:
  assumes "bv_inv bv"
  shows "iter_loop bv (iter_begin bv) = Some (map size_to_tid (filter (getBit bv) [0..<num_bits bv]))"
  using iter_loop_from [OF assms, of 0] iter_begin_first [OF assms] by simp

lemma sorted_list_filter_upt: "filter P [0..<n] = sorted_list_of_set {i. i < n \<and> P i}"
  by (rule sorted_distinct_set_unique) (auto simp: sorted_filter [of "\<lambda>x. x", simplified])

lemma tuples_sorted:
  assumes "tis_inv s"
  shows "tis_tuples s = map int (sorted_list_of_set (tis_slots s))"
proof -
  have inv: "bv_inv (internal_bitvector s)" using assms ..
  have "tis_tuples s = map size_to_tid (sorted_list_of_set (tis_slots s))"
    by (simp add: tis_tuples_def iter_loop_begin [OF inv] sorted_list_filter_upt tis_slots_def bv_set_def)
  also have "\<dots> = map int (sorted_list_of_set (tis_slots s))"
    using slots_less [of _ s] inv_length [OF assms] by (intro map_cong refl size_to_tid_int) fastforce
  finally show ?thesis .
qed

lemma set_tuples: "tis_inv s \<Longrightarrow> set (tis_tuples s) = int ` tis_slots s"
  by (simp add: tuples_sorted)

text \<open>Walking backwards: the decrement undoes the increment between members.\<close>

lemma iter_dec_prev:
  assumes "bv_inv bv" "pos \<le> num_bits bv"
  shows "iter_dec bv pos =
    (if \<exists>i<pos. getBit bv i then last_before (getBit bv) pos (num_bits bv) else size_max)"
proof -
  have wf: "bv_wf bv" using assms(1) ..
  have eq: "lastOne bv pos = last_before (getBit bv) pos (num_bits bv)"
    using wf assms(2) by (rule lastOne_last)
  have none: "last_before (getBit bv) pos (num_bits bv) = num_bits bv \<longleftrightarrow> \<not> (\<exists>i<pos. getBit bv i)"
  proof (cases "filter (getBit bv) [0..<pos] = []")
    case True
    then show ?thesis by (auto simp: last_before_def filter_empty_conv)
  next
    case False
    then obtain r rest where r: "rev (filter (getBit bv) [0..<pos]) = r # rest"
      by (cases "rev (filter (getBit bv) [0..<pos])") auto
    have "r \<in> set (rev (filter (getBit bv) [0..<pos]))" unfolding r by simp
    then have "getBit bv r" "r < pos" by simp_all
    moreover have "last_before (getBit bv) pos (num_bits bv) = r" using r by (simp add: last_before_def)
    ultimately show ?thesis using assms(2) by auto
  qed
  show ?thesis using none by (auto simp: iter_dec_def Let_def eq)
qed

section \<open>Properties\<close>

lemma dec_inc:
  assumes "bv_inv bv" "pos \<in> bv_set bv"
  shows "iter_dec bv (iter_inc bv pos) = pos"
proof -
  have pos: "pos < num_bits bv" "getBit bv pos" using assms(2) by (auto simp: bv_set_def)
  let ?next = "first_from (getBit bv) (Suc pos) (num_bits bv)"
  have "Suc pos \<le> num_bits bv" using pos(1) by simp
  note spec = first_from_spec [OF this, where P = "getBit bv"]
  have "last_before (getBit bv) ?next (num_bits bv) = pos"
  proof (rule last_before_eqI)
    show "getBit bv pos" by (rule pos(2))
    show "\<not> getBit bv i" if "i < ?next" "pos < i \<or> ?next \<le> pos" for i
      using spec(4) [of i] spec(1) that by linarith
    show "pos = num_bits bv" if "?next \<le> pos" using spec(1) that by linarith
  qed
  moreover have "\<exists>i<?next. getBit bv i" using spec(1) pos(2) by (intro exI [of _ pos]) simp
  ultimately show ?thesis
    using iter_inc_next [OF assms(1) pos(1)] iter_dec_prev [OF assms(1) spec(2)] by simp
qed

text \<open>
  C6: the loop from \<open>begin()\<close> to \<open>end()\<close> returns, and it visits each member of the sequence once, in
  increasing order.
\<close>

theorem iteration_visits_members:
  assumes "tis_inv s"
  shows "iter_loop (internal_bitvector s) (iter_begin (internal_bitvector s)) = Some (tis_tuples s) \<and>
    tis_tuples s = map int (sorted_list_of_set (tis_slots s))"
  using iter_loop_begin [OF tis_inv_bv [OF assms]] tuples_sorted [OF assms] by (simp add: tis_tuples_def)

theorem iteration_visits_members_witness:
  "tis_tuples (tis_set 67 True (tis_set 5 True (TupleIdSequence_new (\<lambda>_. 0) 70))) = [5, 67]"
proof -
  let ?z = "TupleIdSequence_new (\<lambda>_. 0) 70"
  have z: "tis_inv ?z" "tis_length ?z = 70" "tis_slots ?z = {}"
    using new_inv [of 70] new_length [of 70] new_slots [of 70] by simp_all
  have a: "tis_inv (tis_set 5 True ?z)" "tis_slots (tis_set 5 True ?z) = {5}"
    using set_inv [OF z(1), of 5] set_slots [OF z(1), of 5] z(2,3) by simp_all
  have b: "tis_inv (tis_set 67 True (tis_set 5 True ?z))" "tis_slots (tis_set 67 True (tis_set 5 True ?z)) = {5, 67}"
    using set_inv [OF a(1), of 67] set_slots [OF a(1), of 67] z(2) a(2) by (simp_all add: insert_commute)
  show ?thesis using iteration_visits_members [OF b(1)] b(2) by (simp add: sorted_list_of_set_insert_remove)
qed

text \<open>stepping the iterator back undoes a step from a member, also the step to the end.\<close>

theorem decrement_undoes_increment:
  assumes "tis_inv s" "t \<in> tis_slots s"
  shows "iter_dec (internal_bitvector s) (iter_inc (internal_bitvector s) t) = t"
  using dec_inc [OF tis_inv_bv [OF assms(1)]] assms(2) by (simp add: tis_slots_def)

theorem decrement_undoes_increment_witness:
  "iter_dec (internal_bitvector (tis_set 5 True (TupleIdSequence_new (\<lambda>_. 0) 70)))
    (iter_inc (internal_bitvector (tis_set 5 True (TupleIdSequence_new (\<lambda>_. 0) 70))) 5) = 5"
proof -
  let ?z = "TupleIdSequence_new (\<lambda>_. 0) 70"
  have z: "tis_inv ?z" "tis_length ?z = 70" "tis_slots ?z = {}"
    using new_inv [of 70] new_length [of 70] new_slots [of 70] by simp_all
  have a: "tis_inv (tis_set 5 True ?z)" "5 \<in> tis_slots (tis_set 5 True ?z)"
    using set_inv [OF z(1), of 5] set_slots [OF z(1), of 5] z(2,3) by simp_all
  show ?thesis by (rule decrement_undoes_increment [OF a])
qed

end
