(* ===== verification/Types.thy ===== *)
theory Types
  imports Prelude
begin

text \<open>
  The SQL types of \<^verbatim>\<open>src/types\<close>: \<^verbatim>\<open>TypeID\<close>, \<^verbatim>\<open>Type\<close> and its subclasses, \<^verbatim>\<open>TypeFactory\<close>,
  \<^verbatim>\<open>NumericTypeUnifier\<close> and the protocol-buffer form of a type.

  Every \<^verbatim>\<open>Type\<close> is a singleton found by its ID, its nullability and, for the string types, its length:
  \<^verbatim>\<open>Type::equals\<close> compares addresses. A type is therefore the record of those three, and two types are
  the same object exactly when the records are equal. What the code does by \<^verbatim>\<open>FATAL_ERROR\<close> or
  \<^verbatim>\<open>LOG(FATAL)\<close> is the value \<open>None\<close>.
\<close>

section \<open>Types\<close>

datatype TypeID = kInt | kLong | kFloat | kDouble | kChar | kVarChar | kDate | kDatetime
  | kDatetimeInterval | kYearMonthInterval | kNullType

datatype SuperTypeID = kNumeric | kAsciiString | kOther

record sql_type =
  type_id :: TypeID
  nullable :: bool
  string_length :: nat

definition kTypeNames :: "TypeID \<Rightarrow> string" where
  "kTypeNames tid =
     (case tid of
        kInt \<Rightarrow> ''Int'' | kLong \<Rightarrow> ''Long'' | kFloat \<Rightarrow> ''Float'' | kDouble \<Rightarrow> ''Double''
      | kChar \<Rightarrow> ''Char'' | kVarChar \<Rightarrow> ''VarChar'' | kDate \<Rightarrow> ''Date'' | kDatetime \<Rightarrow> ''Datetime''
      | kDatetimeInterval \<Rightarrow> ''DatetimeInterval'' | kYearMonthInterval \<Rightarrow> ''YearMonthInterval''
      | kNullType \<Rightarrow> ''NullType'')"

fun superTypeOf :: "TypeID \<Rightarrow> SuperTypeID" where
  "superTypeOf kInt = kNumeric"
| "superTypeOf kLong = kNumeric"
| "superTypeOf kFloat = kNumeric"
| "superTypeOf kDouble = kNumeric"
| "superTypeOf kChar = kAsciiString"
| "superTypeOf kVarChar = kAsciiString"
| "superTypeOf kDate = kOther"
| "superTypeOf kDatetime = kOther"
| "superTypeOf kDatetimeInterval = kOther"
| "superTypeOf kYearMonthInterval = kOther"
| "superTypeOf kNullType = kOther"

definition getSuperTypeID :: "sql_type \<Rightarrow> SuperTypeID" where
  "getSuperTypeID t = superTypeOf (type_id t)"

text \<open>The byte lengths each constructor passes to its base class.\<close>

definition maximumByteLength :: "sql_type \<Rightarrow> nat" where
  "maximumByteLength t =
     (case type_id t of
        kInt \<Rightarrow> 4 | kFloat \<Rightarrow> 4 | kLong \<Rightarrow> 8 | kDouble \<Rightarrow> 8
      | kChar \<Rightarrow> string_length t
      | kVarChar \<Rightarrow> string_length t + 1
      | kDate \<Rightarrow> 8 | kDatetime \<Rightarrow> 8 | kDatetimeInterval \<Rightarrow> 8 | kYearMonthInterval \<Rightarrow> 8
      | kNullType \<Rightarrow> 0)"

definition minimumByteLength :: "sql_type \<Rightarrow> nat" where
  "minimumByteLength t = (if type_id t = kVarChar then 1 else maximumByteLength t)"

definition isVariableLength :: "sql_type \<Rightarrow> bool" where
  "isVariableLength t \<longleftrightarrow> minimumByteLength t \<noteq> maximumByteLength t"

definition estimateAverageByteLength :: "sql_type \<Rightarrow> nat" where
  "estimateAverageByteLength t =
     (if type_id t = kVarChar
      then if string_length t > 160 then 80 else string_length t div 2 + 1
      else maximumByteLength t)"

definition getNullableVersion :: "sql_type \<Rightarrow> sql_type" where
  "getNullableVersion t = t\<lparr>nullable := True\<rparr>"

definition getNonNullableVersion :: "sql_type \<Rightarrow> sql_type option" where
  "getNonNullableVersion t = (if type_id t = kNullType then None else Some (t\<lparr>nullable := False\<rparr>))"

section \<open>Coercibility\<close>

text \<open>The check that the macro \<^verbatim>\<open>QUICKSTEP_NULL_COERCIBILITY_CHECK\<close> puts before the rest of a function.\<close>

definition null_coercibility_check :: "sql_type \<Rightarrow> sql_type \<Rightarrow> bool \<Rightarrow> bool" where
  "null_coercibility_check this original_type rest =
     (if nullable original_type \<and> \<not> nullable this then False
      else if type_id original_type = kNullType then True
      else rest)"

definition NumericSuperType_isCoercibleFrom :: "sql_type \<Rightarrow> sql_type \<Rightarrow> bool" where
  "NumericSuperType_isCoercibleFrom this original_type =
     null_coercibility_check this original_type (getSuperTypeID original_type = kNumeric)"

definition AsciiStringSuperType_isCoercibleFrom :: "sql_type \<Rightarrow> sql_type \<Rightarrow> bool" where
  "AsciiStringSuperType_isCoercibleFrom this original_type =
     (if nullable original_type \<and> \<not> nullable this then False
      else getSuperTypeID original_type = kAsciiString \<or> type_id original_type = kNullType)"

definition NullType_isCoercibleFrom :: "sql_type \<Rightarrow> sql_type \<Rightarrow> bool" where
  "NullType_isCoercibleFrom this original_type \<longleftrightarrow> type_id original_type = kNullType"

definition DateType_isCoercibleFrom :: "sql_type \<Rightarrow> sql_type \<Rightarrow> bool" where
  "DateType_isCoercibleFrom this original_type =
     null_coercibility_check this original_type (type_id original_type = kDate)"

definition DatetimeType_isCoercibleFrom :: "sql_type \<Rightarrow> sql_type \<Rightarrow> bool" where
  "DatetimeType_isCoercibleFrom this original_type =
     null_coercibility_check this original_type (type_id original_type = kDatetime)"

definition DatetimeIntervalType_isCoercibleFrom :: "sql_type \<Rightarrow> sql_type \<Rightarrow> bool" where
  "DatetimeIntervalType_isCoercibleFrom this original_type =
     null_coercibility_check this original_type (type_id original_type = kDatetimeInterval)"

definition YearMonthIntervalType_isCoercibleFrom :: "sql_type \<Rightarrow> sql_type \<Rightarrow> bool" where
  "YearMonthIntervalType_isCoercibleFrom this original_type =
     null_coercibility_check this original_type (type_id original_type = kYearMonthInterval)"

text \<open>The virtual call.\<close>

definition isCoercibleFrom :: "sql_type \<Rightarrow> sql_type \<Rightarrow> bool" where
  "isCoercibleFrom this original_type =
     (case type_id this of
        kInt \<Rightarrow> NumericSuperType_isCoercibleFrom this original_type
      | kLong \<Rightarrow> NumericSuperType_isCoercibleFrom this original_type
      | kFloat \<Rightarrow> NumericSuperType_isCoercibleFrom this original_type
      | kDouble \<Rightarrow> NumericSuperType_isCoercibleFrom this original_type
      | kChar \<Rightarrow> AsciiStringSuperType_isCoercibleFrom this original_type
      | kVarChar \<Rightarrow> AsciiStringSuperType_isCoercibleFrom this original_type
      | kDate \<Rightarrow> DateType_isCoercibleFrom this original_type
      | kDatetime \<Rightarrow> DatetimeType_isCoercibleFrom this original_type
      | kDatetimeInterval \<Rightarrow> DatetimeIntervalType_isCoercibleFrom this original_type
      | kYearMonthInterval \<Rightarrow> YearMonthIntervalType_isCoercibleFrom this original_type
      | kNullType \<Rightarrow> NullType_isCoercibleFrom this original_type)"

definition IntType_isSafelyCoercibleFrom :: "sql_type \<Rightarrow> sql_type \<Rightarrow> bool" where
  "IntType_isSafelyCoercibleFrom this original_type =
     null_coercibility_check this original_type (type_id original_type = kInt)"

definition LongType_isSafelyCoercibleFrom :: "sql_type \<Rightarrow> sql_type \<Rightarrow> bool" where
  "LongType_isSafelyCoercibleFrom this original_type =
     null_coercibility_check this original_type (type_id original_type \<in> {kInt, kLong})"

definition FloatType_isSafelyCoercibleFrom :: "sql_type \<Rightarrow> sql_type \<Rightarrow> bool" where
  "FloatType_isSafelyCoercibleFrom this original_type =
     null_coercibility_check this original_type (type_id original_type \<in> {kInt, kFloat})"

definition DoubleType_isSafelyCoercibleFrom :: "sql_type \<Rightarrow> sql_type \<Rightarrow> bool" where
  "DoubleType_isSafelyCoercibleFrom this original_type =
     null_coercibility_check this original_type (type_id original_type \<in> {kInt, kLong, kFloat, kDouble})"

definition CharType_isSafelyCoercibleFrom :: "sql_type \<Rightarrow> sql_type \<Rightarrow> bool" where
  "CharType_isSafelyCoercibleFrom this original_type =
     null_coercibility_check this original_type
       (case type_id original_type of
          kChar \<Rightarrow> maximumByteLength original_type \<le> string_length this
        | kVarChar \<Rightarrow> maximumByteLength original_type - 1 \<le> string_length this
        | _ \<Rightarrow> False)"

definition VarCharType_isSafelyCoercibleFrom :: "sql_type \<Rightarrow> sql_type \<Rightarrow> bool" where
  "VarCharType_isSafelyCoercibleFrom this original_type =
     null_coercibility_check this original_type
       (case type_id original_type of
          kChar \<Rightarrow> maximumByteLength original_type \<le> string_length this
        | kVarChar \<Rightarrow> maximumByteLength original_type \<le> string_length this + 1
        | _ \<Rightarrow> False)"

definition NullType_isSafelyCoercibleFrom :: "sql_type \<Rightarrow> sql_type \<Rightarrow> bool" where
  "NullType_isSafelyCoercibleFrom this original_type \<longleftrightarrow> type_id original_type = kNullType"

definition DateType_isSafelyCoercibleFrom :: "sql_type \<Rightarrow> sql_type \<Rightarrow> bool" where
  "DateType_isSafelyCoercibleFrom this original_type =
     null_coercibility_check this original_type (type_id original_type = kDate)"

definition DatetimeType_isSafelyCoercibleFrom :: "sql_type \<Rightarrow> sql_type \<Rightarrow> bool" where
  "DatetimeType_isSafelyCoercibleFrom this original_type =
     null_coercibility_check this original_type (type_id original_type = kDatetime)"

definition DatetimeIntervalType_isSafelyCoercibleFrom :: "sql_type \<Rightarrow> sql_type \<Rightarrow> bool" where
  "DatetimeIntervalType_isSafelyCoercibleFrom this original_type =
     null_coercibility_check this original_type (type_id original_type = kDatetimeInterval)"

definition YearMonthIntervalType_isSafelyCoercibleFrom :: "sql_type \<Rightarrow> sql_type \<Rightarrow> bool" where
  "YearMonthIntervalType_isSafelyCoercibleFrom this original_type =
     null_coercibility_check this original_type (type_id original_type = kYearMonthInterval)"

definition isSafelyCoercibleFrom :: "sql_type \<Rightarrow> sql_type \<Rightarrow> bool" where
  "isSafelyCoercibleFrom this original_type =
     (case type_id this of
        kInt \<Rightarrow> IntType_isSafelyCoercibleFrom this original_type
      | kLong \<Rightarrow> LongType_isSafelyCoercibleFrom this original_type
      | kFloat \<Rightarrow> FloatType_isSafelyCoercibleFrom this original_type
      | kDouble \<Rightarrow> DoubleType_isSafelyCoercibleFrom this original_type
      | kChar \<Rightarrow> CharType_isSafelyCoercibleFrom this original_type
      | kVarChar \<Rightarrow> VarCharType_isSafelyCoercibleFrom this original_type
      | kDate \<Rightarrow> DateType_isSafelyCoercibleFrom this original_type
      | kDatetime \<Rightarrow> DatetimeType_isSafelyCoercibleFrom this original_type
      | kDatetimeInterval \<Rightarrow> DatetimeIntervalType_isSafelyCoercibleFrom this original_type
      | kYearMonthInterval \<Rightarrow> YearMonthIntervalType_isSafelyCoercibleFrom this original_type
      | kNullType \<Rightarrow> NullType_isSafelyCoercibleFrom this original_type)"

named_theorems coercibility_defs

lemmas class_coercibility_defs [coercibility_defs] =
  null_coercibility_check_def NumericSuperType_isCoercibleFrom_def AsciiStringSuperType_isCoercibleFrom_def
  NullType_isCoercibleFrom_def DateType_isCoercibleFrom_def DatetimeType_isCoercibleFrom_def
  DatetimeIntervalType_isCoercibleFrom_def YearMonthIntervalType_isCoercibleFrom_def isCoercibleFrom_def
  IntType_isSafelyCoercibleFrom_def LongType_isSafelyCoercibleFrom_def FloatType_isSafelyCoercibleFrom_def
  DoubleType_isSafelyCoercibleFrom_def CharType_isSafelyCoercibleFrom_def VarCharType_isSafelyCoercibleFrom_def
  NullType_isSafelyCoercibleFrom_def DateType_isSafelyCoercibleFrom_def DatetimeType_isSafelyCoercibleFrom_def
  DatetimeIntervalType_isSafelyCoercibleFrom_def YearMonthIntervalType_isSafelyCoercibleFrom_def
  isSafelyCoercibleFrom_def

definition Type_isSubsumedBy :: "sql_type \<Rightarrow> sql_type \<Rightarrow> bool" where
  "Type_isSubsumedBy this other \<longleftrightarrow> this = other \<or> getNullableVersion this = other"

definition VarCharType_isSubsumedBy :: "sql_type \<Rightarrow> sql_type \<Rightarrow> bool" where
  "VarCharType_isSubsumedBy this other =
     (if Type_isSubsumedBy this other then True
      else if type_id other = kVarChar \<and> maximumByteLength this \<le> maximumByteLength other
      then \<not> nullable this \<or> nullable other
      else False)"

definition isSubsumedBy :: "sql_type \<Rightarrow> sql_type \<Rightarrow> bool" where
  "isSubsumedBy this other =
     (if type_id this = kVarChar then VarCharType_isSubsumedBy this other else Type_isSubsumedBy this other)"

record type_signature =
  sig_id :: TypeID
  sig_nullable :: bool
  sig_length :: nat

definition getSignature :: "sql_type \<Rightarrow> type_signature" where
  "getSignature t =
     \<lparr>sig_id = type_id t, sig_nullable = nullable t,
      sig_length = (case type_id t of kChar \<Rightarrow> maximumByteLength t | kVarChar \<Rightarrow> maximumByteLength t - 1 | _ \<Rightarrow> 0)\<rparr>"

section \<open>The factory\<close>

definition TypeRequiresLengthParameter :: "TypeID \<Rightarrow> bool" where
  "TypeRequiresLengthParameter tid = (case tid of kChar \<Rightarrow> True | kVarChar \<Rightarrow> True | _ \<Rightarrow> False)"

definition GetType :: "TypeID \<Rightarrow> bool \<Rightarrow> sql_type option" where
  "GetType tid nullb =
     (case tid of
        kChar \<Rightarrow> None
      | kVarChar \<Rightarrow> None
      | kNullType \<Rightarrow> Some \<lparr>type_id = kNullType, nullable = True, string_length = 0\<rparr>
      | _ \<Rightarrow> Some \<lparr>type_id = tid, nullable = nullb, string_length = 0\<rparr>)"

definition GetTypeWithLength :: "TypeID \<Rightarrow> nat \<Rightarrow> bool \<Rightarrow> sql_type option" where
  "GetTypeWithLength tid len nullb =
     (case tid of
        kChar \<Rightarrow> Some \<lparr>type_id = kChar, nullable = nullb, string_length = len\<rparr>
      | kVarChar \<Rightarrow> Some \<lparr>type_id = kVarChar, nullable = nullb, string_length = len\<rparr>
      | _ \<Rightarrow> None)"

definition GetMostSpecificType :: "sql_type \<Rightarrow> sql_type \<Rightarrow> sql_type option" where
  "GetMostSpecificType first second =
     (if isSafelyCoercibleFrom first second then Some first
      else if isSafelyCoercibleFrom second first then Some second
      else None)"

definition GetUnifyingType :: "sql_type \<Rightarrow> sql_type \<Rightarrow> sql_type option" where
  "GetUnifyingType first second =
     (let long_float = (type_id first = kLong \<and> type_id second = kFloat) \<or>
                       (type_id first = kFloat \<and> type_id second = kLong)
      in if nullable first \<or> nullable second then
           (case GetMostSpecificType (getNullableVersion first) (getNullableVersion second) of
              None \<Rightarrow> if long_float then GetType kDouble True else None
            | Some unifier \<Rightarrow> Some unifier)
         else
           (case GetMostSpecificType first second of
              None \<Rightarrow> if long_float then GetType kDouble False else None
            | Some unifier \<Rightarrow> Some unifier))"

text \<open>The compile-time unifier of numeric types, one specialisation per pair.\<close>

fun NumericTypeUnifier :: "TypeID \<Rightarrow> TypeID \<Rightarrow> TypeID option" where
  "NumericTypeUnifier kInt kInt = Some kInt"
| "NumericTypeUnifier kInt kLong = Some kLong"
| "NumericTypeUnifier kInt kFloat = Some kFloat"
| "NumericTypeUnifier kInt kDouble = Some kDouble"
| "NumericTypeUnifier kLong kInt = Some kLong"
| "NumericTypeUnifier kLong kLong = Some kLong"
| "NumericTypeUnifier kLong kFloat = Some kDouble"
| "NumericTypeUnifier kLong kDouble = Some kDouble"
| "NumericTypeUnifier kFloat kInt = Some kFloat"
| "NumericTypeUnifier kFloat kLong = Some kDouble"
| "NumericTypeUnifier kFloat kFloat = Some kFloat"
| "NumericTypeUnifier kFloat kDouble = Some kDouble"
| "NumericTypeUnifier kDouble kInt = Some kDouble"
| "NumericTypeUnifier kDouble kLong = Some kDouble"
| "NumericTypeUnifier kDouble kFloat = Some kDouble"
| "NumericTypeUnifier kDouble kDouble = Some kDouble"
| "NumericTypeUnifier _ _ = None"

section \<open>Serialization\<close>

text \<open>
  The message \<^verbatim>\<open>serialization::Type\<close>; the length is an extension, one for each of the two string types.
  A message built by \<open>getProto\<close> has its required fields; one received may lack them.
\<close>

datatype proto_type_id = PROTO_INT | PROTO_LONG | PROTO_FLOAT | PROTO_DOUBLE | PROTO_CHAR | PROTO_VAR_CHAR | PROTO_DATETIME | PROTO_DATETIME_INTERVAL
  | PROTO_YEAR_MONTH_INTERVAL | PROTO_NULL_TYPE | PROTO_DATE

record type_proto =
  p_type_id :: "proto_type_id option"
  p_nullable :: "bool option"
  p_char_length :: "nat option"
  p_varchar_length :: "nat option"

fun proto_id :: "TypeID \<Rightarrow> proto_type_id" where
  "proto_id kInt = PROTO_INT"
| "proto_id kLong = PROTO_LONG"
| "proto_id kFloat = PROTO_FLOAT"
| "proto_id kDouble = PROTO_DOUBLE"
| "proto_id kChar = PROTO_CHAR"
| "proto_id kVarChar = PROTO_VAR_CHAR"
| "proto_id kDate = PROTO_DATE"
| "proto_id kDatetime = PROTO_DATETIME"
| "proto_id kDatetimeInterval = PROTO_DATETIME_INTERVAL"
| "proto_id kYearMonthInterval = PROTO_YEAR_MONTH_INTERVAL"
| "proto_id kNullType = PROTO_NULL_TYPE"

definition CharType_getProto :: "sql_type \<Rightarrow> type_proto" where
  "CharType_getProto t =
     \<lparr>p_type_id = Some PROTO_CHAR, p_nullable = Some (nullable t),
      p_char_length = Some (string_length t), p_varchar_length = None\<rparr>"

definition VarCharType_getProto :: "sql_type \<Rightarrow> type_proto" where
  "VarCharType_getProto t =
     \<lparr>p_type_id = Some PROTO_VAR_CHAR, p_nullable = Some (nullable t),
      p_char_length = None, p_varchar_length = Some (string_length t)\<rparr>"

definition Type_getProto :: "sql_type \<Rightarrow> type_proto" where
  "Type_getProto t =
     (case type_id t of
        kChar \<Rightarrow> CharType_getProto t
      | kVarChar \<Rightarrow> VarCharType_getProto t
      | tid \<Rightarrow> \<lparr>p_type_id = Some (proto_id tid), p_nullable = Some (nullable t),
                p_char_length = None, p_varchar_length = None\<rparr>)"

definition Type_ProtoIsValid :: "type_proto \<Rightarrow> bool" where
  "Type_ProtoIsValid proto =
     (case (p_type_id proto, p_nullable proto) of
        (Some tid, Some nullb) \<Rightarrow>
          (case tid of
             PROTO_CHAR \<Rightarrow> p_char_length proto \<noteq> None
           | PROTO_VAR_CHAR \<Rightarrow> p_varchar_length proto \<noteq> None
           | PROTO_NULL_TYPE \<Rightarrow> nullb
           | _ \<Rightarrow> True)
      | _ \<Rightarrow> False)"

text \<open>Fields that are not set read as the default of their type: \<open>PROTO_INT\<close>, \<open>False\<close> and \<open>0\<close>.\<close>

definition Type_ReconstructFromProto :: "type_proto \<Rightarrow> sql_type option" where
  "Type_ReconstructFromProto proto =
     (let nullb = (case p_nullable proto of Some b \<Rightarrow> b | None \<Rightarrow> False);
          default = (\<lambda>len. case len of Some n \<Rightarrow> n | None \<Rightarrow> 0)
      in case (case p_type_id proto of Some tid \<Rightarrow> tid | None \<Rightarrow> PROTO_INT) of
           PROTO_INT \<Rightarrow> GetType kInt nullb
         | PROTO_LONG \<Rightarrow> GetType kLong nullb
         | PROTO_FLOAT \<Rightarrow> GetType kFloat nullb
         | PROTO_DOUBLE \<Rightarrow> GetType kDouble nullb
         | PROTO_DATE \<Rightarrow> GetType kDate nullb
         | PROTO_DATETIME \<Rightarrow> GetType kDatetime nullb
         | PROTO_DATETIME_INTERVAL \<Rightarrow> GetType kDatetimeInterval nullb
         | PROTO_YEAR_MONTH_INTERVAL \<Rightarrow> GetType kYearMonthInterval nullb
         | PROTO_CHAR \<Rightarrow> GetTypeWithLength kChar (default (p_char_length proto)) nullb
         | PROTO_VAR_CHAR \<Rightarrow> GetTypeWithLength kVarChar (default (p_varchar_length proto)) nullb
         | PROTO_NULL_TYPE \<Rightarrow> GetType kNullType True)"

section \<open>Well-formed types and the safe-coercion order\<close>

text \<open>The types the factory hands out: no length but for strings, and the null type is nullable.\<close>

definition type_wf :: "sql_type \<Rightarrow> bool" where
  "type_wf t \<longleftrightarrow> (type_id t = kNullType \<longrightarrow> nullable t) \<and>
     (\<not> TypeRequiresLengthParameter (type_id t) \<longrightarrow> string_length t = 0)"

named_theorems type_defs

lemmas type_lengths [type_defs] = maximumByteLength_def minimumByteLength_def TypeRequiresLengthParameter_def

lemma GetType_wf: "GetType tid nullb = Some t \<Longrightarrow> type_wf t"
  by (cases tid) (auto simp: GetType_def type_wf_def type_defs)

lemma GetTypeWithLength_wf: "GetTypeWithLength tid len nullb = Some t \<Longrightarrow> type_wf t"
  by (cases tid) (auto simp: GetTypeWithLength_def type_wf_def type_defs)

lemma getNullableVersion_wf: "type_wf t \<Longrightarrow> type_wf (getNullableVersion t)"
  by (simp add: getNullableVersion_def type_wf_def)

lemma nullable_version_simps [simp]:
  "type_id (getNullableVersion t) = type_id t" "nullable (getNullableVersion t)"
  "string_length (getNullableVersion t) = string_length t"
  by (simp_all add: getNullableVersion_def)

text \<open>The order on types that safe coercion amounts to: strings by length, the others by their IDs.\<close>

fun safely_below :: "TypeID \<Rightarrow> TypeID set" where
  "safely_below kLong = {kInt, kLong}"
| "safely_below kFloat = {kInt, kFloat}"
| "safely_below kDouble = {kInt, kLong, kFloat, kDouble}"
| "safely_below t = {t}"

lemma safely_iff:
  "isSafelyCoercibleFrom t u \<longleftrightarrow>
    (if type_id t = kNullType then type_id u = kNullType
     else (nullable u \<longrightarrow> nullable t) \<and>
       (type_id u = kNullType \<or>
        (if TypeRequiresLengthParameter (type_id t)
         then TypeRequiresLengthParameter (type_id u) \<and> string_length u \<le> string_length t
         else type_id u \<in> safely_below (type_id t))))"
  by (cases "type_id t"; cases "type_id u")
    (simp_all add: coercibility_defs maximumByteLength_def TypeRequiresLengthParameter_def)

lemma below_refl [simp]: "t \<in> safely_below t"
  by (cases t) simp_all

lemma below_trans: "u \<in> safely_below t \<Longrightarrow> v \<in> safely_below u \<Longrightarrow> v \<in> safely_below t"
  by (cases t) auto

lemma below_string: "u \<in> safely_below t \<Longrightarrow> TypeRequiresLengthParameter u = TypeRequiresLengthParameter t"
  by (cases t) (auto simp: TypeRequiresLengthParameter_def)

lemma below_null: "u \<in> safely_below t \<Longrightarrow> u = kNullType \<longleftrightarrow> t = kNullType"
  by (cases t) auto

lemma requires_length_null [simp]: "\<not> TypeRequiresLengthParameter kNullType"
  by (simp add: TypeRequiresLengthParameter_def)

lemma safely_refl: "isSafelyCoercibleFrom t t"
  by (simp add: safely_iff)

lemma safely_imp_coercible: "isSafelyCoercibleFrom t u \<Longrightarrow> isCoercibleFrom t u"
  by (cases "type_id t")
    (auto simp: coercibility_defs getSuperTypeID_def split: if_splits TypeID.splits)

lemma safely_trans:
  assumes "isSafelyCoercibleFrom t u" "isSafelyCoercibleFrom u v" "type_wf u"
  shows "isSafelyCoercibleFrom t v"
  using assms below_trans [of "type_id u" "type_id t" "type_id v"] below_string [of "type_id u" "type_id t"]
  by (auto simp: safely_iff type_wf_def dest: below_null split: if_splits)

text \<open>
  A type that both arguments can be safely coerced to is an upper bound of the two. With a nullable
  argument, bounding the two types is bounding their nullable versions.
\<close>

definition type_bound :: "sql_type \<Rightarrow> sql_type \<Rightarrow> sql_type \<Rightarrow> bool" where
  "type_bound first second t \<longleftrightarrow> isSafelyCoercibleFrom t first \<and> isSafelyCoercibleFrom t second"

definition long_float_pair :: "sql_type \<Rightarrow> sql_type \<Rightarrow> bool" where
  "long_float_pair first second \<longleftrightarrow>
     (type_id first = kLong \<and> type_id second = kFloat) \<or> (type_id first = kFloat \<and> type_id second = kLong)"

lemma safely_nullable_version:
  assumes "nullable t"
  shows "isSafelyCoercibleFrom t (getNullableVersion u) \<longleftrightarrow> isSafelyCoercibleFrom t u"
  using assms by (simp add: safely_iff)

lemma safely_nullable: "isSafelyCoercibleFrom t u \<Longrightarrow> nullable u \<Longrightarrow> type_wf t \<Longrightarrow> nullable t"
  by (auto simp: safely_iff type_wf_def split: if_splits)

lemma bound_nullable_version:
  assumes "nullable first \<or> nullable second" "type_wf t"
  shows "type_bound first second t \<longleftrightarrow> nullable t \<and> type_bound (getNullableVersion first) (getNullableVersion second) t"
proof
  assume b: "type_bound first second t"
  then have "nullable t" using assms safely_nullable [of t] by (auto simp: type_bound_def)
  then show "nullable t \<and> type_bound (getNullableVersion first) (getNullableVersion second) t"
    using b by (simp add: type_bound_def safely_nullable_version)
qed (auto simp: type_bound_def safely_nullable_version)

text \<open>Incomparable types have an upper bound only when one is \<open>Long\<close> and the other \<open>Float\<close>.\<close>

lemma bound_incomparable:
  assumes "type_bound f g t" "\<not> isSafelyCoercibleFrom f g" "\<not> isSafelyCoercibleFrom g f"
    and "nullable f = nullable g" "type_wf f" "type_wf g"
  shows "long_float_pair f g \<and> isSafelyCoercibleFrom t \<lparr>type_id = kDouble, nullable = nullable f, string_length = 0\<rparr>"
  using assms
  by (cases "type_id t")
    (auto simp: type_bound_def safely_iff long_float_pair_def TypeRequiresLengthParameter_def type_wf_def
      split: if_splits)

lemma double_bound:
  "long_float_pair f g \<Longrightarrow> nullable f = nullable g \<Longrightarrow>
    type_bound f g \<lparr>type_id = kDouble, nullable = nullable f, string_length = 0\<rparr>"
  by (auto simp: long_float_pair_def type_bound_def safely_iff TypeRequiresLengthParameter_def)

lemma most_specific_bound:
  assumes "GetMostSpecificType f g = Some u"
  shows "type_bound f g u" "\<And>t. type_bound f g t \<Longrightarrow> isSafelyCoercibleFrom t u" "u = f \<or> u = g"
  using assms safely_refl by (auto simp: GetMostSpecificType_def type_bound_def split: if_splits)

text \<open>The unifier of two types of one nullability.\<close>

definition unify_same :: "sql_type \<Rightarrow> sql_type \<Rightarrow> sql_type option" where
  "unify_same f g =
     (case GetMostSpecificType f g of
        None \<Rightarrow> if long_float_pair f g then GetType kDouble (nullable f) else None
      | Some u \<Rightarrow> Some u)"

lemma unify_unify_same:
  "GetUnifyingType f g =
    (if nullable f \<or> nullable g then unify_same (getNullableVersion f) (getNullableVersion g) else unify_same f g)"
  by (auto simp: GetUnifyingType_def unify_same_def Let_def long_float_pair_def cong: option.case_cong)

lemma unify_same_least:
  assumes "nullable f = nullable g" "type_wf f" "type_wf g" "unify_same f g = Some u"
  shows "type_bound f g u \<and> nullable u = nullable f \<and> type_wf u \<and> (\<forall>t. type_bound f g t \<longrightarrow> isSafelyCoercibleFrom t u)"
proof (cases "GetMostSpecificType f g")
  case (Some v)
  then have "v = u" using assms(4) by (simp add: unify_same_def)
  then show ?thesis using most_specific_bound [OF Some] assms(1-3) by auto
next
  case None
  then have n: "\<not> isSafelyCoercibleFrom f g" "\<not> isSafelyCoercibleFrom g f"
    by (auto simp: GetMostSpecificType_def split: if_splits)
  have lf: "long_float_pair f g" and u: "u = \<lparr>type_id = kDouble, nullable = nullable f, string_length = 0\<rparr>"
    using None assms(4) by (auto simp: unify_same_def GetType_def split: if_splits)
  have "isSafelyCoercibleFrom t u" if "type_bound f g t" for t
    using bound_incomparable [OF that n assms(1-3)] u by simp
  moreover have "type_wf u" by (simp add: u type_wf_def)
  ultimately show ?thesis using double_bound [OF lf assms(1)] u by simp
qed

lemma unify_same_none:
  assumes "nullable f = nullable g" "type_wf f" "type_wf g" "unify_same f g = None"
  shows "\<not> type_bound f g t"
proof
  assume b: "type_bound f g t"
  have "GetMostSpecificType f g = None" "\<not> long_float_pair f g"
    using assms(4) by (auto simp: unify_same_def GetType_def split: option.splits if_splits)
  then show False using bound_incomparable [OF b _ _ assms(1-3)]
    by (auto simp: GetMostSpecificType_def split: if_splits)
qed

lemma unify_least:
  assumes "type_wf f" "type_wf g" "GetUnifyingType f g = Some u"
  shows "type_bound f g u" "nullable u \<longleftrightarrow> nullable f \<or> nullable g" "type_wf u"
    and "\<And>t. type_wf t \<Longrightarrow> type_bound f g t \<Longrightarrow> isSafelyCoercibleFrom t u"
proof -
  have "type_bound f g u \<and> (nullable u \<longleftrightarrow> nullable f \<or> nullable g) \<and> type_wf u \<and>
    (\<forall>t. type_wf t \<longrightarrow> type_bound f g t \<longrightarrow> isSafelyCoercibleFrom t u)"
  proof (cases "nullable f \<or> nullable g")
    case True
    have "unify_same (getNullableVersion f) (getNullableVersion g) = Some u"
      using assms(3) True by (simp add: unify_unify_same)
    from unify_same_least [OF _ _ _ this] assms(1,2) show ?thesis
      using bound_nullable_version [OF True] True by (auto simp: getNullableVersion_wf)
  next
    case False
    then have "unify_same f g = Some u" using assms(3) by (simp add: unify_unify_same)
    from unify_same_least [OF _ assms(1,2) this] show ?thesis using False by auto
  qed
  then show "type_bound f g u" "nullable u \<longleftrightarrow> nullable f \<or> nullable g" "type_wf u"
    and "\<And>t. type_wf t \<Longrightarrow> type_bound f g t \<Longrightarrow> isSafelyCoercibleFrom t u" by blast+
qed

lemma unify_none:
  assumes "type_wf f" "type_wf g" "GetUnifyingType f g = None" "type_wf t"
  shows "\<not> type_bound f g t"
proof (cases "nullable f \<or> nullable g")
  case True
  have "unify_same (getNullableVersion f) (getNullableVersion g) = None"
    using assms(3) True by (simp add: unify_unify_same)
  from unify_same_none [OF _ _ _ this] assms show ?thesis
    using bound_nullable_version [OF True] by (auto simp: getNullableVersion_wf)
next
  case False
  then have "unify_same f g = None" using assms(3) by (simp add: unify_unify_same)
  from unify_same_none [OF _ assms(1,2) this] show ?thesis using False by simp
qed

lemma proto_round_trip: "type_wf t \<Longrightarrow> Type_ReconstructFromProto (Type_getProto t) = Some t"
  by (cases t; cases "type_id t")
    (simp_all add: Type_ReconstructFromProto_def Type_getProto_def CharType_getProto_def VarCharType_getProto_def GetType_def GetTypeWithLength_def type_wf_def
      TypeRequiresLengthParameter_def)

lemma proto_valid: "type_wf t \<Longrightarrow> Type_ProtoIsValid (Type_getProto t)"
  by (cases "type_id t") (simp_all add: Type_ProtoIsValid_def Type_getProto_def CharType_getProto_def VarCharType_getProto_def type_wf_def)

lemma subsumed_imp_safely:
  assumes "isSubsumedBy t u"
  shows "isSafelyCoercibleFrom u t"
proof -
  consider "t = u" | "getNullableVersion t = u"
    | "type_id t = kVarChar" "type_id u = kVarChar" "maximumByteLength t \<le> maximumByteLength u" "nullable t \<longrightarrow> nullable u"
    using assms
    unfolding isSubsumedBy_def VarCharType_isSubsumedBy_def Type_isSubsumedBy_def if_bool_eq_disj by blast
  then show ?thesis
  proof cases
    case 2
    have "isSafelyCoercibleFrom (getNullableVersion t) t" by (simp add: safely_iff)
    then show ?thesis using 2 by simp
  qed (simp_all add: safely_refl safely_iff maximumByteLength_def TypeRequiresLengthParameter_def)
qed

section \<open>Properties\<close>



text \<open>
  C7: the unifying type of two types is their least upper bound for safe coercion, nullable when one of
  them is; there is none only when they have no upper bound at all.
\<close>

theorem unifying_type_least_upper_bound:
  assumes "type_wf f" "type_wf g"
  shows "(case GetUnifyingType f g of
      None \<Rightarrow> \<forall>t. type_wf t \<longrightarrow> \<not> (isSafelyCoercibleFrom t f \<and> isSafelyCoercibleFrom t g)
    | Some u \<Rightarrow> type_wf u \<and> (nullable u \<longleftrightarrow> nullable f \<or> nullable g) \<and>
        isSafelyCoercibleFrom u f \<and> isSafelyCoercibleFrom u g \<and>
        (\<forall>t. type_wf t \<and> isSafelyCoercibleFrom t f \<and> isSafelyCoercibleFrom t g \<longrightarrow> isSafelyCoercibleFrom t u))"
proof (cases "GetUnifyingType f g")
  case None
  show ?thesis unfolding None option.case using unify_none [OF assms None] unfolding type_bound_def by blast
next
  case (Some u)
  show ?thesis unfolding Some option.case using unify_least [OF assms Some] unfolding type_bound_def by blast
qed

theorem unifying_type_least_upper_bound_witness:
  "isSafelyCoercibleFrom \<lparr>type_id = kDouble, nullable = True, string_length = 0\<rparr>
     \<lparr>type_id = kLong, nullable = True, string_length = 0\<rparr> \<and>
   GetUnifyingType \<lparr>type_id = kLong, nullable = True, string_length = 0\<rparr>
     \<lparr>type_id = kFloat, nullable = False, string_length = 0\<rparr> =
     Some \<lparr>type_id = kDouble, nullable = True, string_length = 0\<rparr>"
  using unifying_type_least_upper_bound [of "\<lparr>type_id = kLong, nullable = True, string_length = 0\<rparr>"
      "\<lparr>type_id = kFloat, nullable = False, string_length = 0\<rparr>"]
  by (simp add: GetUnifyingType_def GetMostSpecificType_def coercibility_defs getNullableVersion_def
      GetType_def type_wf_def TypeRequiresLengthParameter_def)

text \<open>the compile-time unifier of numeric types gives the type the factory computes at run time.\<close>

theorem static_unifier_agrees:
  assumes "GetType a na = Some f" "GetType b nb = Some g" "superTypeOf a = kNumeric" "superTypeOf b = kNumeric"
  shows "\<exists>c. NumericTypeUnifier a b = Some c \<and> GetUnifyingType f g = GetType c (na \<or> nb)"
proof -
  have "a = kInt \<or> a = kLong \<or> a = kFloat \<or> a = kDouble" using assms(3) by (cases a) simp_all
  moreover have "b = kInt \<or> b = kLong \<or> b = kFloat \<or> b = kDouble" using assms(4) by (cases b) simp_all
  moreover have "f = \<lparr>type_id = a, nullable = na, string_length = 0\<rparr>"
    using assms(1,3) by (cases a) (simp_all add: GetType_def)
  moreover have "g = \<lparr>type_id = b, nullable = nb, string_length = 0\<rparr>"
    using assms(2,4) by (cases b) (simp_all add: GetType_def)
  ultimately show ?thesis
    by (elim disjE; simp; cases na; cases nb;
        simp add: GetType_def GetUnifyingType_def GetMostSpecificType_def coercibility_defs
          getNullableVersion_def)
qed

theorem static_unifier_agrees_witness:
  "NumericTypeUnifier kLong kFloat = Some kDouble \<and>
   (\<exists>c. NumericTypeUnifier kLong kFloat = Some c \<and>
     GetUnifyingType \<lparr>type_id = kLong, nullable = True, string_length = 0\<rparr>
       \<lparr>type_id = kFloat, nullable = False, string_length = 0\<rparr> = GetType c True)"
  using static_unifier_agrees [of kLong True "\<lparr>type_id = kLong, nullable = True, string_length = 0\<rparr>"
      kFloat False "\<lparr>type_id = kFloat, nullable = False, string_length = 0\<rparr>"] by (simp add: GetType_def)

text \<open>every type of the factory survives serialization, and its message is valid.\<close>

theorem type_proto_round_trip:
  "type_wf t \<Longrightarrow> Type_ProtoIsValid (Type_getProto t) \<and> Type_ReconstructFromProto (Type_getProto t) = Some t"
  by (simp add: proto_valid proto_round_trip)

theorem type_proto_round_trip_witness:
  "Type_ReconstructFromProto (Type_getProto \<lparr>type_id = kVarChar, nullable = True, string_length = 12\<rparr>) =
    Some \<lparr>type_id = kVarChar, nullable = True, string_length = 12\<rparr>"
  using type_proto_round_trip [of "\<lparr>type_id = kVarChar, nullable = True, string_length = 12\<rparr>"]
  by (simp add: type_wf_def TypeRequiresLengthParameter_def)

end
