(* ===== verification/Floats.thy ===== *)
theory Floats
  imports Prelude
begin

text \<open>
  The C++ types \<^verbatim>\<open>float\<close> and \<^verbatim>\<open>double\<close> as IEEE 754 binary32 and binary64 bit patterns, with the
  operations the code uses of them: conversions, comparisons and arithmetic, rounded to nearest, ties
  to even. A finite number is a sign, a natural significand and a power of two, on which arithmetic is
  exact; \<open>fp_round\<close> is the one place that rounds. The result of an invalid operation is one fixed NaN.
  Converting a value out of range to an integer is undefined in C++ and is \<open>None\<close> here.
\<close>

section \<open>Formats\<close>

datatype fp = NaN | Inf bool | Fin bool nat int

record fp_format =
  frac_bits :: nat
  exp_bits :: nat

definition binary32 :: fp_format where
  "binary32 = \<lparr>frac_bits = 23, exp_bits = 8\<rparr>"

definition binary64 :: fp_format where
  "binary64 = \<lparr>frac_bits = 52, exp_bits = 11\<rparr>"

definition fp_bias :: "fp_format \<Rightarrow> int" where
  "fp_bias fmt = 2 ^ (exp_bits fmt - 1) - 1"

text \<open>The exponent of the unit in the last place of a subnormal number.\<close>

definition fp_emin :: "fp_format \<Rightarrow> int" where
  "fp_emin fmt = 1 - fp_bias fmt - int (frac_bits fmt)"

definition fp_decode :: "fp_format \<Rightarrow> nat \<Rightarrow> fp" where
  "fp_decode fmt w =
     (let f = w mod 2 ^ frac_bits fmt;
          e = (w div 2 ^ frac_bits fmt) mod 2 ^ exp_bits fmt;
          s = odd (w div 2 ^ (frac_bits fmt + exp_bits fmt))
      in if e = 2 ^ exp_bits fmt - 1 then (if f = 0 then Inf s else NaN)
         else if e = 0 then Fin s f (fp_emin fmt)
         else Fin s (f + 2 ^ frac_bits fmt) (fp_emin fmt + int (e - 1)))"

definition fp_bits :: "fp_format \<Rightarrow> bool \<Rightarrow> nat \<Rightarrow> nat \<Rightarrow> nat" where
  "fp_bits fmt s e f = (if s then 2 ^ (frac_bits fmt + exp_bits fmt) else 0) + e * 2 ^ frac_bits fmt + f"

section \<open>Rounding\<close>

fun bit_length :: "nat \<Rightarrow> nat" where
  "bit_length m = (if m = 0 then 0 else Suc (bit_length (m div 2)))"

declare bit_length.simps [simp del]

text \<open>\<open>m * 2 ^ e\<close> as a multiple of \<open>2 ^ q\<close>, to the nearest, ties to even.\<close>

definition round_to :: "int \<Rightarrow> nat \<Rightarrow> int \<Rightarrow> nat" where
  "round_to q m e =
     (if q \<le> e then m * 2 ^ nat (e - q)
      else let d = 2 ^ nat (q - e); k = m div d; r = m mod d
           in if d < 2 * r \<or> (d = 2 * r \<and> odd k) then k + 1 else k)"

text \<open>The unit in the last place that \<open>m * 2 ^ e\<close> is rounded to, and the bits of \<open>k\<close> such units.\<close>

definition fp_unit :: "fp_format \<Rightarrow> nat \<Rightarrow> int \<Rightarrow> int" where
  "fp_unit fmt m e = max (e + int (bit_length m) - int (frac_bits fmt + 1)) (fp_emin fmt)"

definition fp_pack_normal :: "fp_format \<Rightarrow> bool \<Rightarrow> int \<Rightarrow> nat \<Rightarrow> nat" where
  "fp_pack_normal fmt s q k =
     (let x = nat (q - fp_emin fmt) + 1
      in if k < 2 ^ frac_bits fmt then fp_bits fmt s 0 k
         else if 2 ^ exp_bits fmt - 1 \<le> x then fp_bits fmt s (2 ^ exp_bits fmt - 1) 0
         else fp_bits fmt s x (k - 2 ^ frac_bits fmt))"

definition fp_pack :: "fp_format \<Rightarrow> bool \<Rightarrow> int \<Rightarrow> nat \<Rightarrow> nat" where
  "fp_pack fmt s q k =
     (if k = 2 ^ (frac_bits fmt + 1) then fp_pack_normal fmt s (q + 1) (2 ^ frac_bits fmt)
      else fp_pack_normal fmt s q k)"

definition fp_round :: "fp_format \<Rightarrow> bool \<Rightarrow> nat \<Rightarrow> int \<Rightarrow> nat" where
  "fp_round fmt s m e = fp_pack fmt s (fp_unit fmt m e) (round_to (fp_unit fmt m e) m e)"

definition fp_encode :: "fp_format \<Rightarrow> fp \<Rightarrow> nat" where
  "fp_encode fmt x =
     (case x of
        NaN \<Rightarrow> fp_bits fmt False (2 ^ exp_bits fmt - 1) (2 ^ (frac_bits fmt - 1))
      | Inf s \<Rightarrow> fp_bits fmt s (2 ^ exp_bits fmt - 1) 0
      | Fin s m e \<Rightarrow> fp_round fmt s m e)"

section \<open>Operations on numbers\<close>

definition fp_of_int :: "int \<Rightarrow> fp" where
  "fp_of_int i = Fin (i < 0) (nat \<bar>i\<bar>) 0"

text \<open>Truncation towards zero.\<close>

definition fp_to_int :: "fp \<Rightarrow> int option" where
  "fp_to_int x =
     (case x of
        Fin s m e \<Rightarrow>
          let k = (if 0 \<le> e then m * 2 ^ nat e else m div 2 ^ nat (- e))
          in Some (if s then - int k else int k)
      | _ \<Rightarrow> None)"

definition signed_mant :: "bool \<Rightarrow> nat \<Rightarrow> int" where
  "signed_mant s m = (if s then - int m else int m)"

text \<open>Two finite numbers as integer multiples of one power of two.\<close>

definition fp_align :: "int \<Rightarrow> bool \<Rightarrow> nat \<Rightarrow> int \<Rightarrow> int" where
  "fp_align q s m e = signed_mant s m * 2 ^ nat (e - q)"

fun fp_less :: "fp \<Rightarrow> fp \<Rightarrow> bool" where
  "fp_less NaN _ = False"
| "fp_less _ NaN = False"
| "fp_less (Inf s) (Inf t) = (s \<and> \<not> t)"
| "fp_less (Inf s) (Fin _ _ _) = s"
| "fp_less (Fin _ _ _) (Inf t) = (\<not> t)"
| "fp_less (Fin s m e) (Fin t n f) = (fp_align (min e f) s m e < fp_align (min e f) t n f)"

fun fp_equal :: "fp \<Rightarrow> fp \<Rightarrow> bool" where
  "fp_equal NaN _ = False"
| "fp_equal _ NaN = False"
| "fp_equal (Inf s) (Inf t) = (s = t)"
| "fp_equal (Inf _) (Fin _ _ _) = False"
| "fp_equal (Fin _ _ _) (Inf _) = False"
| "fp_equal (Fin s m e) (Fin t n f) = (fp_align (min e f) s m e = fp_align (min e f) t n f)"

definition fp_less_eq :: "fp \<Rightarrow> fp \<Rightarrow> bool" where
  "fp_less_eq x y \<longleftrightarrow> fp_less x y \<or> fp_equal x y"

fun fp_neg :: "fp \<Rightarrow> fp" where
  "fp_neg NaN = NaN"
| "fp_neg (Inf s) = Inf (\<not> s)"
| "fp_neg (Fin s m e) = Fin (\<not> s) m e"

fun fp_add :: "fp \<Rightarrow> fp \<Rightarrow> fp" where
  "fp_add NaN _ = NaN"
| "fp_add _ NaN = NaN"
| "fp_add (Inf s) (Inf t) = (if s = t then Inf s else NaN)"
| "fp_add (Inf s) (Fin _ _ _) = Inf s"
| "fp_add (Fin _ _ _) (Inf t) = Inf t"
| "fp_add (Fin s m e) (Fin t n f) =
     (let q = min e f; r = fp_align q s m e + fp_align q t n f
      in if r = 0 then Fin (s \<and> t) 0 q else Fin (r < 0) (nat \<bar>r\<bar>) q)"

fun fp_mul :: "fp \<Rightarrow> fp \<Rightarrow> fp" where
  "fp_mul NaN _ = NaN"
| "fp_mul _ NaN = NaN"
| "fp_mul (Inf s) (Inf t) = Inf (s \<noteq> t)"
| "fp_mul (Inf s) (Fin t n _) = (if n = 0 then NaN else Inf (s \<noteq> t))"
| "fp_mul (Fin s m _) (Inf t) = (if m = 0 then NaN else Inf (s \<noteq> t))"
| "fp_mul (Fin s m e) (Fin t n f) = Fin (s \<noteq> t) (m * n) (e + f)"

text \<open>
  A quotient is taken to \<open>64\<close> bits more than the operands have, with a last bit that says whether
  anything is left: enough for \<open>fp_round\<close> to round the true quotient.
\<close>

fun fp_div :: "fp \<Rightarrow> fp \<Rightarrow> fp" where
  "fp_div NaN _ = NaN"
| "fp_div _ NaN = NaN"
| "fp_div (Inf _) (Inf _) = NaN"
| "fp_div (Inf s) (Fin t _ _) = Inf (s \<noteq> t)"
| "fp_div (Fin s _ _) (Inf t) = Fin (s \<noteq> t) 0 0"
| "fp_div (Fin s m e) (Fin t n f) =
     (if n = 0 then (if m = 0 then NaN else Inf (s \<noteq> t))
      else let k = 64 + bit_length n; a = m * 2 ^ k
           in Fin (s \<noteq> t) (2 * (a div n) + (if a mod n = 0 then 0 else 1)) (e - f - int k - 1))"

text \<open>\<^verbatim>\<open>std::fmod\<close>: exact, with the sign of the dividend.\<close>

fun fp_fmod :: "fp \<Rightarrow> fp \<Rightarrow> fp" where
  "fp_fmod NaN _ = NaN"
| "fp_fmod _ NaN = NaN"
| "fp_fmod (Inf _) _ = NaN"
| "fp_fmod (Fin s m e) (Inf _) = Fin s m e"
| "fp_fmod (Fin s m e) (Fin t n f) =
     (if n = 0 then NaN
      else let q = min e f in Fin s ((m * 2 ^ nat (e - q)) mod (n * 2 ^ nat (f - q))) q)"

section \<open>On machine words\<close>

definition f32 :: "u32 \<Rightarrow> fp" where
  "f32 w = fp_decode binary32 (unat w)"

definition f64 :: "u64 \<Rightarrow> fp" where
  "f64 w = fp_decode binary64 (unat w)"

definition to_f32 :: "fp \<Rightarrow> u32" where
  "to_f32 x = of_nat (fp_encode binary32 x)"

definition to_f64 :: "fp \<Rightarrow> u64" where
  "to_f64 x = of_nat (fp_encode binary64 x)"

definition to_i32 :: "fp \<Rightarrow> u32 option" where
  "to_i32 x =
     (case fp_to_int x of
        Some i \<Rightarrow> if - (2 ^ 31) \<le> i \<and> i < 2 ^ 31 then Some (word_of_int i) else None
      | None \<Rightarrow> None)"

definition to_i64 :: "fp \<Rightarrow> u64 option" where
  "to_i64 x =
     (case fp_to_int x of
        Some i \<Rightarrow> if - (2 ^ 63) \<le> i \<and> i < 2 ^ 63 then Some (word_of_int i) else None
      | None \<Rightarrow> None)"

section \<open>Exact conversions\<close>

lemma bit_length_bounds: "0 < m \<Longrightarrow> 2 ^ (bit_length m - 1) \<le> m \<and> m < 2 ^ bit_length m"
proof (induction m rule: bit_length.induct)
  case (1 m)
  show ?case
  proof (cases "m = 1")
    case True
    then show ?thesis by (simp add: bit_length.simps [of "Suc 0"] bit_length.simps [of 0])
  next
    case False
    then have m2: "0 < m div 2" "m \<noteq> 0" using 1(2) by auto
    then have IH: "2 ^ (bit_length (m div 2) - 1) \<le> m div 2" "m div 2 < 2 ^ bit_length (m div 2)"
      using 1(1) by auto
    have len: "bit_length m = Suc (bit_length (m div 2))" using m2(2) by (subst bit_length.simps) simp
    obtain k where k: "bit_length (m div 2) = Suc k"
      using m2(1) by (subst (asm) bit_length.simps, cases "bit_length (m div 2)") (auto simp: bit_length.simps [of "m div 2"])
    have "2 ^ Suc k \<le> m" using IH(1) unfolding k by simp
    moreover have "m < 2 * 2 ^ Suc k" using IH(2) unfolding k by linarith
    ultimately show ?thesis unfolding len k by simp
  qed
qed

lemma bit_length_le: "m < 2 ^ n \<Longrightarrow> bit_length m \<le> n"
proof (cases "m = 0")
  case True
  then show ?thesis by (simp add: bit_length.simps [of 0])
next
  case False
  assume "m < 2 ^ n"
  then have "(2::nat) ^ (bit_length m - 1) < 2 ^ n" using bit_length_bounds [of m] False by (meson le_less_trans neq0_conv)
  then have "bit_length m - 1 < n" by simp
  then show ?thesis by simp
qed

lemma bit_length_0 [simp]: "bit_length 0 = 0"
  by (simp add: bit_length.simps)

lemma bit_length_eqI:
  assumes "2 ^ n \<le> m" "m < 2 ^ Suc n"
  shows "bit_length m = Suc n"
proof -
  have "0 < m" using assms(1) by (metis neq0_conv not_le zero_less_numeral zero_less_power)
  note b = bit_length_bounds [OF this]
  have "bit_length m \<le> Suc n" using assms(2) by (rule bit_length_le)
  moreover have "(2::nat) ^ n < 2 ^ bit_length m" using b assms(1) by linarith
  then have "n < bit_length m" by simp
  ultimately show ?thesis by simp
qed

lemma bit_length_shift: "0 < m \<Longrightarrow> bit_length (m * 2 ^ k) = bit_length m + k"
proof -
  assume m: "0 < m"
  then obtain n where n: "bit_length m = Suc n"
    by (cases "bit_length m") (use bit_length_bounds [OF m] in auto)
  have "2 ^ (n + k) \<le> m * 2 ^ k" "m * 2 ^ k < 2 ^ Suc (n + k)"
    using bit_length_bounds [OF m] by (simp_all add: n power_add)
  then have "bit_length (m * 2 ^ k) = Suc (n + k)" by (rule bit_length_eqI)
  then show ?thesis using n by simp
qed

text \<open>A number written with a smaller exponent rounds to the same bits.\<close>

lemma round_to_scaled:
  assumes "q \<le> e"
  shows "round_to q (m * 2 ^ k) (e - int k) = m * 2 ^ nat (e - q)"
proof (cases "q \<le> e - int k")
  case True
  then have "nat (e - q) = k + nat (e - int k - q)" by simp
  then show ?thesis using True by (simp add: round_to_def power_add)
next
  case False
  then have k: "k = nat (q - (e - int k)) + nat (e - q)" using assms by simp
  define d where "d = nat (q - (e - int k))"
  have "m * 2 ^ k = m * 2 ^ nat (e - q) * 2 ^ d" by (subst k) (simp add: power_add d_def)
  then have "m * 2 ^ k div 2 ^ d = m * 2 ^ nat (e - q)" "m * 2 ^ k mod 2 ^ d = 0"
    by (simp_all only: div_mult_self_is_m mod_mult_self2_is_0 zero_less_power zero_less_numeral)
  then show ?thesis
    using False unfolding round_to_def Let_def d_def [symmetric] by simp
qed

lemma round_to_0 [simp]: "round_to q 0 e = 0"
  by (simp add: round_to_def Let_def)

lemma fp_round_0: "fp_round fmt s 0 e = fp_bits fmt s 0 0"
proof -
  have "(0::nat) \<noteq> 2 ^ (frac_bits fmt + 1)" by simp
  then show ?thesis by (simp only: fp_round_def fp_pack_def fp_pack_normal_def Let_def round_to_0 if_False) simp
qed

lemma exp_bits_large: "2 \<le> exp_bits fmt \<Longrightarrow> (1::nat) < 2 ^ exp_bits fmt"
  by (rule one_less_power) simp_all

lemma fp_round_scaled:
  assumes "bit_length m \<le> frac_bits fmt + 1" "fp_emin fmt \<le> e"
  shows "fp_round fmt s (m * 2 ^ k) (e - int k) = fp_round fmt s m e"
proof (cases "m = 0")
  case True
  then show ?thesis by (simp add: fp_round_0)
next
  case False
  have q: "fp_unit fmt m e \<le> e" using assms by (simp add: fp_unit_def)
  have "e - int k + int (bit_length (m * 2 ^ k)) = e + int (bit_length m)"
    using False by (simp add: bit_length_shift)
  then have u: "fp_unit fmt (m * 2 ^ k) (e - int k) = fp_unit fmt m e" by (simp only: fp_unit_def)
  show ?thesis
    unfolding fp_round_def u round_to_scaled [OF q] using q by (simp add: round_to_def)
qed

lemma fp_decode_bits:
  assumes "x < 2 ^ exp_bits fmt" "f < 2 ^ frac_bits fmt"
  shows "fp_decode fmt (fp_bits fmt s x f) =
    (if x = 2 ^ exp_bits fmt - 1 then (if f = 0 then Inf s else NaN)
     else if x = 0 then Fin s f (fp_emin fmt)
     else Fin s (f + 2 ^ frac_bits fmt) (fp_emin fmt + int (x - 1)))"
proof -
  let ?F = "2 ^ frac_bits fmt :: nat" and ?E = "2 ^ exp_bits fmt :: nat"
  define t :: nat where "t = (if s then 1 else 0)"
  have w: "fp_bits fmt s x f = (t * ?E + x) * ?F + f"
    by (simp add: fp_bits_def t_def power_add algebra_simps)
  have "fp_bits fmt s x f mod ?F = f" "fp_bits fmt s x f div ?F = t * ?E + x"
    using assms(2) by (simp_all add: w)
  moreover have "(t * ?E + x) mod ?E = x" "(t * ?E + x) div ?E = t"
    using assms(1) by simp_all
  moreover have "fp_bits fmt s x f div 2 ^ (frac_bits fmt + exp_bits fmt) = fp_bits fmt s x f div ?F div ?E"
    by (simp add: power_add div_mult2_eq)
  moreover have "odd t \<longleftrightarrow> s" by (simp add: t_def)
  ultimately show ?thesis unfolding fp_decode_def Let_def by (simp only:)
qed

text \<open>A number that the format can hold exactly is held exactly.\<close>

lemma fp_decode_round:
  assumes "m < 2 ^ (frac_bits fmt + 1)" "fp_emin fmt \<le> e"
    and "e - fp_emin fmt + 2 < 2 ^ exp_bits fmt" "2 \<le> exp_bits fmt"
  shows "\<exists>k. fp_decode fmt (fp_round fmt s m e) = Fin s (m * 2 ^ k) (e - int k) \<and> fp_emin fmt \<le> e - int k"
proof (cases "m = 0")
  case True
  have "(0::nat) < 2 ^ exp_bits fmt" "(0::nat) \<noteq> 2 ^ exp_bits fmt - 1"
    using exp_bits_large [OF assms(4)] by linarith+
  moreover have "fp_round fmt s m e = fp_bits fmt s 0 0"
    using True by (simp add: fp_round_0)
  ultimately have "fp_decode fmt (fp_round fmt s m e) = Fin s 0 (fp_emin fmt)"
    by (simp add: fp_decode_bits)
  then show ?thesis using True assms(2) by (intro exI [of _ "nat (e - fp_emin fmt)"]) simp
next
  case False
  let ?F = "frac_bits fmt" and ?l = "bit_length m"
  have len: "?l \<le> ?F + 1" using assms(1) by (rule bit_length_le)
  have l0: "0 < ?l" using False bit_length_bounds [of m] by (cases ?l) auto
  define q where "q = fp_unit fmt m e"
  have q_def': "q = max (e + int ?l - int (?F + 1)) (fp_emin fmt)" by (simp add: q_def fp_unit_def)
  have q: "q \<le> e" "fp_emin fmt \<le> q" using len assms(2) by (simp_all add: q_def')
  define k where "k = nat (e - q)"
  have kl: "k \<le> ?F + 1 - ?l" using len by (simp add: k_def q_def')
  have bounds: "2 ^ (?l - 1) \<le> m" "m < 2 ^ ?l" using bit_length_bounds [of m] False by simp_all
  have "m * 2 ^ k < 2 ^ ?l * 2 ^ k" using bounds(2) by simp
  also have "\<dots> \<le> 2 ^ (?F + 1)" using kl len unfolding power_add [symmetric] by (intro power_increasing) simp_all
  finally have small: "m * 2 ^ k < 2 ^ (?F + 1)" .
  have rnd: "round_to q m e = m * 2 ^ k" using q(1) by (simp add: round_to_def k_def)
  have eq: "fp_round fmt s m e =
    (if m * 2 ^ k < 2 ^ ?F then fp_bits fmt s 0 (m * 2 ^ k)
     else if 2 ^ exp_bits fmt - 1 \<le> nat (q - fp_emin fmt) + 1 then fp_bits fmt s (2 ^ exp_bits fmt - 1) 0
     else fp_bits fmt s (nat (q - fp_emin fmt) + 1) (m * 2 ^ k - 2 ^ ?F))"
    unfolding fp_round_def q_def [symmetric] rnd fp_pack_def fp_pack_normal_def Let_def
    using small by (simp only: less_imp_neq if_False)
  have ek: "e - int k = q" using q(1) by (simp add: k_def)
  show ?thesis
  proof (cases "m * 2 ^ k < 2 ^ ?F")
    case True
    have "q = fp_emin fmt"
    proof (rule ccontr)
      assume "q \<noteq> fp_emin fmt"
      then have "k = ?F + 1 - ?l" by (auto simp: k_def q_def')
      then have "?F = (?l - 1) + k" using l0 len by simp
      then have "(2::nat) ^ ?F = 2 ^ (?l - 1) * 2 ^ k" by (simp only: power_add)
      also have "\<dots> \<le> m * 2 ^ k" using bounds(1) by simp
      finally show False using True by simp
    qed
    moreover have "(0::nat) < 2 ^ exp_bits fmt" "(0::nat) \<noteq> 2 ^ exp_bits fmt - 1"
      using exp_bits_large [OF assms(4)] by linarith+
    ultimately show ?thesis
      using True eq ek fp_decode_bits [of 0 fmt "m * 2 ^ k" s] by (intro exI [of _ k]) simp
  next
    case normal: False
    have x: "nat (q - fp_emin fmt) + 1 < 2 ^ exp_bits fmt - 1"
    proof -
      have "int (nat (q - fp_emin fmt) + 1) + 1 < 2 ^ exp_bits fmt"
        using q assms(3) by simp
      then have "int (nat (q - fp_emin fmt) + 1 + 1) < int (2 ^ exp_bits fmt)" by simp
      then have "nat (q - fp_emin fmt) + 1 + 1 < 2 ^ exp_bits fmt" by (simp only: of_nat_less_iff)
      then show ?thesis by simp
    qed
    have f: "m * 2 ^ k - 2 ^ ?F < 2 ^ ?F" using small normal by simp
    have "fp_decode fmt (fp_round fmt s m e) =
      Fin s (m * 2 ^ k - 2 ^ ?F + 2 ^ ?F) (fp_emin fmt + int (nat (q - fp_emin fmt) + 1 - 1))"
      using eq normal x fp_decode_bits [OF _ f, of "nat (q - fp_emin fmt) + 1" s] by simp
    then show ?thesis using normal q(2) ek by (intro exI [of _ k]) simp
  qed
qed

lemma fp_bits_inverse:
  assumes "w < 2 ^ (frac_bits fmt + exp_bits fmt + 1)"
  shows "fp_bits fmt (odd (w div 2 ^ (frac_bits fmt + exp_bits fmt)))
    ((w div 2 ^ frac_bits fmt) mod 2 ^ exp_bits fmt) (w mod 2 ^ frac_bits fmt) = w"
proof -
  let ?F = "2 ^ frac_bits fmt :: nat" and ?E = "2 ^ exp_bits fmt :: nat"
  define t where "t = w div ?F div ?E"
  have "w < ?F * (?E * 2)" using assms by (simp add: power_add algebra_simps)
  then have "t < 2" unfolding t_def by (simp add: less_mult_imp_div_less mult.commute mult.left_commute)
  then have "(if odd t then 1 else 0) = t" by (auto simp: numeral_2_eq_2 less_Suc_eq)
  then have sign: "(if odd t then ?F * ?E else 0) = t * (?F * ?E)" by (auto split: if_splits)
  have top: "w div 2 ^ (frac_bits fmt + exp_bits fmt) = t" by (simp add: t_def power_add div_mult2_eq)
  have "fp_bits fmt (odd t) ((w div ?F) mod ?E) (w mod ?F) =
      (if odd t then ?F * ?E else 0) + (w div ?F) mod ?E * ?F + w mod ?F"
    by (simp add: fp_bits_def power_add)
  also have "\<dots> = (t * ?E + (w div ?F) mod ?E) * ?F + w mod ?F"
    unfolding sign by (simp add: algebra_simps)
  also have "\<dots> = w" by (simp only: t_def div_mult_mod_eq)
  finally show ?thesis unfolding top .
qed

text \<open>Encoding undoes decoding for every pattern but the NaNs.\<close>

lemma fp_encode_decode:
  assumes "w < 2 ^ (frac_bits fmt + exp_bits fmt + 1)" "fp_decode fmt w \<noteq> NaN" "2 \<le> exp_bits fmt"
  shows "fp_encode fmt (fp_decode fmt w) = w"
proof -
  define f where "f = w mod 2 ^ frac_bits fmt"
  define x where "x = (w div 2 ^ frac_bits fmt) mod 2 ^ exp_bits fmt"
  define s where "s = odd (w div 2 ^ (frac_bits fmt + exp_bits fmt))"
  have w: "fp_bits fmt s x f = w" using fp_bits_inverse [OF assms(1)] by (simp add: f_def x_def s_def)
  have f: "f < 2 ^ frac_bits fmt" and x: "x < 2 ^ exp_bits fmt" by (simp_all add: f_def x_def)
  note dec = fp_decode_bits [OF x f, of s, unfolded w]
  have e1: "(1::nat) < 2 ^ exp_bits fmt" using exp_bits_large [OF assms(3)] .
  consider "x = 2 ^ exp_bits fmt - 1" | "x = 0" | "0 < x" "x < 2 ^ exp_bits fmt - 1" using x by linarith
  then show ?thesis
  proof cases
    case 1
    then have "fp_decode fmt w = Inf s" "f = 0" using dec assms(2) by (auto split: if_splits)
    then show ?thesis using w 1 by (simp add: fp_encode_def)
  next
    case 2
    then have d: "fp_decode fmt w = Fin s f (fp_emin fmt)" using dec e1 by simp
    have "bit_length f \<le> frac_bits fmt" using f by (rule bit_length_le)
    then have u: "fp_unit fmt f (fp_emin fmt) = fp_emin fmt" by (simp add: fp_unit_def)
    have "f \<noteq> 2 ^ (frac_bits fmt + 1)" using f by simp
    then have "fp_round fmt s f (fp_emin fmt) = fp_bits fmt s 0 f"
      unfolding fp_round_def u fp_pack_def fp_pack_normal_def Let_def using f by (simp add: round_to_def)
    then show ?thesis using d w 2 by (simp add: fp_encode_def)
  next
    case 3
    let ?m = "f + 2 ^ frac_bits fmt"
    have d: "fp_decode fmt w = Fin s ?m (fp_emin fmt + int (x - 1))" using dec 3 by simp
    have "bit_length ?m = Suc (frac_bits fmt)" using f by (intro bit_length_eqI) simp_all
    then have u: "fp_unit fmt ?m (fp_emin fmt + int (x - 1)) = fp_emin fmt + int (x - 1)" by (simp add: fp_unit_def)
    have r: "round_to (fp_emin fmt + int (x - 1)) ?m (fp_emin fmt + int (x - 1)) = ?m" by (simp add: round_to_def)
    have "?m \<noteq> 2 ^ (frac_bits fmt + 1)" "\<not> ?m < 2 ^ frac_bits fmt" using f by simp_all
    moreover have x': "nat (fp_emin fmt + int (x - 1) - fp_emin fmt) + 1 = x" using 3(1) by simp
    ultimately have "fp_round fmt s ?m (fp_emin fmt + int (x - 1)) = fp_bits fmt s x f"
      unfolding fp_round_def u r fp_pack_def fp_pack_normal_def Let_def x' using 3(2) by simp
    then show ?thesis using d w by (simp add: fp_encode_def)
  qed
qed

lemma emin32: "fp_emin binary32 = - 149" and emin64: "fp_emin binary64 = - 1074"
  by (simp_all add: fp_emin_def fp_bias_def binary32_def binary64_def)

lemma format_bits [simp]:
  "frac_bits binary32 = 23" "exp_bits binary32 = 8" "frac_bits binary64 = 52" "exp_bits binary64 = 11"
  by (simp_all add: binary32_def binary64_def)

lemma f64_to_f64:
  assumes "m < 2 ^ 53" "- 1074 \<le> e" "e < 900"
  shows "\<exists>k. f64 (to_f64 (Fin s m e)) = Fin s (m * 2 ^ k) (e - int k) \<and> - 1074 \<le> e - int k"
proof -
  obtain k where k: "fp_decode binary64 (fp_round binary64 s m e) = Fin s (m * 2 ^ k) (e - int k)"
    "- 1074 \<le> e - int k"
    using fp_decode_round [of m binary64 e s] assms by (auto simp: emin64)
  have "fp_round binary64 s m e < 2 ^ 64 \<or> fp_round binary64 s m e mod 2 ^ 64 = fp_round binary64 s m e"
  proof -
    define w where "w = fp_round binary64 s m e"
    have "w = fp_encode binary64 (Fin s m e)" by (simp add: w_def fp_encode_def)
    have bits: "fp_bits binary64 b x f < 2 ^ 64" if "x < 2 ^ 11" "f < 2 ^ 52" for b x f
    proof -
      have "x * 2 ^ 52 \<le> (2 ^ 11 - 1) * 2 ^ 52" using that(1) by (intro mult_right_mono) simp_all
      then show ?thesis using that(2) by (auto simp: fp_bits_def)
    qed
    have "fp_pack_normal binary64 b q k < 2 ^ 64" if "k < 2 ^ 53" for b q k
      using that unfolding fp_pack_normal_def Let_def
      by (auto intro!: bits [simplified])
    moreover have "round_to (fp_unit binary64 m e) m e < 2 ^ 53 \<or> round_to (fp_unit binary64 m e) m e = 2 ^ 53"
    proof -
      have u: "fp_unit binary64 m e \<le> e"
        using bit_length_le [OF assms(1)] assms(2) by (simp add: fp_unit_def emin64)
      show ?thesis
      proof (cases "m = 0")
        case False
        have "nat (e - fp_unit binary64 m e) \<le> 53 - bit_length m"
          using bit_length_le [OF assms(1)] by (simp add: fp_unit_def)
        then have "bit_length m + nat (e - fp_unit binary64 m e) \<le> 53"
          using bit_length_le [OF assms(1)] by simp
        then have "bit_length (m * 2 ^ nat (e - fp_unit binary64 m e)) \<le> 53"
          using False by (simp add: bit_length_shift)
        moreover have "0 < m * 2 ^ nat (e - fp_unit binary64 m e)" using False by simp
        ultimately have "m * 2 ^ nat (e - fp_unit binary64 m e) < 2 ^ 53"
          using bit_length_bounds [of "m * 2 ^ nat (e - fp_unit binary64 m e)"]
          by (meson less_le_trans one_le_numeral power_increasing)
        then show ?thesis using u by (simp add: round_to_def)
      qed simp
    qed
    ultimately have "w < 2 ^ 64"
      unfolding w_def fp_round_def fp_pack_def by (auto split: if_splits)
    then show ?thesis by (simp add: w_def)
  qed
  then have "unat (of_nat (fp_round binary64 s m e) :: u64) = fp_round binary64 s m e"
    by (auto simp: unat_of_nat)
  then show ?thesis using k by (auto simp: f64_def to_f64_def fp_encode_def)
qed

lemma fp_to_int_scaled: "fp_to_int (Fin s (m * 2 ^ k) (- int k)) = Some (if s then - int m else int m)"
  by (cases "k = 0") (simp_all add: fp_to_int_def)

text \<open>A 32-bit integer survives the way through \<^verbatim>\<open>double\<close>, a \<^verbatim>\<open>float\<close> too.\<close>

lemma i32_through_f64: "to_i32 (f64 (to_f64 (fp_of_int (sint (i :: u32))))) = Some i"
proof -
  have bound: "- (2 ^ 31) \<le> sint i" "sint i < 2 ^ 31"
    using sint_greater_eq [of i] sint_less [of i] by simp_all
  then have "\<bar>sint i\<bar> \<le> 2 ^ 31" by linarith
  then have "nat \<bar>sint i\<bar> < 2 ^ 53" by (simp add: nat_less_iff)
  from f64_to_f64 [OF this, of 0 "sint i < 0"] obtain k where
    "f64 (to_f64 (fp_of_int (sint i))) = Fin (sint i < 0) (nat \<bar>sint i\<bar> * 2 ^ k) (- int k)"
    by (auto simp: fp_of_int_def)
  then have "fp_to_int (f64 (to_f64 (fp_of_int (sint i)))) = Some (sint i)"
    by (simp only: fp_to_int_scaled) simp
  then show ?thesis using bound by (simp add: to_i32_def)
qed

lemma f32_finite:
  assumes "f32 w = Fin s m e"
  shows "m < 2 ^ 24" "- 149 \<le> e" "e < 900"
proof -
  have x: "(unat w div 2 ^ 23) mod 2 ^ 8 < 2 ^ 8" "unat w mod 2 ^ 23 < 2 ^ 23" by simp_all
  define f where "f = unat w mod 2 ^ 23"
  define x where "x = (unat w div 2 ^ 23) mod 2 ^ 8"
  have "f < 2 ^ 23" "x < 2 ^ 8" by (simp_all add: f_def x_def)
  moreover have "(m = f \<and> e = - 149) \<or> (m = f + 2 ^ 23 \<and> e = - 149 + int (x - 1))"
    using assms by (auto simp: f32_def fp_decode_def Let_def emin32 f_def x_def split: if_splits)
  ultimately show "m < 2 ^ 24" "- 149 \<le> e" "e < 900" by auto
qed

lemma f32_through_f64:
  assumes "f32 w \<noteq> NaN"
  shows "to_f32 (f64 (to_f64 (f32 w))) = w"
proof -
  have w: "unat w < 2 ^ 32" using unsigned_less [of w] by simp
  have enc: "fp_encode binary32 (f32 w) = unat w"
    using fp_encode_decode [of "unat w" binary32] assms w by (simp add: f32_def)
  show ?thesis
  proof (cases "f32 w")
    case NaN
    then show ?thesis using assms by simp
  next
    case (Inf s)
    have "f64 (to_f64 (Inf s)) = Inf s"
      by (cases s) (simp_all add: f64_def to_f64_def fp_encode_def fp_bits_def fp_decode_def Let_def unat_of_nat)
    then show ?thesis using Inf enc by (simp add: to_f32_def)
  next
    case (Fin s m e)
    note fin = f32_finite [OF Fin]
    obtain k where k: "f64 (to_f64 (f32 w)) = Fin s (m * 2 ^ k) (e - int k)"
      using f64_to_f64 [of m e s] fin Fin by auto
    have "bit_length m \<le> 24" using fin(1) by (rule bit_length_le)
    then have "fp_round binary32 s (m * 2 ^ k) (e - int k) = fp_round binary32 s m e"
      using fin(2) by (intro fp_round_scaled) (simp_all add: emin32)
    moreover have "fp_round binary32 s m e = unat w" using enc Fin by (simp add: fp_encode_def)
    ultimately have "fp_encode binary32 (f64 (to_f64 (f32 w))) = unat w"
      unfolding k by (simp add: fp_encode_def)
    then show ?thesis by (simp add: to_f32_def)
  qed
qed

end
