(* ===== verification/BinaryOpTypes.thy ===== *)
theory BinaryOpTypes
  imports Types
begin

text \<open>
  The typing half of the binary operations under \<^verbatim>\<open>src/types/operations/binary_operations\<close>: for each of
  Add, Subtract, Multiply, Divide and Modulo, the functions by which the query optimizer resolves the types
  of an expression. A \<^verbatim>\<open>const Type*\<close> is a \<open>sql_type option\<close>, the null pointer being \<open>None\<close>.

  \<^verbatim>\<open>BinaryOperation.hpp\<close> documents what these functions promise to each other; that contract is the locale
  \<open>binary_operation_types\<close>, interpreted for every operation.
\<close>

section \<open>Shared helpers\<close>

text \<open>The variadic template behind \<^verbatim>\<open>QUICKSTEP_EQUALS_ANY_CONSTANT\<close>: one switch per eight constants.\<close>

fun EqualsAnyConstant :: "'a \<Rightarrow> 'a list \<Rightarrow> bool" where
  "EqualsAnyConstant check [] = False"
| "EqualsAnyConstant check [c1] = (check = c1)"
| "EqualsAnyConstant check [c1, c2] = (check = c1 \<or> check = c2)"
| "EqualsAnyConstant check [c1, c2, c3] = (check = c1 \<or> check = c2 \<or> check = c3)"
| "EqualsAnyConstant check [c1, c2, c3, c4] = (check = c1 \<or> check = c2 \<or> check = c3 \<or> check = c4)"
| "EqualsAnyConstant check [c1, c2, c3, c4, c5] =
     (check = c1 \<or> check = c2 \<or> check = c3 \<or> check = c4 \<or> check = c5)"
| "EqualsAnyConstant check [c1, c2, c3, c4, c5, c6] =
     (check = c1 \<or> check = c2 \<or> check = c3 \<or> check = c4 \<or> check = c5 \<or> check = c6)"
| "EqualsAnyConstant check [c1, c2, c3, c4, c5, c6, c7] =
     (check = c1 \<or> check = c2 \<or> check = c3 \<or> check = c4 \<or> check = c5 \<or> check = c6 \<or> check = c7)"
| "EqualsAnyConstant check (c1 # c2 # c3 # c4 # c5 # c6 # c7 # c8 # tail_constants) =
     (if check = c1 \<or> check = c2 \<or> check = c3 \<or> check = c4 \<or> check = c5 \<or> check = c6 \<or> check = c7 \<or> check = c8
      then True else EqualsAnyConstant check tail_constants)"

text \<open>The singleton of a type that has no length.\<close>

definition Instance :: "TypeID \<Rightarrow> bool \<Rightarrow> sql_type" where
  "Instance tid nullb = \<lparr>type_id = tid, nullable = nullb, string_length = 0\<rparr>"

text \<open>The last step all operations share, when both argument types are known.\<close>

definition known_signature_plausible :: "sql_type option \<Rightarrow> sql_type option \<Rightarrow> bool" where
  "known_signature_plausible actual_result_type result_type =
     (case actual_result_type of
        None \<Rightarrow> False
      | Some actual \<Rightarrow> (case result_type of None \<Rightarrow> True | Some res \<Rightarrow> res = actual))"

section \<open>Add\<close>

definition Add_canApplyToTypes :: "sql_type \<Rightarrow> sql_type \<Rightarrow> bool" where
  "Add_canApplyToTypes left right =
     (case type_id left of
        kInt \<Rightarrow> getSuperTypeID right = kNumeric
      | kLong \<Rightarrow> getSuperTypeID right = kNumeric
      | kFloat \<Rightarrow> getSuperTypeID right = kNumeric
      | kDouble \<Rightarrow> getSuperTypeID right = kNumeric
      | kDatetime \<Rightarrow> type_id right = kDatetimeInterval \<or> type_id right = kYearMonthInterval
      | kDatetimeInterval \<Rightarrow> type_id right = kDatetime \<or> type_id right = kDatetimeInterval
      | kYearMonthInterval \<Rightarrow> type_id right = kDatetime \<or> type_id right = kYearMonthInterval
      | _ \<Rightarrow> False)"

definition Add_resultTypeForArgumentTypes :: "sql_type \<Rightarrow> sql_type \<Rightarrow> sql_type option" where
  "Add_resultTypeForArgumentTypes left right =
     (if getSuperTypeID left = kNumeric \<and> getSuperTypeID right = kNumeric then GetUnifyingType left right
      else if (type_id left = kDatetime \<and> type_id right = kDatetimeInterval) \<or>
              (type_id left = kDatetimeInterval \<and> type_id right = kDatetime) \<or>
              (type_id left = kDatetime \<and> type_id right = kYearMonthInterval) \<or>
              (type_id left = kYearMonthInterval \<and> type_id right = kDatetime)
      then Some (Instance kDatetime (nullable left \<or> nullable right))
      else if type_id left = kDatetimeInterval \<and> type_id right = kDatetimeInterval
      then Some (Instance kDatetimeInterval (nullable left \<or> nullable right))
      else if type_id left = kYearMonthInterval \<and> type_id right = kYearMonthInterval
      then Some (Instance kYearMonthInterval (nullable left \<or> nullable right))
      else None)"

definition Add_resultTypeForPartialArgumentTypes :: "sql_type option \<Rightarrow> sql_type option \<Rightarrow> sql_type option" where
  "Add_resultTypeForPartialArgumentTypes left right =
     (let known = (\<lambda>known_type.
            case type_id known_type of
              kDouble \<Rightarrow> GetType kDouble True
            | kDatetime \<Rightarrow> GetType kDatetime True
            | _ \<Rightarrow> None)
      in case (left, right) of
           (None, None) \<Rightarrow> None
         | (Some l, Some r) \<Rightarrow> Add_resultTypeForArgumentTypes l r
         | (Some l, None) \<Rightarrow> known l
         | (None, Some r) \<Rightarrow> known r)"

definition Add_partialTypeSignatureIsPlausible ::
  "sql_type option \<Rightarrow> sql_type option \<Rightarrow> sql_type option \<Rightarrow> bool" where
  "Add_partialTypeSignatureIsPlausible result_type left_argument_type right_argument_type =
     (let addable = [kInt, kLong, kFloat, kDouble, kDatetime, kDatetimeInterval, kYearMonthInterval];
          known = (\<lambda>known_argument_type.
            case result_type of
              None \<Rightarrow> EqualsAnyConstant (type_id known_argument_type) addable
            | Some res \<Rightarrow>
                if \<not> nullable res then False
                else (case type_id res of
                        kInt \<Rightarrow> type_id known_argument_type = kInt
                      | kLong \<Rightarrow> EqualsAnyConstant (type_id known_argument_type) [kInt, kLong]
                      | kFloat \<Rightarrow> EqualsAnyConstant (type_id known_argument_type) [kInt, kFloat]
                      | kDouble \<Rightarrow> EqualsAnyConstant (type_id known_argument_type) [kInt, kLong, kFloat, kDouble]
                      | kDatetime \<Rightarrow> EqualsAnyConstant (type_id known_argument_type)
                          [kDatetime, kDatetimeInterval, kYearMonthInterval]
                      | kDatetimeInterval \<Rightarrow> type_id known_argument_type = kDatetimeInterval
                      | kYearMonthInterval \<Rightarrow> type_id known_argument_type = kYearMonthInterval
                      | _ \<Rightarrow> False))
      in case (left_argument_type, right_argument_type) of
           (None, None) \<Rightarrow>
             (case result_type of
                None \<Rightarrow> True
              | Some res \<Rightarrow> if \<not> nullable res then False else EqualsAnyConstant (type_id res) addable)
         | (Some l, Some r) \<Rightarrow> known_signature_plausible (Add_resultTypeForArgumentTypes l r) result_type
         | (Some l, None) \<Rightarrow> known l
         | (None, Some r) \<Rightarrow> known r)"

definition Add_pushDownTypeHint :: "sql_type option \<Rightarrow> sql_type option \<times> sql_type option" where
  "Add_pushDownTypeHint result_type_hint =
     (case result_type_hint of
        None \<Rightarrow> (None, None)
      | Some hint \<Rightarrow>
          (case type_id hint of
             kInt \<Rightarrow> (Some hint, Some hint)
           | kLong \<Rightarrow> (Some hint, Some hint)
           | kFloat \<Rightarrow> (Some hint, Some hint)
           | kDouble \<Rightarrow> (Some hint, Some hint)
           | kDatetimeInterval \<Rightarrow> (Some hint, Some hint)
           | kYearMonthInterval \<Rightarrow> (Some hint, Some hint)
           | kDatetime \<Rightarrow> (None, None)
           | _ \<Rightarrow> (None, None)))"

section \<open>Subtract\<close>

definition Subtract_canApplyToTypes :: "sql_type \<Rightarrow> sql_type \<Rightarrow> bool" where
  "Subtract_canApplyToTypes left right =
     (case type_id left of
        kInt \<Rightarrow> getSuperTypeID right = kNumeric
      | kLong \<Rightarrow> getSuperTypeID right = kNumeric
      | kFloat \<Rightarrow> getSuperTypeID right = kNumeric
      | kDouble \<Rightarrow> getSuperTypeID right = kNumeric
      | kDatetime \<Rightarrow> type_id right = kDatetime \<or> type_id right = kDatetimeInterval \<or> type_id right = kYearMonthInterval
      | kDatetimeInterval \<Rightarrow> type_id right = kDatetimeInterval
      | kYearMonthInterval \<Rightarrow> type_id right = kYearMonthInterval
      | _ \<Rightarrow> False)"

definition Subtract_resultTypeForArgumentTypes :: "sql_type \<Rightarrow> sql_type \<Rightarrow> sql_type option" where
  "Subtract_resultTypeForArgumentTypes left right =
     (if getSuperTypeID left = kNumeric \<and> getSuperTypeID right = kNumeric then GetUnifyingType left right
      else if (type_id left = kDatetime \<and> type_id right = kDatetime) \<or>
              (type_id left = kDatetimeInterval \<and> type_id right = kDatetimeInterval)
      then Some (Instance kDatetimeInterval (nullable left \<or> nullable right))
      else if type_id left = kDatetime \<and> type_id right = kDatetimeInterval
      then Some (Instance kDatetime (nullable left \<or> nullable right))
      else if type_id left = kDatetime \<and> type_id right = kYearMonthInterval
      then Some (Instance kDatetime (nullable left \<or> nullable right))
      else if type_id left = kYearMonthInterval \<and> type_id right = kYearMonthInterval
      then Some (Instance kYearMonthInterval (nullable left \<or> nullable right))
      else None)"

definition Subtract_resultTypeForPartialArgumentTypes ::
  "sql_type option \<Rightarrow> sql_type option \<Rightarrow> sql_type option" where
  "Subtract_resultTypeForPartialArgumentTypes left right =
     (case left of
        None \<Rightarrow>
          (case right of
             None \<Rightarrow> None
           | Some r \<Rightarrow>
               (case type_id r of
                  kDouble \<Rightarrow> GetType kDouble True
                | kDatetime \<Rightarrow> GetType kDatetimeInterval True
                | _ \<Rightarrow> None))
      | Some l \<Rightarrow>
          (case right of
             None \<Rightarrow>
               (case type_id l of
                  kDouble \<Rightarrow> GetType kDouble True
                | kDatetimeInterval \<Rightarrow> GetType kDatetimeInterval True
                | kYearMonthInterval \<Rightarrow> GetType kYearMonthInterval True
                | _ \<Rightarrow> None)
           | Some r \<Rightarrow> Subtract_resultTypeForArgumentTypes l r))"

text \<open>
  The early check of Subtract, Divide and Modulo: a nullable or unknown argument makes the result nullable.
\<close>

definition nullability_mismatch :: "sql_type option \<Rightarrow> sql_type option \<Rightarrow> sql_type option \<Rightarrow> bool" where
  "nullability_mismatch result_type left_argument_type right_argument_type =
     (if left_argument_type = None \<or> nullable (the left_argument_type) \<or>
         right_argument_type = None \<or> nullable (the right_argument_type)
      then result_type \<noteq> None \<and> \<not> nullable (the result_type)
      else False)"

definition Subtract_partialTypeSignatureIsPlausible ::
  "sql_type option \<Rightarrow> sql_type option \<Rightarrow> sql_type option \<Rightarrow> bool" where
  "Subtract_partialTypeSignatureIsPlausible result_type left_argument_type right_argument_type =
     (let subtractable = [kInt, kLong, kFloat, kDouble, kDatetime, kDatetimeInterval, kYearMonthInterval]
      in if nullability_mismatch result_type left_argument_type right_argument_type then False
         else case left_argument_type of
           None \<Rightarrow>
             (case right_argument_type of
                None \<Rightarrow>
                  (case result_type of
                     None \<Rightarrow> True
                   | Some res \<Rightarrow> EqualsAnyConstant (type_id res) subtractable)
              | Some r \<Rightarrow>
                  (case result_type of
                     None \<Rightarrow> EqualsAnyConstant (type_id r) subtractable
                   | Some res \<Rightarrow>
                       (case type_id r of
                          kInt \<Rightarrow> EqualsAnyConstant (type_id res) [kInt, kLong, kFloat, kDouble]
                        | kLong \<Rightarrow> EqualsAnyConstant (type_id res) [kLong, kDouble]
                        | kFloat \<Rightarrow> EqualsAnyConstant (type_id res) [kFloat, kDouble]
                        | kDouble \<Rightarrow> type_id res = kDouble
                        | kDatetime \<Rightarrow> type_id res = kDatetimeInterval
                        | kDatetimeInterval \<Rightarrow> EqualsAnyConstant (type_id res) [kDatetime, kDatetimeInterval]
                        | kYearMonthInterval \<Rightarrow> EqualsAnyConstant (type_id res) [kDatetime, kYearMonthInterval]
                        | _ \<Rightarrow> False)))
         | Some l \<Rightarrow>
             (case right_argument_type of
                None \<Rightarrow>
                  (case result_type of
                     None \<Rightarrow> EqualsAnyConstant (type_id l) subtractable
                   | Some res \<Rightarrow>
                       (case type_id l of
                          kInt \<Rightarrow> EqualsAnyConstant (type_id res) [kInt, kLong, kFloat, kDouble]
                        | kLong \<Rightarrow> EqualsAnyConstant (type_id res) [kLong, kDouble]
                        | kFloat \<Rightarrow> EqualsAnyConstant (type_id res) [kFloat, kDouble]
                        | kDouble \<Rightarrow> type_id res = kDouble
                        | kDatetime \<Rightarrow> EqualsAnyConstant (type_id res) [kDatetime, kDatetimeInterval]
                        | kDatetimeInterval \<Rightarrow> type_id res = kDatetimeInterval
                        | kYearMonthInterval \<Rightarrow> type_id res = kYearMonthInterval
                        | _ \<Rightarrow> False))
              | Some r \<Rightarrow> known_signature_plausible (Subtract_resultTypeForArgumentTypes l r) result_type))"

definition Subtract_pushDownTypeHint :: "sql_type option \<Rightarrow> sql_type option \<times> sql_type option" where
  "Subtract_pushDownTypeHint result_type_hint =
     (case result_type_hint of
        None \<Rightarrow> (None, None)
      | Some hint \<Rightarrow>
          (case type_id hint of
             kInt \<Rightarrow> (Some hint, Some hint)
           | kLong \<Rightarrow> (Some hint, Some hint)
           | kFloat \<Rightarrow> (Some hint, Some hint)
           | kDouble \<Rightarrow> (Some hint, Some hint)
           | kYearMonthInterval \<Rightarrow> (Some hint, Some hint)
           | kDatetime \<Rightarrow> (Some hint, None)
           | kDatetimeInterval \<Rightarrow> (None, None)
           | _ \<Rightarrow> (None, None)))"

section \<open>Multiply\<close>

definition Multiply_canApplyToTypes :: "sql_type \<Rightarrow> sql_type \<Rightarrow> bool" where
  "Multiply_canApplyToTypes left right =
     (let numeric_case = (getSuperTypeID right = kNumeric \<or> type_id right = kDatetimeInterval \<or>
            type_id right = kYearMonthInterval)
      in case type_id left of
           kInt \<Rightarrow> numeric_case
         | kLong \<Rightarrow> numeric_case
         | kFloat \<Rightarrow> numeric_case
         | kDouble \<Rightarrow> numeric_case
         | kDatetimeInterval \<Rightarrow> getSuperTypeID right = kNumeric
         | kYearMonthInterval \<Rightarrow> getSuperTypeID right = kNumeric
         | _ \<Rightarrow> False)"

definition Multiply_resultTypeForArgumentTypes :: "sql_type \<Rightarrow> sql_type \<Rightarrow> sql_type option" where
  "Multiply_resultTypeForArgumentTypes left right =
     (if getSuperTypeID left = kNumeric \<and> getSuperTypeID right = kNumeric then GetUnifyingType left right
      else if (getSuperTypeID left = kNumeric \<and> type_id right = kDatetimeInterval) \<or>
              (type_id left = kDatetimeInterval \<and> getSuperTypeID right = kNumeric)
      then Some (Instance kDatetimeInterval (nullable left \<or> nullable right))
      else if (getSuperTypeID left = kNumeric \<and> type_id right = kYearMonthInterval) \<or>
              (type_id left = kYearMonthInterval \<and> getSuperTypeID right = kNumeric)
      then Some (Instance kYearMonthInterval (nullable left \<or> nullable right))
      else None)"

definition Multiply_resultTypeForPartialArgumentTypes ::
  "sql_type option \<Rightarrow> sql_type option \<Rightarrow> sql_type option" where
  "Multiply_resultTypeForPartialArgumentTypes left right =
     (let known = (\<lambda>known_type.
            case type_id known_type of
              kDatetimeInterval \<Rightarrow> GetType kDatetimeInterval True
            | kYearMonthInterval \<Rightarrow> GetType kYearMonthInterval True
            | _ \<Rightarrow> None)
      in case (left, right) of
           (None, None) \<Rightarrow> None
         | (Some l, Some r) \<Rightarrow> Multiply_resultTypeForArgumentTypes l r
         | (Some l, None) \<Rightarrow> known l
         | (None, Some r) \<Rightarrow> known r)"

definition Multiply_partialTypeSignatureIsPlausible ::
  "sql_type option \<Rightarrow> sql_type option \<Rightarrow> sql_type option \<Rightarrow> bool" where
  "Multiply_partialTypeSignatureIsPlausible result_type left_argument_type right_argument_type =
     (let multipliable = [kInt, kLong, kFloat, kDouble, kDatetimeInterval, kYearMonthInterval];
          known = (\<lambda>known_argument_type.
            case result_type of
              None \<Rightarrow> EqualsAnyConstant (type_id known_argument_type) multipliable
            | Some res \<Rightarrow>
                if \<not> nullable res then False
                else (case type_id res of
                        kInt \<Rightarrow> type_id known_argument_type = kInt
                      | kLong \<Rightarrow> EqualsAnyConstant (type_id known_argument_type) [kInt, kLong]
                      | kFloat \<Rightarrow> EqualsAnyConstant (type_id known_argument_type) [kInt, kFloat]
                      | kDouble \<Rightarrow> EqualsAnyConstant (type_id known_argument_type) [kInt, kLong, kFloat, kDouble]
                      | kDatetimeInterval \<Rightarrow> EqualsAnyConstant (type_id known_argument_type)
                          [kInt, kLong, kFloat, kDouble, kDatetimeInterval]
                      | kYearMonthInterval \<Rightarrow> EqualsAnyConstant (type_id known_argument_type)
                          [kInt, kLong, kFloat, kDouble, kYearMonthInterval]
                      | _ \<Rightarrow> False))
      in case (left_argument_type, right_argument_type) of
           (None, None) \<Rightarrow>
             (case result_type of
                None \<Rightarrow> True
              | Some res \<Rightarrow> if \<not> nullable res then False else EqualsAnyConstant (type_id res) multipliable)
         | (Some l, Some r) \<Rightarrow> known_signature_plausible (Multiply_resultTypeForArgumentTypes l r) result_type
         | (Some l, None) \<Rightarrow> known l
         | (None, Some r) \<Rightarrow> known r)"

definition Multiply_pushDownTypeHint :: "sql_type option \<Rightarrow> sql_type option \<times> sql_type option" where
  "Multiply_pushDownTypeHint result_type_hint =
     (case result_type_hint of
        None \<Rightarrow> (None, None)
      | Some hint \<Rightarrow>
          (case type_id hint of
             kInt \<Rightarrow> (Some hint, Some hint)
           | kLong \<Rightarrow> (Some hint, Some hint)
           | kFloat \<Rightarrow> (Some hint, Some hint)
           | kDouble \<Rightarrow> (Some hint, Some hint)
           | kDatetimeInterval \<Rightarrow> (None, None)
           | kYearMonthInterval \<Rightarrow> (None, None)
           | _ \<Rightarrow> (None, None)))"

section \<open>Divide\<close>

definition Divide_canApplyToTypes :: "sql_type \<Rightarrow> sql_type \<Rightarrow> bool" where
  "Divide_canApplyToTypes left right =
     (case type_id left of
        kInt \<Rightarrow> getSuperTypeID right = kNumeric
      | kLong \<Rightarrow> getSuperTypeID right = kNumeric
      | kFloat \<Rightarrow> getSuperTypeID right = kNumeric
      | kDouble \<Rightarrow> getSuperTypeID right = kNumeric
      | kDatetimeInterval \<Rightarrow> getSuperTypeID right = kNumeric
      | kYearMonthInterval \<Rightarrow> getSuperTypeID right = kNumeric
      | _ \<Rightarrow> False)"

definition Divide_resultTypeForArgumentTypes :: "sql_type \<Rightarrow> sql_type \<Rightarrow> sql_type option" where
  "Divide_resultTypeForArgumentTypes left right =
     (if getSuperTypeID left = kNumeric \<and> getSuperTypeID right = kNumeric then GetUnifyingType left right
      else if type_id left = kDatetimeInterval \<and> getSuperTypeID right = kNumeric
      then Some (Instance kDatetimeInterval (nullable left \<or> nullable right))
      else if type_id left = kYearMonthInterval \<and> getSuperTypeID right = kNumeric
      then Some (Instance kYearMonthInterval (nullable left \<or> nullable right))
      else None)"

definition Divide_resultTypeForPartialArgumentTypes ::
  "sql_type option \<Rightarrow> sql_type option \<Rightarrow> sql_type option" where
  "Divide_resultTypeForPartialArgumentTypes left right =
     (case left of
        None \<Rightarrow> None
      | Some l \<Rightarrow>
          (case right of
             None \<Rightarrow>
               (case type_id l of
                  kDouble \<Rightarrow> GetType kDouble True
                | kDatetimeInterval \<Rightarrow> GetType kDatetimeInterval True
                | kYearMonthInterval \<Rightarrow> GetType kYearMonthInterval True
                | _ \<Rightarrow> None)
           | Some r \<Rightarrow> Divide_resultTypeForArgumentTypes l r))"

definition Divide_partialTypeSignatureIsPlausible ::
  "sql_type option \<Rightarrow> sql_type option \<Rightarrow> sql_type option \<Rightarrow> bool" where
  "Divide_partialTypeSignatureIsPlausible result_type left_argument_type right_argument_type =
     (let divisible = [kInt, kLong, kFloat, kDouble, kDatetimeInterval, kYearMonthInterval]
      in if nullability_mismatch result_type left_argument_type right_argument_type then False
         else case left_argument_type of
           None \<Rightarrow>
             (case right_argument_type of
                None \<Rightarrow>
                  (case result_type of
                     None \<Rightarrow> True
                   | Some res \<Rightarrow> EqualsAnyConstant (type_id res) divisible)
              | Some r \<Rightarrow>
                  (case result_type of
                     None \<Rightarrow> EqualsAnyConstant (type_id r) [kInt, kLong, kFloat, kDouble]
                   | Some res \<Rightarrow>
                       (case type_id r of
                          kInt \<Rightarrow> EqualsAnyConstant (type_id res)
                            [kInt, kLong, kFloat, kDouble, kDatetimeInterval, kYearMonthInterval]
                        | kLong \<Rightarrow> EqualsAnyConstant (type_id res)
                            [kLong, kDouble, kDatetimeInterval, kYearMonthInterval]
                        | kFloat \<Rightarrow> EqualsAnyConstant (type_id res)
                            [kFloat, kDouble, kDatetimeInterval, kYearMonthInterval]
                        | kDouble \<Rightarrow> EqualsAnyConstant (type_id res)
                            [kDouble, kDatetimeInterval, kYearMonthInterval]
                        | _ \<Rightarrow> False)))
         | Some l \<Rightarrow>
             (case right_argument_type of
                None \<Rightarrow>
                  (case result_type of
                     None \<Rightarrow> EqualsAnyConstant (type_id l) divisible
                   | Some res \<Rightarrow>
                       (case type_id l of
                          kInt \<Rightarrow> EqualsAnyConstant (type_id res) [kInt, kLong, kFloat, kDouble]
                        | kLong \<Rightarrow> EqualsAnyConstant (type_id res) [kLong, kDouble]
                        | kFloat \<Rightarrow> EqualsAnyConstant (type_id res) [kFloat, kDouble]
                        | kDouble \<Rightarrow> type_id res = kDouble
                        | kDatetimeInterval \<Rightarrow> type_id res = kDatetimeInterval
                        | kYearMonthInterval \<Rightarrow> type_id res = kYearMonthInterval
                        | _ \<Rightarrow> False))
              | Some r \<Rightarrow> known_signature_plausible (Divide_resultTypeForArgumentTypes l r) result_type))"

definition Divide_pushDownTypeHint :: "sql_type option \<Rightarrow> sql_type option \<times> sql_type option" where
  "Divide_pushDownTypeHint result_type_hint =
     (case result_type_hint of
        None \<Rightarrow> (None, None)
      | Some hint \<Rightarrow>
          (case type_id hint of
             kInt \<Rightarrow> (Some hint, Some hint)
           | kLong \<Rightarrow> (Some hint, Some hint)
           | kFloat \<Rightarrow> (Some hint, Some hint)
           | kDouble \<Rightarrow> (Some hint, Some hint)
           | kDatetimeInterval \<Rightarrow> (Some hint, None)
           | kYearMonthInterval \<Rightarrow> (Some hint, None)
           | _ \<Rightarrow> (None, None)))"

section \<open>Modulo\<close>

definition Modulo_canApplyToTypes :: "sql_type \<Rightarrow> sql_type \<Rightarrow> bool" where
  "Modulo_canApplyToTypes left right =
     (case type_id left of
        kInt \<Rightarrow> getSuperTypeID right = kNumeric
      | kLong \<Rightarrow> getSuperTypeID right = kNumeric
      | kFloat \<Rightarrow> getSuperTypeID right = kNumeric
      | kDouble \<Rightarrow> getSuperTypeID right = kNumeric
      | _ \<Rightarrow> False)"

definition Modulo_resultTypeForArgumentTypes :: "sql_type \<Rightarrow> sql_type \<Rightarrow> sql_type option" where
  "Modulo_resultTypeForArgumentTypes left right =
     (if getSuperTypeID left = kNumeric \<and> getSuperTypeID right = kNumeric then GetUnifyingType left right
      else None)"

definition Modulo_resultTypeForPartialArgumentTypes ::
  "sql_type option \<Rightarrow> sql_type option \<Rightarrow> sql_type option" where
  "Modulo_resultTypeForPartialArgumentTypes left right =
     (case left of
        None \<Rightarrow> None
      | Some l \<Rightarrow>
          (case right of
             None \<Rightarrow>
               (case type_id l of
                  kDouble \<Rightarrow> GetType kDouble True
                | _ \<Rightarrow> None)
           | Some r \<Rightarrow> Modulo_resultTypeForArgumentTypes l r))"

definition Modulo_partialTypeSignatureIsPlausible ::
  "sql_type option \<Rightarrow> sql_type option \<Rightarrow> sql_type option \<Rightarrow> bool" where
  "Modulo_partialTypeSignatureIsPlausible result_type left_argument_type right_argument_type =
     (let numeric = [kInt, kLong, kFloat, kDouble]
      in if nullability_mismatch result_type left_argument_type right_argument_type then False
         else case left_argument_type of
           None \<Rightarrow>
             (case right_argument_type of
                None \<Rightarrow>
                  (case result_type of
                     None \<Rightarrow> True
                   | Some res \<Rightarrow> EqualsAnyConstant (type_id res) numeric)
              | Some r \<Rightarrow>
                  (case result_type of
                     None \<Rightarrow> EqualsAnyConstant (type_id r) numeric
                   | Some res \<Rightarrow>
                       (case type_id r of
                          kInt \<Rightarrow> EqualsAnyConstant (type_id res) [kInt, kLong, kFloat, kDouble]
                        | kLong \<Rightarrow> EqualsAnyConstant (type_id res) [kLong, kDouble]
                        | kFloat \<Rightarrow> EqualsAnyConstant (type_id res) [kFloat, kDouble]
                        | kDouble \<Rightarrow> type_id res = kDouble
                        | _ \<Rightarrow> False)))
         | Some l \<Rightarrow>
             (case right_argument_type of
                None \<Rightarrow>
                  (case result_type of
                     None \<Rightarrow> EqualsAnyConstant (type_id l) numeric
                   | Some res \<Rightarrow>
                       (case type_id l of
                          kInt \<Rightarrow> EqualsAnyConstant (type_id res) [kInt, kLong, kFloat, kDouble]
                        | kLong \<Rightarrow> EqualsAnyConstant (type_id res) [kLong, kDouble]
                        | kFloat \<Rightarrow> EqualsAnyConstant (type_id res) [kFloat, kDouble]
                        | kDouble \<Rightarrow> type_id res = kDouble
                        | _ \<Rightarrow> False))
              | Some r \<Rightarrow> known_signature_plausible (Modulo_resultTypeForArgumentTypes l r) result_type))"

definition Modulo_pushDownTypeHint :: "sql_type option \<Rightarrow> sql_type option \<times> sql_type option" where
  "Modulo_pushDownTypeHint result_type_hint =
     (case result_type_hint of
        None \<Rightarrow> (None, None)
      | Some hint \<Rightarrow>
          (case type_id hint of
             kInt \<Rightarrow> (Some hint, Some hint)
           | kLong \<Rightarrow> (Some hint, Some hint)
           | kFloat \<Rightarrow> (Some hint, Some hint)
           | kDouble \<Rightarrow> (Some hint, Some hint)
           | _ \<Rightarrow> (None, None)))"

section \<open>The virtual calls\<close>

datatype BinaryOperationID = kAdd | kSubtract | kMultiply | kDivide | kModulo

definition canApplyToTypes :: "BinaryOperationID \<Rightarrow> sql_type \<Rightarrow> sql_type \<Rightarrow> bool" where
  "canApplyToTypes op =
     (case op of
        kAdd \<Rightarrow> Add_canApplyToTypes
      | kSubtract \<Rightarrow> Subtract_canApplyToTypes
      | kMultiply \<Rightarrow> Multiply_canApplyToTypes
      | kDivide \<Rightarrow> Divide_canApplyToTypes
      | kModulo \<Rightarrow> Modulo_canApplyToTypes)"

definition resultTypeForArgumentTypes :: "BinaryOperationID \<Rightarrow> sql_type \<Rightarrow> sql_type \<Rightarrow> sql_type option" where
  "resultTypeForArgumentTypes op =
     (case op of
        kAdd \<Rightarrow> Add_resultTypeForArgumentTypes
      | kSubtract \<Rightarrow> Subtract_resultTypeForArgumentTypes
      | kMultiply \<Rightarrow> Multiply_resultTypeForArgumentTypes
      | kDivide \<Rightarrow> Divide_resultTypeForArgumentTypes
      | kModulo \<Rightarrow> Modulo_resultTypeForArgumentTypes)"

definition resultTypeForPartialArgumentTypes ::
  "BinaryOperationID \<Rightarrow> sql_type option \<Rightarrow> sql_type option \<Rightarrow> sql_type option" where
  "resultTypeForPartialArgumentTypes op =
     (case op of
        kAdd \<Rightarrow> Add_resultTypeForPartialArgumentTypes
      | kSubtract \<Rightarrow> Subtract_resultTypeForPartialArgumentTypes
      | kMultiply \<Rightarrow> Multiply_resultTypeForPartialArgumentTypes
      | kDivide \<Rightarrow> Divide_resultTypeForPartialArgumentTypes
      | kModulo \<Rightarrow> Modulo_resultTypeForPartialArgumentTypes)"

definition partialTypeSignatureIsPlausible ::
  "BinaryOperationID \<Rightarrow> sql_type option \<Rightarrow> sql_type option \<Rightarrow> sql_type option \<Rightarrow> bool" where
  "partialTypeSignatureIsPlausible op =
     (case op of
        kAdd \<Rightarrow> Add_partialTypeSignatureIsPlausible
      | kSubtract \<Rightarrow> Subtract_partialTypeSignatureIsPlausible
      | kMultiply \<Rightarrow> Multiply_partialTypeSignatureIsPlausible
      | kDivide \<Rightarrow> Divide_partialTypeSignatureIsPlausible
      | kModulo \<Rightarrow> Modulo_partialTypeSignatureIsPlausible)"

definition pushDownTypeHint :: "BinaryOperationID \<Rightarrow> sql_type option \<Rightarrow> sql_type option \<times> sql_type option" where
  "pushDownTypeHint op =
     (case op of
        kAdd \<Rightarrow> Add_pushDownTypeHint
      | kSubtract \<Rightarrow> Subtract_pushDownTypeHint
      | kMultiply \<Rightarrow> Multiply_pushDownTypeHint
      | kDivide \<Rightarrow> Divide_pushDownTypeHint
      | kModulo \<Rightarrow> Modulo_pushDownTypeHint)"

section \<open>The contract\<close>

text \<open>
  The types a partial signature stands for: an unknown argument may be any nullable type. The possible
  results are those of the completions the operation can be applied to.
\<close>

definition completes :: "sql_type option \<Rightarrow> sql_type \<Rightarrow> bool" where
  "completes partial t \<longleftrightarrow> (case partial of None \<Rightarrow> type_wf t \<and> nullable t | Some u \<Rightarrow> t = u)"

definition result_types :: "(sql_type \<Rightarrow> sql_type \<Rightarrow> sql_type option) \<Rightarrow> sql_type option \<Rightarrow> sql_type option \<Rightarrow> sql_type set" where
  "result_types result left right = {t. \<exists>l r. completes left l \<and> completes right r \<and> result l r = Some t}"

locale binary_operation_types =
  fixes can_apply :: "sql_type \<Rightarrow> sql_type \<Rightarrow> bool"
    and result_type :: "sql_type \<Rightarrow> sql_type \<Rightarrow> sql_type option"
    and partial_result :: "sql_type option \<Rightarrow> sql_type option \<Rightarrow> sql_type option"
    and plausible :: "sql_type option \<Rightarrow> sql_type option \<Rightarrow> sql_type option \<Rightarrow> bool"
    and push_down :: "sql_type option \<Rightarrow> sql_type option \<times> sql_type option"
  assumes can_apply_iff: "type_wf l \<Longrightarrow> type_wf r \<Longrightarrow> can_apply l r \<longleftrightarrow> result_type l r \<noteq> None"
    and result_wf: "type_wf l \<Longrightarrow> type_wf r \<Longrightarrow> result_type l r = Some t \<Longrightarrow>
      type_wf t \<and> (nullable t \<longleftrightarrow> nullable l \<or> nullable r)"
    and partial_determined: "pred_option type_wf left \<Longrightarrow> pred_option type_wf right \<Longrightarrow>
      partial_result left right = Some t \<Longrightarrow> result_types result_type left right = {t}"
    and plausible_iff: "pred_option type_wf left \<Longrightarrow> pred_option type_wf right \<Longrightarrow> pred_option type_wf res \<Longrightarrow>
      plausible res left right \<longleftrightarrow> (\<exists>t \<in> result_types result_type left right. res = None \<or> res = Some t)"
    and push_down_possible: "type_wf t \<Longrightarrow> plausible (Some t) None None \<Longrightarrow> push_down (Some t) = (a, b) \<Longrightarrow>
      pred_option type_wf a \<and> pred_option type_wf b \<and> t \<in> result_types result_type a b"
begin

lemma completes_known: "completes (Some u) t \<longleftrightarrow> t = u"
  by (simp add: completes_def)

lemma result_types_known: "result_types result_type (Some l) (Some r) = set_option (result_type l r)"
  by (auto simp: result_types_def completes_def)

lemma plausible_known:
  assumes "type_wf l" "type_wf r" "pred_option type_wf res"
  shows "plausible res (Some l) (Some r) \<longleftrightarrow> can_apply l r \<and> (res = None \<or> res = result_type l r)"
  using assms by (cases "result_type l r") (auto simp: plausible_iff result_types_known can_apply_iff)

lemma partial_plausible:
  assumes "pred_option type_wf left" "pred_option type_wf right" "pred_option type_wf res"
    "partial_result left right = Some t"
  shows "plausible res left right \<longleftrightarrow> res = None \<or> res = Some t"
  using plausible_iff [OF assms(1-3)] partial_determined [OF assms(1,2,4)] by auto

lemma forget_left:
  assumes "nullable l" "type_wf l" "pred_option type_wf right" "pred_option type_wf res" "plausible res (Some l) right"
  shows "plausible res None right"
proof -
  have "result_types result_type (Some l) right \<subseteq> result_types result_type None right"
    using assms(1,2) by (auto simp: result_types_def completes_def)
  then show ?thesis using assms(2-) by (auto simp: plausible_iff)
qed

lemma push_down_plausible:
  assumes "type_wf t" "plausible (Some t) None None"
  shows "plausible (Some t) (fst (push_down (Some t))) (snd (push_down (Some t)))"
  using push_down_possible [OF assms, of "fst (push_down (Some t))" "snd (push_down (Some t))"] assms(1)
  by (auto simp: plausible_iff)

lemma push_down_yields:
  assumes "type_wf t" "plausible (Some t) None None" "push_down (Some t) = (Some a, Some b)"
  shows "result_type a b = Some t"
  using push_down_possible [OF assms] by (simp add: result_types_known)

end

text \<open>An operation whose partial result type is found whenever it is unambiguous.\<close>

locale determined_binary_operation_types = binary_operation_types +
  assumes partial_complete: "pred_option type_wf left \<Longrightarrow> pred_option type_wf right \<Longrightarrow>
      result_types result_type left right = {t} \<Longrightarrow> partial_result left right = Some t"
begin

lemma partial_iff:
  assumes "pred_option type_wf left" "pred_option type_wf right"
  shows "partial_result left right = Some t \<longleftrightarrow> result_types result_type left right = {t}"
  using partial_determined [OF assms] partial_complete [OF assms] by blast

end

section \<open>The tables behind the code\<close>

text \<open>
  What the switches amount to: the result depends on the two IDs only, and on the nullability of the
  arguments.
\<close>

definition date_result_id :: "BinaryOperationID \<Rightarrow> TypeID \<Rightarrow> TypeID \<Rightarrow> TypeID option" where
  "date_result_id op a b =
     (case op of
        kAdd \<Rightarrow> map_of
          [((kDatetime, kDatetimeInterval), kDatetime), ((kDatetimeInterval, kDatetime), kDatetime),
           ((kDatetime, kYearMonthInterval), kDatetime), ((kYearMonthInterval, kDatetime), kDatetime),
           ((kDatetimeInterval, kDatetimeInterval), kDatetimeInterval),
           ((kYearMonthInterval, kYearMonthInterval), kYearMonthInterval)] (a, b)
      | kSubtract \<Rightarrow> map_of
          [((kDatetime, kDatetime), kDatetimeInterval), ((kDatetimeInterval, kDatetimeInterval), kDatetimeInterval),
           ((kDatetime, kDatetimeInterval), kDatetime), ((kDatetime, kYearMonthInterval), kDatetime),
           ((kYearMonthInterval, kYearMonthInterval), kYearMonthInterval)] (a, b)
      | kMultiply \<Rightarrow>
          if superTypeOf a = kNumeric \<and> b \<in> {kDatetimeInterval, kYearMonthInterval} then Some b
          else if a \<in> {kDatetimeInterval, kYearMonthInterval} \<and> superTypeOf b = kNumeric then Some a else None
      | kDivide \<Rightarrow> if a \<in> {kDatetimeInterval, kYearMonthInterval} \<and> superTypeOf b = kNumeric then Some a else None
      | kModulo \<Rightarrow> None)"

definition result_id :: "BinaryOperationID \<Rightarrow> TypeID \<Rightarrow> TypeID \<Rightarrow> TypeID option" where
  "result_id op a b = (case NumericTypeUnifier a b of None \<Rightarrow> date_result_id op a b | Some c \<Rightarrow> Some c)"

definition all_TypeIDs :: "TypeID list" where
  "all_TypeIDs = [kInt, kLong, kFloat, kDouble, kChar, kVarChar, kDate, kDatetime, kDatetimeInterval,
     kYearMonthInterval, kNullType]"

named_theorems operation_defs

lemmas operation_tables [operation_defs] =
  Add_canApplyToTypes_def Add_resultTypeForArgumentTypes_def Add_resultTypeForPartialArgumentTypes_def
  Add_partialTypeSignatureIsPlausible_def Add_pushDownTypeHint_def
  Subtract_canApplyToTypes_def Subtract_resultTypeForArgumentTypes_def Subtract_resultTypeForPartialArgumentTypes_def
  Subtract_partialTypeSignatureIsPlausible_def Subtract_pushDownTypeHint_def
  Multiply_canApplyToTypes_def Multiply_resultTypeForArgumentTypes_def Multiply_resultTypeForPartialArgumentTypes_def
  Multiply_partialTypeSignatureIsPlausible_def Multiply_pushDownTypeHint_def
  Divide_canApplyToTypes_def Divide_resultTypeForArgumentTypes_def Divide_resultTypeForPartialArgumentTypes_def
  Divide_partialTypeSignatureIsPlausible_def Divide_pushDownTypeHint_def
  Modulo_canApplyToTypes_def Modulo_resultTypeForArgumentTypes_def Modulo_resultTypeForPartialArgumentTypes_def
  Modulo_partialTypeSignatureIsPlausible_def Modulo_pushDownTypeHint_def

lemmas operation_dispatch = canApplyToTypes_def resultTypeForArgumentTypes_def
  resultTypeForPartialArgumentTypes_def partialTypeSignatureIsPlausible_def pushDownTypeHint_def

lemma EqualsAnyConstant_set [simp]: "EqualsAnyConstant check constants \<longleftrightarrow> check \<in> set constants"
  by (induction check constants rule: EqualsAnyConstant.induct) auto

lemma Instance_simps [simp]:
  "type_id (Instance i n) = i" "nullable (Instance i n) = n" "string_length (Instance i n) = 0"
  "Instance i n = Instance j m \<longleftrightarrow> i = j \<and> n = m"
  by (auto simp: Instance_def)

lemma Instance_eq: "string_length t = 0 \<Longrightarrow> Instance (type_id t) (nullable t) = t"
  by (cases t) (simp add: Instance_def)

lemma Instance_nullable_wf: "type_wf (Instance i True)"
  by (simp add: type_wf_def)

lemma GetType_Instance: "\<not> TypeRequiresLengthParameter i \<Longrightarrow> GetType i True = Some (Instance i True)"
  by (cases i) (simp_all add: GetType_def Instance_def TypeRequiresLengthParameter_def)

lemma numeric_unifier:
  assumes "type_wf l" "type_wf r" "getSuperTypeID l = kNumeric" "getSuperTypeID r = kNumeric"
  shows "GetUnifyingType l r =
    map_option (\<lambda>i. Instance i (nullable l \<or> nullable r)) (NumericTypeUnifier (type_id l) (type_id r))"
proof (cases l, cases r)
  fix i n s j k u
  assume lr: "l = \<lparr>type_id = i, nullable = n, string_length = s\<rparr>" "r = \<lparr>type_id = j, nullable = k, string_length = u\<rparr>"
  have "i \<in> {kInt, kLong, kFloat, kDouble}" "j \<in> {kInt, kLong, kFloat, kDouble}"
    using assms(3,4) lr by (cases i; cases j; simp add: getSuperTypeID_def)+
  then show ?thesis using assms(1,2) lr
    by (elim insertE emptyE; cases n; cases k;
        simp add: type_wf_def TypeRequiresLengthParameter_def GetUnifyingType_def GetMostSpecificType_def
          coercibility_defs getNullableVersion_def GetType_def Instance_def)
qed

lemma unifier_none: "superTypeOf a \<noteq> kNumeric \<or> superTypeOf b \<noteq> kNumeric \<Longrightarrow> NumericTypeUnifier a b = None"
  by (cases a; cases b) auto

lemma result_by_ids:
  assumes "type_wf l" "type_wf r"
  shows "resultTypeForArgumentTypes op l r =
    map_option (\<lambda>i. Instance i (nullable l \<or> nullable r)) (result_id op (type_id l) (type_id r))"
proof (cases "getSuperTypeID l = kNumeric \<and> getSuperTypeID r = kNumeric")
  case True
  then have num: "resultTypeForArgumentTypes op l r = GetUnifyingType l r"
    by (cases op) (simp_all add: operation_dispatch operation_tables)
  have "date_result_id op (type_id l) (type_id r) = None"
    using True by (cases op; cases "type_id l"; cases "type_id r") (simp_all add: getSuperTypeID_def date_result_id_def)
  then show ?thesis using num numeric_unifier [OF assms] True
    by (simp add: result_id_def split: option.splits)
next
  case False
  then have "result_id op (type_id l) (type_id r) = date_result_id op (type_id l) (type_id r)"
    using unifier_none [of "type_id l" "type_id r"] by (simp add: result_id_def getSuperTypeID_def)
  then show ?thesis using False
    by (cases op; cases "type_id l"; cases "type_id r")
      (simp_all add: operation_dispatch operation_tables getSuperTypeID_def date_result_id_def)
qed

section \<open>The possible results of a partial signature\<close>

text \<open>The IDs reachable by completing a signature, as lists to compute with.\<close>

definition results_left :: "BinaryOperationID \<Rightarrow> TypeID \<Rightarrow> TypeID list" where
  "results_left op b = List.map_filter (\<lambda>a. result_id op a b) all_TypeIDs"

definition results_right :: "BinaryOperationID \<Rightarrow> TypeID \<Rightarrow> TypeID list" where
  "results_right op a = List.map_filter (\<lambda>b. result_id op a b) all_TypeIDs"

definition results_any :: "BinaryOperationID \<Rightarrow> TypeID list" where
  "results_any op = concat (map (results_right op) all_TypeIDs)"

lemma all_TypeIDs_UNIV: "set all_TypeIDs = UNIV"
proof -
  have "i \<in> set all_TypeIDs" for i by (cases i) (simp_all add: all_TypeIDs_def)
  then show ?thesis by blast
qed

lemma set_results_left: "i \<in> set (results_left op b) \<longleftrightarrow> (\<exists>a. result_id op a b = Some i)"
  unfolding results_left_def List.map_filter_def by (force simp: all_TypeIDs_UNIV image_iff)

lemma set_results_right: "i \<in> set (results_right op a) \<longleftrightarrow> (\<exists>b. result_id op a b = Some i)"
  unfolding results_right_def List.map_filter_def by (force simp: all_TypeIDs_UNIV image_iff)

lemma set_results_any: "i \<in> set (results_any op) \<longleftrightarrow> (\<exists>a b. result_id op a b = Some i)"
  by (simp add: results_any_def all_TypeIDs_UNIV set_results_right)

lemma completes_None: "completes None t \<longleftrightarrow> type_wf t \<and> nullable t"
  by (simp add: completes_def)

lemma completes_Some: "completes (Some u) t \<longleftrightarrow> t = u"
  by (simp add: completes_def)

lemma result_some:
  assumes "type_wf l" "type_wf r"
  shows "resultTypeForArgumentTypes op l r = Some t \<longleftrightarrow>
    (\<exists>i. result_id op (type_id l) (type_id r) = Some i \<and> t = Instance i (nullable l \<or> nullable r))"
  by (auto simp: result_by_ids [OF assms])

lemma results_unknown_left:
  assumes "type_wf r"
  shows "result_types (resultTypeForArgumentTypes op) None (Some r) =
    (\<lambda>i. Instance i True) ` set (results_left op (type_id r))" (is "?A = ?B")
proof
  show "?A \<subseteq> ?B" using assms
    by (force simp: result_types_def completes_None completes_Some result_some image_iff set_results_left)
  show "?B \<subseteq> ?A"
  proof
    fix t assume "t \<in> ?B"
    then obtain i a where t: "t = Instance i True" "result_id op a (type_id r) = Some i"
      by (auto simp: set_results_left)
    then have "resultTypeForArgumentTypes op (Instance a True) r = Some t"
      by (simp add: result_some [OF Instance_nullable_wf assms])
    then show "t \<in> ?A"
      using Instance_nullable_wf [of a] unfolding result_types_def completes_None completes_Some
      by (auto intro!: exI [of _ "Instance a True"])
  qed
qed

lemma results_unknown_right:
  assumes "type_wf l"
  shows "result_types (resultTypeForArgumentTypes op) (Some l) None =
    (\<lambda>i. Instance i True) ` set (results_right op (type_id l))" (is "?A = ?B")
proof
  show "?A \<subseteq> ?B" using assms
    by (force simp: result_types_def completes_None completes_Some result_some image_iff set_results_right)
  show "?B \<subseteq> ?A"
  proof
    fix t assume "t \<in> ?B"
    then obtain i b where t: "t = Instance i True" "result_id op (type_id l) b = Some i"
      by (auto simp: set_results_right)
    then have "resultTypeForArgumentTypes op l (Instance b True) = Some t"
      by (simp add: result_some [OF assms Instance_nullable_wf])
    then show "t \<in> ?A"
      using Instance_nullable_wf [of b] unfolding result_types_def completes_None completes_Some
      by (auto intro!: exI [of _ "Instance b True"])
  qed
qed

lemma results_unknown:
  "result_types (resultTypeForArgumentTypes op) None None = (\<lambda>i. Instance i True) ` set (results_any op)"
    (is "?A = ?B")
proof
  show "?A \<subseteq> ?B"
    by (force simp: result_types_def completes_None result_some image_iff set_results_any)
  show "?B \<subseteq> ?A"
  proof
    fix t assume "t \<in> ?B"
    then obtain i a b where t: "t = Instance i True" "result_id op a b = Some i" by (auto simp: set_results_any)
    then have "resultTypeForArgumentTypes op (Instance a True) (Instance b True) = Some t"
      by (simp add: result_some [OF Instance_nullable_wf Instance_nullable_wf])
    then show "t \<in> ?A"
      using Instance_nullable_wf [of a] Instance_nullable_wf [of b] Instance_simps(2) [of a True]
        Instance_simps(2) [of b True]
      unfolding result_types_def completes_None by blast
  qed
qed

lemma results_known:
  "result_types (resultTypeForArgumentTypes op) (Some l) (Some r) = set_option (resultTypeForArgumentTypes op l r)"
  by (auto simp: result_types_def completes_Some)

lemmas results_simps = results_unknown_left results_unknown_right results_unknown results_known

lemma instances_singleton:
  "(\<lambda>i. Instance i True) ` set xs = {t} \<longleftrightarrow> xs \<noteq> [] \<and> (\<forall>i \<in> set xs. t = Instance i True)"
  by (cases xs) (auto simp: image_iff)

lemmas result_id_compute = results_left_def results_right_def results_any_def List.map_filter_def all_TypeIDs_def
  result_id_def date_result_id_def

section \<open>The operations meet the contract\<close>

lemma can_apply_ids: "canApplyToTypes op l r \<longleftrightarrow> result_id op (type_id l) (type_id r) \<noteq> None"
  by (cases op; cases "type_id l"; cases "type_id r")
    (simp_all add: operation_dispatch operation_tables result_id_def date_result_id_def getSuperTypeID_def)

lemma result_id_no_length:
  assumes "result_id op a b = Some i"
  shows "\<not> TypeRequiresLengthParameter i \<and> i \<noteq> kNullType"
proof -
  have "superTypeOf i = kNumeric" if "NumericTypeUnifier a b = Some i" using that by (cases a; cases b) auto
  moreover have "\<not> TypeRequiresLengthParameter i \<and> i \<noteq> kNullType" if "superTypeOf i = kNumeric"
    using that by (cases i) (simp_all add: TypeRequiresLengthParameter_def)
  moreover have "\<not> TypeRequiresLengthParameter i \<and> i \<noteq> kNullType" if "date_result_id op a b = Some i"
    using that by (cases op) (auto simp: date_result_id_def TypeRequiresLengthParameter_def split: if_splits)
  ultimately show ?thesis using assms by (auto simp: result_id_def split: option.splits)
qed

lemma result_types_wf:
  assumes "type_wf l" "type_wf r" "resultTypeForArgumentTypes op l r = Some t"
  shows "type_wf t \<and> (nullable t \<longleftrightarrow> nullable l \<or> nullable r)"
proof -
  obtain i where i: "result_id op (type_id l) (type_id r) = Some i" "t = Instance i (nullable l \<or> nullable r)"
    using assms by (auto simp: result_some)
  from result_id_no_length [OF i(1)] i(2) show ?thesis by (simp add: type_wf_def)
qed

lemma partial_known: "resultTypeForPartialArgumentTypes op (Some l) (Some r) = resultTypeForArgumentTypes op l r"
  by (cases op) (simp_all add: operation_dispatch operation_tables)

lemma partial_unknown: "resultTypeForPartialArgumentTypes op None None = None"
  by (cases op) (simp_all add: operation_dispatch operation_tables)

lemma partial_left:
  "resultTypeForPartialArgumentTypes op (Some l) None = Some t \<longleftrightarrow>
    results_right op (type_id l) \<noteq> [] \<and> (\<forall>i \<in> set (results_right op (type_id l)). t = Instance i True)"
  by (cases op; cases "type_id l")
    (auto simp: operation_dispatch operation_tables result_id_compute GetType_def Instance_def)

lemma partial_right:
  "resultTypeForPartialArgumentTypes op None (Some r) = Some t \<longleftrightarrow>
    results_left op (type_id r) \<noteq> [] \<and> (\<forall>i \<in> set (results_left op (type_id r)). t = Instance i True) \<and>
    (op = kModulo \<longrightarrow> type_id r \<noteq> kDouble)"
  by (cases op; cases "type_id r")
    (auto simp: operation_dispatch operation_tables result_id_compute GetType_def Instance_def)

lemma results_any_ambiguous:
  "kInt \<in> set (results_any op)" "kDouble \<in> set (results_any op)"
  by (cases op, simp_all add: result_id_compute)+

definition nullability_clash :: "BinaryOperationID \<Rightarrow> sql_type option \<Rightarrow> sql_type \<Rightarrow> sql_type \<Rightarrow> bool" where
  "nullability_clash op res l r \<longleftrightarrow> op \<in> {kSubtract, kDivide, kModulo} \<and> nullability_mismatch res (Some l) (Some r)"

lemma plausible_known_ids:
  "partialTypeSignatureIsPlausible op res (Some l) (Some r) \<longleftrightarrow>
    \<not> nullability_clash op res l r \<and> known_signature_plausible (resultTypeForArgumentTypes op l r) res"
  by (cases op) (auto simp: partialTypeSignatureIsPlausible_def resultTypeForArgumentTypes_def
      Add_partialTypeSignatureIsPlausible_def Subtract_partialTypeSignatureIsPlausible_def
      Multiply_partialTypeSignatureIsPlausible_def Divide_partialTypeSignatureIsPlausible_def
      Modulo_partialTypeSignatureIsPlausible_def nullability_clash_def)

lemma plausible_left:
  "partialTypeSignatureIsPlausible op None (Some l) None \<longleftrightarrow> results_right op (type_id l) \<noteq> []"
  "partialTypeSignatureIsPlausible op (Some res) (Some l) None \<longleftrightarrow>
    nullable res \<and> type_id res \<in> set (results_right op (type_id l))"
  by (cases op; cases "type_id l"; simp add: operation_dispatch operation_tables result_id_compute nullability_mismatch_def)
    (cases op; cases "type_id l"; cases "type_id res"; simp add: operation_dispatch operation_tables result_id_compute
      nullability_mismatch_def)

lemma plausible_right:
  "partialTypeSignatureIsPlausible op None None (Some r) \<longleftrightarrow> results_left op (type_id r) \<noteq> []"
  "partialTypeSignatureIsPlausible op (Some res) None (Some r) \<longleftrightarrow>
    nullable res \<and> type_id res \<in> set (results_left op (type_id r))"
  by (cases op; cases "type_id r"; simp add: operation_dispatch operation_tables result_id_compute nullability_mismatch_def)
    (cases op; cases "type_id r"; cases "type_id res"; simp add: operation_dispatch operation_tables result_id_compute
      nullability_mismatch_def)

lemma plausible_any:
  "partialTypeSignatureIsPlausible op None None None"
  "partialTypeSignatureIsPlausible op (Some res) None None \<longleftrightarrow> nullable res \<and> type_id res \<in> set (results_any op)"
  by (cases op; simp add: operation_dispatch operation_tables nullability_mismatch_def)
    (cases op; cases "type_id res"; simp add: operation_dispatch operation_tables result_id_compute
      nullability_mismatch_def)

lemma instance_of_results:
  assumes "i \<in> set (results_any op)" "type_wf t" "type_id t = i" "nullable t"
  shows "t = Instance i True"
proof -
  obtain a b where "result_id op a b = Some i" using assms(1) by (auto simp: set_results_any)
  then have "string_length t = 0" using result_id_no_length assms(2,3) unfolding type_wf_def by blast
  then show ?thesis using Instance_eq [of t] assms(3,4) by simp
qed

lemma results_left_any: "i \<in> set (results_left op b) \<Longrightarrow> i \<in> set (results_any op)"
  by (auto simp: set_results_left set_results_any)

lemma results_right_any: "i \<in> set (results_right op a) \<Longrightarrow> i \<in> set (results_any op)"
  by (auto simp: set_results_right set_results_any)

lemma nullable_result_iff:
  assumes "set xs \<subseteq> set (results_any op)" "type_wf t"
  shows "t \<in> (\<lambda>i. Instance i True) ` set xs \<longleftrightarrow> nullable t \<and> type_id t \<in> set xs"
  using assms instance_of_results [of "type_id t" op t] by (auto simp: image_iff)

lemma op_plausible_iff:
  assumes "pred_option type_wf left" "pred_option type_wf right" "pred_option type_wf res"
  shows "partialTypeSignatureIsPlausible op res left right \<longleftrightarrow>
    (\<exists>t \<in> result_types (resultTypeForArgumentTypes op) left right. res = None \<or> res = Some t)"
proof -
  have nonempty: "results_any op \<noteq> []" using results_any_ambiguous(1) [of op] by auto
  have member: "(\<exists>t \<in> X. Some u = Some t) \<longleftrightarrow> u \<in> X" for u :: sql_type and X by blast
  have sub: "set (results_left op b) \<subseteq> set (results_any op)" "set (results_right op a) \<subseteq> set (results_any op)" for a b
    using results_left_any results_right_any by blast+
  show ?thesis
  proof (cases left; cases right)
    fix l r assume lr: "left = Some l" "right = Some r"
    have clash: "\<not> nullability_clash op (Some t) l r" if "resultTypeForArgumentTypes op l r = Some t" for t
      using result_types_wf [OF _ _ that] assms lr by (auto simp: nullability_clash_def nullability_mismatch_def)
    show ?thesis using clash lr
      by (cases res; cases "resultTypeForArgumentTypes op l r")
        (auto simp: plausible_known_ids known_signature_plausible_def results_known nullability_clash_def
          nullability_mismatch_def)
  next
    fix l assume lr: "left = Some l" "right = None"
    then show ?thesis using assms sub
      by (cases res) (auto simp: plausible_left results_unknown_right member nullable_result_iff [OF sub(2)])
  next
    fix r assume lr: "left = None" "right = Some r"
    then show ?thesis using assms sub
      by (cases res) (auto simp: plausible_right results_unknown_left member nullable_result_iff [OF sub(1)])
  next
    assume lr: "left = None" "right = None"
    then show ?thesis using assms nonempty
      by (cases res) (auto simp: plausible_any results_unknown member nullable_result_iff [OF subset_refl])
  qed
qed

lemma any_not_singleton: "(\<lambda>i. Instance i True) ` set (results_any op) \<noteq> {t}"
proof
  assume "(\<lambda>i. Instance i True) ` set (results_any op) = {t}"
  then have "t = Instance kInt True" "t = Instance kDouble True"
    using results_any_ambiguous [of op] unfolding instances_singleton by blast+
  then show False by simp
qed

lemma op_partial_iff:
  assumes "pred_option type_wf left" "pred_option type_wf right"
  shows "resultTypeForPartialArgumentTypes op left right = Some t \<longleftrightarrow>
    result_types (resultTypeForArgumentTypes op) left right = {t} \<and>
    \<not> (op = kModulo \<and> left = None \<and> (\<exists>r. right = Some r \<and> type_id r = kDouble))"
proof (cases left; cases right)
  fix l r assume "left = Some l" "right = Some r"
  then show ?thesis
    by (cases "resultTypeForArgumentTypes op l r") (auto simp: partial_known results_known)
next
  fix l assume "left = Some l" "right = None"
  then show ?thesis using assms by (simp add: partial_left results_unknown_right instances_singleton)
next
  fix r assume "left = None" "right = Some r"
  then show ?thesis using assms by (auto simp: partial_right results_unknown_left instances_singleton)
next
  assume "left = None" "right = None"
  then show ?thesis by (simp add: partial_unknown results_unknown any_not_singleton)
qed

lemma push_down_ids:
  "pushDownTypeHint op (Some t) = (Some t, Some t) \<and> result_id op (type_id t) (type_id t) = Some (type_id t) \<or>
    pushDownTypeHint op (Some t) = (Some t, None) \<and> type_id t \<in> set (results_right op (type_id t)) \<or>
    pushDownTypeHint op (Some t) = (None, None)"
  by (cases op; cases "type_id t"; simp add: operation_dispatch(5) operation_tables(5,10,15,20,25) result_id_compute)

lemma op_push_down:
  assumes "type_wf t" "partialTypeSignatureIsPlausible op (Some t) None None"
    "pushDownTypeHint op (Some t) = (a, b)"
  shows "pred_option type_wf a \<and> pred_option type_wf b \<and> t \<in> result_types (resultTypeForArgumentTypes op) a b"
proof -
  define i where "i = type_id t"
  have i: "i \<in> set (results_any op)" and n: "nullable t"
    using assms(2) by (simp_all add: plausible_any i_def)
  have t: "t = Instance i True" by (rule instance_of_results [OF i assms(1) i_def [symmetric] n])
  note wf = Instance_nullable_wf [of i]
  from push_down_ids [of op t] i t assms(3)
  consider "a = Some t" "b = Some t" "result_id op i i = Some i" | "a = Some t" "b = None" "i \<in> set (results_right op i)"
    | "a = None" "b = None" by auto
  then show ?thesis
  proof cases
    case 1
    then show ?thesis using assms(1) t by (simp add: results_known result_some [OF wf wf])
  next
    case 2
    then show ?thesis using assms(1) t by (simp add: results_unknown_right [OF wf])
  next
    case 3
    then show ?thesis using i t by (simp add: results_unknown)
  qed
qed

lemma op_partial_determined:
  "pred_option type_wf left \<Longrightarrow> pred_option type_wf right \<Longrightarrow> resultTypeForPartialArgumentTypes op left right = Some t \<Longrightarrow>
    result_types (resultTypeForArgumentTypes op) left right = {t}"
  by (simp add: op_partial_iff)

lemma op_can_apply:
  "type_wf l \<Longrightarrow> type_wf r \<Longrightarrow> canApplyToTypes op l r \<longleftrightarrow> resultTypeForArgumentTypes op l r \<noteq> None"
  by (simp add: can_apply_ids result_by_ids)

interpretation operations: binary_operation_types "canApplyToTypes op" "resultTypeForArgumentTypes op"
  "resultTypeForPartialArgumentTypes op" "partialTypeSignatureIsPlausible op" "pushDownTypeHint op" for op
  by (intro binary_operation_types.intro op_can_apply result_types_wf op_partial_determined op_plausible_iff op_push_down)

interpretation add: determined_binary_operation_types "canApplyToTypes kAdd" "resultTypeForArgumentTypes kAdd"
  "resultTypeForPartialArgumentTypes kAdd" "partialTypeSignatureIsPlausible kAdd" "pushDownTypeHint kAdd"
  by unfold_locales (simp add: op_partial_iff)

interpretation subtract: determined_binary_operation_types "canApplyToTypes kSubtract"
  "resultTypeForArgumentTypes kSubtract" "resultTypeForPartialArgumentTypes kSubtract"
  "partialTypeSignatureIsPlausible kSubtract" "pushDownTypeHint kSubtract"
  by unfold_locales (simp add: op_partial_iff)

interpretation multiply: determined_binary_operation_types "canApplyToTypes kMultiply"
  "resultTypeForArgumentTypes kMultiply" "resultTypeForPartialArgumentTypes kMultiply"
  "partialTypeSignatureIsPlausible kMultiply" "pushDownTypeHint kMultiply"
  by unfold_locales (simp add: op_partial_iff)

interpretation divide: determined_binary_operation_types "canApplyToTypes kDivide"
  "resultTypeForArgumentTypes kDivide" "resultTypeForPartialArgumentTypes kDivide"
  "partialTypeSignatureIsPlausible kDivide" "pushDownTypeHint kDivide"
  by unfold_locales (simp add: op_partial_iff)

section \<open>Properties\<close>

text \<open>
  C9: a partial type signature is accepted exactly when some completion of its unknown arguments by
  nullable types gives it the result type asked for.
\<close>

theorem plausible_signatures:
  assumes "pred_option type_wf left" "pred_option type_wf right" "pred_option type_wf res"
  shows "partialTypeSignatureIsPlausible op res left right \<longleftrightarrow>
    (\<exists>l r t. completes left l \<and> completes right r \<and> resultTypeForArgumentTypes op l r = Some t \<and>
      (res = None \<or> res = Some t))"
  using operations.plausible_iff [OF assms, of op] unfolding result_types_def by blast

theorem plausible_signatures_witness:
  "partialTypeSignatureIsPlausible kAdd (Some (Instance kDatetime True)) None (Some (Instance kYearMonthInterval False))"
  using plausible_signatures [of None "Some (Instance kYearMonthInterval False)" "Some (Instance kDatetime True)" kAdd]
  by (simp add: type_wf_def TypeRequiresLengthParameter_def operation_dispatch operation_tables)

text \<open>
  for Add, Subtract, Multiply and Divide a partial signature has a result type exactly when all its
  completions agree on one.
\<close>

theorem partial_results_unambiguous:
  assumes "op \<noteq> kModulo" "pred_option type_wf left" "pred_option type_wf right"
  shows "resultTypeForPartialArgumentTypes op left right = Some t \<longleftrightarrow>
    {u. \<exists>l r. completes left l \<and> completes right r \<and> resultTypeForArgumentTypes op l r = Some u} = {t}"
  using assms(1) add.partial_iff [OF assms(2,3)] subtract.partial_iff [OF assms(2,3)]
    multiply.partial_iff [OF assms(2,3)] divide.partial_iff [OF assms(2,3)]
  unfolding result_types_def by (cases op) simp_all

theorem partial_results_unambiguous_witness:
  "resultTypeForPartialArgumentTypes kSubtract None (Some (Instance kDatetime False)) = Some (Instance kDatetimeInterval True) \<and>
   {u. \<exists>l r. completes None l \<and> completes (Some (Instance kDatetime False)) r \<and>
     resultTypeForArgumentTypes kSubtract l r = Some u} = {Instance kDatetimeInterval True}"
  using partial_results_unambiguous [of kSubtract None "Some (Instance kDatetime False)" "Instance kDatetimeInterval True"]
  by (simp add: type_wf_def TypeRequiresLengthParameter_def operation_dispatch operation_tables GetType_def Instance_def)

text \<open>
  the result type of Modulo is found when it is unambiguous, except for an unknown dividend and a
  \<^verbatim>\<open>Double\<close> divisor, where every completion gives \<^verbatim>\<open>Double\<close> and no result type is reported.
\<close>

theorem modulo_partial_results:
  assumes "pred_option type_wf left" "pred_option type_wf right"
  shows "resultTypeForPartialArgumentTypes kModulo left right = Some t \<longleftrightarrow>
    result_types (resultTypeForArgumentTypes kModulo) left right = {t} \<and>
    \<not> (left = None \<and> right \<in> {Some (Instance kDouble False), Some (Instance kDouble True)})"
proof -
  have "(\<exists>r. right = Some r \<and> type_id r = kDouble) \<longleftrightarrow>
      right \<in> {Some (Instance kDouble False), Some (Instance kDouble True)}"
    using assms(2) Instance_eq [of "the right"]
    by (cases right; cases "nullable (the right)") (auto simp: type_wf_def TypeRequiresLengthParameter_def)
  then show ?thesis using op_partial_iff [OF assms, of kModulo t] by simp
qed

theorem modulo_partial_results_witness:
  "resultTypeForPartialArgumentTypes kModulo None (Some (Instance kDouble False)) = None \<and>
   result_types (resultTypeForArgumentTypes kModulo) None (Some (Instance kDouble False)) = {Instance kDouble True}"
proof -
  have wf: "type_wf (Instance kDouble False)" by (simp add: type_wf_def TypeRequiresLengthParameter_def)
  have r: "result_types (resultTypeForArgumentTypes kModulo) None (Some (Instance kDouble False)) = {Instance kDouble True}"
    by (simp add: results_unknown_left [OF wf] result_id_compute)
  have "resultTypeForPartialArgumentTypes kModulo None (Some (Instance kDouble False)) \<noteq> Some t" for t
    using modulo_partial_results [of None "Some (Instance kDouble False)" t] wf by simp
  then show ?thesis using r by (metis not_None_eq)
qed

text \<open>
  C10: a type hint pushed down for a result type the operation can have leaves that result possible, and
  when both arguments are hinted the operation yields the type asked for.
\<close>

theorem pushed_down_hints:
  assumes "type_wf t" "partialTypeSignatureIsPlausible op (Some t) None None" "pushDownTypeHint op (Some t) = (a, b)"
  shows "partialTypeSignatureIsPlausible op (Some t) a b \<and>
    (\<forall>l r. a = Some l \<longrightarrow> b = Some r \<longrightarrow> canApplyToTypes op l r \<and> resultTypeForArgumentTypes op l r = Some t)"
proof -
  have "resultTypeForArgumentTypes op l r = Some t \<and> canApplyToTypes op l r" if "a = Some l" "b = Some r" for l r
    using operations.push_down_yields [OF assms(1,2), of l r] operations.push_down_possible [OF assms] assms(3) that
    by (simp add: op_can_apply)
  then show ?thesis using operations.push_down_plausible [OF assms(1,2)] assms(3) by simp
qed

theorem pushed_down_hints_witness:
  "partialTypeSignatureIsPlausible kSubtract (Some (Instance kDatetime True)) (Some (Instance kDatetime True)) None"
  using pushed_down_hints [of "Instance kDatetime True" kSubtract "Some (Instance kDatetime True)" None]
  by (simp add: type_wf_def TypeRequiresLengthParameter_def operation_dispatch operation_tables nullability_mismatch_def)

text \<open>
  an operation can be applied to two types exactly when it has a result type for them, which is
  nullable exactly when one of the arguments is; Add and Multiply do not depend on the order of the
  arguments.
\<close>

theorem applicable_operations:
  assumes "type_wf l" "type_wf r"
  shows "(canApplyToTypes op l r \<longleftrightarrow> resultTypeForArgumentTypes op l r \<noteq> None) \<and>
    pred_option (\<lambda>t. type_wf t \<and> (nullable t \<longleftrightarrow> nullable l \<or> nullable r)) (resultTypeForArgumentTypes op l r) \<and>
    resultTypeForArgumentTypes kAdd l r = resultTypeForArgumentTypes kAdd r l \<and>
    resultTypeForArgumentTypes kMultiply l r = resultTypeForArgumentTypes kMultiply r l"
proof -
  have comm: "result_id kAdd (type_id l) (type_id r) = result_id kAdd (type_id r) (type_id l)"
    "result_id kMultiply (type_id l) (type_id r) = result_id kMultiply (type_id r) (type_id l)"
    by (cases "type_id l"; cases "type_id r"; simp add: result_id_def date_result_id_def)+
  have or: "(nullable l \<or> nullable r) = (nullable r \<or> nullable l)" by blast
  have "resultTypeForArgumentTypes kAdd l r = resultTypeForArgumentTypes kAdd r l"
    "resultTypeForArgumentTypes kMultiply l r = resultTypeForArgumentTypes kMultiply r l"
    unfolding result_by_ids [OF assms] result_by_ids [OF assms(2,1)] comm or by (rule refl)+
  then show ?thesis
    using op_can_apply [OF assms, of op] result_types_wf [OF assms, of op]
    by (cases "resultTypeForArgumentTypes op l r") simp_all
qed

theorem applicable_operations_witness:
  "resultTypeForArgumentTypes kMultiply (Instance kInt False) (Instance kDatetimeInterval True) =
     Some (Instance kDatetimeInterval True) \<and>
   resultTypeForArgumentTypes kMultiply (Instance kDatetimeInterval True) (Instance kInt False) =
     Some (Instance kDatetimeInterval True)"
  using applicable_operations [of "Instance kInt False" "Instance kDatetimeInterval True" kMultiply]
  by (simp add: type_wf_def TypeRequiresLengthParameter_def operation_dispatch operation_tables getSuperTypeID_def)

end
