(* ===== verification/DateTimes.thy ===== *)
theory DateTimes
  imports Floats
begin

text \<open>
  Dates, datetimes and intervals: \<^verbatim>\<open>types/DatetimeLit.hpp\<close>, \<^verbatim>\<open>types/IntervalLit.hpp\<close>, the operators of
  \<^verbatim>\<open>types/DateOperatorOverloads.hpp\<close> and the calendar conversion \<^verbatim>\<open>timegmCustom\<close> of
  \<^verbatim>\<open>types/port/timegm.cpp\<close>. The literals are structs of machine integers; an operation whose signed
  arithmetic overflows, or that indexes a table outside its bounds, is \<open>None\<close>.

  The inverse conversion, \<^verbatim>\<open>gmtime_r\<close>, is a function of the C library: a parameter, with the hypothesis
  that the broken-down time it returns is valid and denotes the given second.
\<close>

section \<open>Literals\<close>

datatype DateLit = DateLit (date_year: u32) (date_month: u8) (date_day: u8)

datatype DatetimeLit = DatetimeLit (ticks: u64)

datatype DatetimeIntervalLit = DatetimeIntervalLit (interval_ticks: u64)

datatype YearMonthIntervalLit = YearMonthIntervalLit (months: u64)

definition kTicksPerSecond :: int where
  "kTicksPerSecond = 1000000"

definition DateLit_Create :: "u32 \<Rightarrow> u8 \<Rightarrow> u8 \<Rightarrow> DateLit" where
  "DateLit_Create year month day = DateLit year month day"

definition DateLit_less :: "DateLit \<Rightarrow> DateLit \<Rightarrow> bool" where
  "DateLit_less lhs rhs =
     (if date_year lhs \<noteq> date_year rhs then sint (date_year lhs) < sint (date_year rhs)
      else if date_month lhs \<noteq> date_month rhs then date_month lhs < date_month rhs
      else date_day lhs < date_day rhs)"

definition DateLit_greater :: "DateLit \<Rightarrow> DateLit \<Rightarrow> bool" where
  "DateLit_greater lhs rhs =
     (if date_year lhs \<noteq> date_year rhs then sint (date_year lhs) > sint (date_year rhs)
      else if date_month lhs \<noteq> date_month rhs then date_month lhs > date_month rhs
      else date_day lhs > date_day rhs)"

definition DateLit_less_eq :: "DateLit \<Rightarrow> DateLit \<Rightarrow> bool" where
  "DateLit_less_eq lhs rhs \<longleftrightarrow> \<not> DateLit_greater lhs rhs"

definition DateLit_greater_eq :: "DateLit \<Rightarrow> DateLit \<Rightarrow> bool" where
  "DateLit_greater_eq lhs rhs \<longleftrightarrow> \<not> DateLit_less lhs rhs"

definition DateLit_equal :: "DateLit \<Rightarrow> DateLit \<Rightarrow> bool" where
  "DateLit_equal lhs rhs \<longleftrightarrow>
     date_year lhs = date_year rhs \<and> date_month lhs = date_month rhs \<and> date_day lhs = date_day rhs"

lemma sint_inject: "sint (v :: 'a::len word) = sint w \<longleftrightarrow> v = w"
proof
  assume "sint v = sint w"
  then have "(of_int (sint v) :: 'a word) = of_int (sint w)" by simp
  then show "v = w" by simp
qed simp

instantiation DateLit :: linorder
begin

definition less_DateLit :: "DateLit \<Rightarrow> DateLit \<Rightarrow> bool" where
  "less_DateLit = DateLit_less"

definition less_eq_DateLit :: "DateLit \<Rightarrow> DateLit \<Rightarrow> bool" where
  "less_eq_DateLit = DateLit_less_eq"

instance
  by intro_classes
    (auto simp: less_DateLit_def less_eq_DateLit_def DateLit_less_def DateLit_less_eq_def DateLit_greater_def
      DateLit.expand sint_inject split: if_splits)

end

text \<open>The three one-field literals compare as their fields do.\<close>

instantiation DatetimeLit :: linorder
begin

definition less_DatetimeLit :: "DatetimeLit \<Rightarrow> DatetimeLit \<Rightarrow> bool" where
  "less_DatetimeLit lhs rhs \<longleftrightarrow> sint (ticks lhs) < sint (ticks rhs)"

definition less_eq_DatetimeLit :: "DatetimeLit \<Rightarrow> DatetimeLit \<Rightarrow> bool" where
  "less_eq_DatetimeLit lhs rhs \<longleftrightarrow> sint (ticks lhs) \<le> sint (ticks rhs)"

instance
  by intro_classes (auto simp: less_DatetimeLit_def less_eq_DatetimeLit_def DatetimeLit.expand sint_inject)

end

instantiation DatetimeIntervalLit :: linorder
begin

definition less_DatetimeIntervalLit :: "DatetimeIntervalLit \<Rightarrow> DatetimeIntervalLit \<Rightarrow> bool" where
  "less_DatetimeIntervalLit lhs rhs \<longleftrightarrow> sint (interval_ticks lhs) < sint (interval_ticks rhs)"

definition less_eq_DatetimeIntervalLit :: "DatetimeIntervalLit \<Rightarrow> DatetimeIntervalLit \<Rightarrow> bool" where
  "less_eq_DatetimeIntervalLit lhs rhs \<longleftrightarrow> sint (interval_ticks lhs) \<le> sint (interval_ticks rhs)"

instance
  by intro_classes (auto simp: less_DatetimeIntervalLit_def less_eq_DatetimeIntervalLit_def DatetimeIntervalLit.expand sint_inject)

end

instantiation YearMonthIntervalLit :: linorder
begin

definition less_YearMonthIntervalLit :: "YearMonthIntervalLit \<Rightarrow> YearMonthIntervalLit \<Rightarrow> bool" where
  "less_YearMonthIntervalLit lhs rhs \<longleftrightarrow> sint (months lhs) < sint (months rhs)"

definition less_eq_YearMonthIntervalLit :: "YearMonthIntervalLit \<Rightarrow> YearMonthIntervalLit \<Rightarrow> bool" where
  "less_eq_YearMonthIntervalLit lhs rhs \<longleftrightarrow> sint (months lhs) \<le> sint (months rhs)"

instance
  by intro_classes (auto simp: less_YearMonthIntervalLit_def less_eq_YearMonthIntervalLit_def YearMonthIntervalLit.expand sint_inject)

end

section \<open>Broken-down time\<close>

text \<open>The fields of \<^verbatim>\<open>struct tm\<close> that the code uses; each is a C \<^verbatim>\<open>int\<close>.\<close>

record tm =
  tm_sec :: int
  tm_min :: int
  tm_hour :: int
  tm_mday :: int
  tm_mon :: int
  tm_year :: int

definition kSecondsInMinute :: int where "kSecondsInMinute = 60"
definition kMinutesInHour :: int where "kMinutesInHour = 60"
definition kHoursInDay :: int where "kHoursInDay = 24"
definition kDaysInYear :: int where "kDaysInYear = 365"
definition kSecondsInHour :: int where "kSecondsInHour = kSecondsInMinute * kMinutesInHour"
definition kSecondsInDay :: int where "kSecondsInDay = kSecondsInHour * kHoursInDay"
definition kSecondsInYear :: int where "kSecondsInYear = kDaysInYear * kSecondsInDay"
definition kEpochYearBase :: int where "kEpochYearBase = 1970"
definition kTMYearBase :: int where "kTMYearBase = 1900"

definition kDaysUptoMonth :: "int list" where
  "kDaysUptoMonth =
    [0,
     31,
     31 + 28,
     31 + 28 + 31,
     31 + 28 + 31 + 30,
     31 + 28 + 31 + 30 + 31,
     31 + 28 + 31 + 30 + 31 + 30,
     31 + 28 + 31 + 30 + 31 + 30 + 31,
     31 + 28 + 31 + 30 + 31 + 30 + 31 + 31,
     31 + 28 + 31 + 30 + 31 + 30 + 31 + 31 + 30,
     31 + 28 + 31 + 30 + 31 + 30 + 31 + 31 + 30 + 31,
     31 + 28 + 31 + 30 + 31 + 30 + 31 + 31 + 30 + 31 + 30]"

definition kDaysUptoMonthLeapYear :: "int list" where
  "kDaysUptoMonthLeapYear =
    [0,
     31,
     31 + 29,
     31 + 29 + 31,
     31 + 29 + 31 + 30,
     31 + 29 + 31 + 30 + 31,
     31 + 29 + 31 + 30 + 31 + 30,
     31 + 29 + 31 + 30 + 31 + 30 + 31,
     31 + 29 + 31 + 30 + 31 + 30 + 31 + 31,
     31 + 29 + 31 + 30 + 31 + 30 + 31 + 31 + 30,
     31 + 29 + 31 + 30 + 31 + 30 + 31 + 31 + 30 + 31,
     31 + 29 + 31 + 30 + 31 + 30 + 31 + 31 + 30 + 31 + 30]"

definition IsLeapYear :: "int \<Rightarrow> bool" where
  "IsLeapYear year =
     (let common_year = year AND 3 \<noteq> 0 \<or>
            ((year + kTMYearBase) smod 100 = 0 \<and> (year + kTMYearBase) smod 400 \<noteq> 0)
      in \<not> common_year)"

definition kPosBase4 :: int where "kPosBase4 = (kEpochYearBase + 3) smod 4"
definition kPosBase100 :: int where "kPosBase100 = (kEpochYearBase + 99) smod 100"
definition kPosBase400 :: int where "kPosBase400 = (kEpochYearBase + 399) smod 400"
definition kNegBase4 :: int where "kNegBase4 = 4 - kEpochYearBase smod 4"
definition kNegBase100 :: int where "kNegBase100 = 100 - kEpochYearBase smod 100"
definition kNegBase400 :: int where "kNegBase400 = 400 - kEpochYearBase smod 400"

definition NumLeapDays :: "int \<Rightarrow> int" where
  "NumLeapDays year =
     (if 0 \<le> year
      then (year + kPosBase4) sdiv 4 - (year + kPosBase100) sdiv 100 + (year + kPosBase400) sdiv 400
      else (year - kNegBase4) sdiv 4 - (year - kNegBase100) sdiv 100 + (year - kNegBase400) sdiv 400)"

text \<open>
  An access outside the twelve entries of a table is undefined behaviour. The arithmetic itself stays far
  inside 64 bits for any \<^verbatim>\<open>tm_year\<close> of 32 bits. The fields of \<^verbatim>\<open>struct tm\<close>, \<open>int\<close>s of 32 bits in the code, are
  integers here; what stores into them (\<open>month_arithmetic\<close>) says for which arguments they fit.
\<close>

definition table_entry :: "int list \<Rightarrow> int \<Rightarrow> int option" where
  "table_entry table i = (if 0 \<le> i \<and> i < int (length table) then Some (table ! nat i) else None)"

definition timegmCustom :: "tm \<Rightarrow> int option" where
  "timegmCustom tm =
     (let years_since_epoch = tm_year tm + kTMYearBase - kEpochYearBase;
          time = years_since_epoch * kSecondsInYear + NumLeapDays years_since_epoch * kSecondsInDay
      in do {
        days \<leftarrow> table_entry (if IsLeapYear (tm_year tm) then kDaysUptoMonthLeapYear else kDaysUptoMonth) (tm_mon tm);
        Some (time + days * kSecondsInDay +
          ((tm_mday tm - 1) * kSecondsInDay + tm_hour tm * kSecondsInHour +
           tm_min tm * kSecondsInMinute + tm_sec tm))
      })"

definition ClampDayOfMonth :: "tm \<Rightarrow> tm" where
  "ClampDayOfMonth timeinfo =
     (if tm_mon timeinfo = 1 then
        (let days_in_february =
               (if tm_year timeinfo AND 3 = 0 \<and>
                   (tm_year timeinfo smod 25 \<noteq> 0 \<or> (tm_year timeinfo + 1900) AND 15 = 0)
                then 29 else 28)
         in timeinfo\<lparr>tm_mday := (if tm_mday timeinfo > days_in_february then days_in_february else tm_mday timeinfo)\<rparr>)
      else if tm_mon timeinfo \<in> {3, 5, 8, 10} then
        timeinfo\<lparr>tm_mday := (if tm_mday timeinfo = 31 then 30 else tm_mday timeinfo)\<rparr>
      else timeinfo)"

section \<open>Operations on literals\<close>

definition FromEpochTime :: "int \<Rightarrow> DatetimeLit option" where
  "FromEpochTime t = map_option DatetimeLit (checked64 (t * kTicksPerSecond))"

definition FromEpochTimePlusSubseconds :: "int \<Rightarrow> int \<Rightarrow> DatetimeLit option" where
  "FromEpochTimePlusSubseconds t subsecs = do {
     w \<leftarrow> checked64 (t * kTicksPerSecond);
     map_option DatetimeLit (checked64 (sint w + subsecs))
   }"

definition epochTime :: "DatetimeLit \<Rightarrow> int" where
  "epochTime d = sint (ticks d) sdiv kTicksPerSecond"

definition subseconds :: "DatetimeLit \<Rightarrow> int" where
  "subseconds d = sint (ticks d) smod kTicksPerSecond"

definition yearField :: "(int \<Rightarrow> tm) \<Rightarrow> DatetimeLit \<Rightarrow> int" where
  "yearField gmtime d = tm_year (gmtime (epochTime d)) + 1900"

definition monthField :: "(int \<Rightarrow> tm) \<Rightarrow> DatetimeLit \<Rightarrow> int" where
  "monthField gmtime d = tm_mon (gmtime (epochTime d)) + 1"

definition dayField :: "(int \<Rightarrow> tm) \<Rightarrow> DatetimeLit \<Rightarrow> int" where
  "dayField gmtime d = tm_mday (gmtime (epochTime d))"

definition hourField :: "(int \<Rightarrow> tm) \<Rightarrow> DatetimeLit \<Rightarrow> int" where
  "hourField gmtime d = tm_hour (gmtime (epochTime d))"

definition minuteField :: "(int \<Rightarrow> tm) \<Rightarrow> DatetimeLit \<Rightarrow> int" where
  "minuteField gmtime d = tm_min (gmtime (epochTime d))"

definition secondField :: "(int \<Rightarrow> tm) \<Rightarrow> DatetimeLit \<Rightarrow> int" where
  "secondField gmtime d = tm_sec (gmtime (epochTime d))"

definition DatetimeIntervalLit_seconds :: "DatetimeIntervalLit \<Rightarrow> int" where
  "DatetimeIntervalLit_seconds i = sint (interval_ticks i) sdiv kTicksPerSecond"

definition DatetimeIntervalLit_subseconds :: "DatetimeIntervalLit \<Rightarrow> int" where
  "DatetimeIntervalLit_subseconds i = sint (interval_ticks i) smod kTicksPerSecond"

text \<open>Datetimes and datetime intervals.\<close>

definition datetime_plus_interval :: "DatetimeLit \<Rightarrow> DatetimeIntervalLit \<Rightarrow> DatetimeLit option" where
  "datetime_plus_interval lhs rhs =
     map_option DatetimeLit (checked64 (sint (ticks lhs) + sint (interval_ticks rhs)))"

definition interval_plus_datetime :: "DatetimeIntervalLit \<Rightarrow> DatetimeLit \<Rightarrow> DatetimeLit option" where
  "interval_plus_datetime lhs rhs =
     map_option DatetimeLit (checked64 (sint (interval_ticks lhs) + sint (ticks rhs)))"

definition datetime_minus_datetime :: "DatetimeLit \<Rightarrow> DatetimeLit \<Rightarrow> DatetimeIntervalLit option" where
  "datetime_minus_datetime lhs rhs =
     map_option DatetimeIntervalLit (checked64 (sint (ticks lhs) - sint (ticks rhs)))"

definition datetime_minus_interval :: "DatetimeLit \<Rightarrow> DatetimeIntervalLit \<Rightarrow> DatetimeLit option" where
  "datetime_minus_interval lhs rhs =
     map_option DatetimeLit (checked64 (sint (ticks lhs) - sint (interval_ticks rhs)))"

text \<open>
  Month arithmetic. The quotient and the remainder of the months truncate towards zero; the sums are
  computed in 64 bits and narrowed to the \<^verbatim>\<open>int\<close> fields, the increments are done in \<^verbatim>\<open>int\<close>.
\<close>

definition datetime_plus_yearmonth ::
  "(int \<Rightarrow> tm) \<Rightarrow> DatetimeLit \<Rightarrow> YearMonthIntervalLit \<Rightarrow> DatetimeLit option" where
  "datetime_plus_yearmonth gmtime lhs rhs =
     (let timeinfo = gmtime (epochTime lhs);
          year = narrow32 (tm_year timeinfo + sint (months rhs) sdiv 12);
          mon = narrow32 (tm_mon timeinfo + sint (months rhs) smod 12)
      in do {
        timeinfo \<leftarrow>
          (if mon > 11
           then map_option (\<lambda>y. timeinfo\<lparr>tm_mon := mon - 12, tm_year := sint y\<rparr>) (checked32 (year + 1))
           else Some (timeinfo\<lparr>tm_mon := mon, tm_year := year\<rparr>));
        t \<leftarrow> timegmCustom (ClampDayOfMonth timeinfo);
        datetime \<leftarrow> FromEpochTime t;
        map_option DatetimeLit (checked64 (sint (ticks datetime) + subseconds lhs))
      })"

definition yearmonth_plus_datetime ::
  "(int \<Rightarrow> tm) \<Rightarrow> YearMonthIntervalLit \<Rightarrow> DatetimeLit \<Rightarrow> DatetimeLit option" where
  "yearmonth_plus_datetime gmtime lhs rhs = datetime_plus_yearmonth gmtime rhs lhs"

definition datetime_minus_yearmonth ::
  "(int \<Rightarrow> tm) \<Rightarrow> DatetimeLit \<Rightarrow> YearMonthIntervalLit \<Rightarrow> DatetimeLit option" where
  "datetime_minus_yearmonth gmtime lhs rhs =
     (let timeinfo = gmtime (epochTime lhs);
          year = narrow32 (tm_year timeinfo - sint (months rhs) sdiv 12);
          mon = narrow32 (tm_mon timeinfo - sint (months rhs) smod 12)
      in do {
        timeinfo \<leftarrow>
          (if mon < 0
           then map_option (\<lambda>y. timeinfo\<lparr>tm_mon := mon + 12, tm_year := sint y\<rparr>) (checked32 (year - 1))
           else Some (timeinfo\<lparr>tm_mon := mon, tm_year := year\<rparr>));
        t \<leftarrow> timegmCustom (ClampDayOfMonth timeinfo);
        datetime \<leftarrow> FromEpochTime t;
        map_option DatetimeLit (checked64 (sint (ticks datetime) + subseconds lhs))
      })"

text \<open>
  Arithmetic of intervals on their 64-bit field: with each other, and with a number of any of the four
  numeric types, where C++ converts the field to the type of the number if that is a floating-point type,
  and the result back.
\<close>

datatype numeric_lit = IntLit u32 | LongLit u64 | FloatLit u32 | DoubleLit u64

fun multiply_field :: "u64 \<Rightarrow> numeric_lit \<Rightarrow> u64 option" where
  "multiply_field field (IntLit rhs) = checked64 (sint field * sint rhs)"
| "multiply_field field (LongLit rhs) = checked64 (sint field * sint rhs)"
| "multiply_field field (FloatLit rhs) =
     to_i64 (f32 (to_f32 (fp_mul (f32 (to_f32 (fp_of_int (sint field)))) (f32 rhs))))"
| "multiply_field field (DoubleLit rhs) =
     to_i64 (f64 (to_f64 (fp_mul (f64 (to_f64 (fp_of_int (sint field)))) (f64 rhs))))"

fun divide_field :: "u64 \<Rightarrow> numeric_lit \<Rightarrow> u64 option" where
  "divide_field field (IntLit rhs) = (if rhs = 0 then None else checked64 (sint field sdiv sint rhs))"
| "divide_field field (LongLit rhs) = (if rhs = 0 then None else checked64 (sint field sdiv sint rhs))"
| "divide_field field (FloatLit rhs) =
     to_i64 (f32 (to_f32 (fp_div (f32 (to_f32 (fp_of_int (sint field)))) (f32 rhs))))"
| "divide_field field (DoubleLit rhs) =
     to_i64 (f64 (to_f64 (fp_div (f64 (to_f64 (fp_of_int (sint field)))) (f64 rhs))))"

definition interval_plus :: "DatetimeIntervalLit \<Rightarrow> DatetimeIntervalLit \<Rightarrow> DatetimeIntervalLit option" where
  "interval_plus lhs rhs =
     map_option DatetimeIntervalLit (checked64 (sint (interval_ticks lhs) + sint (interval_ticks rhs)))"

definition interval_minus :: "DatetimeIntervalLit \<Rightarrow> DatetimeIntervalLit \<Rightarrow> DatetimeIntervalLit option" where
  "interval_minus lhs rhs =
     map_option DatetimeIntervalLit (checked64 (sint (interval_ticks lhs) - sint (interval_ticks rhs)))"

definition interval_negate :: "DatetimeIntervalLit \<Rightarrow> DatetimeIntervalLit option" where
  "interval_negate i = map_option DatetimeIntervalLit (checked64 (- sint (interval_ticks i)))"

definition interval_times :: "DatetimeIntervalLit \<Rightarrow> numeric_lit \<Rightarrow> DatetimeIntervalLit option" where
  "interval_times lhs rhs = map_option DatetimeIntervalLit (multiply_field (interval_ticks lhs) rhs)"

definition times_interval :: "numeric_lit \<Rightarrow> DatetimeIntervalLit \<Rightarrow> DatetimeIntervalLit option" where
  "times_interval lhs rhs = map_option DatetimeIntervalLit (multiply_field (interval_ticks rhs) lhs)"

definition interval_divide :: "DatetimeIntervalLit \<Rightarrow> numeric_lit \<Rightarrow> DatetimeIntervalLit option" where
  "interval_divide lhs rhs = map_option DatetimeIntervalLit (divide_field (interval_ticks lhs) rhs)"

definition yearmonth_plus :: "YearMonthIntervalLit \<Rightarrow> YearMonthIntervalLit \<Rightarrow> YearMonthIntervalLit option" where
  "yearmonth_plus lhs rhs = map_option YearMonthIntervalLit (checked64 (sint (months lhs) + sint (months rhs)))"

definition yearmonth_minus :: "YearMonthIntervalLit \<Rightarrow> YearMonthIntervalLit \<Rightarrow> YearMonthIntervalLit option" where
  "yearmonth_minus lhs rhs = map_option YearMonthIntervalLit (checked64 (sint (months lhs) - sint (months rhs)))"

definition yearmonth_negate :: "YearMonthIntervalLit \<Rightarrow> YearMonthIntervalLit option" where
  "yearmonth_negate i = map_option YearMonthIntervalLit (checked64 (- sint (months i)))"

definition yearmonth_times :: "YearMonthIntervalLit \<Rightarrow> numeric_lit \<Rightarrow> YearMonthIntervalLit option" where
  "yearmonth_times lhs rhs = map_option YearMonthIntervalLit (multiply_field (months lhs) rhs)"

definition times_yearmonth :: "numeric_lit \<Rightarrow> YearMonthIntervalLit \<Rightarrow> YearMonthIntervalLit option" where
  "times_yearmonth lhs rhs = map_option YearMonthIntervalLit (multiply_field (months rhs) lhs)"

definition yearmonth_divide :: "YearMonthIntervalLit \<Rightarrow> numeric_lit \<Rightarrow> YearMonthIntervalLit option" where
  "yearmonth_divide lhs rhs = map_option YearMonthIntervalLit (divide_field (months lhs) rhs)"

section \<open>The proleptic Gregorian calendar\<close>

definition leap :: "int \<Rightarrow> bool" where
  "leap y \<longleftrightarrow> y mod 4 = 0 \<and> (y mod 100 \<noteq> 0 \<or> y mod 400 = 0)"

definition year_days :: "int \<Rightarrow> int" where
  "year_days y = (if leap y then 366 else 365)"

definition month_days :: "int \<Rightarrow> nat \<Rightarrow> int" where
  "month_days y m = (if m = 1 then (if leap y then 29 else 28) else if m \<in> {3, 5, 8, 10} then 30 else 31)"

text \<open>Days from the start of 1970 to the start of a year, and from the start of a year to that of a month.\<close>

definition days_before_year :: "int \<Rightarrow> int" where
  "days_before_year y = (\<Sum>i \<in> {1970..<y}. year_days i) - (\<Sum>i \<in> {y..<1970}. year_days i)"

definition days_before_month :: "int \<Rightarrow> nat \<Rightarrow> int" where
  "days_before_month y m = (\<Sum>i < m. month_days y i)"

definition civil_seconds :: "int \<Rightarrow> nat \<Rightarrow> int \<Rightarrow> int \<Rightarrow> int \<Rightarrow> int \<Rightarrow> int" where
  "civil_seconds y m d hour minute second =
     (((days_before_year y + days_before_month y m + (d - 1)) * 24 + hour) * 60 + minute) * 60 + second"

definition tm_seconds :: "tm \<Rightarrow> int" where
  "tm_seconds tm = civil_seconds (tm_year tm + 1900) (nat (tm_mon tm)) (tm_mday tm) (tm_hour tm) (tm_min tm) (tm_sec tm)"

definition valid_tm :: "tm \<Rightarrow> bool" where
  "valid_tm tm \<longleftrightarrow> 0 \<le> tm_mon tm \<and> tm_mon tm < 12 \<and>
     1 \<le> tm_mday tm \<and> tm_mday tm \<le> month_days (tm_year tm + 1900) (nat (tm_mon tm)) \<and>
     0 \<le> tm_hour tm \<and> tm_hour tm < 24 \<and> 0 \<le> tm_min tm \<and> tm_min tm < 60 \<and> 0 \<le> tm_sec tm \<and> tm_sec tm < 60"

text \<open>What the C library documents of \<^verbatim>\<open>gmtime_r\<close> for a time \<open>t\<close>.\<close>

definition is_gmtime :: "int \<Rightarrow> tm \<Rightarrow> bool" where
  "is_gmtime t tm \<longleftrightarrow> valid_tm tm \<and> tm_seconds tm = t"

section \<open>Leap years\<close>

lemma and_3: "(x :: int) AND 3 = x mod 4"
  using take_bit_eq_mask [of 2 x] by (simp add: take_bit_eq_mod mask_eq_exp_minus_1)

lemma and_15: "(x :: int) AND 15 = x mod 16"
  using take_bit_eq_mask [of 4 x] by (simp add: take_bit_eq_mod mask_eq_exp_minus_1)

lemma smod_eq_0: "(x :: int) smod n = 0 \<longleftrightarrow> n dvd x"
  by (cases "x = 0") (simp_all add: smod_int_alt_def sgn_0_0 dvd_eq_mod_eq_0 [symmetric])

lemma sdiv_floor:
  assumes "0 < (n :: int)"
  shows "x sdiv n = (if 0 \<le> x then x div n else (x + n - 1) div n)"
proof (cases "0 \<le> x")
  case False
  have e: "x + n - 1 = n * (- ((- x) div n)) + (n - 1 - (- x) mod n)"
    using mult_div_mod_eq [of n "- x"] by (simp only: mult_minus_right)
  have "(x + n - 1) div n = - ((- x) div n)"
    by (rule int_div_pos_eq [OF e])
      (use assms pos_mod_bound [of n "- x"] pos_mod_sign [of n "- x"] in linarith)+
  then show ?thesis using assms False by (simp add: signed_divide_int_def sgn_if)
next
  case True
  then show ?thesis using assms by (cases "x = 0") (simp_all add: signed_divide_int_def sgn_if)
qed

lemmas year_constants = kSecondsInMinute_def kMinutesInHour_def kHoursInDay_def kDaysInYear_def kSecondsInHour_def
  kSecondsInDay_def kSecondsInYear_def kEpochYearBase_def kTMYearBase_def kPosBase4_def kPosBase100_def
  kPosBase400_def kNegBase4_def kNegBase100_def kNegBase400_def

lemma IsLeapYear_leap: "IsLeapYear year \<longleftrightarrow> leap (year + 1900)"
proof -
  have "(year mod 4 = 0) = ((year + 1900) mod 4 = 0)" by presburger
  then show ?thesis
    by (simp add: IsLeapYear_def leap_def and_3 smod_eq_0 dvd_eq_mod_eq_0 kTMYearBase_def)
qed

lemma clamp_leap:
  "year AND 3 = 0 \<and> (year smod 25 \<noteq> 0 \<or> (year + 1900) AND 15 = 0) \<longleftrightarrow> leap (year + 1900)"
proof -
  have 1: "(year mod 4 = 0) = ((year + 1900) mod 4 = 0)" by presburger
  have 2: "(25 dvd year) = ((year + 1900) mod 100 = 0)" if "year mod 4 = 0" using that by presburger
  have 3: "(year + 1900) mod 16 = 0 \<longleftrightarrow> (year + 1900) mod 400 = 0" if "(year + 1900) mod 100 = 0"
    using that by presburger
  show ?thesis using 1 2 3 by (auto simp: leap_def and_3 and_15 smod_eq_0)
qed

lemma NumLeapDays_floor: "NumLeapDays k = (k + 1) div 4 - (k + 69) div 100 + (k + 369) div 400"
proof (cases "0 \<le> k")
  case True
  then show ?thesis by (simp add: NumLeapDays_def year_constants sdiv_floor)
next
  case False
  then have "k - 2 < 0" "k - 30 < 0" by simp_all
  then show ?thesis using False by (simp add: NumLeapDays_def year_constants sdiv_floor add.commute)
qed

lemma div_step: "0 < (n :: int) \<Longrightarrow> (x + 1) div n - x div n = (if (x + 1) mod n = 0 then 1 else 0)"
proof -
  assume n: "0 < n"
  define q r where "q = x div n" "r = x mod n"
  have x: "x = n * q + r" "0 \<le> r" "r < n" using n by (simp_all add: q_r_def)
  show ?thesis
  proof (cases "r = n - 1")
    case True
    then have "x + 1 = n * (q + 1)" using x(1) by (simp add: algebra_simps)
    then have "(x + 1) div n = q + 1" "(x + 1) mod n = 0" using n by simp_all
    then show ?thesis by (simp add: q_r_def(1) [symmetric])
  next
    case False
    then have r: "x + 1 = n * q + (r + 1)" "0 \<le> r + 1" "r + 1 < n"
      using x(1) by (simp only: add.assoc, use x(2) in linarith, use x(3) False in linarith)
    have "(x + 1) div n = q" "(x + 1) mod n = r + 1"
      by (rule int_div_pos_eq [OF r], rule int_mod_pos_eq [OF r])
    then show ?thesis using x(2) by (simp add: q_r_def(1) [symmetric])
  qed
qed

lemma leap_indicator:
  "(C \<Longrightarrow> B) \<Longrightarrow> (B \<Longrightarrow> A) \<Longrightarrow>
    (if A then 1 else 0) - (if B then 1 else 0) + (if C then 1 else 0) = (if A \<and> (\<not> B \<or> C) then 1 else (0 :: int))"
  by auto

lemma NumLeapDays_step: "NumLeapDays (k + 1) - NumLeapDays k = (if leap (k + 1970) then 1 else 0)"
proof -
  have m: "(k + 2) mod 4 = (k + 1970) mod 4" "(k + 70) mod 100 = (k + 1970) mod 100"
    "(k + 370) mod 400 = (k + 1970) mod 400"
    using mod_mult_self2 [of "k + 2" 4 492] mod_mult_self2 [of "k + 70" 100 19] mod_mult_self2 [of "k + 370" 400 4]
    by (simp_all add: add.commute)
  have i: "(k + 1970) mod 100 = 0 \<Longrightarrow> (k + 1970) mod 4 = 0" "(k + 1970) mod 400 = 0 \<Longrightarrow> (k + 1970) mod 100 = 0"
    using dvd_trans [of 4 100 "k + 1970"] dvd_trans [of 100 400 "k + 1970"] by (simp_all add: dvd_eq_mod_eq_0)
  have "NumLeapDays (k + 1) - NumLeapDays k =
      ((k + 1 + 1) div 4 - (k + 1) div 4) - ((k + 69 + 1) div 100 - (k + 69) div 100) +
      ((k + 369 + 1) div 400 - (k + 369) div 400)"
    by (simp add: NumLeapDays_floor algebra_simps)
  also have "\<dots> = (if (k + 1 + 1) mod 4 = 0 then 1 else 0) - (if (k + 69 + 1) mod 100 = 0 then 1 else 0) +
      (if (k + 369 + 1) mod 400 = 0 then 1 else 0)"
    by (simp only: div_step zero_less_numeral)
  also have "\<dots> = (if (k + 2) mod 4 = 0 then 1 else 0) - (if (k + 70) mod 100 = 0 then 1 else 0) +
      (if (k + 370) mod 400 = 0 then 1 else 0)"
    by (simp only: add.assoc one_add_one add_num_simps numeral_plus_one)
  also have "\<dots> = (if leap (k + 1970) then 1 else 0)"
    unfolding m leap_def by (rule leap_indicator) (erule i)+
  finally show ?thesis .
qed

section \<open>From broken-down time to seconds\<close>

lemma days_before_year_step: "days_before_year (y + 1) = days_before_year y + year_days y"
proof (cases "1970 \<le> y")
  case True
  then have "{1970..<y + 1} = insert y {1970..<y}" "{y + 1..<1970} = {}" "{y..<1970} = {}" by auto
  then show ?thesis by (simp add: days_before_year_def)
next
  case False
  then have "{y..<1970} = insert y {y + 1..<1970}" "{1970..<y + 1} = {}" "{1970..<y} = {}" by auto
  then show ?thesis by (simp add: days_before_year_def)
qed

lemma days_before_1970: "days_before_year 1970 = 0"
  by (simp add: days_before_year_def)

lemma days_before_year_closed: "days_before_year (k + 1970) = k * 365 + NumLeapDays k"
proof (induction k rule: int_induct [of _ 0])
  case base
  show ?case by (simp add: days_before_1970 NumLeapDays_floor)
next
  case (step1 i)
  have "days_before_year (i + 1 + 1970) = days_before_year (i + 1970) + year_days (i + 1970)"
    using days_before_year_step [of "i + 1970"] by (simp only: ac_simps)
  then show ?case using step1 NumLeapDays_step [of i] by (simp add: year_days_def algebra_simps split: if_splits)
next
  case (step2 i)
  have "days_before_year (i + 1970) = days_before_year (i - 1 + 1970) + year_days (i - 1 + 1970)"
    using days_before_year_step [of "i - 1 + 1970"] by (simp add: algebra_simps)
  then show ?case using step2 NumLeapDays_step [of "i - 1"] by (simp add: year_days_def algebra_simps split: if_splits)
qed

lemma months_below_12: "0 \<le> m \<Longrightarrow> m < 12 \<Longrightarrow> m \<in> {0, 1, 2, 3, 4, 5, 6, 7, 8, 9, 10, 11 :: int}"
  by simp presburger

lemma month_tables:
  assumes "0 \<le> m" "m < 12"
  shows "table_entry (if leap y then kDaysUptoMonthLeapYear else kDaysUptoMonth) m = Some (days_before_month y (nat m))"
  using months_below_12 [OF assms]
  by (elim insertE emptyE; simp add: table_entry_def kDaysUptoMonthLeapYear_def kDaysUptoMonth_def days_before_month_def
      month_days_def lessThan_Suc eval_nat_numeral)

lemma timegm_seconds:
  assumes "0 \<le> tm_mon t" "tm_mon t < 12"
  shows "timegmCustom t = Some (tm_seconds t)"
proof -
  have "days_before_year (tm_year t + 1900) = (tm_year t + 1900 - 1970) * 365 + NumLeapDays (tm_year t + 1900 - 1970)"
    using days_before_year_closed [of "tm_year t + 1900 - 1970"] by (simp add: add.commute)
  then show ?thesis
    using month_tables [OF assms, of "tm_year t + 1900"]
    by (simp add: timegmCustom_def tm_seconds_def civil_seconds_def IsLeapYear_leap year_constants algebra_simps)
qed

lemma timegm_none:
  assumes "tm_mon t < 0 \<or> 12 \<le> tm_mon t"
  shows "timegmCustom t = None"
  using assms by (auto simp: timegmCustom_def table_entry_def kDaysUptoMonthLeapYear_def kDaysUptoMonth_def)

section \<open>Month arithmetic\<close>

text \<open>
  The calendar month \<open>k\<close> months away, the day cut to the length of that month, and the datetime it
  denotes.
\<close>

definition add_months :: "tm \<Rightarrow> int \<Rightarrow> tm" where
  "add_months t k =
     (let n = 12 * tm_year t + tm_mon t + k; y = n div 12; m = n mod 12
      in t\<lparr>tm_year := y, tm_mon := m, tm_mday := min (tm_mday t) (month_days (y + 1900) (nat m))\<rparr>)"

definition datetime_of :: "tm \<Rightarrow> int \<Rightarrow> DatetimeLit option" where
  "datetime_of t subsecs = do {
     w \<leftarrow> checked64 (tm_seconds t * kTicksPerSecond);
     map_option DatetimeLit (checked64 (tm_seconds t * kTicksPerSecond + subsecs))
   }"

lemma month_days_bounds: "28 \<le> month_days y m" "month_days y m \<le> 31"
  by (auto simp: month_days_def)

lemma ClampDayOfMonth_min:
  assumes "0 \<le> tm_mon t" "tm_mon t < 12" "tm_mday t \<le> 31"
  shows "ClampDayOfMonth t = t\<lparr>tm_mday := min (tm_mday t) (month_days (tm_year t + 1900) (nat (tm_mon t)))\<rparr>"
proof -
  have m: "nat (tm_mon t) = 1 \<longleftrightarrow> tm_mon t = 1" "nat (tm_mon t) = 3 \<longleftrightarrow> tm_mon t = 3" "nat (tm_mon t) = 5 \<longleftrightarrow> tm_mon t = 5"
    "nat (tm_mon t) = 8 \<longleftrightarrow> tm_mon t = 8" "nat (tm_mon t) = 10 \<longleftrightarrow> tm_mon t = 10"
    using assms(1) by linarith+
  have same: "t\<lparr>tm_mday := tm_mday t\<rparr> = t" by simp
  show ?thesis
    using assms(3) unfolding ClampDayOfMonth_def clamp_leap month_days_def Let_def
    by (auto simp: m min_def)
qed

lemma add_months_valid:
  assumes "valid_tm t"
  shows "valid_tm (add_months t k)"
proof -
  define n where "n = 12 * tm_year t + tm_mon t + k"
  have "0 \<le> n mod 12" "n mod 12 < 12" by simp_all
  then show ?thesis
    using assms month_days_bounds [of "n div 12 + 1900" "nat (n mod 12)"]
    by (simp add: valid_tm_def add_months_def Let_def n_def [symmetric])
qed

lemma days_before_year_bounds:
  "0 \<le> k \<Longrightarrow> 365 * k \<le> days_before_year (k + 1970)"
  "k \<le> 0 \<Longrightarrow> days_before_year (k + 1970) \<le> 365 * k"
proof -
  have step: "365 \<le> year_days y" for y by (simp add: year_days_def)
  show "365 * k \<le> days_before_year (k + 1970)" if "0 \<le> k"
    using that
  proof (induction k rule: int_ge_induct)
    case (step i)
    then show ?case using days_before_year_step [of "i + 1970"] \<open>\<And>y. 365 \<le> year_days y\<close> [of "i + 1970"]
      by (simp add: algebra_simps)
  qed (simp add: days_before_1970)
  show "days_before_year (k + 1970) \<le> 365 * k" if "k \<le> 0"
    using that
  proof (induction k rule: int_le_induct)
    case (step i)
    have "days_before_year (i + 1970) = days_before_year (i - 1 + 1970) + year_days (i - 1 + 1970)"
      using days_before_year_step [of "i - 1 + 1970"] by (simp add: algebra_simps)
    then show ?case using step \<open>\<And>y. 365 \<le> year_days y\<close> [of "i - 1 + 1970"] by simp
  qed (simp add: days_before_1970)
qed

lemma days_before_month_bounds:
  assumes "0 \<le> m" "m < 12"
  shows "0 \<le> days_before_month y (nat m)" "days_before_month y (nat m) \<le> 335"
  using months_below_12 [OF assms]
  by (elim insertE emptyE; simp add: days_before_month_def month_days_def lessThan_Suc eval_nat_numeral)+

text \<open>A second count of 64-bit ticks is in a year of at most six digits.\<close>

lemma gmtime_year_bound:
  assumes "is_gmtime (epochTime d) t"
  shows "\<bar>tm_year t\<bar> \<le> 2 ^ 20"
proof -
  define k where "k = tm_year t - 70"
  define b where "b = days_before_month (tm_year t + 1900) (nat (tm_mon t)) + (tm_mday t - 1)"
  define h where "h = (tm_hour t * 60 + tm_min t) * 60 + tm_sec t"
  have t: "epochTime d = (days_before_year (k + 1970) + b) * 86400 + h"
    using assms by (simp add: is_gmtime_def tm_seconds_def civil_seconds_def k_def b_def h_def algebra_simps)
  have v: "valid_tm t" using assms by (simp add: is_gmtime_def)
  have b: "0 \<le> b" "b \<le> 365"
    using v days_before_month_bounds [of "tm_mon t" "tm_year t + 1900"]
      month_days_bounds [of "tm_year t + 1900" "nat (tm_mon t)"]
    by (simp_all add: valid_tm_def b_def)
  have h: "0 \<le> h" "h < 86400" using v by (simp_all add: valid_tm_def h_def)
  have e: "\<bar>epochTime d\<bar> \<le> 9223372036855"
    using sint64_bounds [of "ticks d"] by (auto simp: epochTime_def kTicksPerSecond_def sdiv_floor)
  have "k \<le> 2 ^ 19"
  proof (cases "0 \<le> k")
    case True
    then show ?thesis using days_before_year_bounds(1) [of k] t b h e by simp
  qed simp
  moreover have "- (2 ^ 19) \<le> k"
  proof (cases "k \<le> 0")
    case True
    then show ?thesis using days_before_year_bounds(2) [of k] t b h e by simp
  qed simp
  ultimately show ?thesis by (simp add: k_def)
qed

lemma sdiv_smod_12:
  fixes k :: int
  shows "12 * (k sdiv 12) + k smod 12 = k" "- 12 < k smod 12" "k smod 12 < 12"
  using mult_sdiv_smod_eq [of 12 k] smod_int_range [of 12 k] by simp_all

lemma to_datetime:
  assumes "0 \<le> tm_mon t" "tm_mon t < 12"
  shows "do {
      s \<leftarrow> timegmCustom t;
      datetime \<leftarrow> FromEpochTime s;
      map_option DatetimeLit (checked64 (sint (ticks datetime) + subsecs))
    } = datetime_of t subsecs"
proof (cases "checked64 (tm_seconds t * kTicksPerSecond)")
  case (Some w)
  then have "sint w = tm_seconds t * kTicksPerSecond" by (simp only: checked64_sint)
  with Some show ?thesis by (simp add: timegm_seconds [OF assms] datetime_of_def FromEpochTime_def)
qed (simp add: timegm_seconds [OF assms] datetime_of_def FromEpochTime_def)

lemma checked32_fits:
  assumes "- (2 ^ 31) \<le> x" "x < 2 ^ 31"
  obtains w where "checked32 x = Some w" "sint w = x"
  using assms that [of "word_of_int x"] by (simp only: checked32_def sint_of_int32 simp_thms if_True)

lemma out_of_table:
  assumes "tm_mon t < 0 \<or> 12 \<le> tm_mon t"
  shows "timegmCustom (ClampDayOfMonth t) = None"
proof (rule timegm_none)
  show "tm_mon (ClampDayOfMonth t) < 0 \<or> 12 \<le> tm_mon (ClampDayOfMonth t)"
    using assms by (auto simp: ClampDayOfMonth_def Let_def)
qed

lemma split_months:
  fixes y m :: int
  assumes "0 \<le> m" "m < 12"
  shows "(12 * y + m) div 12 = y" "(12 * y + m) mod 12 = m"
  using assms by (auto intro: int_div_pos_eq int_mod_pos_eq)

lemma add_months_split:
  assumes "0 \<le> m" "m < 12" "12 * y + m = 12 * tm_year t + tm_mon t + k" "valid_tm t"
  shows "ClampDayOfMonth (t\<lparr>tm_mon := m, tm_year := y\<rparr>) = add_months t k"
proof -
  have "tm_mday t \<le> 31" using assms(4) month_days_bounds(2) [of "tm_year t + 1900" "nat (tm_mon t)"]
    by (simp add: valid_tm_def)
  then have "ClampDayOfMonth (t\<lparr>tm_mon := m, tm_year := y\<rparr>) =
      t\<lparr>tm_mon := m, tm_year := y, tm_mday := min (tm_mday t) (month_days (y + 1900) (nat m))\<rparr>"
    using assms(1,2) by (subst ClampDayOfMonth_min) simp_all
  then show ?thesis
    using split_months [OF assms(1,2), of y] by (simp add: add_months_def Let_def assms(3) [symmetric])
qed

lemma plus_yearmonth:
  assumes g: "is_gmtime (epochTime d) (gmtime (epochTime d))" and k: "\<bar>sint (months i)\<bar> \<le> 2 ^ 32"
  shows "datetime_plus_yearmonth gmtime d i =
    (if tm_mon (gmtime (epochTime d)) + sint (months i) smod 12 < 0 then None
     else datetime_of (add_months (gmtime (epochTime d)) (sint (months i))) (subseconds d))"
proof -
  define t where "t = gmtime (epochTime d)"
  define q r where "q = sint (months i) sdiv 12" and "r = sint (months i) smod 12"
  note qr = sdiv_smod_12 [of "sint (months i)", folded q_def r_def]
  have v: "valid_tm t" "0 \<le> tm_mon t" "tm_mon t < 12" using g by (simp_all add: is_gmtime_def valid_tm_def t_def)
  have y: "\<bar>tm_year t\<bar> \<le> 2 ^ 20" using gmtime_year_bound [OF g] by (simp add: t_def)
  have n: "narrow32 (tm_year t + q) = tm_year t + q" "narrow32 (tm_mon t + r) = tm_mon t + r"
    using y k qr v by (simp_all add: narrow32_id)
  obtain w where w: "checked32 (tm_year t + q + 1) = Some w" "sint w = tm_year t + q + 1"
    by (rule checked32_fits [of "tm_year t + q + 1"]) (use y k qr in simp_all)
  have c: "map_option (\<lambda>w. t\<lparr>tm_mon := tm_mon t + r - 12, tm_year := sint w\<rparr>) (checked32 (tm_year t + q + 1)) =
      Some (t\<lparr>tm_mon := tm_mon t + r - 12, tm_year := tm_year t + q + 1\<rparr>)"
    using w by simp
  consider "tm_mon t + r < 0" | "0 \<le> tm_mon t + r" "tm_mon t + r \<le> 11" | "11 < tm_mon t + r" by linarith
  then show ?thesis
  proof cases
    case 1
    then show ?thesis
      by (simp add: datetime_plus_yearmonth_def t_def [symmetric] q_def [symmetric] r_def [symmetric] n out_of_table)
  next
    case 2
    have "ClampDayOfMonth (t\<lparr>tm_mon := tm_mon t + r, tm_year := tm_year t + q\<rparr>) = add_months t (sint (months i))"
      by (rule add_months_split) (use 2 v qr(1) in simp_all)
    then show ?thesis
      using 2 to_datetime [of "add_months t (sint (months i))" "subseconds d"] add_months_valid [OF v(1), of "sint (months i)"]
      by (simp add: datetime_plus_yearmonth_def t_def [symmetric] q_def [symmetric] r_def [symmetric] n valid_tm_def)
  next
    case 3
    have "ClampDayOfMonth (t\<lparr>tm_mon := tm_mon t + r - 12, tm_year := tm_year t + q + 1\<rparr>) = add_months t (sint (months i))"
      by (rule add_months_split) (use 3 v qr in simp_all)
    then show ?thesis
      using 3 to_datetime [of "add_months t (sint (months i))" "subseconds d"] add_months_valid [OF v(1), of "sint (months i)"]
      by (simp add: datetime_plus_yearmonth_def t_def [symmetric] q_def [symmetric] r_def [symmetric] n c valid_tm_def)
  qed
qed

lemma minus_yearmonth:
  assumes g: "is_gmtime (epochTime d) (gmtime (epochTime d))" and k: "\<bar>sint (months i)\<bar> \<le> 2 ^ 32"
  shows "datetime_minus_yearmonth gmtime d i =
    (if 11 < tm_mon (gmtime (epochTime d)) - sint (months i) smod 12 then None
     else datetime_of (add_months (gmtime (epochTime d)) (- sint (months i))) (subseconds d))"
proof -
  define t where "t = gmtime (epochTime d)"
  define q r where "q = sint (months i) sdiv 12" and "r = sint (months i) smod 12"
  note qr = sdiv_smod_12 [of "sint (months i)", folded q_def r_def]
  have v: "valid_tm t" "0 \<le> tm_mon t" "tm_mon t < 12" using g by (simp_all add: is_gmtime_def valid_tm_def t_def)
  have y: "\<bar>tm_year t\<bar> \<le> 2 ^ 20" using gmtime_year_bound [OF g] by (simp add: t_def)
  have n: "narrow32 (tm_year t - q) = tm_year t - q" "narrow32 (tm_mon t - r) = tm_mon t - r"
    using y k qr v by (simp_all add: narrow32_id)
  obtain w where w: "checked32 (tm_year t - q - 1) = Some w" "sint w = tm_year t - q - 1"
    by (rule checked32_fits [of "tm_year t - q - 1"]) (use y k qr in simp_all)
  have c: "map_option (\<lambda>w. t\<lparr>tm_mon := tm_mon t - r + 12, tm_year := sint w\<rparr>) (checked32 (tm_year t - q - 1)) =
      Some (t\<lparr>tm_mon := tm_mon t - r + 12, tm_year := tm_year t - q - 1\<rparr>)"
    using w by simp
  consider "11 < tm_mon t - r" | "0 \<le> tm_mon t - r" "tm_mon t - r \<le> 11" | "tm_mon t - r < 0" by linarith
  then show ?thesis
  proof cases
    case 1
    then show ?thesis
      by (simp add: datetime_minus_yearmonth_def t_def [symmetric] q_def [symmetric] r_def [symmetric] n out_of_table)
  next
    case 2
    have "ClampDayOfMonth (t\<lparr>tm_mon := tm_mon t - r, tm_year := tm_year t - q\<rparr>) = add_months t (- sint (months i))"
      by (rule add_months_split) (use 2 v qr(1) in simp_all)
    then show ?thesis
      using 2 to_datetime [of "add_months t (- sint (months i))" "subseconds d"] add_months_valid [OF v(1), of "- sint (months i)"]
      by (simp add: datetime_minus_yearmonth_def t_def [symmetric] q_def [symmetric] r_def [symmetric] n valid_tm_def)
  next
    case 3
    have "ClampDayOfMonth (t\<lparr>tm_mon := tm_mon t - r + 12, tm_year := tm_year t - q - 1\<rparr>) = add_months t (- sint (months i))"
      by (rule add_months_split) (use 3 v qr in simp_all)
    then show ?thesis
      using 3 to_datetime [of "add_months t (- sint (months i))" "subseconds d"] add_months_valid [OF v(1), of "- sint (months i)"]
      by (simp add: datetime_minus_yearmonth_def t_def [symmetric] q_def [symmetric] r_def [symmetric] n c valid_tm_def)
  qed
qed

section \<open>One broken-down time per second\<close>

lemma days_before_year_mono: "y \<le> z \<Longrightarrow> days_before_year y \<le> days_before_year z"
proof (induction z rule: int_ge_induct)
  case (step i)
  then show ?case using days_before_year_step [of i] by (simp add: year_days_def split: if_splits)
qed simp

lemma days_before_month_mono: "m \<le> n \<Longrightarrow> days_before_month y m \<le> days_before_month y n"
  unfolding days_before_month_def by (rule sum_mono2) (auto simp: month_days_def)

lemma days_of_year: "days_before_month y 12 = year_days y"
  by (simp add: days_before_month_def month_days_def year_days_def lessThan_Suc eval_nat_numeral)

definition tm_day :: "tm \<Rightarrow> int" where
  "tm_day t = days_before_year (tm_year t + 1900) + days_before_month (tm_year t + 1900) (nat (tm_mon t)) + (tm_mday t - 1)"

lemma tm_day_month:
  assumes "valid_tm t"
  shows "days_before_year (tm_year t + 1900) + days_before_month (tm_year t + 1900) (nat (tm_mon t)) \<le> tm_day t"
    and "tm_day t < days_before_year (tm_year t + 1900) + days_before_month (tm_year t + 1900) (Suc (nat (tm_mon t)))"
  using assms by (simp_all add: tm_day_def valid_tm_def days_before_month_def)

lemma tm_day_year:
  assumes "valid_tm t"
  shows "days_before_year (tm_year t + 1900) \<le> tm_day t" "tm_day t < days_before_year (tm_year t + 1900 + 1)"
proof -
  have m: "0 \<le> tm_mon t" "Suc (nat (tm_mon t)) \<le> 12" using assms by (simp_all add: valid_tm_def nat_le_iff)
  show "days_before_year (tm_year t + 1900) \<le> tm_day t"
    using tm_day_month(1) [OF assms] days_before_month_mono [of 0 "nat (tm_mon t)" "tm_year t + 1900"]
    by (simp add: days_before_month_def)
  show "tm_day t < days_before_year (tm_year t + 1900 + 1)"
    using tm_day_month(2) [OF assms] days_before_month_mono [OF m(2), of "tm_year t + 1900"] days_of_year [of "tm_year t + 1900"]
    by (simp only: days_before_year_step)
qed

lemma tm_day_unique:
  assumes "valid_tm t" "valid_tm u" "tm_day t = tm_day u"
  shows "tm_year t = tm_year u \<and> tm_mon t = tm_mon u \<and> tm_mday t = tm_mday u"
proof -
  have order: "\<not> tm_year v < tm_year w" if "valid_tm v" "valid_tm w" "tm_day v = tm_day w" for v w
  proof
    assume "tm_year v < tm_year w"
    then have "days_before_year (tm_year v + 1900 + 1) \<le> days_before_year (tm_year w + 1900)"
      by (intro days_before_year_mono) simp
    then show False using tm_day_year(2) [OF that(1)] tm_day_year(1) [OF that(2)] that(3) by linarith
  qed
  have y: "tm_year t = tm_year u" using order [OF assms] order [OF assms(2,1)] assms(3) by simp
  have order': "\<not> nat (tm_mon v) < nat (tm_mon w)"
    if "valid_tm v" "valid_tm w" "tm_day v = tm_day w" "tm_year v = tm_year w" for v w
  proof
    assume "nat (tm_mon v) < nat (tm_mon w)"
    then have "days_before_month (tm_year w + 1900) (Suc (nat (tm_mon v))) \<le> days_before_month (tm_year w + 1900) (nat (tm_mon w))"
      by (intro days_before_month_mono Suc_leI)
    then show False using tm_day_month(2) [OF that(1)] tm_day_month(1) [OF that(2)] that(3,4) by simp
  qed
  have "nat (tm_mon t) = nat (tm_mon u)"
    using order' [OF assms y] order' [OF assms(2,1) assms(3) [symmetric] y [symmetric]] by (simp only: linorder_neq_iff simp_thms)
  then have "tm_mon t = tm_mon u" using assms by (simp add: valid_tm_def eq_nat_nat_iff)
  then show ?thesis using y assms(3) by (simp add: tm_day_def)
qed

lemma tm_seconds_day: "tm_seconds t = tm_day t * 86400 + ((tm_hour t * 60 + tm_min t) * 60 + tm_sec t)"
  by (simp add: tm_seconds_def civil_seconds_def tm_day_def algebra_simps)

lemma radix_unique:
  fixes a b q r n :: int
  assumes "a * n + q = b * n + r" "0 \<le> q" "q < n" "0 \<le> r" "r < n"
  shows "a = b \<and> q = r"
proof -
  have "(n * a + q) div n = a" "(n * b + r) div n = b"
    using assms(2-) by (auto intro: int_div_pos_eq)
  moreover have "n * a + q = n * b + r" using assms(1) by (simp only: mult.commute)
  ultimately have "a = b" by simp
  then show ?thesis using assms(1) by simp
qed

lemma valid_tm_clock:
  assumes "valid_tm t"
  shows "0 \<le> (tm_hour t * 60 + tm_min t) * 60 + tm_sec t" "(tm_hour t * 60 + tm_min t) * 60 + tm_sec t < 86400"
    "0 \<le> tm_min t" "tm_min t < 60" "0 \<le> tm_sec t" "tm_sec t < 60"
proof -
  have h: "0 \<le> tm_hour t" "tm_hour t < 24" "0 \<le> tm_min t" "tm_min t < 60" "0 \<le> tm_sec t" "tm_sec t < 60"
    using assms by (simp_all add: valid_tm_def)
  show "0 \<le> (tm_hour t * 60 + tm_min t) * 60 + tm_sec t" "(tm_hour t * 60 + tm_min t) * 60 + tm_sec t < 86400"
    using h by simp_all
  show "0 \<le> tm_min t" "tm_min t < 60" "0 \<le> tm_sec t" "tm_sec t < 60" by (rule h)+
qed

lemma tm_seconds_unique:
  assumes "valid_tm t" "valid_tm u" "tm_seconds t = tm_seconds u"
  shows "t = u"
proof -
  note clock = valid_tm_clock [OF assms(1)] valid_tm_clock [OF assms(2)]
  have d: "tm_day t = tm_day u \<and> (tm_hour t * 60 + tm_min t) * 60 + tm_sec t = (tm_hour u * 60 + tm_min u) * 60 + tm_sec u"
    by (rule radix_unique [OF assms(3) [unfolded tm_seconds_day]]) (rule clock)+
  have s: "tm_hour t * 60 + tm_min t = tm_hour u * 60 + tm_min u \<and> tm_sec t = tm_sec u"
    by (rule radix_unique [OF conjunct2 [OF d]]) (rule clock)+
  have h: "tm_hour t = tm_hour u \<and> tm_min t = tm_min u"
    by (rule radix_unique [OF conjunct1 [OF s]]) (rule clock)+
  show ?thesis using tm_day_unique [OF assms(1,2)] d s h by (cases t, cases u) simp
qed

section \<open>Properties\<close>

text \<open>
  C12: \<^verbatim>\<open>timegmCustom\<close> counts the seconds of the proleptic Gregorian calendar, before and after 1970,
  for every month in range; a month out of range reads past its tables.
\<close>

theorem timegm_counts_seconds:
  "timegmCustom t =
    (if 0 \<le> tm_mon t \<and> tm_mon t < 12
     then Some (((((days_before_year (tm_year t + 1900) + days_before_month (tm_year t + 1900) (nat (tm_mon t)) +
       (tm_mday t - 1)) * 24 + tm_hour t) * 60 + tm_min t) * 60) + tm_sec t)
     else None)"
  using timegm_seconds [of t] timegm_none [of t] by (auto simp: tm_seconds_def civil_seconds_def)

text \<open>
  \<^verbatim>\<open>timegm\<close> and \<^verbatim>\<open>gmtime\<close> are inverse: the second a valid time denotes is broken down to it again.
\<close>

theorem timegm_gmtime_inverse:
  assumes "is_gmtime s u"
  shows "timegmCustom u = Some s \<and> (valid_tm t \<and> timegmCustom t = Some s \<longrightarrow> t = u)"
proof -
  have u: "valid_tm u" "tm_seconds u = s" using assms by (simp_all add: is_gmtime_def)
  have valid: "timegmCustom v = Some (tm_seconds v)" if "valid_tm v" for v
    using that by (intro timegm_seconds) (simp_all add: valid_tm_def)
  have "t = u" if "valid_tm t" "timegmCustom t = Some s"
    using that u valid [OF that(1)] by (intro tm_seconds_unique) simp_all
  then show ?thesis using valid [OF u(1)] u(2) by blast
qed

theorem timegm_gmtime_inverse_witness:
  "timegmCustom \<lparr>tm_sec = 0, tm_min = 0, tm_hour = 0, tm_mday = 31, tm_mon = 0, tm_year = 70\<rparr> = Some 2592000"
  using timegm_gmtime_inverse [of 2592000 "\<lparr>tm_sec = 0, tm_min = 0, tm_hour = 0, tm_mday = 31, tm_mon = 0, tm_year = 70\<rparr>"]
  by (simp add: is_gmtime_def valid_tm_def month_days_def tm_seconds_def civil_seconds_def days_before_1970
      days_before_month_def)

text \<open>
  The fields of a datetime are those of a whole second that is not the one the datetime lies in when
  the datetime is before 1970 and has a fraction: truncation takes the next second.
\<close>

theorem fields_truncate:
  "sint (ticks d) = epochTime d * 1000000 + subseconds d \<and> \<bar>subseconds d\<bar> < 1000000 \<and>
   epochTime d = sint (ticks d) div 1000000 + (if subseconds d < 0 then 1 else 0)"
proof -
  define x e r where "x = sint (ticks d)" and "e = epochTime d" and "r = subseconds d"
  have x: "x = 1000000 * e + r"
    using mult_sdiv_smod_eq [of 1000000 x] by (simp add: x_def e_def r_def epochTime_def subseconds_def kTicksPerSecond_def)
  have r: "\<bar>r\<bar> < 1000000"
    using smod_int_range [of 1000000 x] by (auto simp: x_def r_def subseconds_def kTicksPerSecond_def)
  have "x div 1000000 = (if r < 0 then e - 1 else e)"
  proof (cases "r < 0")
    case True
    have "x = 1000000 * (e - 1) + (r + 1000000)" using x by simp
    from int_div_pos_eq [OF this] True r show ?thesis by simp
  next
    case False
    from int_div_pos_eq [OF x] False r show ?thesis by simp
  qed
  then show ?thesis using x r by (simp add: x_def e_def r_def)
qed

text \<open>
  C11: for an interval of at most \<open>2 ^ 32\<close> months in either direction, adding it to a datetime takes the
  whole second that \<open>epochTime\<close> gives for the datetime, moves its broken-down time by calendar months,
  cuts the day to the length of the month and adds the fraction of the second again (the result does not
  exist when its ticks leave 64 bits), when the month plus the remainder of the months is not negative;
  otherwise the code reads its month table before its start. Subtraction is the mirror image. The whole
  second is the one the datetime lies in from 1970 on; before 1970 it is the next one when the datetime
  has a fraction, so that there the calendar day moved may be the wrong one. Beyond \<open>2 ^ 32\<close> months the
  theorem says nothing: the year may then no longer fit the field of \<open>struct tm\<close>.
\<close>

theorem month_arithmetic:
  assumes "is_gmtime (epochTime d) (gmtime (epochTime d))" "\<bar>sint (months i)\<bar> \<le> 2 ^ 32"
  shows "let t = gmtime (epochTime d); k = sint (months i)
    in datetime_plus_yearmonth gmtime d i =
         (if tm_mon t + k smod 12 < 0 then None else datetime_of (add_months t k) (subseconds d)) \<and>
       datetime_minus_yearmonth gmtime d i =
         (if 11 < tm_mon t - k smod 12 then None else datetime_of (add_months t (- k)) (subseconds d)) \<and>
       valid_tm (add_months t k) \<and>
       epochTime d = sint (ticks d) div 1000000 + (if subseconds d < 0 then 1 else 0) \<and>
       sint (ticks d) = epochTime d * 1000000 + subseconds d"
  using plus_yearmonth [where gmtime = gmtime and d = d and i = i, OF assms]
    minus_yearmonth [where gmtime = gmtime and d = d and i = i, OF assms] add_months_valid [of "gmtime (epochTime d)"]
    assms(1) fields_truncate [of d]
  unfolding Let_def is_gmtime_def by blast

theorem month_arithmetic_witness:
  "let gmtime = (\<lambda>_. \<lparr>tm_sec = 0, tm_min = 0, tm_hour = 0, tm_mday = 31, tm_mon = 0, tm_year = 70\<rparr>);
       d = DatetimeLit 2592000000001
   in datetime_plus_yearmonth gmtime d (YearMonthIntervalLit 1) = Some (DatetimeLit 5011200000001) \<and>
      datetime_plus_yearmonth gmtime d (YearMonthIntervalLit (- 1)) = None"
proof -
  let ?g = "\<lambda>_ :: int. \<lparr>tm_sec = 0, tm_min = 0, tm_hour = 0, tm_mday = 31, tm_mon = 0, tm_year = 70\<rparr>"
  let ?d = "DatetimeLit 2592000000001"
  have e: "epochTime ?d = 2592000" "subseconds ?d = 1"
    by (simp_all add: epochTime_def subseconds_def kTicksPerSecond_def)
  have g: "is_gmtime (epochTime ?d) (?g (epochTime ?d))"
    by (simp add: e is_gmtime_def valid_tm_def month_days_def tm_seconds_def civil_seconds_def days_before_1970
        days_before_month_def)
  have s: "datetime_of (add_months (?g (epochTime ?d)) 1) 1 = Some (DatetimeLit 5011200000001)"
    by (simp add: datetime_of_def add_months_def tm_seconds_def civil_seconds_def days_before_1970 days_before_month_def
        month_days_def leap_def kTicksPerSecond_def checked64_def)
  have one: "(1 :: int) smod 12 = 1" by (simp add: smod_int_alt_def)
  show ?thesis
    using month_arithmetic [where gmtime = ?g and d = ?d and i = "YearMonthIntervalLit 1", OF g]
      month_arithmetic [where gmtime = ?g and d = ?d and i = "YearMonthIntervalLit (- 1)", OF g] s
    by (simp add: e one Let_def)
qed

text \<open>
  datetimes and datetime intervals behave as points and distances: an addition that does not
  overflow is undone by either subtraction, and does not depend on the order of its operands.
\<close>

theorem interval_arithmetic:
  "(datetime_plus_interval d i = Some e \<longleftrightarrow> datetime_minus_interval e i = Some d) \<and>
   (datetime_plus_interval d i = Some e \<longleftrightarrow> datetime_minus_datetime e d = Some i) \<and>
   interval_plus_datetime i d = datetime_plus_interval d i"
  by (cases d; cases i; cases e)
    (auto simp: datetime_plus_interval_def datetime_minus_interval_def datetime_minus_datetime_def
      interval_plus_datetime_def checked64_sint add.commute)

text \<open>Dates are ordered by year, month and day, and the six comparisons agree with that order.\<close>

theorem date_comparisons:
  "(DateLit_less a b \<longleftrightarrow> sint (date_year a) < sint (date_year b) \<or> sint (date_year a) = sint (date_year b) \<and>
      (date_month a < date_month b \<or> date_month a = date_month b \<and> date_day a < date_day b)) \<and>
   (DateLit_equal a b \<longleftrightarrow> a = b) \<and> (DateLit_less a b \<longleftrightarrow> DateLit_less_eq a b \<and> \<not> DateLit_equal a b) \<and>
   (DateLit_greater a b \<longleftrightarrow> DateLit_less b a) \<and> (DateLit_greater_eq a b \<longleftrightarrow> DateLit_less_eq b a)"
proof -
  have "(a < b) = DateLit_less a b" "(a \<le> b) = DateLit_less_eq a b"
    by (simp_all add: less_DateLit_def less_eq_DateLit_def)
  moreover have "DateLit_equal a b \<longleftrightarrow> a = b" by (auto simp: DateLit_equal_def DateLit.expand)
  moreover have "DateLit_greater a b \<longleftrightarrow> DateLit_less b a"
    by (auto simp: DateLit_greater_def DateLit_less_def)
  moreover have "DateLit_greater_eq a b \<longleftrightarrow> DateLit_less_eq b a"
    by (auto simp: DateLit_greater_eq_def DateLit_less_eq_def DateLit_greater_def DateLit_less_def)
  moreover have "DateLit_less a b \<longleftrightarrow> sint (date_year a) < sint (date_year b) \<or> sint (date_year a) = sint (date_year b) \<and>
      (date_month a < date_month b \<or> date_month a = date_month b \<and> date_day a < date_day b)"
    by (auto simp: DateLit_less_def sint_inject)
  ultimately show ?thesis by (metis order_less_le)
qed

end
