(* ===== verification/FloatEquality.thy ===== *)
theory FloatEquality
  imports Floats
begin

text \<open>
  When two floating-point numbers are equal in terms of their bits: a finite number other than zero has
  one bit pattern only.
\<close>

definition canonical :: "fp_format \<Rightarrow> nat \<Rightarrow> int \<Rightarrow> bool" where
  "canonical fmt m e \<longleftrightarrow> m < 2 ^ (frac_bits fmt + 1) \<and> fp_emin fmt \<le> e \<and> (fp_emin fmt < e \<longrightarrow> 2 ^ frac_bits fmt \<le> m)"

lemma decoded_canonical:
  assumes "fp_decode fmt w = Fin s m e"
  shows "canonical fmt m e"
proof -
  have f: "w mod 2 ^ frac_bits fmt < 2 ^ frac_bits fmt" by simp
  then have g: "w mod 2 ^ frac_bits fmt < 2 * 2 ^ frac_bits fmt" by linarith
  show ?thesis
    using assms f g unfolding fp_decode_def canonical_def by (auto simp: Let_def simp del: mod_less_divisor split: if_splits)
qed

lemma signed_mant_eq: "0 < m \<Longrightarrow> signed_mant s m = signed_mant t n \<longleftrightarrow> s = t \<and> m = n"
  by (auto simp: signed_mant_def)

lemma signed_mant_shift: "signed_mant t n * 2 ^ k = signed_mant t (n * 2 ^ k)"
  by (simp add: signed_mant_def)

lemma canonical_equal:
  assumes "canonical fmt m e" "canonical fmt n f" "signed_mant s m = signed_mant t n * 2 ^ nat (f - e)"
    "e \<le> f" "0 < m"
  shows "s = t \<and> m = n \<and> e = f"
proof -
  have st: "s = t" and mn: "m = n * 2 ^ nat (f - e)"
    using assms(3) signed_mant_eq [OF assms(5)] unfolding signed_mant_shift by blast+
  have "e = f"
  proof (rule ccontr)
    assume "e \<noteq> f"
    then have "nat (f - e) \<noteq> 0" using assms(4) by simp
    then obtain k where k: "nat (f - e) = Suc k" by (rule exE [OF not0_implies_Suc])
    have "2 ^ frac_bits fmt \<le> n" using assms(1,2,4) \<open>e \<noteq> f\<close> by (simp add: canonical_def)
    then have "2 ^ frac_bits fmt * 2 \<le> n * 2 ^ nat (f - e)" unfolding k by (simp add: mult_le_mono)
    then show False using assms(1) mn by (simp add: canonical_def)
  qed
  then show ?thesis using st mn by simp
qed

lemma fp_equal_canonical:
  assumes "fp_equal (Fin s m e) (Fin t n f)" "canonical fmt m e" "canonical fmt n f" "0 < m"
  shows "s = t \<and> m = n \<and> e = f"
proof (cases "e \<le> f")
  case True
  then show ?thesis using canonical_equal [OF assms(2,3)] assms(1,4) by (simp add: fp_align_def min_absorb1)
next
  case False
  then have eq: "signed_mant t n = signed_mant s m * 2 ^ nat (e - f)"
    using assms(1) by (simp add: fp_align_def min_absorb2)
  have "signed_mant s m * 2 ^ nat (e - f) \<noteq> 0" using assms(4) by (simp add: signed_mant_def)
  then have "0 < n" unfolding eq [symmetric] by (auto simp: signed_mant_def intro: Nat.gr0I split: if_splits)
  then show ?thesis using canonical_equal [OF assms(3,2) eq] False by simp
qed

text \<open>The bits that a constructor stores for a number.\<close>

lemma equal_numbers_equal_bits:
  assumes "a < 2 ^ (frac_bits fmt + exp_bits fmt + 1)" "b < 2 ^ (frac_bits fmt + exp_bits fmt + 1)" "2 \<le> exp_bits fmt"
    "fp_decode fmt a \<noteq> NaN" "fp_decode fmt b \<noteq> NaN"
  shows "fp_equal (fp_decode fmt a) (fp_decode fmt b) \<longleftrightarrow>
    (if fp_equal (fp_decode fmt a) (fp_of_int 0) then fp_equal (fp_decode fmt b) (fp_of_int 0) else a = b)"
proof -
  have inj: "a = b" if "fp_decode fmt a = fp_decode fmt b"
    using arg_cong [OF that, of "fp_encode fmt"]
    unfolding fp_encode_decode [OF assms(1,4,3)] fp_encode_decode [OF assms(2,5,3)] .
  have zero: "fp_equal (Fin s m e) (fp_of_int 0) \<longleftrightarrow> m = 0" for s m e
    by (simp add: fp_of_int_def fp_align_def signed_mant_def)
  have zz: "fp_equal (Fin s 0 e) (Fin t n f) \<longleftrightarrow> n = 0" for s e t n f
    by (simp add: fp_align_def signed_mant_def)
  have refl: "fp_equal x x" if "x \<noteq> NaN" for x using that by (cases x) simp_all
  show ?thesis
  proof (cases "fp_decode fmt a")
    case (Inf s)
    then show ?thesis using inj refl [of "Inf s"] by (cases "fp_decode fmt b") (auto simp: fp_of_int_def)
  next
    case (Fin s m e)
    note a = this
    show ?thesis
    proof (cases "fp_decode fmt b")
      case (Inf t)
      then show ?thesis using a by (auto simp: fp_of_int_def)
    next
      case (Fin t n f)
      note b = this
      show ?thesis
      proof (cases "m = 0")
        case True
        then show ?thesis using zero zz by (simp add: a b del: fp_equal.simps)
      next
        case False
        then have "fp_equal (Fin s m e) (Fin t n f) \<longleftrightarrow> Fin s m e = Fin t n f"
          using fp_equal_canonical [OF _ decoded_canonical [OF a] decoded_canonical [OF b]] refl by blast
        also have "\<dots> \<longleftrightarrow> a = b" using inj unfolding a b by (metis a b)
        finally show ?thesis using False zero by (simp add: a b del: fp_equal.simps)
      qed
    qed (use assms in simp)
  qed (use assms in simp)
qed


text \<open>Zeros are stored as the zero pattern; then bits are equal exactly when numbers are.\<close>

lemma stored_f32_equal:
  assumes "f32 a \<noteq> NaN" "f32 b \<noteq> NaN"
  shows "(if fp_equal (f32 a) (fp_of_int 0) then 0 else a) = (if fp_equal (f32 b) (fp_of_int 0) then 0 else b) \<longleftrightarrow>
    fp_equal (f32 a) (f32 b)"
proof -
  have l: "unat w < 2 ^ (frac_bits binary32 + exp_bits binary32 + 1)" for w :: u32
    using unsigned_less [of w, where 'a = nat] by simp
  have z: "fp_equal (f32 0) (fp_of_int 0)"
    by (simp add: f32_def fp_decode_def binary32_def fp_of_int_def fp_align_def signed_mant_def)
  have "fp_equal (f32 a) (f32 b) \<longleftrightarrow> (if fp_equal (f32 a) (fp_of_int 0) then fp_equal (f32 b) (fp_of_int 0) else a = b)"
    using equal_numbers_equal_bits [OF l [of a] l [of b]] assms word_unat_eq_iff [of a b]
    unfolding f32_def by simp
  then show ?thesis using z by auto
qed

lemma stored_f64_equal:
  assumes "f64 a \<noteq> NaN" "f64 b \<noteq> NaN"
  shows "(if fp_equal (f64 a) (fp_of_int 0) then 0 else a) = (if fp_equal (f64 b) (fp_of_int 0) then 0 else b) \<longleftrightarrow>
    fp_equal (f64 a) (f64 b)"
proof -
  have l: "unat w < 2 ^ (frac_bits binary64 + exp_bits binary64 + 1)" for w :: u64
    using unsigned_less [of w, where 'a = nat] by simp
  have z: "fp_equal (f64 0) (fp_of_int 0)"
    by (simp add: f64_def fp_decode_def binary64_def fp_of_int_def fp_align_def signed_mant_def)
  have "fp_equal (f64 a) (f64 b) \<longleftrightarrow> (if fp_equal (f64 a) (fp_of_int 0) then fp_equal (f64 b) (fp_of_int 0) else a = b)"
    using equal_numbers_equal_bits [OF l [of a] l [of b]] assms word_unat_eq_iff [of a b]
    unfolding f64_def by simp
  then show ?thesis using z by auto
qed

end
