(* ===== verification/TypedValues.thy ===== *)
theory TypedValues
  imports FloatEquality DateTimes Types "HOL-Library.Multiset"
begin

text \<open>
  \<^verbatim>\<open>types/TypedValue.hpp\<close> and \<^verbatim>\<open>types/TypedValue.cpp\<close>: a value with its type, in two 64-bit words. The word
  \<open>value_info\<close> holds the type ID, the null and ownership bits and the size of out-of-line data; the word
  \<open>value_union\<close> holds an inline literal or the address of out-of-line data. The platform is the one the
  code is written for: 64-bit, little-endian.

  Memory is explicit. \<open>bytes\<close> is the content of the address space and \<open>blocks\<close> the blocks \<^verbatim>\<open>malloc\<close> has
  handed out and not got back, with their sizes. An operation that allocates takes the address that
  \<^verbatim>\<open>malloc\<close> returns as an argument; one that frees an address that is not a block is \<open>None\<close>.
\<close>

section \<open>Memory\<close>

record heap =
  bytes :: "u64 \<Rightarrow> u8"
  blocks :: "u64 \<rightharpoonup> nat"

definition read_bytes :: "heap \<Rightarrow> u64 \<Rightarrow> nat \<Rightarrow> u8 list" where
  "read_bytes h p n = map (\<lambda>i. bytes h (p + of_nat i)) [0..<n]"

definition write_bytes :: "u64 \<Rightarrow> u8 list \<Rightarrow> heap \<Rightarrow> heap" where
  "write_bytes p xs h =
     h\<lparr>bytes := (\<lambda>a. if unat (a - p) < length xs then xs ! unat (a - p) else bytes h a)\<rparr>"

definition malloc_block :: "u64 \<Rightarrow> nat \<Rightarrow> heap \<Rightarrow> heap" where
  "malloc_block p n h = h\<lparr>blocks := (blocks h)(p \<mapsto> n)\<rparr>"

definition free_block :: "u64 \<Rightarrow> heap \<Rightarrow> heap option" where
  "free_block p h = (if p \<in> dom (blocks h) then Some (h\<lparr>blocks := (blocks h)(p := None)\<rparr>) else None)"

section \<open>Values\<close>

record typed_value =
  value_union :: u64
  value_info :: u64

definition kTypeIDMask :: u64 where "kTypeIDMask = 0x3F"
definition kNullIndicatorMask :: u64 where "kNullIndicatorMask = 0x40"
definition kOwnershipMask :: u64 where "kOwnershipMask = 0x80"
definition kNonSizeBitsMask :: u64 where "kNonSizeBitsMask = 0xFF"
definition kSizeBitsMask :: u64 where "kSizeBitsMask = NOT kNonSizeBitsMask"
definition kSizeShift :: nat where "kSizeShift = 8"

fun type_code :: "TypeID \<Rightarrow> u64" where
  "type_code kInt = 0"
| "type_code kLong = 1"
| "type_code kFloat = 2"
| "type_code kDouble = 3"
| "type_code kChar = 4"
| "type_code kVarChar = 5"
| "type_code kDate = 6"
| "type_code kDatetime = 7"
| "type_code kDatetimeInterval = 8"
| "type_code kYearMonthInterval = 9"
| "type_code kNullType = 10"

text \<open>The cast back to the enumeration; \<open>value_info\<close> is only ever built from the eleven IDs.\<close>

definition TypeID_of_code :: "u64 \<Rightarrow> TypeID" where
  "TypeID_of_code c =
     (if c = 0 then kInt else if c = 1 then kLong else if c = 2 then kFloat else if c = 3 then kDouble
      else if c = 4 then kChar else if c = 5 then kVarChar else if c = 6 then kDate else if c = 7 then kDatetime
      else if c = 8 then kDatetimeInterval else if c = 9 then kYearMonthInterval else kNullType)"

definition RepresentedInline :: "TypeID \<Rightarrow> bool" where
  "RepresentedInline tid =
     (case tid of
        kInt \<Rightarrow> True | kLong \<Rightarrow> True | kFloat \<Rightarrow> True | kDouble \<Rightarrow> True | kDate \<Rightarrow> True | kDatetime \<Rightarrow> True
      | kDatetimeInterval \<Rightarrow> True | kYearMonthInterval \<Rightarrow> True | kNullType \<Rightarrow> True
      | _ \<Rightarrow> False)"

definition HashIsReversible :: "TypeID \<Rightarrow> bool" where
  "HashIsReversible tid =
     (case tid of
        kInt \<Rightarrow> True | kFloat \<Rightarrow> True
      | kLong \<Rightarrow> True | kDouble \<Rightarrow> True | kDate \<Rightarrow> True | kDatetime \<Rightarrow> True
      | kDatetimeInterval \<Rightarrow> True | kYearMonthInterval \<Rightarrow> True
      | _ \<Rightarrow> False)"

definition isNull :: "typed_value \<Rightarrow> bool" where
  "isNull v \<longleftrightarrow> value_info v AND kNullIndicatorMask \<noteq> 0"

definition isReference :: "typed_value \<Rightarrow> bool" where
  "isReference v \<longleftrightarrow> value_info v AND kSizeBitsMask \<noteq> 0 \<and> value_info v AND kOwnershipMask = 0"

definition ownsOutOfLineData :: "typed_value \<Rightarrow> bool" where
  "ownsOutOfLineData v \<longleftrightarrow> value_info v AND kOwnershipMask \<noteq> 0 \<and> value_info v AND kSizeBitsMask \<noteq> 0"

definition getTypeID :: "typed_value \<Rightarrow> TypeID" where
  "getTypeID v = TypeID_of_code (value_info v AND kTypeIDMask)"

definition getDataSize :: "typed_value \<Rightarrow> nat" where
  "getDataSize v =
     (case getTypeID v of
        kInt \<Rightarrow> 4 | kFloat \<Rightarrow> 4
      | kLong \<Rightarrow> 8 | kDouble \<Rightarrow> 8 | kDate \<Rightarrow> 8 | kDatetime \<Rightarrow> 8 | kDatetimeInterval \<Rightarrow> 8 | kYearMonthInterval \<Rightarrow> 8
      | _ \<Rightarrow> unat (drop_bit kSizeShift (value_info v)))"

section \<open>Constructors\<close>

definition TypedValue_default :: typed_value where
  "TypedValue_default = \<lparr>value_union = 0, value_info = 0\<rparr>"

definition TypedValue_int :: "u32 \<Rightarrow> typed_value" where
  "TypedValue_int literal_int = \<lparr>value_union = ucast literal_int, value_info = type_code kInt\<rparr>"

definition TypedValue_long :: "u64 \<Rightarrow> typed_value" where
  "TypedValue_long literal_long = \<lparr>value_union = literal_long, value_info = type_code kLong\<rparr>"

definition TypedValue_float :: "u32 \<Rightarrow> typed_value" where
  "TypedValue_float literal_float =
     \<lparr>value_union = ucast (if fp_equal (f32 literal_float) (fp_of_int 0) then 0 else literal_float),
      value_info = type_code kFloat\<rparr>"

definition TypedValue_double :: "u64 \<Rightarrow> typed_value" where
  "TypedValue_double literal_double =
     \<lparr>value_union = (if fp_equal (f64 literal_double) (fp_of_int 0) then 0 else literal_double),
      value_info = type_code kDouble\<rparr>"

text \<open>
  A \<^verbatim>\<open>DateLit\<close> has six bytes of fields and two of padding. The constructor does not clear the union
  first, so the two padding bytes are whatever was there: the argument \<open>padding\<close>.
\<close>

definition DateLit_bits :: "DateLit \<Rightarrow> u64" where
  "DateLit_bits d = ucast (date_year d) OR push_bit 32 (ucast (date_month d)) OR push_bit 40 (ucast (date_day d))"

definition TypedValue_date :: "u16 \<Rightarrow> DateLit \<Rightarrow> typed_value" where
  "TypedValue_date padding literal_date =
     \<lparr>value_union = DateLit_bits literal_date OR push_bit 48 (ucast padding), value_info = type_code kDate\<rparr>"

definition TypedValue_datetime :: "DatetimeLit \<Rightarrow> typed_value" where
  "TypedValue_datetime literal_datetime =
     \<lparr>value_union = ticks literal_datetime, value_info = type_code kDatetime\<rparr>"

definition TypedValue_datetime_interval :: "DatetimeIntervalLit \<Rightarrow> typed_value" where
  "TypedValue_datetime_interval literal =
     \<lparr>value_union = interval_ticks literal, value_info = type_code kDatetimeInterval\<rparr>"

definition TypedValue_year_month_interval :: "YearMonthIntervalLit \<Rightarrow> typed_value" where
  "TypedValue_year_month_interval literal =
     \<lparr>value_union = months literal, value_info = type_code kYearMonthInterval\<rparr>"

definition TypedValue_reference :: "TypeID \<Rightarrow> u64 \<Rightarrow> nat \<Rightarrow> typed_value" where
  "TypedValue_reference tid value_ptr value_size =
     \<lparr>value_union = value_ptr, value_info = type_code tid OR push_bit kSizeShift (of_nat value_size)\<rparr>"

definition TypedValue_null :: "TypeID \<Rightarrow> typed_value" where
  "TypedValue_null tid = \<lparr>value_union = 0, value_info = type_code tid OR kNullIndicatorMask\<rparr>"

definition TypedValue_hash :: "TypeID \<Rightarrow> u64 \<Rightarrow> typed_value" where
  "TypedValue_hash tid hash = \<lparr>value_union = hash, value_info = type_code tid\<rparr>"

definition CreateWithOwnedData :: "TypeID \<Rightarrow> u64 \<Rightarrow> nat \<Rightarrow> typed_value" where
  "CreateWithOwnedData tid value_ptr value_size =
     (let val = TypedValue_reference tid value_ptr value_size
      in val\<lparr>value_info := value_info val OR kOwnershipMask\<rparr>)"

definition markType :: "TypeID \<Rightarrow> typed_value \<Rightarrow> typed_value" where
  "markType tid v = v\<lparr>value_info := (value_info v AND NOT kTypeIDMask) OR type_code tid\<rparr>"

section \<open>Copying, moving and destroying\<close>

definition convertToLiteral :: "u64 \<Rightarrow> typed_value \<Rightarrow> heap \<Rightarrow> typed_value \<times> heap" where
  "convertToLiteral p v h =
     (let data_size = getDataSize v;
          h' = malloc_block p data_size h;
          h'' = write_bytes p (read_bytes h' (value_union v) data_size) h'
      in (v\<lparr>value_union := p, value_info := value_info v OR kOwnershipMask\<rparr>, h''))"

definition TypedValue_copy :: "u64 \<Rightarrow> typed_value \<Rightarrow> heap \<Rightarrow> typed_value \<times> heap" where
  "TypedValue_copy p orig h = (if ownsOutOfLineData orig then convertToLiteral p orig h else (orig, h))"

text \<open>The new value and what is left of the old one.\<close>

definition TypedValue_move :: "typed_value \<Rightarrow> typed_value \<times> typed_value" where
  "TypedValue_move orig = (orig, orig\<lparr>value_info := 0\<rparr>)"

definition TypedValue_destroy :: "typed_value \<Rightarrow> heap \<Rightarrow> heap option" where
  "TypedValue_destroy v h = (if ownsOutOfLineData v then free_block (value_union v) h else Some h)"

text \<open>The two assignments, of an object to a different one.\<close>

definition copy_assign :: "u64 \<Rightarrow> typed_value \<Rightarrow> typed_value \<Rightarrow> heap \<Rightarrow> (typed_value \<times> heap) option" where
  "copy_assign p this rhs h = do {
     h \<leftarrow> (if ownsOutOfLineData this then free_block (value_union this) h else Some h);
     let this = \<lparr>value_union = value_union rhs, value_info = value_info rhs\<rparr>;
     Some (if ownsOutOfLineData this then convertToLiteral p this h else (this, h))
   }"

definition move_assign :: "typed_value \<Rightarrow> typed_value \<Rightarrow> heap \<Rightarrow> (typed_value \<times> typed_value \<times> heap) option" where
  "move_assign this rhs h = do {
     h \<leftarrow> (if ownsOutOfLineData this then free_block (value_union this) h else Some h);
     Some (\<lparr>value_union = value_union rhs, value_info = value_info rhs\<rparr>, rhs\<lparr>value_info := 0\<rparr>, h)
   }"

definition clear_value :: "typed_value \<Rightarrow> heap \<Rightarrow> (typed_value \<times> heap) option" where
  "clear_value v h = do {
     h \<leftarrow> (if ownsOutOfLineData v then free_block (value_union v) h else Some h);
     Some (\<lparr>value_union = 0, value_info = 0\<rparr>, h)
   }"

definition ensureNotReference :: "u64 \<Rightarrow> typed_value \<Rightarrow> heap \<Rightarrow> typed_value \<times> heap" where
  "ensureNotReference p v h = (if isReference v then convertToLiteral p v h else (v, h))"

text \<open>\<^verbatim>\<open>return *this\<close> copies the value, which allocates nothing since it owns nothing.\<close>

definition makeReferenceToThis :: "typed_value \<Rightarrow> typed_value" where
  "makeReferenceToThis v =
     (if ownsOutOfLineData v then TypedValue_reference (getTypeID v) (value_union v) (getDataSize v) else v)"

section \<open>Reading values\<close>

text \<open>The reads of a literal; each is only called on a non-null value of its type.\<close>

definition getLiteral_int :: "typed_value \<Rightarrow> u32" where
  "getLiteral_int v = ucast (value_union v)"

definition getLiteral_long :: "typed_value \<Rightarrow> u64" where
  "getLiteral_long v = value_union v"

definition getLiteral_float :: "typed_value \<Rightarrow> u32" where
  "getLiteral_float v = ucast (value_union v)"

definition getLiteral_double :: "typed_value \<Rightarrow> u64" where
  "getLiteral_double v = value_union v"

definition getLiteral_date :: "typed_value \<Rightarrow> DateLit" where
  "getLiteral_date v =
     DateLit (ucast (value_union v)) (ucast (drop_bit 32 (value_union v))) (ucast (drop_bit 40 (value_union v)))"

definition getLiteral_datetime :: "typed_value \<Rightarrow> DatetimeLit" where
  "getLiteral_datetime v = DatetimeLit (value_union v)"

definition getLiteral_datetime_interval :: "typed_value \<Rightarrow> DatetimeIntervalLit" where
  "getLiteral_datetime_interval v = DatetimeIntervalLit (value_union v)"

definition getLiteral_year_month_interval :: "typed_value \<Rightarrow> YearMonthIntervalLit" where
  "getLiteral_year_month_interval v = YearMonthIntervalLit (value_union v)"

definition getOutOfLineData :: "typed_value \<Rightarrow> u64" where
  "getOutOfLineData v = value_union v"

text \<open>\<^verbatim>\<open>strnlen\<close> and \<^verbatim>\<open>memchr\<close> of a null byte.\<close>

definition strnlen :: "u8 list \<Rightarrow> nat" where
  "strnlen xs = length (takeWhile (\<lambda>c. c \<noteq> 0) xs)"

definition out_of_line_bytes :: "heap \<Rightarrow> typed_value \<Rightarrow> u8 list" where
  "out_of_line_bytes h v = read_bytes h (value_union v) (getDataSize v)"

text \<open>The length of a VarChar is its size minus one, in \<open>size_t\<close>: of no bytes at all it wraps.\<close>

definition getAsciiStringLength :: "heap \<Rightarrow> typed_value \<Rightarrow> nat" where
  "getAsciiStringLength h v =
     (if getTypeID v = kChar then strnlen (read_bytes h (value_union v) (getDataSize v))
      else if getDataSize v = 0 then 2 ^ 64 - 1 else getDataSize v - 1)"

text \<open>The bytes of the union, least significant first.\<close>

definition word_bytes :: "nat \<Rightarrow> u64 \<Rightarrow> u8 list" where
  "word_bytes n w = map (\<lambda>i. ucast (drop_bit (8 * i) w)) [0..<n]"

definition copyInto :: "u64 \<Rightarrow> typed_value \<Rightarrow> heap \<Rightarrow> heap" where
  "copyInto destination v h =
     (let out_of_line_size = unat (drop_bit kSizeShift (value_info v))
      in if out_of_line_size \<noteq> 0
         then write_bytes destination (read_bytes h (value_union v) (unat (drop_bit kSizeShift (value_info v)))) h
         else case getTypeID v of
                kInt \<Rightarrow> write_bytes destination (word_bytes 4 (value_union v)) h
              | kFloat \<Rightarrow> write_bytes destination (word_bytes 4 (value_union v)) h
              | _ \<Rightarrow> write_bytes destination (word_bytes 8 (value_union v)) h)"

text \<open>Hashing; \<^verbatim>\<open>util::Hash\<close> is the argument \<open>hash\<close>.\<close>

definition getHashScalarLiteral :: "typed_value \<Rightarrow> u64" where
  "getHashScalarLiteral v = value_union v"

definition getHashAsciiString :: "(u8 list \<Rightarrow> u64) \<Rightarrow> heap \<Rightarrow> typed_value \<Rightarrow> u64" where
  "getHashAsciiString hash h v = hash (read_bytes h (value_union v) (getAsciiStringLength h v))"

definition getHashOutOfLineNonString :: "(u8 list \<Rightarrow> u64) \<Rightarrow> heap \<Rightarrow> typed_value \<Rightarrow> u64" where
  "getHashOutOfLineNonString hash h v = hash (read_bytes h (value_union v) (getDataSize v))"

definition getHash :: "(u8 list \<Rightarrow> u64) \<Rightarrow> heap \<Rightarrow> typed_value \<Rightarrow> u64" where
  "getHash hash h v =
     (case getTypeID v of
        kInt \<Rightarrow> getHashScalarLiteral v | kLong \<Rightarrow> getHashScalarLiteral v | kFloat \<Rightarrow> getHashScalarLiteral v
      | kDouble \<Rightarrow> getHashScalarLiteral v | kDate \<Rightarrow> getHashScalarLiteral v | kDatetime \<Rightarrow> getHashScalarLiteral v
      | kDatetimeInterval \<Rightarrow> getHashScalarLiteral v | kYearMonthInterval \<Rightarrow> getHashScalarLiteral v
      | kChar \<Rightarrow> getHashAsciiString hash h v | kVarChar \<Rightarrow> getHashAsciiString hash h v
      | _ \<Rightarrow> getHashOutOfLineNonString hash h v)"

definition fastEqualCheck :: "heap \<Rightarrow> typed_value \<Rightarrow> typed_value \<Rightarrow> bool" where
  "fastEqualCheck h v other =
     (let inline = (value_union v = value_union other);
          ascii = (let len = getAsciiStringLength h v; other_len = getAsciiStringLength h other
                   in len = other_len \<and> read_bytes h (value_union v) len = read_bytes h (value_union other) len);
          other_data = (let len = getDataSize v; other_len = getDataSize other
                   in len = other_len \<and> read_bytes h (value_union v) len = read_bytes h (value_union other) len)
      in case getTypeID v of
           kInt \<Rightarrow> inline | kLong \<Rightarrow> inline | kFloat \<Rightarrow> inline | kDouble \<Rightarrow> inline | kDate \<Rightarrow> inline
         | kDatetime \<Rightarrow> inline | kDatetimeInterval \<Rightarrow> inline | kYearMonthInterval \<Rightarrow> inline
         | kChar \<Rightarrow> ascii | kVarChar \<Rightarrow> ascii
         | _ \<Rightarrow> other_data)"

definition isPlausibleInstanceOf :: "heap \<Rightarrow> typed_value \<Rightarrow> type_signature \<Rightarrow> bool" where
  "isPlausibleInstanceOf h v type =
     (if getTypeID v \<noteq> sig_id type then False
      else if isNull v then sig_nullable type
      else case getTypeID v of
             kInt \<Rightarrow> True | kLong \<Rightarrow> True | kFloat \<Rightarrow> True | kDouble \<Rightarrow> True | kDate \<Rightarrow> True | kDatetime \<Rightarrow> True
           | kDatetimeInterval \<Rightarrow> True | kYearMonthInterval \<Rightarrow> True
           | kChar \<Rightarrow>
               (let data_size = getDataSize v
                in if data_size = sig_length type then True
                   else if data_size < sig_length type then 0 \<in> set (read_bytes h (value_union v) data_size)
                   else False)
           | kVarChar \<Rightarrow> getDataSize v \<le> sig_length type + 1
           | _ \<Rightarrow> getDataSize v \<le> sig_length type)"

section \<open>Serialization\<close>

text \<open>
  The message \<^verbatim>\<open>serialization::TypedValue\<close>. Month and day of a date travel as 32-bit unsigned numbers.
\<close>

record value_proto =
  v_type_id :: proto_type_id
  v_int_value :: "u32 option"
  v_long_value :: "u64 option"
  v_float_value :: "u32 option"
  v_double_value :: "u64 option"
  v_out_of_line_data :: "u8 list option"
  v_datetime_value :: "u64 option"
  v_datetime_interval_value :: "u64 option"
  v_year_month_interval_value :: "u64 option"
  v_date_value :: "(u32 \<times> u32 \<times> u32) option"

definition empty_value_proto :: "proto_type_id \<Rightarrow> value_proto" where
  "empty_value_proto tid =
     \<lparr>v_type_id = tid, v_int_value = None, v_long_value = None, v_float_value = None, v_double_value = None,
      v_out_of_line_data = None, v_datetime_value = None, v_datetime_interval_value = None,
      v_year_month_interval_value = None, v_date_value = None\<rparr>"

definition TypedValue_getProto :: "heap \<Rightarrow> typed_value \<Rightarrow> value_proto" where
  "TypedValue_getProto h v =
     (let proto = empty_value_proto (proto_id (getTypeID v))
      in if isNull v then proto
         else case getTypeID v of
                kInt \<Rightarrow> proto\<lparr>v_int_value := Some (getLiteral_int v)\<rparr>
              | kLong \<Rightarrow> proto\<lparr>v_long_value := Some (getLiteral_long v)\<rparr>
              | kFloat \<Rightarrow> proto\<lparr>v_float_value := Some (getLiteral_float v)\<rparr>
              | kDouble \<Rightarrow> proto\<lparr>v_double_value := Some (getLiteral_double v)\<rparr>
              | kDate \<Rightarrow>
                  (let d = getLiteral_date v
                   in proto\<lparr>v_date_value := Some (date_year d, ucast (date_month d), ucast (date_day d))\<rparr>)
              | kDatetime \<Rightarrow> proto\<lparr>v_datetime_value := Some (ticks (getLiteral_datetime v))\<rparr>
              | kDatetimeInterval \<Rightarrow>
                  proto\<lparr>v_datetime_interval_value := Some (interval_ticks (getLiteral_datetime_interval v))\<rparr>
              | kYearMonthInterval \<Rightarrow>
                  proto\<lparr>v_year_month_interval_value := Some (months (getLiteral_year_month_interval v))\<rparr>
              | kChar \<Rightarrow> proto\<lparr>v_out_of_line_data := Some (read_bytes h (getOutOfLineData v) (getDataSize v))\<rparr>
              | kVarChar \<Rightarrow> proto\<lparr>v_out_of_line_data := Some (read_bytes h (getOutOfLineData v) (getDataSize v))\<rparr>
              | kNullType \<Rightarrow> proto)"

text \<open>
  Reconstruction. The bytes of a string lie in the message at the address \<open>data\<close>; the reference to them
  is made a literal at once, in the block \<open>p\<close>. (The code does so in a temporary, returns a copy of it in a
  block of its own and frees the temporary's block; here \<open>p\<close> is the block of the value returned, and the
  block that does not outlive the call is left out.)
\<close>

definition reconstruct_string :: "TypeID \<Rightarrow> u64 \<Rightarrow> u64 \<Rightarrow> u8 list \<Rightarrow> heap \<Rightarrow> typed_value \<times> heap" where
  "reconstruct_string tid data p xs h = ensureNotReference p (TypedValue_reference tid data (length xs)) h"

definition TypedValue_ReconstructFromProto ::
  "u16 \<Rightarrow> u64 \<Rightarrow> u64 \<Rightarrow> value_proto \<Rightarrow> heap \<Rightarrow> typed_value \<times> heap" where
  "TypedValue_ReconstructFromProto padding data p proto h =
     (let inline = (\<lambda>v. (v, h))
      in case v_type_id proto of
           PROTO_INT \<Rightarrow> inline (case v_int_value proto of Some w \<Rightarrow> TypedValue_int w | None \<Rightarrow> TypedValue_null kInt)
         | PROTO_LONG \<Rightarrow> inline (case v_long_value proto of Some w \<Rightarrow> TypedValue_long w | None \<Rightarrow> TypedValue_null kLong)
         | PROTO_FLOAT \<Rightarrow> inline (case v_float_value proto of Some w \<Rightarrow> TypedValue_float w | None \<Rightarrow> TypedValue_null kFloat)
         | PROTO_DOUBLE \<Rightarrow>
             inline (case v_double_value proto of Some w \<Rightarrow> TypedValue_double w | None \<Rightarrow> TypedValue_null kDouble)
         | PROTO_DATE \<Rightarrow>
             inline (case v_date_value proto of
                       Some (year, month, day) \<Rightarrow> TypedValue_date padding (DateLit_Create year (ucast month) (ucast day))
                     | None \<Rightarrow> TypedValue_null kDate)
         | PROTO_DATETIME \<Rightarrow>
             inline (case v_datetime_value proto of
                       Some w \<Rightarrow> TypedValue_datetime (DatetimeLit w) | None \<Rightarrow> TypedValue_null kDatetime)
         | PROTO_DATETIME_INTERVAL \<Rightarrow>
             inline (case v_datetime_interval_value proto of
                       Some w \<Rightarrow> TypedValue_datetime_interval (DatetimeIntervalLit w)
                     | None \<Rightarrow> TypedValue_null kDatetimeInterval)
         | PROTO_YEAR_MONTH_INTERVAL \<Rightarrow>
             inline (case v_year_month_interval_value proto of
                       Some w \<Rightarrow> TypedValue_year_month_interval (YearMonthIntervalLit w)
                     | None \<Rightarrow> TypedValue_null kYearMonthInterval)
         | PROTO_CHAR \<Rightarrow>
             (case v_out_of_line_data proto of
                Some xs \<Rightarrow> reconstruct_string kChar data p xs h | None \<Rightarrow> inline (TypedValue_null kChar))
         | PROTO_VAR_CHAR \<Rightarrow>
             (case v_out_of_line_data proto of
                Some xs \<Rightarrow> reconstruct_string kVarChar data p xs h | None \<Rightarrow> inline (TypedValue_null kVarChar))
         | PROTO_NULL_TYPE \<Rightarrow> inline (TypedValue_null kNullType))"

section \<open>The fields of the information word\<close>

named_theorems value_simps "constructors and observers of values"

lemmas value_masks = kTypeIDMask_def kNullIndicatorMask_def kOwnershipMask_def kNonSizeBitsMask_def kSizeBitsMask_def
  kSizeShift_def

lemma bit_masks:
  "bit kTypeIDMask n \<longleftrightarrow> n < 6" "bit kNullIndicatorMask n \<longleftrightarrow> n = 6" "bit kOwnershipMask n \<longleftrightarrow> n = 7"
  "bit kNonSizeBitsMask n \<longleftrightarrow> n < 8" "bit kSizeBitsMask n \<longleftrightarrow> 8 \<le> n \<and> n < 64"
proof -
  have m: "bit (mask 6 :: u64) n \<longleftrightarrow> n < 6" "bit (push_bit 6 1 :: u64) n \<longleftrightarrow> n = 6"
    "bit (push_bit 7 1 :: u64) n \<longleftrightarrow> n = 7" "bit (mask 8 :: u64) n \<longleftrightarrow> n < 8"
    unfolding bit_push_bit_iff by (auto simp: bit_mask_iff bit_1_iff)
  have e: "kTypeIDMask = mask 6" "kNullIndicatorMask = push_bit 6 1" "kOwnershipMask = push_bit 7 1"
    "kNonSizeBitsMask = mask 8"
    by (simp_all add: value_masks mask_eq_exp_minus_1)
  show "bit kTypeIDMask n \<longleftrightarrow> n < 6" "bit kNullIndicatorMask n \<longleftrightarrow> n = 6" "bit kOwnershipMask n \<longleftrightarrow> n = 7"
    and n: "bit kNonSizeBitsMask n \<longleftrightarrow> n < 8"
    using m unfolding e by blast+
  show "bit kSizeBitsMask n \<longleftrightarrow> 8 \<le> n \<and> n < 64" using n by (auto simp: kSizeBitsMask_def bit_not_iff)
qed

lemma bit_type_code: "bit (type_code tid) n \<Longrightarrow> n < 4"
proof -
  have "type_code tid = take_bit 4 (type_code tid)" by (cases tid) (simp_all add: take_bit_eq_mod)
  then show "bit (type_code tid) n \<Longrightarrow> n < 4" by (metis bit_take_bit_iff)
qed

lemma TypeID_of_code_inverse [simp]: "TypeID_of_code (type_code tid) = tid"
  by (cases tid) (simp_all add: TypeID_of_code_def)

text \<open>An information word is its three low fields below the sz.\<close>

definition info_word :: "TypeID \<Rightarrow> bool \<Rightarrow> bool \<Rightarrow> nat \<Rightarrow> u64" where
  "info_word tid nul own sz =
     type_code tid OR (if nul then kNullIndicatorMask else 0) OR (if own then kOwnershipMask else 0) OR push_bit kSizeShift (of_nat sz)"

lemma bit_info_word:
  "bit (info_word tid nul own sz) n \<longleftrightarrow>
    (if n < 6 then bit (type_code tid) n else if n = 6 then nul else if n = 7 then own
     else n < 64 \<and> bit (of_nat sz :: u64) (n - 8))"
  using bit_type_code [of tid n] by (auto simp: info_word_def bit_simps bit_masks kSizeShift_def)

lemma and_nonzero_bit: "(w AND m :: u64) \<noteq> 0 \<longleftrightarrow> (\<exists>n. bit w n \<and> bit m n)"
  using bit_imp_le_length [of w] by (auto simp: bit_eq_iff bit_simps)

lemma info_word_null: "info_word tid nul own sz AND kNullIndicatorMask \<noteq> 0 \<longleftrightarrow> nul"
  unfolding and_nonzero_bit by (auto simp: bit_masks bit_info_word)

lemma info_word_own: "info_word tid nul own sz AND kOwnershipMask \<noteq> 0 \<longleftrightarrow> own"
  unfolding and_nonzero_bit by (auto simp: bit_masks bit_info_word)

lemma info_word_type: "info_word tid nul own sz AND kTypeIDMask = type_code tid"
  by (rule bit_word_eqI) (auto simp: bit_simps bit_masks bit_info_word dest: bit_type_code)

lemma info_word_shift:
  assumes "sz < 2 ^ 56"
  shows "unat (drop_bit 8 (info_word tid nul own sz)) = sz"
proof -
  have u: "unat (of_nat sz :: u64) = sz" using assms by (simp add: unat_of_nat take_bit_nat_eq_self)
  have high: "\<not> bit sz n" if "56 \<le> n" for n
  proof
    assume "bit sz n"
    then have "sz div 2 ^ n \<noteq> 0" by (metis bit_iff_odd even_zero)
    then have "2 ^ n \<le> sz" by (meson div_less not_less)
    moreover have "(2 :: nat) ^ 56 \<le> 2 ^ n" using that by (rule power_increasing) simp
    ultimately show False using assms by linarith
  qed
  have "drop_bit 8 (info_word tid nul own sz) = of_nat sz"
    by (rule bit_word_eqI) (use high in \<open>auto simp: bit_simps bit_info_word not_less intro: ccontr\<close>)
  then show ?thesis using u by simp
qed

lemma info_word_size_bits:
  assumes "sz < 2 ^ 56"
  shows "info_word tid nul own sz AND kSizeBitsMask \<noteq> 0 \<longleftrightarrow> sz \<noteq> 0"
proof -
  have "info_word tid nul own sz AND kSizeBitsMask = push_bit 8 (drop_bit 8 (info_word tid nul own sz))"
    by (rule bit_word_eqI) (auto simp: bit_simps bit_masks)
  moreover have "push_bit 8 w = 0 \<longleftrightarrow> w = 0" if "w = drop_bit 8 x" for w x :: u64
  proof
    assume "push_bit 8 w = 0"
    then have "drop_bit 8 (push_bit 8 w) = 0" by simp
    moreover have "drop_bit 8 (push_bit 8 w) = w"
      unfolding that by (rule bit_word_eqI) (auto simp: bit_simps dest: bit_imp_le_length)
    ultimately show "w = 0" by simp
  qed simp
  moreover have "drop_bit 8 (info_word tid nul own sz) = 0 \<longleftrightarrow> sz = 0"
    using info_word_shift [OF assms, of tid nul own] by (metis unat_eq_zero)
  ultimately show ?thesis by simp
qed

text \<open>
  A well-formed value: the information word has a type, and a sz only for non-null out-of-line data; a
  null value owns nothing.
\<close>

definition info_wf :: "TypeID \<Rightarrow> bool \<Rightarrow> bool \<Rightarrow> nat \<Rightarrow> bool" where
  "info_wf tid nul own sz \<longleftrightarrow> sz < 2 ^ 56 \<and> (nul \<or> RepresentedInline tid \<longrightarrow> sz = 0 \<and> \<not> own) \<and>
     (\<not> nul \<and> \<not> RepresentedInline tid \<longrightarrow> sz \<noteq> 0)"

definition value_wf :: "typed_value \<Rightarrow> bool" where
  "value_wf v \<longleftrightarrow> (\<exists>nul own sz. value_info v = info_word (getTypeID v) nul own sz \<and>
     info_wf (getTypeID v) nul own sz)"

lemma observe_info:
  assumes "value_info v = info_word tid nul own sz" "sz < 2 ^ 56"
  shows "getTypeID v = tid" "isNull v \<longleftrightarrow> nul" "ownsOutOfLineData v \<longleftrightarrow> own \<and> sz \<noteq> 0"
    "isReference v \<longleftrightarrow> \<not> own \<and> sz \<noteq> 0" "drop_bit 8 (value_info v) = of_nat sz"
    "\<not> RepresentedInline tid \<Longrightarrow> getDataSize v = sz"
proof -
  show t: "getTypeID v = tid" using assms(1) by (simp add: getTypeID_def info_word_type)
  show "isNull v \<longleftrightarrow> nul" using assms(1) by (simp add: isNull_def info_word_null)
  show "ownsOutOfLineData v \<longleftrightarrow> own \<and> sz \<noteq> 0"
    using assms by (simp add: ownsOutOfLineData_def info_word_own info_word_size_bits)
  show "isReference v \<longleftrightarrow> \<not> own \<and> sz \<noteq> 0"
    using info_word_own [of tid nul own sz] info_word_size_bits [OF assms(2), of tid nul own]
    unfolding isReference_def assms(1) by blast
  show "drop_bit 8 (value_info v) = of_nat sz"
    using arg_cong [OF info_word_shift [OF assms(2), of tid nul own], of "of_nat :: nat \<Rightarrow> u64"] by (simp add: assms(1))
  show "getDataSize v = sz" if "\<not> RepresentedInline tid"
    using that t info_word_shift [OF assms(2), of tid nul own] assms(1)
    by (cases tid) (simp_all add: getDataSize_def RepresentedInline_def kSizeShift_def)
qed

lemma info_word_or_own: "info_word tid nul own sz OR kOwnershipMask = info_word tid nul True sz"
  by (rule bit_word_eqI) (auto simp: bit_simps bit_masks bit_info_word)

lemma info_word_mark: "(info_word t nul own sz AND NOT kTypeIDMask) OR type_code tid = info_word tid nul own sz"
  by (rule bit_word_eqI) (auto simp: bit_simps bit_masks bit_info_word dest: bit_type_code)

lemma info_literal:
  "type_code tid = info_word tid False False 0"
  by (simp add: info_word_def)

lemma constructor_info [value_simps]:
  "value_info (TypedValue_int w) = info_word kInt False False 0"
  "value_info (TypedValue_long x) = info_word kLong False False 0"
  "value_info (TypedValue_float w) = info_word kFloat False False 0"
  "value_info (TypedValue_double x) = info_word kDouble False False 0"
  "value_info (TypedValue_date pad d) = info_word kDate False False 0"
  "value_info (TypedValue_datetime dt) = info_word kDatetime False False 0"
  "value_info (TypedValue_datetime_interval di) = info_word kDatetimeInterval False False 0"
  "value_info (TypedValue_year_month_interval ym) = info_word kYearMonthInterval False False 0"
  "value_info TypedValue_default = info_word kInt False False 0"
  "value_info (TypedValue_null tid) = info_word tid True False 0"
  "value_info (TypedValue_hash tid x) = info_word tid False False 0"
  "value_info (TypedValue_reference tid p n) = info_word tid False False n"
  "value_info (CreateWithOwnedData tid p n) = info_word tid False True n"
  by (simp_all add: TypedValue_int_def TypedValue_long_def TypedValue_float_def TypedValue_double_def TypedValue_date_def
      TypedValue_datetime_def TypedValue_datetime_interval_def TypedValue_year_month_interval_def TypedValue_default_def
      TypedValue_null_def TypedValue_hash_def TypedValue_reference_def CreateWithOwnedData_def info_word_def ac_simps)

lemma literal_fields:
  assumes "value_info v = info_word tid nul own 0"
  shows "getTypeID v = tid" "isNull v \<longleftrightarrow> nul" "\<not> ownsOutOfLineData v" "\<not> isReference v"
    "value_info v AND kSizeBitsMask = 0"
  using observe_info [OF assms] info_word_size_bits [of 0 tid nul own] assms by simp_all

lemma literal_observers [value_simps]:
  "getTypeID (TypedValue_int w) = kInt" "\<not> isNull (TypedValue_int w)"
  "getTypeID (TypedValue_long x) = kLong" "\<not> isNull (TypedValue_long x)"
  "getTypeID (TypedValue_float w) = kFloat" "\<not> isNull (TypedValue_float w)"
  "getTypeID (TypedValue_double x) = kDouble" "\<not> isNull (TypedValue_double x)"
  "getTypeID (TypedValue_date pad d) = kDate" "\<not> isNull (TypedValue_date pad d)"
  "getTypeID (TypedValue_datetime dt) = kDatetime" "\<not> isNull (TypedValue_datetime dt)"
  "getTypeID (TypedValue_datetime_interval di) = kDatetimeInterval" "\<not> isNull (TypedValue_datetime_interval di)"
  "getTypeID (TypedValue_year_month_interval ym) = kYearMonthInterval" "\<not> isNull (TypedValue_year_month_interval ym)"
  "getTypeID (TypedValue_null tid) = tid" "isNull (TypedValue_null tid)" "\<not> ownsOutOfLineData (TypedValue_null tid)"
  "getTypeID (TypedValue_hash tid x) = tid" "\<not> isNull (TypedValue_hash tid x)"
  by (simp_all add: literal_fields [OF constructor_info(1)] literal_fields [OF constructor_info(2)]
      literal_fields [OF constructor_info(3)] literal_fields [OF constructor_info(4)] literal_fields [OF constructor_info(5)]
      literal_fields [OF constructor_info(6)] literal_fields [OF constructor_info(7)] literal_fields [OF constructor_info(8)]
      literal_fields [OF constructor_info(10)] literal_fields [OF constructor_info(11)])

lemma reference_observers [value_simps]:
  assumes "n < 2 ^ 56"
  shows "getTypeID (TypedValue_reference tid p n) = tid" "\<not> isNull (TypedValue_reference tid p n)"
    "isReference (TypedValue_reference tid p n) \<longleftrightarrow> n \<noteq> 0" "\<not> ownsOutOfLineData (TypedValue_reference tid p n)"
    "\<not> RepresentedInline tid \<Longrightarrow> getDataSize (TypedValue_reference tid p n) = n"
    "value_union (TypedValue_reference tid p n) = p"
    "getTypeID (CreateWithOwnedData tid p n) = tid" "\<not> isNull (CreateWithOwnedData tid p n)"
    "ownsOutOfLineData (CreateWithOwnedData tid p n) \<longleftrightarrow> n \<noteq> 0" "\<not> isReference (CreateWithOwnedData tid p n)"
    "\<not> RepresentedInline tid \<Longrightarrow> getDataSize (CreateWithOwnedData tid p n) = n"
    "value_union (CreateWithOwnedData tid p n) = p"
  using observe_info [OF constructor_info(12) assms] observe_info [OF constructor_info(13) assms]
  by (simp_all add: TypedValue_reference_def CreateWithOwnedData_def)

section \<open>Literals come back\<close>

lemma ucast_ucast_u32: "ucast (ucast (w :: u32) :: u64) = w"
  by (rule bit_word_eqI) (auto simp: bit_simps)

lemma date_bits:
  "ucast (DateLit_bits d OR push_bit 48 (ucast (pad :: u16))) = date_year d"
  "ucast (drop_bit 32 (DateLit_bits d OR push_bit 48 (ucast (pad :: u16)))) = date_month d"
  "ucast (drop_bit 40 (DateLit_bits d OR push_bit 48 (ucast (pad :: u16)))) = date_day d"
  by (rule bit_word_eqI; auto simp: DateLit_bits_def bit_simps dest: bit_imp_le_length)+

lemma date_back: "getLiteral_date (TypedValue_date pad d) = d"
  unfolding getLiteral_date_def TypedValue_date_def typed_value.simps date_bits by simp

lemma literals_back [value_simps]:
  "getLiteral_int (TypedValue_int w) = w"
  "getLiteral_long (TypedValue_long x) = x"
  "getLiteral_float (TypedValue_float w) = (if fp_equal (f32 w) (fp_of_int 0) then 0 else w)"
  "getLiteral_double (TypedValue_double x) = (if fp_equal (f64 x) (fp_of_int 0) then 0 else x)"
  "getLiteral_date (TypedValue_date pad d) = d"
  "getLiteral_datetime (TypedValue_datetime dt) = dt"
  "getLiteral_datetime_interval (TypedValue_datetime_interval di) = di"
  "getLiteral_year_month_interval (TypedValue_year_month_interval ym) = ym"
  by (simp_all add: getLiteral_int_def TypedValue_int_def getLiteral_long_def TypedValue_long_def getLiteral_float_def
      TypedValue_float_def getLiteral_double_def TypedValue_double_def date_back
      getLiteral_datetime_def TypedValue_datetime_def getLiteral_datetime_interval_def TypedValue_datetime_interval_def
      getLiteral_year_month_interval_def TypedValue_year_month_interval_def ucast_ucast_u32)

section \<open>Ownership\<close>

text \<open>
  A set of live values as a list, and the memory. Each operation on the values of the list is a step; the
  address \<^verbatim>\<open>malloc\<close> returns is one that is no block of the memory at that point, as the C library
  documents.
\<close>

definition owned_block :: "typed_value \<Rightarrow> (u64 \<times> nat) list" where
  "owned_block v = (if ownsOutOfLineData v then [(value_union v, getDataSize v)] else [])"

definition owned_blocks :: "typed_value list \<Rightarrow> (u64 \<times> nat) list" where
  "owned_blocks vs = concat (map owned_block vs)"

definition ownership_inv :: "typed_value list \<Rightarrow> heap \<Rightarrow> bool" where
  "ownership_inv vs h \<longleftrightarrow> distinct (map fst (owned_blocks vs)) \<and> blocks h = map_of (owned_blocks vs)"

inductive value_step :: "typed_value list \<times> heap \<Rightarrow> typed_value list \<times> heap \<Rightarrow> bool" where
  make: "\<not> ownsOutOfLineData v \<Longrightarrow> value_step (vs, h) (vs @ [v], h)"
| make_owned: "p \<notin> dom (blocks h) \<Longrightarrow> 0 < n \<Longrightarrow> n < 2 ^ 56 \<Longrightarrow> \<not> RepresentedInline tid \<Longrightarrow>
    value_step (vs, h) (vs @ [CreateWithOwnedData tid p n], malloc_block p n h)"
| copy: "i < length vs \<Longrightarrow> p \<notin> dom (blocks h) \<Longrightarrow> TypedValue_copy p (vs ! i) h = (v, h') \<Longrightarrow>
    value_step (vs, h) (vs @ [v], h')"
| move: "i < length vs \<Longrightarrow> TypedValue_move (vs ! i) = (v, old) \<Longrightarrow> value_step (vs, h) (vs[i := old] @ [v], h)"
| copy_assign: "i < length vs \<Longrightarrow> j < length vs \<Longrightarrow> i \<noteq> j \<Longrightarrow> TypedValue_destroy (vs ! i) h = Some h1 \<Longrightarrow>
    p \<notin> dom (blocks h1) \<Longrightarrow> copy_assign p (vs ! i) (vs ! j) h = Some (v, h') \<Longrightarrow>
    value_step (vs, h) (vs[i := v], h')"
| move_assign: "i < length vs \<Longrightarrow> j < length vs \<Longrightarrow> i \<noteq> j \<Longrightarrow>
    move_assign (vs ! i) (vs ! j) h = Some (v, old, h') \<Longrightarrow> value_step (vs, h) (vs[i := v, j := old], h')"
| clear: "i < length vs \<Longrightarrow> clear_value (vs ! i) h = Some (v, h') \<Longrightarrow> value_step (vs, h) (vs[i := v], h')"
| ensure: "i < length vs \<Longrightarrow> p \<notin> dom (blocks h) \<Longrightarrow> ensureNotReference p (vs ! i) h = (v, h') \<Longrightarrow>
    value_step (vs, h) (vs[i := v], h')"
| destroy: "i < length vs \<Longrightarrow> TypedValue_destroy (vs ! i) h = Some h' \<Longrightarrow>
    value_step (vs, h) (take i vs @ drop (Suc i) vs, h')"

inductive_cases value_stepE: "value_step s t"

lemma owned_blocks_simps [simp]:
  "owned_blocks [] = []" "owned_blocks (v # vs) = owned_block v @ owned_blocks vs"
  "owned_blocks (vs @ ws) = owned_blocks vs @ owned_blocks ws"
  by (simp_all add: owned_blocks_def)

text \<open>The blocks of a list with the one at an index taken out.\<close>

definition other_blocks :: "nat \<Rightarrow> typed_value list \<Rightarrow> (u64 \<times> nat) list" where
  "other_blocks i vs = owned_blocks (take i vs) @ owned_blocks (drop (Suc i) vs)"

lemma owned_blocks_split:
  assumes "i < length vs"
  shows "mset (owned_blocks vs) = mset (owned_block (vs ! i)) + mset (other_blocks i vs)"
proof -
  have "owned_blocks vs = owned_blocks (take i vs) @ owned_block (vs ! i) @ owned_blocks (drop (Suc i) vs)"
    using arg_cong [OF id_take_nth_drop [OF assms], of owned_blocks] by simp
  then show ?thesis by (simp add: other_blocks_def)
qed

lemma owned_blocks_update:
  assumes "i < length vs"
  shows "mset (owned_blocks (vs[i := v])) = mset (owned_block v) + mset (other_blocks i vs)"
  using assms by (simp add: upd_conv_take_nth_drop other_blocks_def)

text \<open>The invariant depends on the multiset of blocks only.\<close>

definition blocks_inv :: "(u64 \<times> nat) multiset \<Rightarrow> heap \<Rightarrow> bool" where
  "blocks_inv bs h \<longleftrightarrow> (\<exists>xs. mset xs = bs \<and> distinct (map fst xs) \<and> blocks h = map_of xs)"

lemma map_of_mset_eq:
  assumes "mset xs = mset ys" "distinct (map fst xs)"
  shows "distinct (map fst ys)" "map_of ys = map_of xs"
proof -
  have "mset (map fst xs) = mset (map fst ys)" using assms(1) by (metis mset_map)
  then show d: "distinct (map fst ys)" using assms(2) by (metis mset_eq_imp_distinct_iff)
  have "set xs = set ys" using assms(1) by (metis set_mset_mset)
  then have "map_of ys k = Some v \<longleftrightarrow> map_of xs k = Some v" for k v
    using map_of_eq_Some_iff [OF d] map_of_eq_Some_iff [OF assms(2)] by simp
  then show "map_of ys = map_of xs" by (intro ext) (metis not_None_eq)
qed

lemma ownership_blocks_inv: "ownership_inv vs h \<longleftrightarrow> blocks_inv (mset (owned_blocks vs)) h"
  using map_of_mset_eq unfolding ownership_inv_def blocks_inv_def by metis

lemma blocks_inv_add:
  assumes "blocks_inv bs h" "p \<notin> dom (blocks h)" "blocks h' = (blocks h)(p \<mapsto> n)"
  shows "blocks_inv (add_mset (p, n) bs) h'"
proof -
  obtain xs where xs: "mset xs = bs" "distinct (map fst xs)" "blocks h = map_of xs"
    using assms(1) by (auto simp: blocks_inv_def)
  then have "p \<notin> fst ` set xs" using assms(2) by (simp add: dom_map_of_conv_image_fst)
  then show ?thesis unfolding blocks_inv_def
    using xs assms(3) by (intro exI [of _ "(p, n) # xs"]) simp
qed

lemma blocks_inv_remove:
  assumes "blocks_inv (add_mset (p, n) bs) h"
  shows "\<exists>h'. free_block p h = Some h' \<and> blocks_inv bs h' \<and> blocks h p = Some n"
proof -
  obtain xs where xs: "mset xs = add_mset (p, n) bs" "distinct (map fst xs)" "blocks h = map_of xs"
    using assms by (auto simp: blocks_inv_def)
  define ys where "ys = remove1 (p, n) xs"
  have mem: "(p, n) \<in> set xs" using xs(1) by (metis set_mset_mset union_single_eq_member)
  have "mset ((p, n) # ys) = mset xs" using mem by (simp add: ys_def)
  from map_of_mset_eq [OF this [symmetric] xs(2)]
  have d: "distinct (map fst ((p, n) # ys))" and m: "map_of xs = map_of ((p, n) # ys)" by simp_all
  have "mset ys = bs" using mem xs(1) by (simp add: ys_def)
  moreover have "(map_of ys)(p := None) = map_of ys"
    using d by (simp add: fun_upd_idem map_of_eq_None_iff)
  ultimately show ?thesis using d xs(3) m
    unfolding blocks_inv_def free_block_def by (intro exI [of _ "h\<lparr>blocks := map_of ys\<rparr>"]) auto
qed

lemma blocks_inv_same: "blocks_inv bs h \<Longrightarrow> blocks h' = blocks h \<Longrightarrow> blocks_inv bs h'"
  by (simp add: blocks_inv_def)

lemma own_bit_fields:
  "(x OR kOwnershipMask) AND kTypeIDMask = x AND kTypeIDMask"
  "(x OR kOwnershipMask) AND kSizeBitsMask = x AND kSizeBitsMask"
  "(x OR kOwnershipMask) AND kOwnershipMask = kOwnershipMask"
  "(x OR kOwnershipMask) AND kNullIndicatorMask = x AND kNullIndicatorMask"
  "drop_bit kSizeShift (x OR kOwnershipMask) = drop_bit kSizeShift x"
  by (rule bit_word_eqI; auto simp: bit_simps bit_masks kSizeShift_def)+

lemma ownership_bit: "kOwnershipMask \<noteq> 0"
  by (simp add: kOwnershipMask_def)

lemma convertToLiteral_effect:
  assumes "convertToLiteral p v h = (v', h')"
  shows "getTypeID v' = getTypeID v" "getDataSize v' = getDataSize v" "isNull v' = isNull v" "value_union v' = p"
    "blocks h' = (blocks h)(p \<mapsto> getDataSize v)"
    "ownsOutOfLineData v' \<longleftrightarrow> value_info v AND kSizeBitsMask \<noteq> 0"
proof -
  have v': "v' = v\<lparr>value_union := p, value_info := value_info v OR kOwnershipMask\<rparr>"
    and h': "blocks h' = blocks (malloc_block p (getDataSize v) h)"
    using assms by (auto simp: convertToLiteral_def Let_def write_bytes_def)
  show t: "getTypeID v' = getTypeID v" by (simp add: v' getTypeID_def own_bit_fields)
  have s: "drop_bit kSizeShift (value_info v') = drop_bit kSizeShift (value_info v)"
    using own_bit_fields(5) by (simp del: drop_bit_or add: v')
  show "getDataSize v' = getDataSize v" unfolding getDataSize_def t s by (rule refl)
  show "isNull v' = isNull v" by (simp add: v' isNull_def own_bit_fields)
  show "value_union v' = p" by (simp add: v')
  show "blocks h' = (blocks h)(p \<mapsto> getDataSize v)" by (simp add: h' malloc_block_def)
  show "ownsOutOfLineData v' \<longleftrightarrow> value_info v AND kSizeBitsMask \<noteq> 0"
    by (simp add: v' ownsOutOfLineData_def own_bit_fields ownership_bit)
qed

lemma convertToLiteral_owned:
  assumes "convertToLiteral p v h = (v', h')" "ownsOutOfLineData v \<or> isReference v"
  shows "owned_block v' = [(p, getDataSize v)]" "blocks h' = (blocks h)(p \<mapsto> getDataSize v)"
  using convertToLiteral_effect [OF assms(1)] assms(2)
  by (auto simp: owned_block_def ownsOutOfLineData_def isReference_def)

lemma moved_value: "owned_block (v\<lparr>value_info := 0\<rparr>) = []" "owned_block \<lparr>value_union = u, value_info = 0\<rparr> = []"
  by (simp_all add: owned_block_def ownsOutOfLineData_def)

lemma owned_block_same:
  "owned_block \<lparr>value_union = value_union v, value_info = value_info v\<rparr> = owned_block v"
  by (cases v) simp

lemma destroy_effect:
  assumes "blocks_inv (mset (owned_block v) + bs) h"
  shows "\<exists>h'. TypedValue_destroy v h = Some h' \<and> blocks_inv bs h'"
  using assms blocks_inv_remove [of "value_union v" "getDataSize v" bs h]
  by (auto simp: TypedValue_destroy_def owned_block_def)

lemma copy_effect:
  assumes "TypedValue_copy p orig h = (v, h')" "blocks_inv bs h" "p \<notin> dom (blocks h)"
  shows "blocks_inv (mset (owned_block v) + bs) h'"
proof (cases "ownsOutOfLineData orig")
  case True
  then have c: "convertToLiteral p orig h = (v, h')" using assms(1) by (simp add: TypedValue_copy_def)
  show ?thesis using convertToLiteral_owned [OF c] True blocks_inv_add [OF assms(2,3)] by simp
next
  case False
  then show ?thesis using assms by (auto simp: TypedValue_copy_def owned_block_def)
qed

lemma copy_of_reassigned: "TypedValue_copy p \<lparr>value_union = value_union v, value_info = value_info v\<rparr> h = TypedValue_copy p v h"
  by (cases v) simp

lemma copy_assign_destroy_copy:
  "copy_assign p this rhs h = Option.bind (TypedValue_destroy this h) (\<lambda>h. Some (TypedValue_copy p rhs h))"
  by (cases rhs) (auto simp: copy_assign_def TypedValue_destroy_def TypedValue_copy_def Let_def)

lemma move_assign_destroy:
  "move_assign this rhs h = map_option (\<lambda>h. (rhs, rhs\<lparr>value_info := 0\<rparr>, h)) (TypedValue_destroy this h)"
  by (cases rhs; cases "free_block (value_union this) h") (auto simp: move_assign_def TypedValue_destroy_def)

lemma clear_destroy: "clear_value v h = map_option (\<lambda>h. (\<lparr>value_union = 0, value_info = 0\<rparr>, h)) (TypedValue_destroy v h)"
  by (cases "free_block (value_union v) h") (auto simp: clear_value_def TypedValue_destroy_def)


inductive value_reachable :: "typed_value list \<times> heap \<Rightarrow> bool" where
  start: "blocks h = Map.empty \<Longrightarrow> value_reachable ([], h)"
| step: "value_reachable s \<Longrightarrow> value_step s t \<Longrightarrow> value_reachable t"

lemma copied_reference_blocks:
  assumes "ensureNotReference p v h = (v', h')" "blocks_inv (mset (owned_block v) + bs) h" "p \<notin> dom (blocks h)"
  shows "blocks_inv (mset (owned_block v') + bs) h'"
proof (cases "isReference v")
  case True
  then have c: "convertToLiteral p v h = (v', h')" using assms(1) by (simp add: ensureNotReference_def)
  have "owned_block v = []" using True by (simp add: owned_block_def isReference_def ownsOutOfLineData_def)
  then show ?thesis using convertToLiteral_owned [OF c] True blocks_inv_add [of bs h] assms(2,3) by simp
next
  case False
  then show ?thesis using assms by (simp add: ensureNotReference_def)
qed

lemma CreateWithOwnedData_block:
  assumes "0 < n" "n < 2 ^ 56" "\<not> RepresentedInline tid"
  shows "owned_block (CreateWithOwnedData tid p n) = [(p, n)]"
  using reference_observers [OF assms(2), of tid p] assms by (simp add: owned_block_def)

lemma step_blocks_inv:
  assumes "value_step (vs, h) (vs', h')" "blocks_inv (mset (owned_blocks vs)) h"
  shows "blocks_inv (mset (owned_blocks vs')) h'"
  using assms(1)
proof cases
  case (make v)
  then show ?thesis using assms(2) by (simp add: owned_block_def)
next
  case (make_owned p n tid)
  then show ?thesis
    using blocks_inv_add [OF assms(2), of p "malloc_block p n h" n]
    by (simp add: CreateWithOwnedData_block malloc_block_def)
next
  case (copy i p v)
  then show ?thesis using copy_effect [OF copy(4) assms(2) copy(3)] by (simp add: add.commute)
next
  case (move i v old)
  then have "v = vs ! i" "old = (vs ! i)\<lparr>value_info := 0\<rparr>" by (auto simp: TypedValue_move_def)
  then show ?thesis using assms(2) owned_blocks_split [OF move(3)] owned_blocks_update [OF move(3), of old] move
    by (simp add: moved_value add.commute)
next
  case (copy_assign i j h1 p v)
  have "TypedValue_copy p (vs ! j) h1 = (v, h')"
    using copy_assign(5,7) by (simp add: copy_assign_destroy_copy)
  moreover have "blocks_inv (mset (other_blocks i vs)) h1"
    using destroy_effect [of "vs ! i" "mset (other_blocks i vs)" h] assms(2) owned_blocks_split [OF copy_assign(2)]
      copy_assign(5) by auto
  ultimately show ?thesis
    using copy_effect [OF _ _ copy_assign(6)] copy_assign(1) owned_blocks_update [OF copy_assign(2), of v] by simp
next
  case (move_assign i j v old)
  let ?vs1 = "vs[i := v]"
  have v: "v = vs ! j" "old = (vs ! j)\<lparr>value_info := 0\<rparr>" and d: "TypedValue_destroy (vs ! i) h = Some h'"
    using move_assign(5) by (auto simp: move_assign_destroy)
  have "blocks_inv (mset (other_blocks i vs)) h'"
    using destroy_effect [of "vs ! i" "mset (other_blocks i vs)" h] assms(2) owned_blocks_split [OF move_assign(2)] d
    by auto
  moreover have "mset (other_blocks j ?vs1) = mset (other_blocks i vs)"
    using owned_blocks_split [of j ?vs1] owned_blocks_update [OF move_assign(2), of v] move_assign(2,3,4) v(1) by simp
  ultimately show ?thesis
    using owned_blocks_update [of j ?vs1 old] move_assign(1,3) v(2) by (simp add: moved_value)
next
  case (clear i v)
  then have v: "v = \<lparr>value_union = 0, value_info = 0\<rparr>" and d: "TypedValue_destroy (vs ! i) h = Some h'"
    by (auto simp: clear_destroy)
  then show ?thesis
    using destroy_effect [of "vs ! i" "mset (other_blocks i vs)" h] assms(2) owned_blocks_split [OF clear(2)]
      owned_blocks_update [OF clear(2), of v] clear(1) by (auto simp: moved_value)
next
  case (ensure i p v)
  then show ?thesis
    using copied_reference_blocks [OF ensure(4) _ ensure(3), of "mset (other_blocks i vs)"] assms(2)
      owned_blocks_split [OF ensure(2)] owned_blocks_update [OF ensure(2), of v] by simp
next
  case (destroy i)
  have "mset (owned_blocks vs') = mset (other_blocks i vs)" using destroy(1) by (simp add: other_blocks_def)
  then show ?thesis
    using destroy_effect [of "vs ! i" "mset (other_blocks i vs)" h] assms(2) owned_blocks_split [OF destroy(2)]
      destroy(3) by auto
qed

lemma reachable_blocks_inv: "value_reachable s \<Longrightarrow> blocks_inv (mset (owned_blocks (fst s))) (snd s)"
proof (induction rule: value_reachable.induct)
  case (start h)
  then show ?case by (simp add: blocks_inv_def)
next
  case (step s t)
  then show ?case using step_blocks_inv [of "fst s" "snd s" "fst t" "snd t"] by simp
qed

lemma destroy_defined:
  assumes "blocks_inv (mset (owned_blocks vs)) h" "i < length vs"
  shows "TypedValue_destroy (vs ! i) h \<noteq> None"
  using destroy_effect [of "vs ! i" "mset (other_blocks i vs)" h] assms owned_blocks_split [OF assms(2)] by auto


lemma dom_owned_blocks: "dom (map_of (owned_blocks vs)) = value_union ` {v \<in> set vs. ownsOutOfLineData v}"
  by (induction vs) (auto simp: owned_block_def)

text \<open>
  C13: However values are made, copied, moved, assigned, cleared, made literals of their own and destroyed,
  the blocks of memory are exactly the blocks the live values own, each owned by one value and of its
  data size; no operation of a live value then frees a block twice or one that was never allocated.
\<close>

theorem owned_blocks_once:
  assumes "value_reachable (vs, h)" "i < length vs" "j < length vs"
  shows "distinct (map fst (owned_blocks vs)) \<and> blocks h = map_of (owned_blocks vs) \<and>
    dom (blocks h) = value_union ` {v \<in> set vs. ownsOutOfLineData v} \<and>
    TypedValue_destroy (vs ! i) h \<noteq> None \<and> clear_value (vs ! i) h \<noteq> None \<and>
    copy_assign p (vs ! i) (vs ! j) h \<noteq> None \<and> move_assign (vs ! i) (vs ! j) h \<noteq> None"
proof -
  have b: "blocks_inv (mset (owned_blocks vs)) h" using reachable_blocks_inv [OF assms(1)] by simp
  then have "ownership_inv vs h" by (simp add: ownership_blocks_inv)
  then show ?thesis
    using destroy_defined [OF b assms(2)] dom_owned_blocks [of vs]
    by (auto simp: ownership_inv_def clear_destroy copy_assign_destroy_copy move_assign_destroy)
qed

text \<open>A run that makes a string, copies it, and moves the copy.\<close>

definition sample_heap :: heap where
  "sample_heap = \<lparr>bytes = (\<lambda>_. 7), blocks = Map.empty\<rparr>"

lemma sample_run:
  "\<exists>h. value_reachable ([CreateWithOwnedData kVarChar 0x1000 4], h)"
proof -
  have "value_step ([], sample_heap) ([] @ [CreateWithOwnedData kVarChar 0x1000 4], malloc_block 0x1000 4 sample_heap)"
    by (rule value_step.make_owned) (simp_all add: sample_heap_def RepresentedInline_def)
  then show ?thesis using value_reachable.step [OF value_reachable.start [of sample_heap]] by (auto simp: sample_heap_def)
qed

theorem owned_blocks_once_witness:
  "\<exists>h. TypedValue_destroy (CreateWithOwnedData kVarChar 0x1000 4) h \<noteq> None \<and> dom (blocks h) = {0x1000}"
proof -
  let ?vs = "[CreateWithOwnedData kVarChar 0x1000 4]"
  obtain h where h: "value_reachable (?vs, h)" using sample_run by blast
  have i: "0 < length ?vs" by simp
  have "TypedValue_destroy (?vs ! 0) h \<noteq> None" "dom (blocks h) = value_union ` {v \<in> set ?vs. ownsOutOfLineData v}"
    using owned_blocks_once [OF h i i] by blast+
  moreover have "ownsOutOfLineData (CreateWithOwnedData kVarChar 0x1000 4)"
    "value_union (CreateWithOwnedData kVarChar 0x1000 4) = 0x1000"
    by (simp_all add: reference_observers(9,12))
  ultimately show ?thesis by (intro exI [of _ h]) (auto simp: image_def)
qed

lemma destroy_all:
  assumes "blocks_inv (mset (owned_blocks vs)) h"
  shows "\<exists>h'. value_step\<^sup>*\<^sup>* (vs, h) ([], h') \<and> blocks_inv {#} h'"
  using assms
proof (induction vs arbitrary: h)
  case Nil
  then show ?case by auto
next
  case (Cons v vs)
  then obtain h1 where d: "TypedValue_destroy v h = Some h1" and b: "blocks_inv (mset (owned_blocks vs)) h1"
    using destroy_effect [of v "mset (owned_blocks vs)" h] by auto
  have "value_step (v # vs, h) (vs, h1)" using value_step.destroy [of 0 "v # vs" h h1] d by simp
  then show ?case using Cons.IH [OF b] by (meson converse_rtranclp_into_rtranclp)
qed

text \<open>
  C14: From every state the live values can be destroyed one after the other, and when the last of them is
  gone all memory has been given back.
\<close>

theorem all_memory_returned:
  assumes "value_reachable (vs, h)"
  shows "\<exists>h'. value_step\<^sup>*\<^sup>* (vs, h) ([], h') \<and> blocks h' = Map.empty"
  using destroy_all [of vs h] reachable_blocks_inv [OF assms] by (fastforce simp: blocks_inv_def)

theorem all_memory_returned_witness:
  "\<exists>h h'. value_step\<^sup>*\<^sup>* ([CreateWithOwnedData kVarChar 0x1000 4], h) ([], h') \<and> blocks h' = Map.empty"
proof -
  obtain h where "value_reachable ([CreateWithOwnedData kVarChar 0x1000 4], h)" using sample_run by blast
  from all_memory_returned [OF this] show ?thesis by blast
qed

section \<open>The bytes of a copy\<close>

text \<open>Two regions of memory without a common address.\<close>

definition regions_disjoint :: "u64 \<Rightarrow> u64 \<Rightarrow> nat \<Rightarrow> bool" where
  "regions_disjoint p q n \<longleftrightarrow> n \<le> unat (p - q) \<and> n \<le> unat (q - p)"

lemma read_write_bytes:
  assumes "length xs < 2 ^ 64"
  shows "read_bytes (write_bytes p xs h) p (length xs) = xs"
proof (rule nth_equalityI)
  fix i assume "i < length (read_bytes (write_bytes p xs h) p (length xs))"
  then have i: "i < length xs" by (simp add: read_bytes_def)
  then have "unat (of_nat i :: u64) = i" using assms by (simp add: unat_of_nat take_bit_nat_eq_self)
  then show "read_bytes (write_bytes p xs h) p (length xs) ! i = xs ! i"
    using i by (simp add: read_bytes_def write_bytes_def)
qed (simp add: read_bytes_def)

lemma unat_add_offset:
  fixes d :: u64
  assumes "unat d + n \<le> 2 ^ 64" "i < n"
  shows "unat (d + of_nat i) = unat d + i"
proof -
  have "unat (of_nat i :: u64) = i" using assms by (simp add: unat_of_nat take_bit_nat_eq_self)
  then show ?thesis using assms by (simp add: unat_word_ariths)
qed

lemma read_other_bytes:
  assumes "regions_disjoint p q n" "length xs = n"
  shows "read_bytes (write_bytes p xs h) q n = read_bytes h q n"
proof -
  have "\<not> unat (q + of_nat i - p) < n" if i: "i < n" for i
  proof -
    have d: "n \<le> unat (q - p)" "n \<le> unat (p - q)" using assms(1) by (simp_all add: regions_disjoint_def)
    have n: "unat (q - p) + n \<le> 2 ^ 64"
    proof (cases "q = p")
      case True
      then show ?thesis using d by simp
    next
      case False
      then have "0 < unat (q - p)" by (simp add: unat_gt_0)
      moreover have "(unat (p - q) + unat (q - p)) mod 2 ^ 64 = 0"
        using unat_word_ariths(1) [of "p - q" "q - p"] by simp
      moreover have "unat (q - p) < 2 ^ 64" "unat (p - q) < 2 ^ 64"
        using unsigned_less [of "q - p", where 'a = nat] unsigned_less [of "p - q", where 'a = nat] by simp_all
      ultimately have "unat (p - q) + unat (q - p) = 2 ^ 64" by (auto elim!: dvdE simp flip: dvd_eq_mod_eq_0)
      then show ?thesis using d by simp
    qed
    have "unat (q - p + of_nat i) = unat (q - p) + i" by (rule unat_add_offset [OF n i])
    moreover have "q + of_nat i - p = q - p + of_nat i" by simp
    ultimately show ?thesis using d(1) by (simp only: not_less)
  qed
  then show ?thesis using assms(2) by (simp add: read_bytes_def write_bytes_def)
qed


lemma bytes_convert:
  assumes "convertToLiteral p v h = (v', h')" "getDataSize v < 2 ^ 64"
  shows "out_of_line_bytes h' v' = out_of_line_bytes h v"
    "regions_disjoint p (value_union v) (getDataSize v) \<Longrightarrow> out_of_line_bytes h' v = out_of_line_bytes h v"
proof -
  let ?xs = "read_bytes h (value_union v) (getDataSize v)"
  have m: "read_bytes (malloc_block q n h) a k = read_bytes h a k" for q n a k
    by (simp add: read_bytes_def malloc_block_def)
  have l: "length (read_bytes k a n) = n" for k a n by (simp add: read_bytes_def)
  have h': "h' = write_bytes p ?xs (malloc_block p (getDataSize v) h)"
    using assms(1) by (auto simp: convertToLiteral_def Let_def m)
  show "out_of_line_bytes h' v' = out_of_line_bytes h v"
    using read_write_bytes [of ?xs p "malloc_block p (getDataSize v) h"] assms(2) h'
    by (simp add: out_of_line_bytes_def convertToLiteral_effect(2,4) [OF assms(1)] l)
  show "out_of_line_bytes h' v = out_of_line_bytes h v" if "regions_disjoint p (value_union v) (getDataSize v)"
    using read_other_bytes [OF that, of ?xs "malloc_block p (getDataSize v) h"] h'
    by (simp add: out_of_line_bytes_def l m)
qed

text \<open>
  C15: A copy of a value that owns data out of line has its type, its null bit, its data size and, in the
  block allocated for it, its bytes; when that block does not overlap the original's, the bytes of the
  original stay, and writing to the memory of either of the two leaves the other one's bytes. A copy of
  any other value (an inline value, a null, a reference to data someone else owns) is that value itself
  and allocates nothing; so the copy of a reference shares its bytes, now and after every later store.
\<close>

theorem copies_are_independent:
  assumes "TypedValue_copy p v h = (v', h')"
  shows "getTypeID v' = getTypeID v \<and> isNull v' = isNull v \<and>
    (if ownsOutOfLineData v
     then ownsOutOfLineData v' \<and> value_union v' = p \<and>
       (getDataSize v < 2 ^ 64 \<and> regions_disjoint p (value_union v) (getDataSize v) \<longrightarrow>
         getDataSize v' = getDataSize v \<and> out_of_line_bytes h' v' = out_of_line_bytes h v \<and>
         out_of_line_bytes h' v = out_of_line_bytes h v \<and>
         (\<forall>xs. length xs = getDataSize v \<longrightarrow>
           out_of_line_bytes (write_bytes p xs h') v = out_of_line_bytes h v \<and>
           out_of_line_bytes (write_bytes (value_union v) xs h') v' = out_of_line_bytes h v))
     else v' = v \<and> h' = h \<and> (\<forall>g. out_of_line_bytes g v' = out_of_line_bytes g v))"
proof (cases "ownsOutOfLineData v")
  case False
  then show ?thesis using assms by (simp add: TypedValue_copy_def)
next
  case True
  have c: "convertToLiteral p v h = (v', h')" using assms True by (simp add: TypedValue_copy_def)
  note e = convertToLiteral_effect [OF c] and b = bytes_convert [OF c]
  have *: "getDataSize v' = getDataSize v \<and> out_of_line_bytes h' v' = out_of_line_bytes h v \<and>
      out_of_line_bytes h' v = out_of_line_bytes h v \<and>
      out_of_line_bytes (write_bytes p xs h') v = out_of_line_bytes h v \<and>
      out_of_line_bytes (write_bytes (value_union v) xs h') v' = out_of_line_bytes h v"
    if n: "getDataSize v < 2 ^ 64" "regions_disjoint p (value_union v) (getDataSize v)" "length xs = getDataSize v" for xs
  proof -
    have d: "regions_disjoint (value_union v) p (getDataSize v)" using n(2) by (simp add: regions_disjoint_def)
    have "out_of_line_bytes h' v' = out_of_line_bytes h v" "out_of_line_bytes h' v = out_of_line_bytes h v"
      using b n by simp_all
    moreover have "out_of_line_bytes (write_bytes p xs h') v = out_of_line_bytes h' v"
      using read_other_bytes [OF n(2,3)] by (simp add: out_of_line_bytes_def)
    moreover have "out_of_line_bytes (write_bytes (value_union v) xs h') v' = out_of_line_bytes h' v'"
      using read_other_bytes [OF d n(3)] e(2,4) by (simp add: out_of_line_bytes_def)
    ultimately show ?thesis using e by simp
  qed
  from * [of "replicate (getDataSize v) 0"] * e True show ?thesis
    by (simp add: ownsOutOfLineData_def)
qed

theorem copies_are_independent_witness:
  "out_of_line_bytes (snd (TypedValue_copy 0x2000 (CreateWithOwnedData kChar 0x1000 4) sample_heap))
     (fst (TypedValue_copy 0x2000 (CreateWithOwnedData kChar 0x1000 4) sample_heap)) = [7, 7, 7, 7]"
proof -
  let ?v = "CreateWithOwnedData kChar 0x1000 4"
  have o: "ownsOutOfLineData ?v" "getDataSize ?v = 4" "value_union ?v = 0x1000"
    by (simp_all add: reference_observers(9,11,12) RepresentedInline_def)
  have "regions_disjoint 0x2000 (value_union ?v) (getDataSize ?v)" by (simp add: regions_disjoint_def o)
  with copies_are_independent [where p = "0x2000" and v = ?v and h = sample_heap, OF prod.collapse [symmetric]]
  have "out_of_line_bytes (snd (TypedValue_copy 0x2000 ?v sample_heap)) (fst (TypedValue_copy 0x2000 ?v sample_heap)) =
    out_of_line_bytes sample_heap ?v" using o(1,2) by simp
  moreover have "out_of_line_bytes sample_heap ?v = [7, 7, 7, 7]"
    by (simp add: out_of_line_bytes_def o read_bytes_def sample_heap_def upt_rec)
  ultimately show ?thesis by simp
qed

section \<open>Fast equality and hashing\<close>

lemma ucast_u32_eq: "(ucast v :: u64) = ucast w \<longleftrightarrow> v = (w :: u32)"
  by (metis ucast_ucast_u32)

lemma date_padding: "ucast (drop_bit 48 (DateLit_bits d OR push_bit 48 (ucast (pad :: u16)))) = pad"
  by (rule bit_word_eqI) (auto simp: DateLit_bits_def bit_simps dest: bit_imp_le_length)

lemma date_union_eq:
  "value_union (TypedValue_date pad a) = value_union (TypedValue_date pad' a') \<longleftrightarrow> a = a' \<and> pad = pad'"
proof
  assume "value_union (TypedValue_date pad a) = value_union (TypedValue_date pad' a')"
  then have e: "DateLit_bits a OR push_bit 48 (ucast pad) = DateLit_bits a' OR push_bit 48 (ucast pad')"
    by (simp only: TypedValue_date_def typed_value.simps)
  have p: "pad = pad'" using date_padding [of a pad] date_padding [of a' pad'] unfolding e by (rule trans [OF sym])
  have "a = a'"
    by (rule DateLit.expand) (simp only: date_bits(1-3) [of a pad, unfolded e] flip: date_bits [of a' pad'])
  then show "a = a' \<and> pad = pad'" using p ..
qed simp

lemma fast_equal_inline:
  "getTypeID v \<notin> {kChar, kVarChar, kNullType} \<Longrightarrow> fastEqualCheck h v w \<longleftrightarrow> value_union v = value_union w"
  by (cases "getTypeID v") (simp_all add: fastEqualCheck_def Let_def)

lemma literal_unions:
  "value_union (TypedValue_int i) = value_union (TypedValue_int i') \<longleftrightarrow> i = i'"
  "value_union (TypedValue_long l) = value_union (TypedValue_long l') \<longleftrightarrow> l = l'"
  "value_union (TypedValue_float f) = value_union (TypedValue_float f') \<longleftrightarrow>
    (if fp_equal (f32 f) (fp_of_int 0) then 0 else f) = (if fp_equal (f32 f') (fp_of_int 0) then 0 else f')"
  "value_union (TypedValue_double d) = value_union (TypedValue_double d') \<longleftrightarrow>
    (if fp_equal (f64 d) (fp_of_int 0) then 0 else d) = (if fp_equal (f64 d') (fp_of_int 0) then 0 else d')"
  "value_union (TypedValue_datetime t) = value_union (TypedValue_datetime t') \<longleftrightarrow> t = t'"
  "value_union (TypedValue_datetime_interval v) = value_union (TypedValue_datetime_interval v') \<longleftrightarrow> v = v'"
  "value_union (TypedValue_year_month_interval y) = value_union (TypedValue_year_month_interval y') \<longleftrightarrow> y = y'"
  unfolding TypedValue_int_def TypedValue_long_def TypedValue_float_def TypedValue_double_def TypedValue_datetime_def
    TypedValue_datetime_interval_def TypedValue_year_month_interval_def typed_value.simps ucast_u32_eq
  by (auto intro: DatetimeLit.expand DatetimeIntervalLit.expand YearMonthIntervalLit.expand)

text \<open>What is stored of a number that is not a number is its bit pattern.\<close>

lemma stored_float_fast_equal:
  "(if fp_equal (f32 f) (fp_of_int 0) then 0 else f) = (if fp_equal (f32 g) (fp_of_int 0) then 0 else g) \<longleftrightarrow>
     fp_equal (f32 f) (f32 g) \<or> f32 f = NaN \<and> f = g"
proof -
  have z: "f32 0 \<noteq> NaN" by (simp add: f32_def fp_decode_def binary32_def Let_def)
  consider "f32 f \<noteq> NaN" "f32 g \<noteq> NaN" | "f32 f = NaN" | "f32 f \<noteq> NaN" "f32 g = NaN" by blast
  then show ?thesis
  proof cases
    case 1
    then show ?thesis using stored_f32_equal [OF 1] by simp
  next
    case 2
    then show ?thesis using z by auto
  next
    case 3
    then have "\<not> fp_equal (f32 f) (f32 g)" by (cases "f32 f") simp_all
    then show ?thesis using 3 z by auto
  qed
qed

lemma stored_double_fast_equal:
  "(if fp_equal (f64 f) (fp_of_int 0) then 0 else f) = (if fp_equal (f64 g) (fp_of_int 0) then 0 else g) \<longleftrightarrow>
     fp_equal (f64 f) (f64 g) \<or> f64 f = NaN \<and> f = g"
proof -
  have z: "f64 0 \<noteq> NaN" by (simp add: f64_def fp_decode_def binary64_def Let_def)
  consider "f64 f \<noteq> NaN" "f64 g \<noteq> NaN" | "f64 f = NaN" | "f64 f \<noteq> NaN" "f64 g = NaN" by blast
  then show ?thesis
  proof cases
    case 1
    then show ?thesis using stored_f64_equal [OF 1] by simp
  next
    case 2
    then show ?thesis using z by auto
  next
    case 3
    then have "\<not> fp_equal (f64 f) (f64 g)" by (cases "f64 f") simp_all
    then show ?thesis using 3 z by auto
  qed
qed

text \<open>
  C16: Two non-null inline values of one type are fast-equal exactly when they are equal in the sense of
  SQL: numbers as integers or as IEEE numbers (so that the two zeros are equal), intervals and datetimes
  by their ticks. There are two exceptions: floats and doubles that are not a number are fast-equal to
  themselves (the same bit pattern), though SQL and IEEE call them unequal, and for dates the two padding
  bytes, which the constructor does not set, must agree as well.
\<close>

theorem fast_equality_is_equality:
  "(fastEqualCheck h (TypedValue_int i) (TypedValue_int i') \<longleftrightarrow> sint i = sint i') \<and>
    (fastEqualCheck h (TypedValue_long l) (TypedValue_long l') \<longleftrightarrow> sint l = sint l') \<and>
    (fastEqualCheck h (TypedValue_float f) (TypedValue_float f') \<longleftrightarrow>
      fp_equal (f32 f) (f32 f') \<or> f32 f = NaN \<and> f = f') \<and>
    (fastEqualCheck h (TypedValue_double d) (TypedValue_double d') \<longleftrightarrow>
      fp_equal (f64 d) (f64 d') \<or> f64 d = NaN \<and> d = d') \<and>
    (fastEqualCheck h (TypedValue_datetime t) (TypedValue_datetime t') \<longleftrightarrow> t = t') \<and>
    (fastEqualCheck h (TypedValue_datetime_interval v) (TypedValue_datetime_interval v') \<longleftrightarrow> v = v') \<and>
    (fastEqualCheck h (TypedValue_year_month_interval y) (TypedValue_year_month_interval y') \<longleftrightarrow> y = y') \<and>
    (fastEqualCheck h (TypedValue_date pad a) (TypedValue_date pad' a') \<longleftrightarrow> a = a' \<and> pad = pad')"
  using stored_float_fast_equal [of f f'] stored_double_fast_equal [of d d'] date_union_eq [of pad a pad' a']
  by (simp add: fast_equal_inline literal_observers literal_unions sint_inject)

theorem fast_equality_is_equality_witness:
  "(fastEqualCheck sample_heap (TypedValue_float 0x80000000) (TypedValue_float 0) \<longleftrightarrow> fp_equal (f32 0x80000000) (f32 0)) \<and>
   fastEqualCheck sample_heap (TypedValue_float 0x7FC00000) (TypedValue_float 0x7FC00000)"
proof -
  have n: "f32 0x80000000 \<noteq> NaN" "f32 0x7FC00000 = NaN"
    by (simp_all add: f32_def fp_decode_def binary32_def Let_def)
  have "fastEqualCheck sample_heap (TypedValue_float f) (TypedValue_float f') \<longleftrightarrow>
      fp_equal (f32 f) (f32 f') \<or> f32 f = NaN \<and> f = f'" for f f'
    by (rule conjunct1 [OF conjunct2 [OF conjunct2 [OF fast_equality_is_equality]]])
  then show ?thesis using n by simp
qed

lemma hash_inline:
  "getTypeID v \<notin> {kChar, kVarChar, kNullType} \<Longrightarrow> getHash hash h v = value_union v"
  by (cases "getTypeID v") (simp_all add: getHash_def getHashScalarLiteral_def)

text \<open>
  C17: Values of one type that are fast-equal have one hash, whatever hash function is used for bytes; for
  the inline types the converse holds as well, which is what \<^verbatim>\<open>HashIsReversible\<close> says, and a value
  made of the hash is equal to the value it came from.
\<close>

theorem hash_respects_equality:
  assumes "getTypeID v = getTypeID w"
  shows "(fastEqualCheck h v w \<longrightarrow> getHash hash h v = getHash hash h w) \<and>
    (HashIsReversible (getTypeID v) \<longrightarrow> (getHash hash h v = getHash hash h w \<longleftrightarrow> fastEqualCheck h v w) \<and>
      fastEqualCheck h v (TypedValue_hash (getTypeID v) (getHash hash h v)))"
proof (cases "getTypeID v \<in> {kChar, kVarChar, kNullType}")
  case True
  then have "fastEqualCheck h v w \<Longrightarrow> getHash hash h v = getHash hash h w"
    using assms by (auto simp: fastEqualCheck_def getHash_def Let_def getHashAsciiString_def getHashOutOfLineNonString_def)
  then show ?thesis using True by (auto simp: HashIsReversible_def)
next
  case False
  then have "getTypeID w \<notin> {kChar, kVarChar, kNullType}" using assms by simp
  with False show ?thesis by (simp add: fast_equal_inline hash_inline TypedValue_hash_def)
qed

theorem hash_respects_equality_witness:
  "fastEqualCheck sample_heap (TypedValue_int 5)
     (TypedValue_hash kInt (getHash (\<lambda>_. 0) sample_heap (TypedValue_int 5)))"
  using hash_respects_equality [OF refl, of sample_heap "TypedValue_int 5" "\<lambda>_. 0"]
  by (simp add: literal_observers HashIsReversible_def)


section \<open>Serialization round trip\<close>

lemma float_zero_pattern: "fp_equal (f32 0) (fp_of_int 0)" "fp_equal (f64 0) (fp_of_int 0)"
  by (simp_all add: f32_def f64_def fp_decode_def binary32_def binary64_def fp_of_int_def fp_align_def signed_mant_def)

lemma stored_again:
  "TypedValue_float (if fp_equal (f32 w) (fp_of_int 0) then 0 else w) = TypedValue_float w"
  "TypedValue_double (if fp_equal (f64 x) (fp_of_int 0) then 0 else x) = TypedValue_double x"
  using float_zero_pattern by (simp_all add: TypedValue_float_def TypedValue_double_def)

lemma date_fields_again:
  "DateLit_Create (date_year d) (ucast (ucast (date_month d) :: u32)) (ucast (ucast (date_day d) :: u32)) = d"
proof -
  have "ucast (ucast (w :: u8) :: u32) = w" for w by (rule bit_word_eqI) (auto simp: bit_simps)
  then show ?thesis by (simp add: DateLit_Create_def)
qed

lemmas proto_round_trip_simps = TypedValue_getProto_def TypedValue_ReconstructFromProto_def Let_def literal_observers
  literals_back stored_again empty_value_proto_def date_fields_again

lemma string_proto:
  assumes "getTypeID v \<in> {kChar, kVarChar}" "\<not> isNull v"
  shows "TypedValue_ReconstructFromProto padding data p (TypedValue_getProto h v) h =
    reconstruct_string (getTypeID v) data p (out_of_line_bytes h v) h"
  using assms
  by (auto simp: TypedValue_getProto_def TypedValue_ReconstructFromProto_def Let_def empty_value_proto_def
      out_of_line_bytes_def getOutOfLineData_def)

text \<open>
  Every inline value is rebuilt from its protocol-buffer message, bit for bit except for the padding
  of a date, and every null value is rebuilt as well.
\<close>

theorem inline_values_round_trip:
  "TypedValue_ReconstructFromProto padding data p (TypedValue_getProto h (TypedValue_int i)) h = (TypedValue_int i, h) \<and>
   TypedValue_ReconstructFromProto padding data p (TypedValue_getProto h (TypedValue_long l)) h = (TypedValue_long l, h) \<and>
   TypedValue_ReconstructFromProto padding data p (TypedValue_getProto h (TypedValue_float f)) h = (TypedValue_float f, h) \<and>
   TypedValue_ReconstructFromProto padding data p (TypedValue_getProto h (TypedValue_double d)) h = (TypedValue_double d, h) \<and>
   TypedValue_ReconstructFromProto padding data p (TypedValue_getProto h (TypedValue_date padding' a)) h =
     (TypedValue_date padding a, h) \<and>
   TypedValue_ReconstructFromProto padding data p (TypedValue_getProto h (TypedValue_datetime t)) h =
     (TypedValue_datetime t, h) \<and>
   TypedValue_ReconstructFromProto padding data p (TypedValue_getProto h (TypedValue_datetime_interval v)) h =
     (TypedValue_datetime_interval v, h) \<and>
   TypedValue_ReconstructFromProto padding data p (TypedValue_getProto h (TypedValue_year_month_interval y)) h =
     (TypedValue_year_month_interval y, h) \<and>
   TypedValue_ReconstructFromProto padding data p (TypedValue_getProto h (TypedValue_null tid)) h = (TypedValue_null tid, h)"
  by (cases tid; simp add: proto_round_trip_simps)

text \<open>
  C18: A string of type Char or VarChar is rebuilt from its message with its type and its bytes, in a block
  of its own, whose size is the length of the string.
\<close>

theorem strings_round_trip:
  assumes "getTypeID s \<in> {kChar, kVarChar}" "\<not> isNull s" "0 < getDataSize s" "getDataSize s < 2 ^ 56"
    "read_bytes h data (getDataSize s) = out_of_line_bytes h s"
    "TypedValue_ReconstructFromProto padding data p (TypedValue_getProto h s) h = (s', h')"
  shows "getTypeID s' = getTypeID s \<and> \<not> isNull s' \<and> getDataSize s' = getDataSize s \<and> ownsOutOfLineData s' \<and>
    value_union s' = p \<and> out_of_line_bytes h' s' = out_of_line_bytes h s \<and> blocks h' = (blocks h)(p \<mapsto> getDataSize s)"
proof -
  let ?r = "TypedValue_reference (getTypeID s) data (getDataSize s)"
  note o = reference_observers [OF assms(4), of "getTypeID s" data]
  have n: "\<not> RepresentedInline (getTypeID s)" using assms(1) by (auto simp: RepresentedInline_def)
  have l: "length (out_of_line_bytes h s) = getDataSize s" by (simp add: out_of_line_bytes_def read_bytes_def)
  have c: "convertToLiteral p ?r h = (s', h')"
    using assms(6) string_proto [OF assms(1,2), of padding data p h] o(3) assms(3)
    by (simp add: reconstruct_string_def ensureNotReference_def l)
  have "isReference ?r" "getDataSize ?r = getDataSize s" using o(3) o(5) [OF n] assms(3) by simp_all
  moreover from this have "out_of_line_bytes h ?r = out_of_line_bytes h s"
    using assms(5) o(6) by (simp add: out_of_line_bytes_def)
  ultimately show ?thesis
    using convertToLiteral_effect [OF c] bytes_convert(1) [OF c] o(1,2) assms(4)
    by (simp add: isReference_def)
qed

theorem strings_round_trip_witness:
  "out_of_line_bytes
     (snd (TypedValue_ReconstructFromProto 0 0x1000 0x2000
        (TypedValue_getProto sample_heap (TypedValue_reference kChar 0x1000 2)) sample_heap))
     (fst (TypedValue_ReconstructFromProto 0 0x1000 0x2000
        (TypedValue_getProto sample_heap (TypedValue_reference kChar 0x1000 2)) sample_heap)) = [7, 7]"
proof -
  let ?s = "TypedValue_reference kChar 0x1000 2"
  have s: "getTypeID ?s \<in> {kChar, kVarChar}" "\<not> isNull ?s" "getDataSize ?s = 2" "value_union ?s = 0x1000"
    by (simp_all add: reference_observers RepresentedInline_def)
  then have "0 < getDataSize ?s" "getDataSize ?s < 2 ^ 56"
    "read_bytes sample_heap 0x1000 (getDataSize ?s) = out_of_line_bytes sample_heap ?s"
    by (simp_all add: out_of_line_bytes_def)
  moreover obtain s' h' where
    r: "TypedValue_ReconstructFromProto 0 0x1000 0x2000 (TypedValue_getProto sample_heap ?s) sample_heap = (s', h')"
    by (meson surj_pair)
  ultimately have "out_of_line_bytes h' s' = out_of_line_bytes sample_heap ?s"
    using strings_round_trip [OF s(1,2) _ _ _ r] by blast
  then show ?thesis using s(3,4) r by (simp add: out_of_line_bytes_def read_bytes_def sample_heap_def upt_rec)
qed

end
