(* ===== verification/Predicates.thy ===== *)
theory Predicates
  imports TupleIds
begin

text \<open>
  \<^verbatim>\<open>expressions/predicate\<close>: predicates over tuples. A predicate is a tree of truth values, comparisons,
  negations, conjunctions and disjunctions, and is evaluated for a single tuple, for a pair of joined tuples or
  for all tuples of a block at once; the last returns a tuple-ID sequence. The comparisons are leaves of
  type \<open>'c\<close>, with their three evaluations as arguments.

  A conjunction or disjunction keeps its operands in two lists, those with a static result and the
  dynamic ones, and its own static result, which it updates as operands are added. The two members
  \<^verbatim>\<open>has_static_result_\<close> and \<^verbatim>\<open>static_result_\<close> are one optional truth value here: \<^verbatim>\<open>static_result_\<close> is only read
  while \<^verbatim>\<open>has_static_result_\<close> is set.
\<close>

section \<open>Predicates and static results\<close>

datatype 'c predicate =
  TruePredicate
| FalsePredicate
| ComparisonPredicate 'c
| NegationPredicate "'c predicate" "bool option"
| ConjunctionPredicate "'c predicate list" "'c predicate list" "bool option"
| DisjunctionPredicate "'c predicate list" "'c predicate list" "bool option" bool

datatype PredicateType = kTrue | kFalse | kComparison | kNegation | kConjunction | kDisjunction

fun getPredicateType :: "'c predicate \<Rightarrow> PredicateType" where
  "getPredicateType TruePredicate = kTrue"
| "getPredicateType FalsePredicate = kFalse"
| "getPredicateType (ComparisonPredicate _) = kComparison"
| "getPredicateType (NegationPredicate _ _) = kNegation"
| "getPredicateType (ConjunctionPredicate _ _ _) = kConjunction"
| "getPredicateType (DisjunctionPredicate _ _ _ _) = kDisjunction"

text \<open>\<open>None\<close>: the predicate has no static result, and asking for one is a fatal error.\<close>

fun getStaticResult :: "('c \<Rightarrow> bool option) \<Rightarrow> 'c predicate \<Rightarrow> bool option" where
  "getStaticResult static TruePredicate = Some True"
| "getStaticResult static FalsePredicate = Some False"
| "getStaticResult static (ComparisonPredicate c) = static c"
| "getStaticResult static (NegationPredicate _ r) = r"
| "getStaticResult static (ConjunctionPredicate _ _ r) = r"
| "getStaticResult static (DisjunctionPredicate _ _ r _) = r"

definition hasStaticResult :: "('c \<Rightarrow> bool option) \<Rightarrow> 'c predicate \<Rightarrow> bool" where
  "hasStaticResult static p \<longleftrightarrow> getStaticResult static p \<noteq> None"

section \<open>Building predicates\<close>

definition NegationPredicate_new :: "('c \<Rightarrow> bool option) \<Rightarrow> 'c predicate \<Rightarrow> 'c predicate" where
  "NegationPredicate_new static operand =
     NegationPredicate operand
       (if hasStaticResult static operand then map_option Not (getStaticResult static operand) else None)"

definition NegatePredicate :: "('c \<Rightarrow> bool option) \<Rightarrow> 'c predicate \<Rightarrow> 'c predicate" where
  "NegatePredicate static operand =
     (case operand of NegationPredicate inner _ \<Rightarrow> inner | _ \<Rightarrow> NegationPredicate_new static operand)"

definition ConjunctionPredicate_new :: "'c predicate" where
  "ConjunctionPredicate_new = ConjunctionPredicate [] [] (Some True)"

definition Conjunction_processStaticOperand ::
  "('c \<Rightarrow> bool option) \<Rightarrow> 'c predicate \<Rightarrow> bool option \<Rightarrow> bool option" where
  "Conjunction_processStaticOperand static operand r =
     (if getStaticResult static operand = Some False then Some False else r)"

definition Conjunction_processDynamicOperand :: "bool option \<Rightarrow> bool option" where
  "Conjunction_processDynamicOperand r = (if r = Some True then None else r)"

definition Conjunction_addPredicate ::
  "('c \<Rightarrow> bool option) \<Rightarrow> 'c predicate \<Rightarrow> 'c predicate \<Rightarrow> 'c predicate" where
  "Conjunction_addPredicate static operand p =
     (case p of
        ConjunctionPredicate ss ds r \<Rightarrow>
          (case operand of
             ConjunctionPredicate ss' ds' _ \<Rightarrow>
               let r1 = fold (Conjunction_processStaticOperand static) ss' r
               in ConjunctionPredicate (ss @ ss') (ds @ ds')
                    (if ds' \<noteq> [] then Conjunction_processDynamicOperand r1 else r1)
           | _ \<Rightarrow>
               if hasStaticResult static operand
               then ConjunctionPredicate (ss @ [operand]) ds (Conjunction_processStaticOperand static operand r)
               else ConjunctionPredicate ss (ds @ [operand]) (Conjunction_processDynamicOperand r))
      | _ \<Rightarrow> p)"

definition DisjunctionPredicate_new :: "'c predicate" where
  "DisjunctionPredicate_new = DisjunctionPredicate [] [] (Some True) True"

text \<open>The two process functions of a disjunction also set \<^verbatim>\<open>fresh_\<close>.\<close>

definition Disjunction_processStaticOperand ::
  "('c \<Rightarrow> bool option) \<Rightarrow> 'c predicate \<Rightarrow> bool option \<times> bool \<Rightarrow> bool option \<times> bool" where
  "Disjunction_processStaticOperand static operand s =
     (let (r, fresh) = s
      in (if getStaticResult static operand = Some True then Some True
          else if fresh then Some False
          else r, False))"

definition Disjunction_processDynamicOperand :: "bool option \<times> bool \<Rightarrow> bool option \<times> bool" where
  "Disjunction_processDynamicOperand s =
     (let (r, fresh) = s in (if r = Some False then None else if fresh then None else r, False))"

definition Disjunction_addPredicate ::
  "('c \<Rightarrow> bool option) \<Rightarrow> 'c predicate \<Rightarrow> 'c predicate \<Rightarrow> 'c predicate" where
  "Disjunction_addPredicate static operand p =
     (case p of
        DisjunctionPredicate ss ds r fresh \<Rightarrow>
          (case operand of
             DisjunctionPredicate ss' ds' _ _ \<Rightarrow>
               let s1 = fold (Disjunction_processStaticOperand static) ss' (r, fresh);
                   s2 = (if ds' \<noteq> [] then Disjunction_processDynamicOperand s1 else s1)
               in DisjunctionPredicate (ss @ ss') (ds @ ds') (fst s2) (snd s2)
           | _ \<Rightarrow>
               if hasStaticResult static operand
               then (let s1 = Disjunction_processStaticOperand static operand (r, fresh)
                     in DisjunctionPredicate (ss @ [operand]) ds (fst s1) (snd s1))
               else (let s1 = Disjunction_processDynamicOperand (r, fresh)
                     in DisjunctionPredicate ss (ds @ [operand]) (fst s1) (snd s1)))
      | _ \<Rightarrow> p)"

text \<open>Cloning; a comparison is cloned by the argument \<open>copy\<close>.\<close>

definition Conjunction_clone ::
  "('c \<Rightarrow> bool option) \<Rightarrow> 'c predicate list \<Rightarrow> 'c predicate list \<Rightarrow> 'c predicate" where
  "Conjunction_clone static statics dynamics =
     fold (Conjunction_addPredicate static) dynamics
       (fold (Conjunction_addPredicate static) statics ConjunctionPredicate_new)"

definition Disjunction_clone ::
  "('c \<Rightarrow> bool option) \<Rightarrow> 'c predicate list \<Rightarrow> 'c predicate list \<Rightarrow> 'c predicate" where
  "Disjunction_clone static statics dynamics =
     fold (Disjunction_addPredicate static) dynamics
       (fold (Disjunction_addPredicate static) statics DisjunctionPredicate_new)"

fun Predicate_clone :: "('c \<Rightarrow> bool option) \<Rightarrow> ('c \<Rightarrow> 'c) \<Rightarrow> 'c predicate \<Rightarrow> 'c predicate" where
  "Predicate_clone static copy TruePredicate = TruePredicate"
| "Predicate_clone static copy FalsePredicate = FalsePredicate"
| "Predicate_clone static copy (ComparisonPredicate c) = ComparisonPredicate (copy c)"
| "Predicate_clone static copy (NegationPredicate p _) = NegationPredicate_new static (Predicate_clone static copy p)"
| "Predicate_clone static copy (ConjunctionPredicate ss ds _) =
     Conjunction_clone static (map (Predicate_clone static copy) ss) (map (Predicate_clone static copy) ds)"
| "Predicate_clone static copy (DisjunctionPredicate ss ds _ _) =
     Disjunction_clone static (map (Predicate_clone static copy) ss) (map (Predicate_clone static copy) ds)"

section \<open>Evaluation for one tuple or a pair\<close>

text \<open>
  An operand is passed as its evaluation, a function of the tuple (or of the two tuples of a join); the
  lists are walked until the result is known.
\<close>

definition Negation_matches :: "bool option \<Rightarrow> ('t \<Rightarrow> bool) \<Rightarrow> 't \<Rightarrow> bool" where
  "Negation_matches static_result operand tuple =
     (case static_result of Some r \<Rightarrow> r | None \<Rightarrow> \<not> operand tuple)"

fun all_match :: "('t \<Rightarrow> bool) list \<Rightarrow> 't \<Rightarrow> bool" where
  "all_match [] tuple = True"
| "all_match (m # ms) tuple = (if \<not> m tuple then False else all_match ms tuple)"

fun any_match :: "('t \<Rightarrow> bool) list \<Rightarrow> 't \<Rightarrow> bool" where
  "any_match [] tuple = False"
| "any_match (m # ms) tuple = (if m tuple then True else any_match ms tuple)"

definition Conjunction_matches :: "bool option \<Rightarrow> ('t \<Rightarrow> bool) list \<Rightarrow> 't \<Rightarrow> bool" where
  "Conjunction_matches static_result dynamics tuple =
     (case static_result of Some r \<Rightarrow> r | None \<Rightarrow> all_match dynamics tuple)"

definition Disjunction_matches :: "bool option \<Rightarrow> ('t \<Rightarrow> bool) list \<Rightarrow> 't \<Rightarrow> bool" where
  "Disjunction_matches static_result dynamics tuple =
     (case static_result of Some r \<Rightarrow> r | None \<Rightarrow> any_match dynamics tuple)"

fun matches :: "('c \<Rightarrow> 't \<Rightarrow> bool) \<Rightarrow> 'c predicate \<Rightarrow> 't \<Rightarrow> bool" where
  "matches leaf TruePredicate = (\<lambda>tuple. True)"
| "matches leaf FalsePredicate = (\<lambda>tuple. False)"
| "matches leaf (ComparisonPredicate c) = leaf c"
| "matches leaf (NegationPredicate p r) = Negation_matches r (matches leaf p)"
| "matches leaf (ConjunctionPredicate ss ds r) = Conjunction_matches r (map (matches leaf) ds)"
| "matches leaf (DisjunctionPredicate ss ds r fresh) = Disjunction_matches r (map (matches leaf) ds)"

text \<open>
  The two uses: the leaves compare one tuple of an accessor, or the two tuples of a join, each given by its
  accessor, relation and ID.
\<close>

definition matchesForSingleTuple :: "('c \<Rightarrow> 'a \<Rightarrow> tuple_id \<Rightarrow> bool) \<Rightarrow> 'c predicate \<Rightarrow> 'a \<Rightarrow> tuple_id \<Rightarrow> bool" where
  "matchesForSingleTuple leaf p accessor tuple = matches (\<lambda>c. leaf c accessor) p tuple"

definition matchesForJoinedTuples ::
  "('c \<Rightarrow> ('a \<times> 'r \<times> tuple_id) \<times> ('a \<times> 'r \<times> tuple_id) \<Rightarrow> bool) \<Rightarrow> 'c predicate \<Rightarrow>
   'a \<Rightarrow> 'r \<Rightarrow> tuple_id \<Rightarrow> 'a \<Rightarrow> 'r \<Rightarrow> tuple_id \<Rightarrow> bool" where
  "matchesForJoinedTuples leaf p left_accessor left_relation left_tuple right_accessor right_relation right_tuple =
     matches leaf p ((left_accessor, left_relation, left_tuple), (right_accessor, right_relation, right_tuple))"

section \<open>Evaluation for a block\<close>

text \<open>
  \<^verbatim>\<open>getAllMatches\<close> takes a filter and an existence map, either of which may be absent. \<open>end_pos\<close> is the
  accessor's end position; \<open>g\<close> is the content of fresh memory; \<open>short_circuit\<close> is the build option
  \<^verbatim>\<open>QUICKSTEP_ENABLE_VECTOR_PREDICATE_SHORT_CIRCUIT\<close>.
\<close>

type_synonym all_matches = "tuple_id_sequence option \<Rightarrow> tuple_id_sequence option \<Rightarrow> tuple_id_sequence"

definition GenerateSequenceForStaticResult :: "(nat \<Rightarrow> u64) \<Rightarrow> tuple_id \<Rightarrow> bool \<Rightarrow> all_matches" where
  "GenerateSequenceForStaticResult g end_pos static_result tid_filter existence_map =
     (let result = TupleIdSequence_new g end_pos
      in if static_result
         then (case tid_filter of
                 Some f \<Rightarrow> tis_assignFrom f result
               | None \<Rightarrow>
                   (case existence_map of
                      Some e \<Rightarrow> tis_assignFrom e result
                    | None \<Rightarrow> tis_setRange 0 (int (tis_length result)) True result))
         else result)"

definition Negation_getAllMatches :: "(nat \<Rightarrow> u64) \<Rightarrow> tuple_id \<Rightarrow> bool option \<Rightarrow> all_matches \<Rightarrow> all_matches" where
  "Negation_getAllMatches g end_pos static_result operand tid_filter existence_map =
     (case static_result of
        Some r \<Rightarrow> GenerateSequenceForStaticResult g end_pos r tid_filter existence_map
      | None \<Rightarrow>
          let operand_matches = operand tid_filter existence_map;
              m1 = tis_invert operand_matches;
              m2 = (case tid_filter of Some f \<Rightarrow> tis_intersectWith f m1 | None \<Rightarrow> m1)
          in (case existence_map of Some e \<Rightarrow> tis_intersectWith e m2 | None \<Rightarrow> m2))"

text \<open>The tuples to check, as a new sequence.\<close>

definition initial_filter :: "(nat \<Rightarrow> u64) \<Rightarrow> tuple_id \<Rightarrow> all_matches" where
  "initial_filter g end_pos tid_filter existence_map =
     (let current_filter = TupleIdSequence_new g end_pos
      in case tid_filter of
           Some f \<Rightarrow> tis_assignFrom f current_filter
         | None \<Rightarrow>
             (case existence_map of
                Some e \<Rightarrow> tis_assignFrom e current_filter
              | None \<Rightarrow> tis_setRange 0 end_pos True current_filter))"

fun conjunction_loop ::
  "all_matches list \<Rightarrow> tuple_id_sequence option \<Rightarrow> tuple_id_sequence \<Rightarrow> tuple_id_sequence" where
  "conjunction_loop [] existence_map current_filter = current_filter"
| "conjunction_loop (m # ms) existence_map current_filter =
     (if tis_empty current_filter then current_filter
      else conjunction_loop ms existence_map
             (tis_intersectWith (m (Some current_filter) existence_map) current_filter))"

definition Conjunction_getAllMatches ::
  "(nat \<Rightarrow> u64) \<Rightarrow> tuple_id \<Rightarrow> bool option \<Rightarrow> all_matches list \<Rightarrow> all_matches" where
  "Conjunction_getAllMatches g end_pos static_result dynamics tid_filter existence_map =
     (case static_result of
        Some r \<Rightarrow> GenerateSequenceForStaticResult g end_pos r tid_filter existence_map
      | None \<Rightarrow> conjunction_loop dynamics existence_map (initial_filter g end_pos tid_filter existence_map))"

fun disjunction_loop ::
  "all_matches list \<Rightarrow> tuple_id_sequence option \<Rightarrow> tuple_id_sequence option \<Rightarrow> tuple_id_sequence \<Rightarrow> tuple_id_sequence" where
  "disjunction_loop [] tid_filter existence_map union_result = union_result"
| "disjunction_loop (m # ms) tid_filter existence_map union_result =
     disjunction_loop ms tid_filter existence_map (tis_unionWith (m tid_filter existence_map) union_result)"

text \<open>With the build option, tuples that are in the union already are not checked again.\<close>

fun disjunction_loop_short ::
  "all_matches list \<Rightarrow> tuple_id_sequence option \<Rightarrow> tuple_id_sequence \<Rightarrow> tuple_id_sequence \<Rightarrow> tuple_id_sequence" where
  "disjunction_loop_short [] existence_map current_filter union_result = union_result"
| "disjunction_loop_short (m # ms) existence_map current_filter union_result =
     (let operand_result = m (Some current_filter) existence_map
      in disjunction_loop_short ms existence_map
           (tis_intersectWith (tis_invert operand_result) current_filter)
           (tis_unionWith operand_result union_result))"

definition Disjunction_getAllMatches ::
  "bool \<Rightarrow> (nat \<Rightarrow> u64) \<Rightarrow> tuple_id \<Rightarrow> bool option \<Rightarrow> all_matches list \<Rightarrow> all_matches" where
  "Disjunction_getAllMatches short_circuit g end_pos static_result dynamics tid_filter existence_map =
     (case static_result of
        Some r \<Rightarrow> GenerateSequenceForStaticResult g end_pos r tid_filter existence_map
      | None \<Rightarrow>
          let union_result = TupleIdSequence_new g end_pos
          in if short_circuit
             then disjunction_loop_short dynamics existence_map
                    (initial_filter g end_pos tid_filter existence_map) union_result
             else disjunction_loop dynamics tid_filter existence_map union_result)"

fun getAllMatches ::
  "bool \<Rightarrow> (nat \<Rightarrow> u64) \<Rightarrow> tuple_id \<Rightarrow> ('c \<Rightarrow> all_matches) \<Rightarrow> 'c predicate \<Rightarrow> all_matches" where
  "getAllMatches sc g end_pos leaf TruePredicate = GenerateSequenceForStaticResult g end_pos True"
| "getAllMatches sc g end_pos leaf FalsePredicate = GenerateSequenceForStaticResult g end_pos False"
| "getAllMatches sc g end_pos leaf (ComparisonPredicate c) = leaf c"
| "getAllMatches sc g end_pos leaf (NegationPredicate p r) =
     Negation_getAllMatches g end_pos r (getAllMatches sc g end_pos leaf p)"
| "getAllMatches sc g end_pos leaf (ConjunctionPredicate ss ds r) =
     Conjunction_getAllMatches g end_pos r (map (getAllMatches sc g end_pos leaf) ds)"
| "getAllMatches sc g end_pos leaf (DisjunctionPredicate ss ds r fresh) =
     Disjunction_getAllMatches sc g end_pos r (map (getAllMatches sc g end_pos leaf) ds)"

section \<open>Well-formed predicates\<close>

text \<open>
  What the constructors establish: the lists are split by static results, operands of a conjunction
  (disjunction) are no conjunctions (disjunctions) themselves, and the static result follows from the lists.
\<close>

definition conjunction_result :: "('c \<Rightarrow> bool option) \<Rightarrow> 'c predicate list \<Rightarrow> 'c predicate list \<Rightarrow> bool option" where
  "conjunction_result static ss ds =
     (if \<exists>q \<in> set ss. getStaticResult static q = Some False then Some False
      else if ds = [] then Some True else None)"

definition disjunction_result :: "('c \<Rightarrow> bool option) \<Rightarrow> 'c predicate list \<Rightarrow> 'c predicate list \<Rightarrow> bool option" where
  "disjunction_result static ss ds =
     (if \<exists>q \<in> set ss. getStaticResult static q = Some True then Some True
      else if ds \<noteq> [] then None else Some (ss = []))"

definition operands_split :: "('c \<Rightarrow> bool option) \<Rightarrow> PredicateType \<Rightarrow> 'c predicate list \<Rightarrow> 'c predicate list \<Rightarrow> bool" where
  "operands_split static k ss ds \<longleftrightarrow>
     (\<forall>q \<in> set ss. getStaticResult static q \<noteq> None \<and> getPredicateType q \<noteq> k) \<and>
     (\<forall>q \<in> set ds. getStaticResult static q = None \<and> getPredicateType q \<noteq> k)"

fun predicate_wf :: "('c \<Rightarrow> bool option) \<Rightarrow> 'c predicate \<Rightarrow> bool" where
  "predicate_wf static TruePredicate = True"
| "predicate_wf static FalsePredicate = True"
| "predicate_wf static (ComparisonPredicate c) = True"
| "predicate_wf static (NegationPredicate p r) =
     (predicate_wf static p \<and> r = map_option Not (getStaticResult static p))"
| "predicate_wf static (ConjunctionPredicate ss ds r) =
     (list_all (predicate_wf static) ss \<and> list_all (predicate_wf static) ds \<and>
      operands_split static kConjunction ss ds \<and> r = conjunction_result static ss ds)"
| "predicate_wf static (DisjunctionPredicate ss ds r fresh) =
     (list_all (predicate_wf static) ss \<and> list_all (predicate_wf static) ds \<and>
      operands_split static kDisjunction ss ds \<and> r = disjunction_result static ss ds \<and>
      fresh = (ss = [] \<and> ds = []))"

text \<open>The meaning of a predicate as a formula, over all its operands; an empty disjunction is true.\<close>

fun holds :: "('c \<Rightarrow> bool) \<Rightarrow> 'c predicate \<Rightarrow> bool" where
  "holds test TruePredicate = True"
| "holds test FalsePredicate = False"
| "holds test (ComparisonPredicate c) = test c"
| "holds test (NegationPredicate p _) = (\<not> holds test p)"
| "holds test (ConjunctionPredicate ss ds _) = (list_all (holds test) ss \<and> list_all (holds test) ds)"
| "holds test (DisjunctionPredicate ss ds _ _) =
     (ss @ ds = [] \<or> list_ex (holds test) ss \<or> list_ex (holds test) ds)"

text \<open>The members of a conjunction or disjunction as a function of its two lists, and one step of each update.\<close>

definition disjunction_state :: "('c \<Rightarrow> bool option) \<Rightarrow> 'c predicate list \<Rightarrow> 'c predicate list \<Rightarrow> bool option \<times> bool" where
  "disjunction_state static ss ds = (disjunction_result static ss ds, ss = [] \<and> ds = [])"

lemma conjunction_steps:
  "Conjunction_processStaticOperand static q (conjunction_result static ss ds) = conjunction_result static (ss @ [q]) ds"
  "ds' \<noteq> [] \<Longrightarrow> Conjunction_processDynamicOperand (conjunction_result static ss ds) = conjunction_result static ss (ds @ ds')"
  by (simp_all add: Conjunction_processStaticOperand_def Conjunction_processDynamicOperand_def conjunction_result_def bex_Un)

lemma disjunction_steps:
  "Disjunction_processStaticOperand static q (disjunction_state static ss ds) = disjunction_state static (ss @ [q]) ds"
  "ds' \<noteq> [] \<Longrightarrow> Disjunction_processDynamicOperand (disjunction_state static ss ds) = disjunction_state static ss (ds @ ds')"
  by (auto simp: Disjunction_processStaticOperand_def Disjunction_processDynamicOperand_def disjunction_state_def
      disjunction_result_def)

lemma process_all:
  "fold (Conjunction_processStaticOperand static) qs (conjunction_result static ss ds) = conjunction_result static (ss @ qs) ds"
  "fold (Disjunction_processStaticOperand static) qs (disjunction_state static ss ds) = disjunction_state static (ss @ qs) ds"
  by (induction qs arbitrary: ss) (simp_all add: conjunction_steps disjunction_steps)

text \<open>The operands that adding a predicate brings in.\<close>

fun operand_lists :: "('c \<Rightarrow> bool option) \<Rightarrow> PredicateType \<Rightarrow> 'c predicate \<Rightarrow> 'c predicate list \<times> 'c predicate list" where
  "operand_lists static kConjunction (ConjunctionPredicate ss ds r) = (ss, ds)"
| "operand_lists static kDisjunction (DisjunctionPredicate ss ds r fresh) = (ss, ds)"
| "operand_lists static k q = (if hasStaticResult static q then ([q], []) else ([], [q]))"

definition conjunction_of :: "('c \<Rightarrow> bool option) \<Rightarrow> 'c predicate list \<times> 'c predicate list \<Rightarrow> 'c predicate" where
  "conjunction_of static l = ConjunctionPredicate (fst l) (snd l) (conjunction_result static (fst l) (snd l))"

definition disjunction_of :: "('c \<Rightarrow> bool option) \<Rightarrow> 'c predicate list \<times> 'c predicate list \<Rightarrow> 'c predicate" where
  "disjunction_of static l =
     DisjunctionPredicate (fst l) (snd l) (disjunction_result static (fst l) (snd l)) (fst l = [] \<and> snd l = [])"

lemma Conjunction_add:
  assumes "operand_lists static kConjunction q = (ss', ds')"
  shows "Conjunction_addPredicate static q (conjunction_of static (ss, ds)) = conjunction_of static (ss @ ss', ds @ ds')"
  using assms
  by (cases q)
    (auto simp: Conjunction_addPredicate_def conjunction_of_def Let_def process_all conjunction_steps split: if_splits)

lemma disjunction_of_state:
  "disjunction_of static (ss, ds) =
     DisjunctionPredicate ss ds (fst (disjunction_state static ss ds)) (snd (disjunction_state static ss ds))"
  by (simp add: disjunction_state_def disjunction_of_def)

lemma Disjunction_add:
  assumes "operand_lists static kDisjunction q = (ss', ds')"
  shows "Disjunction_addPredicate static q (disjunction_of static (ss, ds)) = disjunction_of static (ss @ ss', ds @ ds')"
proof (cases "getPredicateType q = kDisjunction")
  case True
  then obtain r fresh where "q = DisjunctionPredicate ss' ds' r fresh" using assms by (cases q) auto
  then show ?thesis
    by (simp add: Disjunction_addPredicate_def disjunction_of_state Let_def process_all disjunction_steps)
next
  case False
  then have "Disjunction_addPredicate static q (disjunction_of static (ss, ds)) =
      (if hasStaticResult static q
       then (let s1 = Disjunction_processStaticOperand static q (disjunction_state static ss ds)
             in DisjunctionPredicate (ss @ [q]) ds (fst s1) (snd s1))
       else (let s1 = Disjunction_processDynamicOperand (disjunction_state static ss ds)
             in DisjunctionPredicate ss (ds @ [q]) (fst s1) (snd s1)))"
    by (cases q) (simp_all add: Disjunction_addPredicate_def disjunction_of_state)
  moreover have "(ss', ds') = (if hasStaticResult static q then ([q], []) else ([], [q]))"
    using assms False by (cases q) (auto split: if_splits)
  ultimately show ?thesis
    by (auto simp: disjunction_of_state Let_def disjunction_steps(1) disjunction_steps(2) [where ds' = "[q]", simplified]
        split: if_splits)
qed

lemma wf_lists:
  "predicate_wf static p \<Longrightarrow> getPredicateType p = kConjunction \<Longrightarrow> p = conjunction_of static (operand_lists static kConjunction p)"
  "predicate_wf static p \<Longrightarrow> getPredicateType p = kDisjunction \<Longrightarrow> p = disjunction_of static (operand_lists static kDisjunction p)"
  by (cases p; simp add: conjunction_of_def disjunction_of_def)+

definition lists_wf :: "('c \<Rightarrow> bool option) \<Rightarrow> PredicateType \<Rightarrow> 'c predicate list \<times> 'c predicate list \<Rightarrow> bool" where
  "lists_wf static k l \<longleftrightarrow> list_all (predicate_wf static) (fst l) \<and> list_all (predicate_wf static) (snd l) \<and>
     operands_split static k (fst l) (snd l)"

lemma wf_of_lists:
  "predicate_wf static (conjunction_of static l) \<longleftrightarrow> lists_wf static kConjunction l"
  "predicate_wf static (disjunction_of static l) \<longleftrightarrow> lists_wf static kDisjunction l"
  by (auto simp: conjunction_of_def disjunction_of_def lists_wf_def)

lemma operand_lists_wf:
  "k \<in> {kConjunction, kDisjunction} \<Longrightarrow> predicate_wf static q \<Longrightarrow> lists_wf static k (operand_lists static k q)"
  by (cases q) (auto simp: lists_wf_def operands_split_def hasStaticResult_def split: if_splits)

lemma lists_wf_append:
  "lists_wf static k (ss, ds) \<Longrightarrow> lists_wf static k (ss', ds') \<Longrightarrow> lists_wf static k (ss @ ss', ds @ ds')"
  by (auto simp: lists_wf_def operands_split_def)

lemma Conjunction_add_wf:
  assumes "predicate_wf static p" "predicate_wf static q" "getPredicateType p = kConjunction"
  shows "predicate_wf static (Conjunction_addPredicate static q p)"
proof -
  obtain ss ds ss' ds' where l: "operand_lists static kConjunction p = (ss, ds)" "operand_lists static kConjunction q = (ss', ds')"
    by (meson surj_pair)
  have "lists_wf static kConjunction (ss, ds)" "lists_wf static kConjunction (ss', ds')"
    using operand_lists_wf [of kConjunction static p] operand_lists_wf [of kConjunction static q] assms(1,2) l by simp_all
  moreover have p: "p = conjunction_of static (ss, ds)" using wf_lists(1) [OF assms(1,3)] l(1) by simp
  ultimately show ?thesis
    unfolding p Conjunction_add [OF l(2)] wf_of_lists by (intro lists_wf_append)
qed

lemma Disjunction_add_wf:
  assumes "predicate_wf static p" "predicate_wf static q" "getPredicateType p = kDisjunction"
  shows "predicate_wf static (Disjunction_addPredicate static q p)"
proof -
  obtain ss ds ss' ds' where l: "operand_lists static kDisjunction p = (ss, ds)" "operand_lists static kDisjunction q = (ss', ds')"
    by (meson surj_pair)
  have "lists_wf static kDisjunction (ss, ds)" "lists_wf static kDisjunction (ss', ds')"
    using operand_lists_wf [of kDisjunction static p] operand_lists_wf [of kDisjunction static q] assms(1,2) l by simp_all
  moreover have p: "p = disjunction_of static (ss, ds)" using wf_lists(2) [OF assms(1,3)] l(1) by simp
  ultimately show ?thesis
    unfolding p Disjunction_add [OF l(2)] wf_of_lists by (intro lists_wf_append)
qed


section \<open>Evaluation is the meaning\<close>

definition static_sound :: "('c \<Rightarrow> bool option) \<Rightarrow> ('c \<Rightarrow> bool) \<Rightarrow> bool" where
  "static_sound static test \<longleftrightarrow> (\<forall>c r. static c = Some r \<longrightarrow> test c = r)"

text \<open>In a list of operands with a static result, the results are the meanings.\<close>

lemma static_list:
  assumes "\<And>q. q \<in> set ss \<Longrightarrow> getStaticResult static q = Some (holds test q)"
  shows "(\<exists>q \<in> set ss. getStaticResult static q = Some False) \<longleftrightarrow> \<not> list_all (holds test) ss"
    "(\<exists>q \<in> set ss. getStaticResult static q = Some True) \<longleftrightarrow> list_ex (holds test) ss"
  using assms by (induction ss) simp_all

lemma static_list_results:
  assumes "\<And>q. q \<in> set ss \<Longrightarrow> getStaticResult static q = Some (holds test q)"
  shows "conjunction_result static ss ds =
      (if \<not> list_all (holds test) ss then Some False else if ds = [] then Some True else None)"
    "disjunction_result static ss ds =
      (if list_ex (holds test) ss then Some True else if ds \<noteq> [] then None else Some (ss = []))"
  using static_list [of ss static test] assms unfolding conjunction_result_def disjunction_result_def by simp_all

lemma static_operands:
  assumes "\<And>q r. q \<in> set ss \<Longrightarrow> predicate_wf static q \<Longrightarrow> getStaticResult static q = Some r \<Longrightarrow> holds test q = r"
    "list_all (predicate_wf static) ss" "operands_split static k ss ds" "q \<in> set ss"
  shows "getStaticResult static q = Some (holds test q)"
  using assms by (cases "getStaticResult static q") (auto simp: operands_split_def list_all_iff)

lemma static_result_holds:
  assumes "static_sound static test"
  shows "predicate_wf static p \<Longrightarrow> getStaticResult static p = Some r \<Longrightarrow> holds test p = r"
proof (induction p arbitrary: r)
  case (ConjunctionPredicate ss ds s)
  then have "getStaticResult static q = Some (holds test q)" if "q \<in> set ss" for q
    using static_operands [of ss static test kConjunction ds q] that by auto
  from static_list_results(1) [OF this] show ?case using ConjunctionPredicate.prems by (auto split: if_splits)
next
  case (DisjunctionPredicate ss ds s fresh)
  then have "getStaticResult static q = Some (holds test q)" if "q \<in> set ss" for q
    using static_operands [of ss static test kDisjunction ds q] that by auto
  from static_list_results(2) [OF this] show ?case using DisjunctionPredicate.prems by (auto split: if_splits)
qed (use assms in \<open>auto simp: static_sound_def\<close>)

lemma match_lists:
  "all_match ms t \<longleftrightarrow> (\<forall>m \<in> set ms. m t)" "any_match ms t \<longleftrightarrow> (\<exists>m \<in> set ms. m t)"
  by (induction ms) simp_all

text \<open>The dynamic operands decide when there is no static result.\<close>

lemma dynamic_operands:
  assumes "static_sound static test" "list_all (predicate_wf static) ss" "operands_split static k ss ds"
  shows "conjunction_result static ss ds = None \<Longrightarrow> list_all (holds test) ss"
    "disjunction_result static ss ds = None \<Longrightarrow> \<not> list_ex (holds test) ss \<and> ds \<noteq> []"
proof -
  have "getStaticResult static q = Some (holds test q)" if "q \<in> set ss" for q
    using static_operands [OF static_result_holds [OF assms(1)] assms(2,3) that] by simp
  then have "conjunction_result static ss ds =
      (if \<not> list_all (holds test) ss then Some False else if ds = [] then Some True else None)"
    "disjunction_result static ss ds =
      (if list_ex (holds test) ss then Some True else if ds \<noteq> [] then None else Some (ss = []))"
    using static_list_results [of ss static test ds] by simp_all
  then show "conjunction_result static ss ds = None \<Longrightarrow> list_all (holds test) ss"
    "disjunction_result static ss ds = None \<Longrightarrow> \<not> list_ex (holds test) ss \<and> ds \<noteq> []"
    by (simp_all split: if_splits)
qed

lemma matches_holds:
  assumes "static_sound static (\<lambda>c. leaf c t)"
  shows "predicate_wf static p \<Longrightarrow> matches leaf p t = holds (\<lambda>c. leaf c t) p"
proof (induction p)
  case (NegationPredicate p s)
  then show ?case
    using static_result_holds [OF assms, of p]
    by (cases "getStaticResult static p") (auto simp: Negation_matches_def)
next
  case (ConjunctionPredicate ss ds s)
  show ?case
  proof (cases s)
    case None
    then show ?thesis
      using ConjunctionPredicate dynamic_operands(1) [OF assms, of ss kConjunction ds]
      by (auto simp: Conjunction_matches_def match_lists list_all_iff)
  next
    case (Some r)
    then show ?thesis
      using static_result_holds [OF assms ConjunctionPredicate.prems, of r] by (simp add: Conjunction_matches_def)
  qed
next
  case (DisjunctionPredicate ss ds s fresh)
  show ?case
  proof (cases s)
    case None
    then show ?thesis
      using DisjunctionPredicate dynamic_operands(2) [OF assms, of ss kDisjunction ds]
      by (auto simp: Disjunction_matches_def match_lists list_ex_iff list_all_iff)
  next
    case (Some r)
    then show ?thesis
      using static_result_holds [OF assms DisjunctionPredicate.prems, of r] by (simp add: Disjunction_matches_def)
  qed
qed simp_all

text \<open>The set of tuples an evaluation for a block has to check, and when its arguments fit the block.\<close>

definition checked_slots :: "nat \<Rightarrow> tuple_id_sequence option \<Rightarrow> tuple_id_sequence option \<Rightarrow> nat set" where
  "checked_slots n tid_filter existence_map =
     (case tid_filter of
        Some f \<Rightarrow> tis_slots f
      | None \<Rightarrow> (case existence_map of Some e \<Rightarrow> tis_slots e | None \<Rightarrow> {..<n}))"

definition filters_fit :: "nat \<Rightarrow> tuple_id_sequence option \<Rightarrow> tuple_id_sequence option \<Rightarrow> bool" where
  "filters_fit n tid_filter existence_map \<longleftrightarrow>
     (\<forall>s. tid_filter = Some s \<or> existence_map = Some s \<longrightarrow> tis_inv s \<and> tis_length s = n) \<and>
     (\<forall>f e. tid_filter = Some f \<and> existence_map = Some e \<longrightarrow> tis_slots f \<subseteq> tis_slots e)"

definition selects :: "nat \<Rightarrow> (nat \<Rightarrow> bool) \<Rightarrow> all_matches \<Rightarrow> bool" where
  "selects n P m \<longleftrightarrow>
     (\<forall>f e. filters_fit n f e \<longrightarrow>
        tis_inv (m f e) \<and> tis_length (m f e) = n \<and> tis_slots (m f e) = {t \<in> checked_slots n f e. P t})"

lemma selectsD:
  assumes "selects n P m" "filters_fit n f e"
  shows "tis_inv (m f e)" "tis_length (m f e) = n" "tis_slots (m f e) = {t \<in> checked_slots n f e. P t}"
  using assms by (simp_all add: selects_def)


lemma checked_less: "filters_fit n f e \<Longrightarrow> t \<in> checked_slots n f e \<Longrightarrow> t < n"
  by (cases f; cases e) (auto simp: filters_fit_def checked_slots_def dest: slots_less)

lemma selects_cong:
  assumes "selects n P m" "\<And>t. t < n \<Longrightarrow> P t \<longleftrightarrow> Q t"
  shows "selects n Q m"
proof -
  have "{t \<in> checked_slots n f e. P t} = {t \<in> checked_slots n f e. Q t}" if "filters_fit n f e" for f e
    using checked_less [OF that] assms(2) by blast
  then show ?thesis using assms(1) by (simp add: selects_def)
qed

lemma full_slots:
  assumes "n < 2 ^ 31"
  shows "tis_inv (tis_setRange 0 (int n) True (TupleIdSequence_new g (int n)))"
    "tis_slots (tis_setRange 0 (int n) True (TupleIdSequence_new g (int n))) = {..<n}"
proof -
  note s = new_inv [OF assms, of g] new_length [OF assms, of g] new_slots [OF assms, of g]
  have "0 + n \<le> tis_length (TupleIdSequence_new g (int n))" using s(2) by simp
  from setRange_inv [OF s(1) this, of True] setRange_slots [OF s(1) this, of True] s(3)
  show "tis_inv (tis_setRange 0 (int n) True (TupleIdSequence_new g (int n)))"
    "tis_slots (tis_setRange 0 (int n) True (TupleIdSequence_new g (int n))) = {..<n}" by auto
qed

lemma initial_filter_slots:
  assumes "n < 2 ^ 31" "filters_fit n f e"
  shows "tis_inv (initial_filter g (int n) f e)" "tis_length (initial_filter g (int n) f e) = n"
    "tis_slots (initial_filter g (int n) f e) = checked_slots n f e"
proof -
  have "tis_inv (initial_filter g (int n) f e) \<and> tis_length (initial_filter g (int n) f e) = n \<and>
    tis_slots (initial_filter g (int n) f e) = checked_slots n f e"
    using assms(2) full_slots [OF assms(1), of g] new_inv [OF assms(1), of g] new_length [OF assms(1), of g]
    by (cases f; cases e)
      (auto simp: initial_filter_def Let_def checked_slots_def filters_fit_def assignFrom_slots assignFrom_tis_inv)
  then show "tis_inv (initial_filter g (int n) f e)" "tis_length (initial_filter g (int n) f e) = n"
    "tis_slots (initial_filter g (int n) f e) = checked_slots n f e" by simp_all
qed

lemma static_selects:
  assumes "n < 2 ^ 31"
  shows "selects n (\<lambda>t. r) (GenerateSequenceForStaticResult g (int n) r)"
proof (cases r)
  case True
  have "GenerateSequenceForStaticResult g (int n) True f e = initial_filter g (int n) f e" for f e
    using new_length [OF assms, of g]
    by (cases f; cases e) (simp_all add: GenerateSequenceForStaticResult_def initial_filter_def Let_def)
  then show ?thesis using True initial_filter_slots [OF assms] by (simp add: selects_def)
next
  case False
  then show ?thesis
    using new_inv [OF assms, of g] new_length [OF assms, of g] new_slots [OF assms, of g]
    by (simp add: selects_def GenerateSequenceForStaticResult_def Let_def)
qed

lemma fit_existence: "filters_fit n f e \<Longrightarrow> checked_slots n f e \<subseteq> checked_slots n None e"
  by (cases f; cases e) (auto simp: filters_fit_def checked_slots_def dest: slots_less)

lemma fit_narrower:
  assumes "filters_fit n f e" "tis_inv c" "tis_length c = n" "tis_slots c \<subseteq> checked_slots n f e"
  shows "filters_fit n (Some c) e" "checked_slots n (Some c) e = tis_slots c"
proof -
  show "filters_fit n (Some c) e"
    using assms fit_existence [OF assms(1)] unfolding filters_fit_def by (auto simp: checked_slots_def)
  show "checked_slots n (Some c) e = tis_slots c" by (simp add: checked_slots_def)
qed

lemma intersect_option:
  assumes "tis_inv s" "tis_length s = n" "\<forall>u. o' = Some u \<longrightarrow> tis_inv u \<and> tis_length u = n"
    "s' = (case o' of Some u \<Rightarrow> tis_intersectWith u s | None \<Rightarrow> s)"
  shows "tis_inv s'" "tis_length s' = n" "tis_slots s' = {t \<in> tis_slots s. \<forall>u. o' = Some u \<longrightarrow> t \<in> tis_slots u}"
proof -
  have "tis_inv s' \<and> tis_length s' = n \<and> tis_slots s' = {t \<in> tis_slots s. \<forall>u. o' = Some u \<longrightarrow> t \<in> tis_slots u}"
  proof (cases o')
    case (Some u)
    then show ?thesis
      using assms(3) intersect_inv [OF assms(1), of u] intersect_slots [OF assms(1), of u] assms(2,4) by auto
  qed (use assms in simp)
  then show "tis_inv s'" "tis_length s' = n" "tis_slots s' = {t \<in> tis_slots s. \<forall>u. o' = Some u \<longrightarrow> t \<in> tis_slots u}"
    by simp_all
qed

lemma checked_slots_iff:
  assumes "filters_fit n f e"
  shows "t \<in> checked_slots n f e \<longleftrightarrow>
    t < n \<and> (\<forall>u. f = Some u \<longrightarrow> t \<in> tis_slots u) \<and> (\<forall>u. e = Some u \<longrightarrow> t \<in> tis_slots u)"
proof -
  have "u \<in> {f, e} \<Longrightarrow> u = Some s \<Longrightarrow> t \<in> tis_slots s \<Longrightarrow> t < n" for u s
    using slots_less [of t s] assms by (auto simp: filters_fit_def)
  then show ?thesis
    using assms by (cases f; cases e) (auto simp: checked_slots_def filters_fit_def)
qed

lemma negation_selects:
  assumes "n < 2 ^ 31" "selects n P m"
  shows "selects n (\<lambda>t. \<not> P t) (Negation_getAllMatches g (int n) None m)"
  unfolding selects_def
proof (intro allI impI)
  fix f e assume fit: "filters_fit n f e"
  note m = selectsD [OF assms(2) fit]
  define m1 where "m1 = tis_invert (m f e)"
  define m2 where "m2 = (case f of Some f \<Rightarrow> tis_intersectWith f m1 | None \<Rightarrow> m1)"
  define m3 where "m3 = (case e of Some e \<Rightarrow> tis_intersectWith e m2 | None \<Rightarrow> m2)"
  have m1: "tis_inv m1" "tis_length m1 = n" "tis_slots m1 = {t. t < n \<and> \<not> (t \<in> checked_slots n f e \<and> P t)}"
    using m invert_inv [OF m(1)] invert_slots [OF m(1)] by (auto simp: m1_def)
  have "\<forall>u. f = Some u \<longrightarrow> tis_inv u \<and> tis_length u = n" "\<forall>u. e = Some u \<longrightarrow> tis_inv u \<and> tis_length u = n"
    using fit by (simp_all add: filters_fit_def)
  note m2 = intersect_option [OF m1(1,2) this(1) m2_def] and m3 = intersect_option [OF _ _ this(2) m3_def]
  have "tis_slots m3 = {t \<in> checked_slots n f e. \<not> P t}"
    unfolding m3(3) [OF m2(1,2)] m2(3) m1(3) by (auto simp: checked_slots_iff [OF fit])
  moreover have "Negation_getAllMatches g (int n) None m f e = m3"
    by (cases e; cases f) (simp_all add: Negation_getAllMatches_def Let_def m1_def m2_def m3_def)
  ultimately show "tis_inv (Negation_getAllMatches g (int n) None m f e) \<and>
      tis_length (Negation_getAllMatches g (int n) None m f e) = n \<and>
      tis_slots (Negation_getAllMatches g (int n) None m f e) = {t \<in> checked_slots n f e. \<not> P t}"
    using m3(1,2) [OF m2(1,2)] by simp
qed

lemma conjunction_loop_selects:
  assumes "list_all2 (selects n) Ps ms" "filters_fit n (Some c) e"
  shows "tis_inv (conjunction_loop ms e c) \<and> tis_length (conjunction_loop ms e c) = n \<and>
    tis_slots (conjunction_loop ms e c) = {t \<in> tis_slots c. \<forall>P \<in> set Ps. P t}"
  using assms
proof (induction Ps ms arbitrary: c rule: list_all2_induct)
  case Nil
  then show ?case by (simp add: filters_fit_def)
next
  case (Cons P Ps m ms)
  have c: "tis_inv c" "tis_length c = n" using Cons.prems(1) by (simp_all add: filters_fit_def)
  show ?case
  proof (cases "tis_empty c")
    case True
    then show ?thesis using c empty_slots [OF c(1)] by simp
  next
    case False
        note m = selectsD [OF Cons.hyps(1) Cons.prems(1)]
    let ?c = "tis_intersectWith (m (Some c) e) c"
    have c': "tis_inv ?c" "tis_length ?c = n" "tis_slots ?c = {t \<in> tis_slots c. P t}"
      using intersect_inv [OF c(1) m(1)] intersect_slots [OF c(1) m(1)] m(2,3) c(2) by (auto simp: checked_slots_def)
    then have "filters_fit n (Some ?c) e"
      using fit_narrower(1) [OF Cons.prems(1), of ?c] by (auto simp: checked_slots_def)
    then show ?thesis using Cons.IH [of ?c] c'(3) False by auto
  qed
qed

lemma disjunction_loop_selects:
  assumes "list_all2 (selects n) Ps ms" "filters_fit n f e" "tis_inv r" "tis_length r = n"
  shows "tis_inv (disjunction_loop ms f e r) \<and> tis_length (disjunction_loop ms f e r) = n \<and>
    tis_slots (disjunction_loop ms f e r) = tis_slots r \<union> {t \<in> checked_slots n f e. \<exists>P \<in> set Ps. P t}"
  using assms
proof (induction Ps ms arbitrary: r rule: list_all2_induct)
  case (Cons P Ps m ms)
    note m = selectsD [OF Cons.hyps(1) Cons.prems(1)]
  have "tis_inv (tis_unionWith (m f e) r)" "tis_length (tis_unionWith (m f e) r) = n"
    "tis_slots (tis_unionWith (m f e) r) = tis_slots r \<union> {t \<in> checked_slots n f e. P t}"
    using union_inv [OF Cons.prems(2) m(1)] union_slots [OF Cons.prems(2) m(1)] m(2,3) Cons.prems(3) by simp_all
  then show ?case using Cons.IH [of "tis_unionWith (m f e) r"] Cons.prems(1) by auto
qed simp

lemma disjunction_loop_short_selects:
  assumes "list_all2 (selects n) Ps ms" "filters_fit n (Some c) e" "tis_inv r" "tis_length r = n"
  shows "tis_inv (disjunction_loop_short ms e c r) \<and> tis_length (disjunction_loop_short ms e c r) = n \<and>
    tis_slots (disjunction_loop_short ms e c r) = tis_slots r \<union> {t \<in> tis_slots c. \<exists>P \<in> set Ps. P t}"
  using assms
proof (induction Ps ms arbitrary: c r rule: list_all2_induct)
  case (Cons P Ps m ms)
  have c: "tis_inv c" "tis_length c = n" using Cons.prems(1) by (simp_all add: filters_fit_def)
    note m = selectsD [OF Cons.hyps(1) Cons.prems(1)]
  let ?r = "tis_unionWith (m (Some c) e) r" and ?c = "tis_intersectWith (tis_invert (m (Some c) e)) c"
  have r': "tis_inv ?r" "tis_length ?r = n" "tis_slots ?r = tis_slots r \<union> {t \<in> tis_slots c. P t}"
    using union_inv [OF Cons.prems(2) m(1)] union_slots [OF Cons.prems(2) m(1)] m(2,3) Cons.prems(3)
    by (simp_all add: checked_slots_def)
  have i: "tis_inv (tis_invert (m (Some c) e))" "tis_length (tis_invert (m (Some c) e)) = n"
    "tis_slots (tis_invert (m (Some c) e)) = {..<n} - {t \<in> tis_slots c. P t}"
    using invert_inv [OF m(1)] invert_slots [OF m(1)] m(2,3) by (simp_all add: checked_slots_def)
  have c': "tis_inv ?c" "tis_length ?c = n" "tis_slots ?c = {t \<in> tis_slots c. \<not> P t}"
    using intersect_inv [OF c(1) i(1)] intersect_slots [OF c(1) i(1)] i(2,3) c(2) slots_less [of _ c] by auto
  then have "filters_fit n (Some ?c) e"
    using fit_narrower(1) [OF Cons.prems(1), of ?c] by (auto simp: checked_slots_def)
  then show ?case using Cons.IH [of ?c ?r] r' c'(3) by (auto simp: Let_def)
qed (simp add: filters_fit_def)

lemma conjunction_selects:
  assumes "n < 2 ^ 31" "list_all2 (selects n) Ps ms"
  shows "selects n (\<lambda>t. \<forall>P \<in> set Ps. P t) (Conjunction_getAllMatches g (int n) None ms)"
  unfolding selects_def
proof (intro allI impI)
  fix f e assume fit: "filters_fit n f e"
  note c = initial_filter_slots [OF assms(1) fit, of g]
  have "filters_fit n (Some (initial_filter g (int n) f e)) e" using fit_narrower(1) [OF fit c(1,2)] c(3) by simp
  from conjunction_loop_selects [OF assms(2) this] c(3)
  show "tis_inv (Conjunction_getAllMatches g (int n) None ms f e) \<and>
      tis_length (Conjunction_getAllMatches g (int n) None ms f e) = n \<and>
      tis_slots (Conjunction_getAllMatches g (int n) None ms f e) = {t \<in> checked_slots n f e. \<forall>P \<in> set Ps. P t}"
    by (simp add: Conjunction_getAllMatches_def)
qed

lemma disjunction_selects:
  assumes "n < 2 ^ 31" "list_all2 (selects n) Ps ms"
  shows "selects n (\<lambda>t. \<exists>P \<in> set Ps. P t) (Disjunction_getAllMatches sc g (int n) None ms)"
  unfolding selects_def
proof (intro allI impI)
  fix f e assume fit: "filters_fit n f e"
  note c = initial_filter_slots [OF assms(1) fit, of g]
  have fit': "filters_fit n (Some (initial_filter g (int n) f e)) e" using fit_narrower(1) [OF fit c(1,2)] c(3) by simp
  have r: "tis_inv (TupleIdSequence_new g (int n))" "tis_length (TupleIdSequence_new g (int n)) = n"
    "tis_slots (TupleIdSequence_new g (int n)) = {}"
    using new_inv [OF assms(1)] new_length [OF assms(1)] new_slots [OF assms(1)] by simp_all
  show "tis_inv (Disjunction_getAllMatches sc g (int n) None ms f e) \<and>
      tis_length (Disjunction_getAllMatches sc g (int n) None ms f e) = n \<and>
      tis_slots (Disjunction_getAllMatches sc g (int n) None ms f e) = {t \<in> checked_slots n f e. \<exists>P \<in> set Ps. P t}"
    using disjunction_loop_selects [OF assms(2) fit r(1,2)] disjunction_loop_short_selects [OF assms(2) fit' r(1,2)] c(3) r(3)
    by (cases sc) (simp_all add: Disjunction_getAllMatches_def Let_def)
qed

lemma getAllMatches_selects:
  assumes "n < 2 ^ 31" "\<And>c. selects n (\<lambda>t. leaf c (int t)) (all c)"
  shows "selects n (\<lambda>t. matches leaf p (int t)) (getAllMatches sc g (int n) all p)"
proof (induction p)
  case (NegationPredicate p r)
  then show ?case
    using negation_selects [OF assms(1)] static_selects [OF assms(1)]
    by (cases r) (simp_all add: Negation_matches_def Negation_getAllMatches_def [of _ _ "Some _", THEN ext [THEN ext]])
next
  case (ConjunctionPredicate ss ds r)
  have "list_all2 (selects n) (map (\<lambda>q t. matches leaf q (int t)) ds) (map (getAllMatches sc g (int n) all) ds)"
    using ConjunctionPredicate.IH(2) by (simp add: list_all2_conv_all_nth)
  from conjunction_selects [OF assms(1) this, of g] static_selects [OF assms(1), of _ g]
  show ?case
    by (cases r) (simp_all add: Conjunction_matches_def match_lists Conjunction_getAllMatches_def [of _ _ "Some _", THEN ext [THEN ext]])
next
  case (DisjunctionPredicate ss ds r fresh)
  have "list_all2 (selects n) (map (\<lambda>q t. matches leaf q (int t)) ds) (map (getAllMatches sc g (int n) all) ds)"
    using DisjunctionPredicate.IH(2) by (simp add: list_all2_conv_all_nth)
  from disjunction_selects [OF assms(1) this, of sc g] static_selects [OF assms(1), of _ g]
  show ?case
    by (cases r) (simp_all add: Disjunction_matches_def match_lists Disjunction_getAllMatches_def [of _ _ _ "Some _", THEN ext [THEN ext]])
qed (use assms static_selects in simp_all)


lemma add_all_static:
  assumes "\<forall>q \<in> set qs. getStaticResult static q \<noteq> None \<and> getPredicateType q \<noteq> kConjunction"
  shows "fold (Conjunction_addPredicate static) qs (conjunction_of static (ss, ds)) = conjunction_of static (ss @ qs, ds)"
  using assms
proof (induction qs arbitrary: ss)
  case (Cons q qs)
  have "operand_lists static kConjunction q = ([q], [])" using Cons.prems by (cases q) (auto simp: hasStaticResult_def)
  from Conjunction_add [OF this] show ?case using Cons by simp
qed simp

lemma add_all_dynamic:
  assumes "\<forall>q \<in> set qs. getStaticResult static q = None \<and> getPredicateType q \<noteq> kConjunction"
  shows "fold (Conjunction_addPredicate static) qs (conjunction_of static (ss, ds)) = conjunction_of static (ss, ds @ qs)"
  using assms
proof (induction qs arbitrary: ds)
  case (Cons q qs)
  have "operand_lists static kConjunction q = ([], [q])" using Cons.prems by (cases q) (auto simp: hasStaticResult_def)
  from Conjunction_add [OF this] show ?case using Cons by simp
qed simp

lemma disjunction_add_all_static:
  assumes "\<forall>q \<in> set qs. getStaticResult static q \<noteq> None \<and> getPredicateType q \<noteq> kDisjunction"
  shows "fold (Disjunction_addPredicate static) qs (disjunction_of static (ss, ds)) = disjunction_of static (ss @ qs, ds)"
  using assms
proof (induction qs arbitrary: ss)
  case (Cons q qs)
  have "operand_lists static kDisjunction q = ([q], [])" using Cons.prems by (cases q) (auto simp: hasStaticResult_def)
  from Disjunction_add [OF this] show ?case using Cons by simp
qed simp

lemma disjunction_add_all_dynamic:
  assumes "\<forall>q \<in> set qs. getStaticResult static q = None \<and> getPredicateType q \<noteq> kDisjunction"
  shows "fold (Disjunction_addPredicate static) qs (disjunction_of static (ss, ds)) = disjunction_of static (ss, ds @ qs)"
  using assms
proof (induction qs arbitrary: ds)
  case (Cons q qs)
  have "operand_lists static kDisjunction q = ([], [q])" using Cons.prems by (cases q) (auto simp: hasStaticResult_def)
  from Disjunction_add [OF this] show ?case using Cons by simp
qed simp

lemma new_of_lists:
  "ConjunctionPredicate_new = conjunction_of static ([], [])" "DisjunctionPredicate_new = disjunction_of static ([], [])"
  by (simp_all add: ConjunctionPredicate_new_def DisjunctionPredicate_new_def conjunction_of_def disjunction_of_def
      conjunction_result_def disjunction_result_def)

lemma clone_same: "predicate_wf static p \<Longrightarrow> Predicate_clone static (\<lambda>c. c) p = p"
proof (induction p)
  case (NegationPredicate p r)
  then show ?case by (cases "getStaticResult static p") (auto simp: NegationPredicate_new_def hasStaticResult_def)
next
  case (ConjunctionPredicate ss ds r)
  then have m: "map (Predicate_clone static (\<lambda>c. c)) ss = ss" "map (Predicate_clone static (\<lambda>c. c)) ds = ds"
    by (auto simp: list_all_iff intro: map_idI)
  have o: "operands_split static kConjunction ss ds" "r = conjunction_result static ss ds"
    using ConjunctionPredicate.prems by simp_all
  then show ?case
    using add_all_static [of ss static "[]" "[]"] add_all_dynamic [of ds static ss "[]"]
    by (simp add: m Conjunction_clone_def new_of_lists [of static] operands_split_def) (simp add: conjunction_of_def)
next
  case (DisjunctionPredicate ss ds r fresh)
  then have m: "map (Predicate_clone static (\<lambda>c. c)) ss = ss" "map (Predicate_clone static (\<lambda>c. c)) ds = ds"
    by (auto simp: list_all_iff intro: map_idI)
  have o: "operands_split static kDisjunction ss ds" "r = disjunction_result static ss ds" "fresh = (ss = [] \<and> ds = [])"
    using DisjunctionPredicate.prems by simp_all
  then show ?case
    using disjunction_add_all_static [of ss static "[]" "[]"] disjunction_add_all_dynamic [of ds static ss "[]"]
    by (simp add: m Disjunction_clone_def new_of_lists [of static] operands_split_def) (simp add: disjunction_of_def)
qed simp_all

lemma holds_conjunction_add:
  assumes "predicate_wf static p" "getPredicateType p = kConjunction"
  shows "holds test (Conjunction_addPredicate static q p) \<longleftrightarrow> holds test p \<and> holds test q"
proof -
  obtain ss ds ss' ds' where l: "operand_lists static kConjunction p = (ss, ds)" "operand_lists static kConjunction q = (ss', ds')"
    by (meson surj_pair)
  have "holds test q \<longleftrightarrow> list_all (holds test) ss' \<and> list_all (holds test) ds'"
    using l(2) by (cases q) (auto split: if_splits)
  moreover have p: "p = conjunction_of static (ss, ds)" using wf_lists(1) [OF assms] l(1) by simp
  ultimately show ?thesis unfolding p Conjunction_add [OF l(2)] by (auto simp: conjunction_of_def)
qed

lemma holds_disjunction_add:
  assumes "predicate_wf static p" "getPredicateType p = kDisjunction" "q \<noteq> DisjunctionPredicate_new" "predicate_wf static q"
  shows "holds test (Disjunction_addPredicate static q p) \<longleftrightarrow> (p \<noteq> DisjunctionPredicate_new \<and> holds test p) \<or> holds test q"
proof -
  obtain ss ds ss' ds' where l: "operand_lists static kDisjunction p = (ss, ds)" "operand_lists static kDisjunction q = (ss', ds')"
    by (meson surj_pair)
  have p: "p = disjunction_of static (ss, ds)" using wf_lists(2) [OF assms(1,2)] l(1) by simp
  have ne: "ss' @ ds' \<noteq> []"
    using l(2) assms(3,4) by (cases q) (auto simp: DisjunctionPredicate_new_def disjunction_result_def split: if_splits)
  then have "holds test q \<longleftrightarrow> list_ex (holds test) ss' \<or> list_ex (holds test) ds'"
    using l(2) by (cases q) (auto split: if_splits)
  moreover have "p = DisjunctionPredicate_new \<longleftrightarrow> ss = [] \<and> ds = []"
    unfolding p by (auto simp: DisjunctionPredicate_new_def disjunction_of_def disjunction_result_def)
  ultimately show ?thesis using ne unfolding p Disjunction_add [OF l(2)] by (auto simp: disjunction_of_def)
qed


section \<open>Properties\<close>

text \<open>
  C19: The operations that build predicates keep them well-formed: the operands stay split by static result, and
  the static result is the one the operands determine. Their results mean what they say: negation (also of a
  negation), conjunction, and disjunction, where adding to a new disjunction drops its initial value true.
  A clone of a predicate is equal to it.
\<close>

theorem predicate_construction:
  assumes "predicate_wf static p" "predicate_wf static q" "predicate_wf static c" "getPredicateType c = kConjunction"
    "predicate_wf static d" "getPredicateType d = kDisjunction" "q \<noteq> DisjunctionPredicate_new"
  shows "predicate_wf static ConjunctionPredicate_new \<and> predicate_wf static DisjunctionPredicate_new \<and>
    predicate_wf static (NegatePredicate static p) \<and> (holds test (NegatePredicate static p) \<longleftrightarrow> \<not> holds test p) \<and>
    predicate_wf static (Conjunction_addPredicate static q c) \<and>
    (holds test (Conjunction_addPredicate static q c) \<longleftrightarrow> holds test c \<and> holds test q) \<and>
    predicate_wf static (Disjunction_addPredicate static q d) \<and>
    (holds test (Disjunction_addPredicate static q d) \<longleftrightarrow> (d \<noteq> DisjunctionPredicate_new \<and> holds test d) \<or> holds test q) \<and>
    Predicate_clone static (\<lambda>c. c) p = p"
proof -
  have "predicate_wf static (NegatePredicate static p)" "holds test (NegatePredicate static p) \<longleftrightarrow> \<not> holds test p"
    using assms(1) by (cases p; auto simp: NegatePredicate_def NegationPredicate_new_def hasStaticResult_def)+
  moreover have "predicate_wf static ConjunctionPredicate_new" "predicate_wf static DisjunctionPredicate_new"
    by (auto simp: ConjunctionPredicate_new_def DisjunctionPredicate_new_def conjunction_result_def disjunction_result_def
        operands_split_def)
  ultimately show ?thesis
    using Conjunction_add_wf [OF assms(3,2,4)] Disjunction_add_wf [OF assms(5,2,6)] holds_conjunction_add [OF assms(3,4)]
      holds_disjunction_add [OF assms(5,6,7,2)] clone_same [OF assms(1)] by simp
qed

theorem predicate_construction_witness:
  "holds (\<lambda>c. c) (Conjunction_addPredicate (\<lambda>_. None) (ComparisonPredicate True) ConjunctionPredicate_new) \<and>
   \<not> holds (\<lambda>c. c) (Disjunction_addPredicate (\<lambda>_. None) (ComparisonPredicate False) DisjunctionPredicate_new)"
proof -
  have wf: "predicate_wf (\<lambda>_. None) (ComparisonPredicate b)" "ComparisonPredicate b \<noteq> DisjunctionPredicate_new"
    "predicate_wf (\<lambda>_. None) (ConjunctionPredicate_new :: bool predicate)"
    "getPredicateType (ConjunctionPredicate_new :: bool predicate) = kConjunction"
    "predicate_wf (\<lambda>_. None) (DisjunctionPredicate_new :: bool predicate)"
    "getPredicateType (DisjunctionPredicate_new :: bool predicate) = kDisjunction" for b :: bool
    by (auto simp: ConjunctionPredicate_new_def DisjunctionPredicate_new_def conjunction_result_def disjunction_result_def
        operands_split_def)
  note add = predicate_construction [OF wf(1,1,3,4,5,6) wf(2), where test = "\<lambda>c. c"]
  have "holds (\<lambda>c. c) (Conjunction_addPredicate (\<lambda>_. None) (ComparisonPredicate True) ConjunctionPredicate_new) \<longleftrightarrow>
      holds (\<lambda>c. c) ConjunctionPredicate_new \<and> holds (\<lambda>c. c) (ComparisonPredicate True)"
    "holds (\<lambda>c. c) (Disjunction_addPredicate (\<lambda>_. None) (ComparisonPredicate False) DisjunctionPredicate_new) \<longleftrightarrow>
      holds (\<lambda>c. c) (ComparisonPredicate False)"
    using add by blast+
  moreover have "holds (\<lambda>c. c) ConjunctionPredicate_new" by (simp add: ConjunctionPredicate_new_def)
  ultimately show ?thesis by simp
qed

text \<open>
  C20: Evaluating a well-formed predicate for a block gives exactly the tuples to check (those of the filter,
  else of the existence map, else all) at which the predicate holds as a formula of its comparisons, and
  at which the evaluation for a single tuple says so; with and without short-circuiting. Of a comparison it is
  assumed that its own block evaluation selects the tuples its single-tuple evaluation accepts, and
  that a static result is the result for every tuple.
\<close>

theorem block_evaluation:
  assumes "n < 2 ^ 31" "predicate_wf static p" "\<And>c. selects n (\<lambda>t. leaf c accessor (int t)) (all c)"
    "\<And>c r t. static c = Some r \<Longrightarrow> leaf c accessor t = r" "filters_fit n f e"
  shows "tis_slots (getAllMatches sc g (int n) all p f e) =
      {t \<in> checked_slots n f e. matchesForSingleTuple leaf p accessor (int t)} \<and>
    tis_slots (getAllMatches sc g (int n) all p f e) =
      {t \<in> checked_slots n f e. holds (\<lambda>c. leaf c accessor (int t)) p} \<and>
    tis_length (getAllMatches sc g (int n) all p f e) = n \<and> tis_inv (getAllMatches sc g (int n) all p f e)"
proof -
  have "static_sound static (\<lambda>c. leaf c accessor t)" for t using assms(4) by (simp add: static_sound_def)
  then have "matches (\<lambda>c. leaf c accessor) p (int t) = holds (\<lambda>c. leaf c accessor (int t)) p" for t
    using matches_holds [where leaf = "\<lambda>c. leaf c accessor"] assms(2) by blast
  then show ?thesis
    using selectsD [OF getAllMatches_selects [where leaf = "\<lambda>c. leaf c accessor", OF assms(1,3)] assms(5)]
    by (simp add: matchesForSingleTuple_def)
qed

text \<open>A comparison that accepts one tuple, as a function on tuple-ID sequences.\<close>

lemma single_tuple_selects:
  assumes "n < 2 ^ 31" "k < n"
  shows "selects n (\<lambda>t. t = k)
    (\<lambda>f e. tis_intersectWith (tis_set (int k) True (TupleIdSequence_new g (int n))) (initial_filter g (int n) f e))"
  unfolding selects_def
proof (intro allI impI)
  fix f e assume fit: "filters_fit n f e"
  note s = new_inv [OF assms(1), of g] new_length [OF assms(1), of g] new_slots [OF assms(1), of g]
  have k: "tis_inv (tis_set (int k) True (TupleIdSequence_new g (int n)))"
    "tis_slots (tis_set (int k) True (TupleIdSequence_new g (int n))) = {k}"
    using set_inv [OF s(1), of k] set_slots [OF s(1), of k] s(2,3) assms(2) by simp_all
  note i = initial_filter_slots [OF assms(1) fit, of g]
  show "tis_inv (tis_intersectWith (tis_set (int k) True (TupleIdSequence_new g (int n))) (initial_filter g (int n) f e)) \<and>
    tis_length (tis_intersectWith (tis_set (int k) True (TupleIdSequence_new g (int n))) (initial_filter g (int n) f e)) = n \<and>
    tis_slots (tis_intersectWith (tis_set (int k) True (TupleIdSequence_new g (int n))) (initial_filter g (int n) f e)) =
      {t \<in> checked_slots n f e. t = k}"
    using intersect_inv [OF i(1) k(1)] intersect_slots [OF i(1) k(1)] i(2,3) k(2) s(2) by auto
qed

lemma slots_but_three: "{t \<in> checked_slots 5 None None. \<not> int t = 3} = {0, 1, 2, 4}"
proof -
  have t3: "int t = 3 \<longleftrightarrow> t = 3" for t by linarith
  show ?thesis unfolding t3 by (auto simp: checked_slots_def)
qed

theorem block_evaluation_witness:
  "tis_slots (getAllMatches True (\<lambda>_. 0) (int 5)
     (\<lambda>c f e. tis_intersectWith (tis_set (int 3) True (TupleIdSequence_new (\<lambda>_. 0) (int 5))) (initial_filter (\<lambda>_. 0) (int 5) f e))
     (NegationPredicate (ComparisonPredicate ()) None) None None) = {0, 1, 2, 4}"
proof -
  have t3: "int t = 3 \<longleftrightarrow> t = 3" for t by linarith
  have "tis_slots (getAllMatches True (\<lambda>_. 0) (int 5)
     (\<lambda>c f e. tis_intersectWith (tis_set (int 3) True (TupleIdSequence_new (\<lambda>_. 0) (int 5))) (initial_filter (\<lambda>_. 0) (int 5) f e))
     (NegationPredicate (ComparisonPredicate ()) None) None None) =
    {t \<in> checked_slots 5 None None. holds (\<lambda>c. int t = int 3) (NegationPredicate (ComparisonPredicate ()) None)}"
    by (rule conjunct1 [OF conjunct2 [OF block_evaluation [where static = "\<lambda>_. None" and leaf = "\<lambda>_ _ t. t = int 3" and
            accessor = "()"]]], unfold of_nat_eq_iff)
      (use single_tuple_selects [of 5 3 "\<lambda>_. 0"] in \<open>simp_all add: filters_fit_def\<close>)
  then show ?thesis using slots_but_three by simp
qed

text \<open>
  Evaluating a predicate without a filter on a block whose number of tuples is a positive multiple of 64
  stores past the end of the bit vector: the whole range is set at once, for a predicate that is always
  true and as the first filter of a conjunction.
\<close>

theorem unfiltered_evaluation_strays:
  assumes "n < 2 ^ 31"
  shows "(stray (internal_bitvector (getAllMatches sc g (int n) all TruePredicate None None)) \<longleftrightarrow> 0 < n \<and> n mod 64 = 0) \<and>
    (stray (internal_bitvector (initial_filter g (int n) None None)) \<longleftrightarrow> 0 < n \<and> n mod 64 = 0)"
proof -
  have n: "n < 2 ^ 63" "tid_to_size (int n) = n" using assms by simp_all
  have wf: "bv_wf (BitVector_new g n)" using BitVector_new_inv [OF n(1)] by (rule bv_inv_wf)
  have "stray (setBitRange 0 n True (BitVector_new g n)) \<longleftrightarrow> n mod 64 = 0" if "0 < n"
    using setBitRange_stray [OF wf, of 0 n True] that BitVector_new_stray [OF n(1)] by simp
  then have "stray (internal_bitvector (tis_setRange 0 (int n) True (TupleIdSequence_new g (int n)))) \<longleftrightarrow> 0 < n \<and> n mod 64 = 0"
    using n BitVector_new_stray [OF n(1), of g]
    by (cases "n = 0") (simp_all add: tis_setRange_def TupleIdSequence_new_def tid_to_size_def)
  then show ?thesis
    using new_length [OF assms, of g]
    by (simp add: initial_filter_def GenerateSequenceForStaticResult_def Let_def)
qed

theorem unfiltered_evaluation_strays_witness:
  "stray (internal_bitvector (getAllMatches True (\<lambda>_. 0) (int 128) (\<lambda>_ :: unit. undefined) TruePredicate None None))"
  using unfiltered_evaluation_strays [of 128] by simp

end
