(* ===== verification/Coercion.thy ===== *)
theory Coercion
  imports TypedValues
begin

text \<open>
  Making values and coercing them: \<^verbatim>\<open>Type::makeValue\<close>, \<^verbatim>\<open>makeNullValue\<close>, \<^verbatim>\<open>makeZeroValue\<close> and \<^verbatim>\<open>coerceValue\<close>
  of the type classes under \<^verbatim>\<open>types\<close>. An operation that may allocate takes the address \<^verbatim>\<open>malloc\<close> returns;
  a fatal error and a conversion C++ leaves undefined are \<open>None\<close>.
\<close>

section \<open>Loading values from memory\<close>

text \<open>The number whose bytes, least significant first, are given.\<close>

fun bytes_word :: "u8 list \<Rightarrow> u64" where
  "bytes_word [] = 0"
| "bytes_word (b # bs) = ucast b OR push_bit 8 (bytes_word bs)"

definition load_word :: "nat \<Rightarrow> heap \<Rightarrow> u64 \<Rightarrow> u64" where
  "load_word n h p = bytes_word (read_bytes h p n)"

definition load_int :: "heap \<Rightarrow> u64 \<Rightarrow> u32" where
  "load_int h p = ucast (load_word 4 h p)"

definition load_date :: "heap \<Rightarrow> u64 \<Rightarrow> DateLit" where
  "load_date h p =
     (let w = load_word 8 h p in DateLit (ucast w) (ucast (drop_bit 32 w)) (ucast (drop_bit 40 w)))"

definition makeValue :: "u16 \<Rightarrow> heap \<Rightarrow> sql_type \<Rightarrow> u64 \<Rightarrow> nat \<Rightarrow> typed_value option" where
  "makeValue padding h this value_ptr value_size =
     (case type_id this of
        kInt \<Rightarrow> Some (TypedValue_int (load_int h value_ptr))
      | kLong \<Rightarrow> Some (TypedValue_long (load_word 8 h value_ptr))
      | kFloat \<Rightarrow> Some (TypedValue_float (load_int h value_ptr))
      | kDouble \<Rightarrow> Some (TypedValue_double (load_word 8 h value_ptr))
      | kDate \<Rightarrow> Some (TypedValue_date padding (load_date h value_ptr))
      | kDatetime \<Rightarrow> Some (TypedValue_datetime (DatetimeLit (load_word 8 h value_ptr)))
      | kDatetimeInterval \<Rightarrow> Some (TypedValue_datetime_interval (DatetimeIntervalLit (load_word 8 h value_ptr)))
      | kYearMonthInterval \<Rightarrow> Some (TypedValue_year_month_interval (YearMonthIntervalLit (load_word 8 h value_ptr)))
      | kNullType \<Rightarrow> None
      | _ \<Rightarrow> Some (TypedValue_reference (type_id this) value_ptr value_size))"

definition makeNullValue :: "sql_type \<Rightarrow> typed_value" where
  "makeNullValue this = TypedValue_null (type_id this)"

definition makeZeroValue :: "sql_type \<Rightarrow> typed_value option" where
  "makeZeroValue this =
     (case type_id this of
        kInt \<Rightarrow> Some (TypedValue_int 0)
      | kLong \<Rightarrow> Some (TypedValue_long 0)
      | kFloat \<Rightarrow> Some (TypedValue_float (to_f32 (fp_of_int 0)))
      | kDouble \<Rightarrow> Some (TypedValue_double (to_f64 (fp_of_int 0)))
      | kDatetimeInterval \<Rightarrow> Some (TypedValue_datetime_interval (DatetimeIntervalLit 0))
      | kYearMonthInterval \<Rightarrow> Some (TypedValue_year_month_interval (YearMonthIntervalLit 0))
      | _ \<Rightarrow> None)"

section \<open>Coercion of numbers\<close>

text \<open>A conversion of \<^verbatim>\<open>std::int64_t\<close> to \<^verbatim>\<open>int\<close> keeps the low bits, as the supported compilers define it.\<close>

definition IntType_coerceValue :: "sql_type \<Rightarrow> typed_value \<Rightarrow> sql_type \<Rightarrow> typed_value option" where
  "IntType_coerceValue this original_value original_type =
     (if isNull original_value then Some (makeNullValue this)
      else case type_id original_type of
             kInt \<Rightarrow> Some original_value
           | kLong \<Rightarrow> Some (TypedValue_int (ucast (getLiteral_long original_value)))
           | kFloat \<Rightarrow> map_option TypedValue_int (to_i32 (f32 (getLiteral_float original_value)))
           | kDouble \<Rightarrow> map_option TypedValue_int (to_i32 (f64 (getLiteral_double original_value)))
           | _ \<Rightarrow> None)"

definition LongType_coerceValue :: "sql_type \<Rightarrow> typed_value \<Rightarrow> sql_type \<Rightarrow> typed_value option" where
  "LongType_coerceValue this original_value original_type =
     (if isNull original_value then Some (makeNullValue this)
      else case type_id original_type of
             kInt \<Rightarrow> Some (TypedValue_long (scast (getLiteral_int original_value)))
           | kLong \<Rightarrow> Some original_value
           | kFloat \<Rightarrow> map_option TypedValue_long (to_i64 (f32 (getLiteral_float original_value)))
           | kDouble \<Rightarrow> map_option TypedValue_long (to_i64 (f64 (getLiteral_double original_value)))
           | _ \<Rightarrow> None)"

definition FloatType_coerceValue :: "sql_type \<Rightarrow> typed_value \<Rightarrow> sql_type \<Rightarrow> typed_value option" where
  "FloatType_coerceValue this original_value original_type =
     (if isNull original_value then Some (makeNullValue this)
      else case type_id original_type of
             kInt \<Rightarrow> Some (TypedValue_float (to_f32 (fp_of_int (sint (getLiteral_int original_value)))))
           | kLong \<Rightarrow> Some (TypedValue_float (to_f32 (fp_of_int (sint (getLiteral_long original_value)))))
           | kFloat \<Rightarrow> Some original_value
           | kDouble \<Rightarrow> Some (TypedValue_float (to_f32 (f64 (getLiteral_double original_value))))
           | _ \<Rightarrow> None)"

definition DoubleType_coerceValue :: "sql_type \<Rightarrow> typed_value \<Rightarrow> sql_type \<Rightarrow> typed_value option" where
  "DoubleType_coerceValue this original_value original_type =
     (if isNull original_value then Some (makeNullValue this)
      else case type_id original_type of
             kInt \<Rightarrow> Some (TypedValue_double (to_f64 (fp_of_int (sint (getLiteral_int original_value)))))
           | kLong \<Rightarrow> Some (TypedValue_double (to_f64 (fp_of_int (sint (getLiteral_long original_value)))))
           | kFloat \<Rightarrow> Some (TypedValue_double (to_f64 (f32 (getLiteral_float original_value))))
           | kDouble \<Rightarrow> Some original_value
           | _ \<Rightarrow> None)"

section \<open>Coercion of strings\<close>

definition CharType_coerceValue ::
  "u64 \<Rightarrow> sql_type \<Rightarrow> typed_value \<Rightarrow> sql_type \<Rightarrow> heap \<Rightarrow> typed_value \<times> heap" where
  "CharType_coerceValue p this original_value original_type h =
     (if isNull original_value then (makeNullValue this, h)
      else
        let original_data = getOutOfLineData original_value;
            original_data_size = getDataSize original_value;
            null_terminated = (type_id original_type = kVarChar \<or>
              original_data_size < maximumByteLength original_type \<or>
              0 \<in> set (read_bytes h original_data original_data_size))
        in if original_data_size \<le> string_length this
           then (if null_terminated \<or> original_data_size = string_length this
                 then (let (value_copy, h') = TypedValue_copy p original_value h in (markType kChar value_copy, h'))
                 else (let h1 = malloc_block p (original_data_size + 1) h;
                           h2 = write_bytes p (read_bytes h1 original_data original_data_size) h1;
                           h3 = write_bytes (p + of_nat original_data_size) [0] h2
                       in (CreateWithOwnedData kChar p (original_data_size + 1), h3)))
           else (if ownsOutOfLineData original_value
                 then (let h1 = malloc_block p (string_length this) h;
                           h2 = write_bytes p (read_bytes h1 original_data (string_length this)) h1
                       in (CreateWithOwnedData kChar p (string_length this), h2))
                 else (TypedValue_reference kChar original_data (string_length this), h)))"

definition VarCharType_coerceValue ::
  "u64 \<Rightarrow> sql_type \<Rightarrow> typed_value \<Rightarrow> sql_type \<Rightarrow> heap \<Rightarrow> typed_value \<times> heap" where
  "VarCharType_coerceValue p this original_value original_type h =
     (if isNull original_value then (makeNullValue this, h)
      else
        let original_data = getOutOfLineData original_value;
            original_data_size = getDataSize original_value;
            original_strlen = (if type_id original_type = kVarChar
                               then (if original_data_size = 0 then 2 ^ 64 - 1 else original_data_size - 1)
                               else strnlen (read_bytes h original_data original_data_size));
            null_terminated = (original_strlen < original_data_size)
        in if original_strlen \<le> string_length this \<and> null_terminated
           then (let (value_copy, h') = TypedValue_copy p original_value h in (markType kVarChar value_copy, h'))
           else (let copy_strlen = (if original_strlen < string_length this then original_strlen else string_length this);
                     h1 = malloc_block p (copy_strlen + 1) h;
                     h2 = write_bytes p (read_bytes h1 original_data copy_strlen) h1;
                     h3 = write_bytes (p + of_nat copy_strlen) [0] h2
                 in (CreateWithOwnedData kVarChar p (copy_strlen + 1), h3)))"

text \<open>The types without a \<^verbatim>\<open>coerceValue\<close> of their own only copy.\<close>

definition Type_coerceValue ::
  "u64 \<Rightarrow> sql_type \<Rightarrow> typed_value \<Rightarrow> sql_type \<Rightarrow> heap \<Rightarrow> typed_value \<times> heap" where
  "Type_coerceValue p this original_value original_type h =
     (if type_id original_type = kNullType then (makeNullValue this, h) else TypedValue_copy p original_value h)"

definition coerceValue ::
  "u64 \<Rightarrow> sql_type \<Rightarrow> typed_value \<Rightarrow> sql_type \<Rightarrow> heap \<Rightarrow> (typed_value \<times> heap) option" where
  "coerceValue p this original_value original_type h =
     (case type_id this of
        kInt \<Rightarrow> map_option (\<lambda>v. (v, h)) (IntType_coerceValue this original_value original_type)
      | kLong \<Rightarrow> map_option (\<lambda>v. (v, h)) (LongType_coerceValue this original_value original_type)
      | kFloat \<Rightarrow> map_option (\<lambda>v. (v, h)) (FloatType_coerceValue this original_value original_type)
      | kDouble \<Rightarrow> map_option (\<lambda>v. (v, h)) (DoubleType_coerceValue this original_value original_type)
      | kChar \<Rightarrow> Some (CharType_coerceValue p this original_value original_type h)
      | kVarChar \<Rightarrow> Some (VarCharType_coerceValue p this original_value original_type h)
      | _ \<Rightarrow> Some (Type_coerceValue p this original_value original_type h))"

section \<open>Storing and loading\<close>

lemma ucast_mod_byte: "(ucast (ucast w :: u8) :: u64) = take_bit 8 w" for w :: u64
  by (rule bit_word_eqI) (auto simp: bit_ucast_iff bit_take_bit_iff)

lemma bytes_word_word_bytes: "8 * n \<le> 64 \<Longrightarrow> bytes_word (word_bytes n w) = take_bit (8 * n) w"
proof (induction n arbitrary: w)
  case 0
  then show ?case by (simp add: word_bytes_def)
next
  case (Suc n)
  have "word_bytes (Suc n) w = ucast w # word_bytes n (drop_bit 8 w)"
    by (simp add: word_bytes_def upt_conv_Cons map_Suc_upt [symmetric] drop_bit_drop_bit o_def add.commute del: upt_Suc map_Suc_upt)
  then have "bytes_word (word_bytes (Suc n) w) = take_bit 8 w OR push_bit 8 (take_bit (8 * n) (drop_bit 8 w))"
    using Suc by (simp add: ucast_mod_byte)
  also have "\<dots> = take_bit (8 * Suc n) w"
    by (rule bit_word_eqI) (auto simp: bit_or_iff bit_take_bit_iff bit_push_bit_iff bit_drop_bit_eq)
  finally show ?case .
qed

text \<open>The literals of the eight inline types, and the value of each.\<close>

datatype literal =
  number numeric_lit
| date DateLit
| datetime DatetimeLit
| datetime_interval DatetimeIntervalLit
| year_month_interval YearMonthIntervalLit

fun literal_type :: "literal \<Rightarrow> TypeID" where
  "literal_type (number (IntLit _)) = kInt"
| "literal_type (number (LongLit _)) = kLong"
| "literal_type (number (FloatLit _)) = kFloat"
| "literal_type (number (DoubleLit _)) = kDouble"
| "literal_type (date _) = kDate"
| "literal_type (datetime _) = kDatetime"
| "literal_type (datetime_interval _) = kDatetimeInterval"
| "literal_type (year_month_interval _) = kYearMonthInterval"

fun literal_value :: "u16 \<Rightarrow> literal \<Rightarrow> typed_value" where
  "literal_value pad (number (IntLit i)) = TypedValue_int i"
| "literal_value pad (number (LongLit l)) = TypedValue_long l"
| "literal_value pad (number (FloatLit f)) = TypedValue_float f"
| "literal_value pad (number (DoubleLit d)) = TypedValue_double d"
| "literal_value pad (date d) = TypedValue_date pad d"
| "literal_value pad (datetime t) = TypedValue_datetime t"
| "literal_value pad (datetime_interval i) = TypedValue_datetime_interval i"
| "literal_value pad (year_month_interval y) = TypedValue_year_month_interval y"

text \<open>\<^verbatim>\<open>getLiteral\<close> and a load through a pointer, for the C++ type of each type ID.\<close>

definition getLiteral :: "TypeID \<Rightarrow> typed_value \<Rightarrow> literal" where
  "getLiteral tid v =
     (case tid of
        kInt \<Rightarrow> number (IntLit (getLiteral_int v))
      | kLong \<Rightarrow> number (LongLit (getLiteral_long v))
      | kFloat \<Rightarrow> number (FloatLit (getLiteral_float v))
      | kDouble \<Rightarrow> number (DoubleLit (getLiteral_double v))
      | kDate \<Rightarrow> date (getLiteral_date v)
      | kDatetime \<Rightarrow> datetime (getLiteral_datetime v)
      | kDatetimeInterval \<Rightarrow> datetime_interval (getLiteral_datetime_interval v)
      | _ \<Rightarrow> year_month_interval (getLiteral_year_month_interval v))"

definition load_literal :: "TypeID \<Rightarrow> heap \<Rightarrow> u64 \<Rightarrow> literal" where
  "load_literal tid h p =
     (case tid of
        kInt \<Rightarrow> number (IntLit (load_int h p))
      | kLong \<Rightarrow> number (LongLit (load_word 8 h p))
      | kFloat \<Rightarrow> number (FloatLit (load_int h p))
      | kDouble \<Rightarrow> number (DoubleLit (load_word 8 h p))
      | kDate \<Rightarrow> date (load_date h p)
      | kDatetime \<Rightarrow> datetime (DatetimeLit (load_word 8 h p))
      | kDatetimeInterval \<Rightarrow> datetime_interval (DatetimeIntervalLit (load_word 8 h p))
      | _ \<Rightarrow> year_month_interval (YearMonthIntervalLit (load_word 8 h p)))"

text \<open>A literal as \<^verbatim>\<open>TypedValue\<close> keeps it: negative zero is stored as zero.\<close>

fun stored_literal :: "literal \<Rightarrow> literal" where
  "stored_literal (number (FloatLit f)) = number (FloatLit (if fp_equal (f32 f) (fp_of_int 0) then 0 else f))"
| "stored_literal (number (DoubleLit d)) = number (DoubleLit (if fp_equal (f64 d) (fp_of_int 0) then 0 else d))"
| "stored_literal l = l"

lemma literal_value_observers [simp]:
  "getTypeID (literal_value pad l) = literal_type l" "\<not> isNull (literal_value pad l)"
  by (induction pad l rule: literal_value.induct) (simp_all add: value_simps)

lemma getLiteral_value [simp]: "getLiteral (literal_type l) (literal_value pad l) = stored_literal l"
  by (induction pad l rule: literal_value.induct) (simp_all add: getLiteral_def value_simps)

lemma literal_value_stored [simp]: "literal_value pad (stored_literal l) = literal_value pad l"
  by (induction l rule: stored_literal.induct) (simp_all add: stored_again)

lemma makeValue_literal:
  "RepresentedInline (type_id t) \<Longrightarrow> type_id t \<noteq> kNullType \<Longrightarrow>
    makeValue pad h t p n = Some (literal_value pad (load_literal (type_id t) h p))"
  by (cases "type_id t") (simp_all add: makeValue_def load_literal_def RepresentedInline_def)

lemma read_word_bytes:
  "n \<le> 8 \<Longrightarrow> read_bytes (write_bytes p (word_bytes n w) h) p n = word_bytes n w"
  using read_write_bytes [of "word_bytes n w" p h] by (simp add: word_bytes_def)

lemma load_stored_word:
  "load_word 8 (write_bytes p (word_bytes 8 w) h) p = w"
  "load_int (write_bytes p (word_bytes 4 w) h) p = ucast w"
proof -
  show "load_word 8 (write_bytes p (word_bytes 8 w) h) p = w"
    using bytes_word_word_bytes [of 8 w] by (simp add: load_word_def read_word_bytes take_bit_word_eq_self)
  have "ucast (take_bit 32 w) = (ucast w :: u32)"
    by (rule bit_word_eqI) (auto simp: bit_ucast_iff bit_take_bit_iff)
  then show "load_int (write_bytes p (word_bytes 4 w) h) p = ucast w"
    by (simp add: load_int_def load_word_def read_word_bytes bytes_word_word_bytes)
qed

lemma literal_value_inline: "drop_bit kSizeShift (value_info (literal_value pad l)) = 0"
  by (induction pad l rule: literal_value.induct)
    (simp_all add: TypedValue_int_def TypedValue_long_def TypedValue_float_def TypedValue_double_def TypedValue_date_def
      TypedValue_datetime_def TypedValue_datetime_interval_def TypedValue_year_month_interval_def kSizeShift_def)

lemma copyInto_literal:
  "copyInto p (literal_value pad l) h =
    write_bytes p (word_bytes (if literal_type l \<in> {kInt, kFloat} then 4 else 8) (value_union (literal_value pad l))) h"
  by (cases "literal_type l") (simp_all add: copyInto_def literal_value_inline)

lemma load_copied_literal: "load_literal (literal_type l) (copyInto p (literal_value pad l) h) p = stored_literal l"
proof -
  have "load_literal (literal_type l) (copyInto p (literal_value pad l) h) p = getLiteral (literal_type l) (literal_value pad l)"
    by (cases "literal_type l")
      (simp_all add: copyInto_literal load_literal_def getLiteral_def load_stored_word load_date_def Let_def
        getLiteral_int_def getLiteral_long_def getLiteral_float_def getLiteral_double_def getLiteral_date_def
        getLiteral_datetime_def getLiteral_datetime_interval_def getLiteral_year_month_interval_def)
  then show ?thesis by simp
qed

text \<open>
  C21: A value written to memory with copyInto and made again from there is the same value: bit for bit,
  but for the padding of a date, when it is inline; a string is a reference to the written bytes, which
  are its own.
\<close>

theorem stored_values_load_back:
  assumes "type_id t = literal_type l" "type_id u \<in> {kChar, kVarChar}" "\<not> isNull v" "getTypeID v = type_id u"
    "getDataSize v \<noteq> 0" "getDataSize v < 2 ^ 56"
  shows "makeValue pad (copyInto p (literal_value pad' l) h) t p n = Some (literal_value pad l) \<and>
    (\<exists>v'. makeValue pad (copyInto p v h) u p (getDataSize v) = Some v' \<and> getTypeID v' = getTypeID v \<and> \<not> isNull v' \<and>
      value_union v' = p \<and> out_of_line_bytes (copyInto p v h) v' = out_of_line_bytes h v)"
proof -
  have "RepresentedInline (literal_type l)" "literal_type l \<noteq> kNullType"
    by (induction l rule: literal_type.induct) (simp_all add: RepresentedInline_def)
  then have "makeValue pad (copyInto p (literal_value pad' l) h) t p n = Some (literal_value pad l)"
    using load_copied_literal [of l p pad' h] makeValue_literal [of t] assms(1) by simp
  moreover have "copyInto p v h = write_bytes p (out_of_line_bytes h v) h"
    using assms(2,4,5) by (auto simp: copyInto_def getDataSize_def out_of_line_bytes_def)
  moreover have "makeValue pad h' u p (getDataSize v) = Some (TypedValue_reference (type_id u) p (getDataSize v))" for h'
    using assms(2) by (auto simp: makeValue_def)
  moreover have "\<not> RepresentedInline (type_id u)" using assms(2) by (auto simp: RepresentedInline_def)
  moreover have "length (out_of_line_bytes h v) = getDataSize v" by (simp add: out_of_line_bytes_def read_bytes_def)
  ultimately show ?thesis
    using reference_observers [OF assms(6), of "type_id u" p] read_write_bytes [of "out_of_line_bytes h v" p h] assms(4,6)
    by (simp add: out_of_line_bytes_def)
qed

text \<open>Evaluation of the conversions on given numbers.\<close>

lemmas fp_eval = fp_of_int_def fp_encode_def fp_round_def fp_unit_def round_to_def fp_pack_def fp_pack_normal_def Let_def
  fp_bits_def fp_decode_def fp_emin_def fp_bias_def fp_to_int_def fp_align_def signed_mant_def
  bit_length.simps [of "numeral k" for k] bit_length.simps [of "Suc 0"]

theorem stored_values_load_back_witness:
  "makeValue 0 (copyInto 0x2000 (TypedValue_float 0x80000000) sample_heap) \<lparr>type_id = kFloat, nullable = False, string_length = 0\<rparr> 0x2000 4 =
     Some (TypedValue_float 0) \<and>
   (\<exists>v'. makeValue 0 (copyInto 0x2000 (CreateWithOwnedData kChar 0x1000 4) sample_heap)
       \<lparr>type_id = kChar, nullable = False, string_length = 4\<rparr> 0x2000 4 = Some v' \<and>
     out_of_line_bytes (copyInto 0x2000 (CreateWithOwnedData kChar 0x1000 4) sample_heap) v' = [7, 7, 7, 7])"
proof -
  let ?v = "CreateWithOwnedData kChar 0x1000 4"
  let ?t = "\<lparr>type_id = kFloat, nullable = False, string_length = 0\<rparr>"
  let ?u = "\<lparr>type_id = kChar, nullable = False, string_length = 4\<rparr>"
  have n: "\<not> RepresentedInline kChar" by (simp add: RepresentedInline_def)
  have v: "getTypeID ?v = kChar" "\<not> isNull ?v" "getDataSize ?v = 4"
    using reference_observers [of 4 kChar "0x1000"] n by simp_all
  have z: "TypedValue_float 0x80000000 = TypedValue_float 0" by (simp add: TypedValue_float_def f32_def fp_eval)
  have b: "out_of_line_bytes sample_heap ?v = [7, 7, 7, 7]" by code_simp
  have l: "type_id ?t = literal_type (number (FloatLit 0x80000000))" by simp
  have u: "type_id ?u \<in> {kChar, kVarChar}" "getTypeID ?v = type_id ?u" "getDataSize ?v \<noteq> 0" "getDataSize ?v < 2 ^ 56"
    using v by simp_all
  note r = stored_values_load_back [OF l u(1) v(2) u(2-4), of 0 "0x2000" 0 sample_heap 4]
  show ?thesis using r unfolding v(3) b literal_value.simps z by blast
qed

section \<open>Numbers\<close>

lemma scast_back: "ucast (scast (i :: u32) :: u64) = i"
  by (rule bit_word_eqI) (auto simp: bit_simps)

lemma fp_zero:
  assumes "fp_equal y (fp_of_int 0)"
  obtains s e where "y = Fin s 0 e"
  using assms by (cases y) (auto simp: fp_of_int_def fp_align_def signed_mant_def split: if_splits)

lemma zero_to_int: "fp_equal y (fp_of_int 0) \<Longrightarrow> fp_to_int y = Some 0"
  by (erule fp_zero) (simp add: fp_to_int_def)

lemma zero_to_f32: "fp_equal (f32 (to_f32 (Fin s 0 e))) (fp_of_int 0)"
proof -
  have "to_f32 (Fin s 0 e) = (if s then 0x80000000 else 0)"
    by (simp add: to_f32_def fp_encode_def fp_round_0 fp_bits_def)
  then show ?thesis by (simp add: f32_def fp_eval)
qed

lemma TypedValue_float_zero: "fp_equal (f32 w) (fp_of_int 0) \<Longrightarrow> TypedValue_float w = TypedValue_float 0"
  by (simp add: TypedValue_float_def)

lemma int_through_double:
  "to_i32 (f64 (getLiteral_double (TypedValue_double (to_f64 (fp_of_int (sint (i :: u32))))))) = Some i"
proof (cases "fp_equal (f64 (to_f64 (fp_of_int (sint i)))) (fp_of_int 0)")
  case True
  then have "i = 0" using zero_to_int [OF True] i32_through_f64 [of i] by (simp add: to_i32_def)
  then show ?thesis using i32_through_f64 [of 0] True by (simp add: literals_back to_i32_def f64_def fp_eval)
next
  case False
  then show ?thesis using i32_through_f64 [of i] by (simp add: literals_back)
qed

lemma float_through_double:
  assumes "f32 f \<noteq> NaN"
  shows "TypedValue_float (to_f32 (f64 (getLiteral_double (TypedValue_double (to_f64 (f32 f)))))) = TypedValue_float f"
proof (cases "fp_equal (f64 (to_f64 (f32 f))) (fp_of_int 0)")
  case True
  then obtain s e where "f64 (to_f64 (f32 f)) = Fin s 0 e" by (rule fp_zero)
  then have "fp_equal (f32 f) (fp_of_int 0)"
    using zero_to_f32 [of s e] f32_through_f64 [OF assms] by simp
  moreover have "to_f32 (f64 0) = 0" by (simp add: to_f32_def f64_def fp_eval)
  ultimately show ?thesis using True by (simp add: literals_back TypedValue_float_zero)
next
  case False
  then show ?thesis using f32_through_f64 [OF assms] by (simp add: literals_back)
qed

definition basic_type :: "TypeID \<Rightarrow> sql_type" where
  "basic_type tid = \<lparr>type_id = tid, nullable = False, string_length = 0\<rparr>"

text \<open>
  C22: Coercing a number to a wider type and back gives the number: Int through Long or Double, Float through
  Double (but for NaN). A safe coercion may round: Int 16777217 does not come back from Float, and
  Long 9007199254740993 not from Double.
\<close>

theorem coercion_back:
  assumes "type_id a = literal_type (number x)" "(type_id a, type_id b) \<in> {(kInt, kLong), (kInt, kDouble), (kFloat, kDouble)}"
    "\<forall>f. x = FloatLit f \<longrightarrow> f32 f \<noteq> NaN"
  shows "Option.bind (coerceValue p b (literal_value pad (number x)) a h) (\<lambda>(v, h'). coerceValue q a v b h') =
      Some (literal_value pad (number x), h) \<and>
    Option.bind (coerceValue p (basic_type kFloat) (TypedValue_int 16777217) (basic_type kInt) h)
      (\<lambda>(v, h'). coerceValue q (basic_type kInt) v (basic_type kFloat) h') = Some (TypedValue_int 16777216, h) \<and>
    Option.bind (coerceValue p (basic_type kDouble) (TypedValue_long 9007199254740993) (basic_type kLong) h)
      (\<lambda>(v, h'). coerceValue q (basic_type kLong) v (basic_type kDouble) h') = Some (TypedValue_long 9007199254740992, h)"
proof (intro conjI)
  note d = coerceValue_def IntType_coerceValue_def LongType_coerceValue_def FloatType_coerceValue_def DoubleType_coerceValue_def
  show "Option.bind (coerceValue p b (literal_value pad (number x)) a h) (\<lambda>(v, h'). coerceValue q a v b h') =
      Some (literal_value pad (number x), h)"
  proof (cases x)
    case (IntLit i)
    then show ?thesis
      using assms(1,2) int_through_double [of i] by (auto simp: d value_simps scast_back)
  next
    case (FloatLit f)
    moreover have "f32 0 \<noteq> NaN" by (simp add: f32_def fp_eval)
    ultimately show ?thesis
      using assms float_through_double [of "if fp_equal (f32 f) (fp_of_int 0) then 0 else f"] stored_again(1) [of f]
      by (auto simp: d value_simps)
  qed (use assms(1,2) in auto)
  have "to_f32 (fp_of_int 16777217) = 0x4B800000" "to_i32 (f32 0x4B800000) = Some 16777216"
    "\<not> fp_equal (f32 0x4B800000) (fp_of_int 0)" by (simp_all add: to_f32_def to_i32_def f32_def fp_eval)
  then show "Option.bind (coerceValue p (basic_type kFloat) (TypedValue_int 16777217) (basic_type kInt) h)
      (\<lambda>(v, h'). coerceValue q (basic_type kInt) v (basic_type kFloat) h') = Some (TypedValue_int 16777216, h)"
    by (simp add: d value_simps basic_type_def)
  have "to_f64 (fp_of_int 9007199254740993) = 0x4340000000000000" "to_i64 (f64 0x4340000000000000) = Some 9007199254740992"
    "\<not> fp_equal (f64 0x4340000000000000) (fp_of_int 0)" by (simp_all add: to_f64_def to_i64_def f64_def fp_eval)
  then show "Option.bind (coerceValue p (basic_type kDouble) (TypedValue_long 9007199254740993) (basic_type kLong) h)
      (\<lambda>(v, h'). coerceValue q (basic_type kLong) v (basic_type kDouble) h') = Some (TypedValue_long 9007199254740992, h)"
    by (simp add: d value_simps basic_type_def)
qed

theorem coercion_back_witness:
  "Option.bind (coerceValue 0 (basic_type kDouble) (TypedValue_int 7) (basic_type kInt) sample_heap)
     (\<lambda>(v, h'). coerceValue 0 (basic_type kInt) v (basic_type kDouble) h') = Some (TypedValue_int 7, sample_heap)"
  using coercion_back [of "basic_type kInt" "IntLit 7" "basic_type kDouble" 0 0 sample_heap 0] by (simp add: basic_type_def)

section \<open>Strings\<close>

text \<open>The string a value holds: its bytes up to the first null byte.\<close>

definition string_of :: "heap \<Rightarrow> typed_value \<Rightarrow> u8 list" where
  "string_of h v = takeWhile (\<lambda>c. c \<noteq> 0) (out_of_line_bytes h v)"

definition string_value :: "typed_value \<Rightarrow> bool" where
  "string_value v \<longleftrightarrow> value_wf v \<and> \<not> isNull v \<and> getTypeID v \<in> {kChar, kVarChar}"

lemma not_inline_string: "tid \<in> {kChar, kVarChar} \<Longrightarrow> \<not> RepresentedInline tid"
  by (auto simp: RepresentedInline_def)

lemma string_info:
  assumes "string_value v"
  obtains own where "value_info v = info_word (getTypeID v) False own (getDataSize v)" "0 < getDataSize v"
    "getDataSize v < 2 ^ 56"
proof -
  obtain nul own sz where i: "value_info v = info_word (getTypeID v) nul own sz" "info_wf (getTypeID v) nul own sz"
    using assms by (auto simp: string_value_def value_wf_def)
  then have "sz < 2 ^ 56" by (simp add: info_wf_def)
  note o = observe_info [OF i(1) this]
  have t: "\<not> RepresentedInline (getTypeID v)" using assms by (intro not_inline_string) (simp add: string_value_def)
  have "\<not> nul" "getDataSize v = sz" using o(2) o(6) [OF t] assms by (simp_all add: string_value_def)
  then show ?thesis using i t that by (auto simp: info_wf_def)
qed

lemma info_string_value:
  assumes "value_info v = info_word tid False own n" "tid \<in> {kChar, kVarChar}" "0 < n" "n < 2 ^ 56"
  shows "string_value v" "getTypeID v = tid" "getDataSize v = n" "\<not> isNull v"
proof -
  note o = observe_info [OF assms(1,4)]
  have t: "\<not> RepresentedInline tid" by (rule not_inline_string [OF assms(2)])
  show "getTypeID v = tid" "\<not> isNull v" using o by simp_all
  show "getDataSize v = n" using o(6) [OF t] .
  have "info_wf tid False own n" using t assms by (simp add: info_wf_def)
  then show "string_value v" using o(1,2) assms(1,2) unfolding string_value_def value_wf_def by auto
qed

lemma copied_string:
  assumes "string_value v" "TypedValue_copy p v h = (c, h')" "tid \<in> {kChar, kVarChar}"
  shows "string_value (markType tid c)" "getTypeID (markType tid c) = tid" "getDataSize (markType tid c) = getDataSize v"
    "out_of_line_bytes h' (markType tid c) = out_of_line_bytes h v"
proof -
  obtain own where i: "value_info v = info_word (getTypeID v) False own (getDataSize v)" "0 < getDataSize v"
    "getDataSize v < 2 ^ 56" using string_info [OF assms(1)] .
  obtain own' where c: "value_info c = info_word (getTypeID v) False own' (getDataSize v)"
    using assms(2) i(1) info_word_or_own
    by (fastforce simp: TypedValue_copy_def convertToLiteral_def Let_def split: if_splits)
  then have m: "value_info (markType tid c) = info_word tid False own' (getDataSize v)"
    by (simp add: markType_def info_word_mark)
  note s = info_string_value [OF m assms(3) i(2,3)]
  show "string_value (markType tid c)" "getTypeID (markType tid c) = tid" "getDataSize (markType tid c) = getDataSize v"
    using s by simp_all
  have "getTypeID v \<in> {kChar, kVarChar}" using assms(1) by (simp add: string_value_def)
  then have "getDataSize c = getDataSize v" using info_string_value [OF c _ i(2,3)] by simp
  moreover have "out_of_line_bytes h' c = out_of_line_bytes h v"
    using assms(2) bytes_convert(1) [of p v h c h'] i(3) by (auto simp: TypedValue_copy_def split: if_splits)
  ultimately show "out_of_line_bytes h' (markType tid c) = out_of_line_bytes h v"
    using s(3) by (simp add: out_of_line_bytes_def) (simp add: markType_def)
qed

lemma owned_string:
  assumes "tid \<in> {kChar, kVarChar}" "0 < n" "n < 2 ^ 56"
  shows "string_value (CreateWithOwnedData tid p n)" "string_value (TypedValue_reference tid p n)"
  using info_string_value [OF constructor_info(12) assms] info_string_value [OF constructor_info(13) assms] by simp_all

lemma read_malloc [simp]: "read_bytes (malloc_block p n h) q k = read_bytes h q k"
  by (simp add: read_bytes_def malloc_block_def)

lemma length_read_bytes [simp]: "length (read_bytes h p n) = n"
  by (simp add: read_bytes_def)

lemma take_read_bytes: "k \<le> n \<Longrightarrow> take k (read_bytes h p n) = read_bytes h p k"
  by (simp add: read_bytes_def take_map)

lemma read_terminated:
  assumes "length xs < 2 ^ 56"
  shows "read_bytes (write_bytes (p + of_nat (length xs)) [0] (write_bytes p xs h)) p (length xs + 1) = xs @ [0]"
proof (rule nth_equalityI)
  fix i assume "i < length (read_bytes (write_bytes (p + of_nat (length xs)) [0] (write_bytes p xs h)) p (length xs + 1))"
  then have i: "i < length xs + 1" by simp
  have u: "unat (of_nat k :: u64) = k" if "k < length xs + 1" for k
    using that assms by (simp add: unat_of_nat take_bit_nat_eq_self)
  let ?h = "write_bytes p xs h"
  have r: "read_bytes (write_bytes (p + of_nat (length xs)) [0] ?h) p (length xs + 1) ! i =
      (if unat (p + of_nat i - (p + of_nat (length xs))) = 0 then 0 else bytes ?h (p + of_nat i))"
    using i by (auto simp: read_bytes_def write_bytes_def simp del: upt_Suc)
  show "read_bytes (write_bytes (p + of_nat (length xs)) [0] ?h) p (length xs + 1) ! i = (xs @ [0]) ! i"
  proof (cases "i = length xs")
    case True
    then show ?thesis unfolding r by simp
  next
    case False
    then have "(of_nat i :: u64) \<noteq> of_nat (length xs)" using u [OF i] u [of "length xs"] by (metis less_add_one)
    then have "unat (p + of_nat i - (p + of_nat (length xs))) \<noteq> 0" by (simp add: unat_eq_zero)
    moreover have "bytes ?h (p + of_nat i) = xs ! i"
      using u [OF i] i False by (simp add: write_bytes_def)
    ultimately show ?thesis using i False unfolding r by (simp add: nth_append)
  qed
qed simp

lemma takeWhile_take: "takeWhile P (take k xs) = take k (takeWhile P xs)"
  by (induction xs arbitrary: k) (auto simp: take_Cons')

lemma takeWhile_end: "takeWhile (\<lambda>c. c \<noteq> 0) (xs @ [0]) = takeWhile (\<lambda>c. c \<noteq> 0) xs"
  by (induction xs) simp_all

lemma string_shorter: "0 \<in> set (out_of_line_bytes h v) \<longleftrightarrow> length (string_of h v) < getDataSize v"
proof -
  have "0 \<in> set xs \<longleftrightarrow> length (takeWhile (\<lambda>c. c \<noteq> 0) xs) < length xs" for xs :: "u8 list" by (induction xs) auto
  then show ?thesis by (simp add: string_of_def out_of_line_bytes_def)
qed

lemma string_length_le: "length (string_of h v) \<le> getDataSize v"
  using length_takeWhile_le [of "\<lambda>c. c \<noteq> 0" "out_of_line_bytes h v"] by (simp add: string_of_def out_of_line_bytes_def)

lemma owned_bytes:
  assumes "tid \<in> {kChar, kVarChar}" "0 < n" "n < 2 ^ 56" "v = CreateWithOwnedData tid p n \<or> v = TypedValue_reference tid p n"
  shows "string_value v \<and> getTypeID v = tid \<and> getDataSize v = n \<and> out_of_line_bytes h v = read_bytes h p n"
proof -
  have "\<not> RepresentedInline tid" by (rule not_inline_string [OF assms(1)])
  then show ?thesis
    using owned_string [OF assms(1-3), of p] reference_observers [OF assms(3), of tid p] assms(4)
    by (auto simp: out_of_line_bytes_def)
qed

lemma char_coerced:
  assumes "string_value v" "0 < string_length this" "string_length this < 2 ^ 56"
    "type_id t = kVarChar \<or> getDataSize v < maximumByteLength t \<Longrightarrow> 0 \<in> set (out_of_line_bytes h v)"
    "CharType_coerceValue p this v t h = (v', h')"
  shows "string_value v' \<and> getTypeID v' = kChar \<and> string_of h' v' = take (string_length this) (string_of h v) \<and>
    (getDataSize v' = string_length this \<or> getDataSize v' < string_length this \<and> 0 \<in> set (out_of_line_bytes h' v'))"
proof -
  let ?n = "getDataSize v" and ?L = "string_length this"
  have n: "0 < ?n" "?n < 2 ^ 56" using string_info [OF assms(1)] by auto
  have notnull: "\<not> isNull v" using assms(1) by (simp add: string_value_def)
  have data: "read_bytes h (getOutOfLineData v) ?n = out_of_line_bytes h v"
    by (simp add: out_of_line_bytes_def getOutOfLineData_def)
  have len: "length (out_of_line_bytes h v) = ?n" by (simp add: out_of_line_bytes_def)
  note r = assms(5) [unfolded CharType_coerceValue_def Let_def, simplified notnull if_False data]
  show ?thesis
  proof (cases "?n \<le> ?L")
    case True
    then have short: "take ?L (string_of h v) = string_of h v" using string_length_le [of h v] by simp
    show ?thesis
    proof (cases "0 \<in> set (out_of_line_bytes h v) \<or> ?n = ?L")
      case True
      obtain c where "TypedValue_copy p v h = (c, h')" "v' = markType kChar c"
        using r True assms(4) \<open>?n \<le> ?L\<close> by (auto split: if_splits prod.splits)
      then show ?thesis
        using copied_string [OF assms(1), of p h c h' kChar] True \<open>?n \<le> ?L\<close> short by (auto simp: string_of_def)
    next
      case False
      then have "v' = CreateWithOwnedData kChar p (?n + 1)"
        "h' = write_bytes (p + of_nat ?n) [0] (write_bytes p (out_of_line_bytes h v) (malloc_block p (?n + 1) h))"
        using r True assms(4) data by (auto split: if_splits)
      moreover have "?n + 1 < 2 ^ 56" using True False assms(3) by linarith
      ultimately have "string_value v' \<and> getTypeID v' = kChar \<and> getDataSize v' = ?n + 1 \<and>
          out_of_line_bytes h' v' = out_of_line_bytes h v @ [0]"
        using owned_bytes [of kChar "?n + 1" v' p h'] read_terminated [of "out_of_line_bytes h v" p] n(2) len by simp
      then show ?thesis using True False short by (auto simp: string_of_def takeWhile_end)
    qed
  next
    case False
    have "(v' = CreateWithOwnedData kChar p ?L \<and>
         h' = write_bytes p (read_bytes h (getOutOfLineData v) ?L) (malloc_block p ?L h)) \<or>
       (v' = TypedValue_reference kChar (getOutOfLineData v) ?L \<and> h' = h)"
      using r False by (auto split: if_splits)
    moreover have "read_bytes h (getOutOfLineData v) ?L = take ?L (out_of_line_bytes h v)"
      using take_read_bytes [of ?L ?n h "getOutOfLineData v"] False data by simp
    ultimately have "string_value v' \<and> getTypeID v' = kChar \<and> getDataSize v' = ?L \<and>
        out_of_line_bytes h' v' = take ?L (out_of_line_bytes h v)"
      using owned_bytes [of kChar ?L v' p h'] owned_bytes [of kChar ?L v' "getOutOfLineData v" h'] assms(2,3)
        read_write_bytes [of "read_bytes h (getOutOfLineData v) ?L" p "malloc_block p ?L h", unfolded length_read_bytes]
      by auto
    then show ?thesis by (simp add: string_of_def takeWhile_take)
  qed
qed

text \<open>The length of the original that VarCharType::coerceValue works with.\<close>

lemma varchar_coerced:
  assumes "string_value v" "string_length this + 1 < 2 ^ 56" "type_id t = getTypeID v"
    "type_id t = kVarChar \<Longrightarrow> 0 \<in> set (out_of_line_bytes h v)"
    "VarCharType_coerceValue p this v t h = (v', h')"
  defines "s \<equiv> (if type_id t = kVarChar then getDataSize v - 1 else length (string_of h v))"
  shows "string_value v' \<and> getTypeID v' = kVarChar \<and> string_of h' v' = take (string_length this) (string_of h v) \<and>
    0 \<in> set (out_of_line_bytes h' v') \<and>
    getDataSize v' = (if s \<le> string_length this \<and> s < getDataSize v then getDataSize v else min s (string_length this) + 1)"
proof -
  let ?n = "getDataSize v" and ?L = "string_length this"
  have n: "0 < ?n" "?n < 2 ^ 56" using string_info [OF assms(1)] by auto
  have notnull: "\<not> isNull v" using assms(1) by (simp add: string_value_def)
  have data: "read_bytes h (getOutOfLineData v) k = take k (out_of_line_bytes h v)" if "k \<le> ?n" for k
    using take_read_bytes [OF that, of h "getOutOfLineData v"] by (simp add: out_of_line_bytes_def getOutOfLineData_def)
  have len: "length (out_of_line_bytes h v) = ?n" by (simp add: out_of_line_bytes_def)
  have s: "(if type_id t = kVarChar then (if ?n = 0 then 2 ^ 64 - 1 else ?n - 1)
      else strnlen (read_bytes h (getOutOfLineData v) ?n)) = s"
    using data [of ?n] len n(1) by (simp add: s_def strnlen_def string_of_def)
  have le: "length (string_of h v) \<le> s" "s \<le> ?n"
    using assms(4) string_shorter [of h v] string_length_le [of h v] n by (auto simp: s_def)
  note r = assms(5) [unfolded VarCharType_coerceValue_def Let_def, simplified notnull if_False s]
  show ?thesis
  proof (cases "s \<le> ?L \<and> s < ?n")
    case True
    then obtain c where "TypedValue_copy p v h = (c, h')" "v' = markType kVarChar c"
      using r by (auto split: prod.splits)
    then show ?thesis
      using copied_string [OF assms(1), of p h c h' kVarChar] True le string_shorter [of h v]
      by (auto simp: string_of_def)
  next
    case False
    define k where "k = min s ?L"
    have k: "k \<le> ?n" "k + 1 < 2 ^ 56" using le(2) assms(2) by (auto simp: k_def)
    have e: "(if s < ?L then s else ?L) = k" by (simp add: k_def min_def)
    have "v' = CreateWithOwnedData kVarChar p (k + 1)"
      "h' = write_bytes (p + of_nat k) [0] (write_bytes p (take k (out_of_line_bytes h v)) (malloc_block p (k + 1) h))"
      using r False data [OF k(1)] unfolding e by auto
    then have "string_value v' \<and> getTypeID v' = kVarChar \<and> getDataSize v' = k + 1 \<and>
        out_of_line_bytes h' v' = take k (out_of_line_bytes h v) @ [0]"
      using owned_bytes [of kVarChar "k + 1" v' p h'] read_terminated [of "take k (out_of_line_bytes h v)" p] k len by simp
    moreover have "take k (string_of h v) = take ?L (string_of h v)" using le(1) by (simp add: k_def take_all min_def)
    ultimately show ?thesis using False by (auto simp: string_of_def takeWhile_take takeWhile_end k_def)
  qed
qed

lemma plausible_string:
  assumes "string_value v" "type_id t = getTypeID v"
  shows "isPlausibleInstanceOf h v (getSignature t) \<longleftrightarrow>
    (if type_id t = kChar
     then getDataSize v = string_length t \<or> getDataSize v < string_length t \<and> 0 \<in> set (out_of_line_bytes h v)
     else getDataSize v \<le> string_length t + 1)"
proof -
  have "\<not> isNull v" "getTypeID v = kChar \<or> getTypeID v = kVarChar" using assms(1) by (auto simp: string_value_def)
  then show ?thesis
    using assms(2)
    by (auto simp: isPlausibleInstanceOf_def getSignature_def maximumByteLength_def out_of_line_bytes_def Let_def)
qed

lemma plausible_fits:
  assumes "string_value v" "type_id t = getTypeID v" "isPlausibleInstanceOf h v (getSignature t)"
    "getTypeID v = kVarChar \<longrightarrow> 0 \<in> set (out_of_line_bytes h v)"
  shows "length (string_of h v) \<le> string_length t"
  using assms plausible_string [OF assms(1,2), of h] string_shorter [of h v] string_length_le [of h v]
  by (auto simp: string_value_def split: if_splits)

lemma safely_string:
  "isSafelyCoercibleFrom this t \<Longrightarrow> type_id this \<in> {kChar, kVarChar} \<Longrightarrow> type_id t \<in> {kChar, kVarChar} \<Longrightarrow>
    string_length t \<le> string_length this"
  by (auto simp: safely_iff TypeRequiresLengthParameter_def)



end
