(* ===== verification/Comparisons.thy ===== *)
theory Comparisons
  imports Coercion BinaryOpTypes
begin

text \<open>
  \<^verbatim>\<open>types/operations/comparisons\<close>: the six basic comparisons on typed values. A comparison is applied
  either checked, by the types of the values, which coerces numbers to a unifying type first, or
  through an unchecked comparator object built once for a pair of types, which reads literals and
  strings as they are.

  A pointer to a data item is modelled by the bytes that can be read through it, and the null pointer
  by \<open>None\<close>: the comparators only read. A result is \<open>None\<close> where the code would read through a null pointer
  or past the end of the item, and where it reports a fatal error or throws.
\<close>

section \<open>Comparison IDs\<close>

datatype ComparisonID = kEqual | kNotEqual | kLess | kLessOrEqual | kGreater | kGreaterOrEqual
  | kLike | kNotLike | kRegexMatch | kNotRegexMatch

fun flipComparisonID :: "ComparisonID \<Rightarrow> ComparisonID option" where
  "flipComparisonID kLess = Some kGreater"
| "flipComparisonID kLessOrEqual = Some kGreaterOrEqual"
| "flipComparisonID kGreater = Some kLess"
| "flipComparisonID kGreaterOrEqual = Some kLessOrEqual"
| "flipComparisonID kLike = None"
| "flipComparisonID kNotLike = None"
| "flipComparisonID kRegexMatch = None"
| "flipComparisonID kNotRegexMatch = None"
| "flipComparisonID comparison = Some comparison"

text \<open>The comparison objects; all pattern matching comparisons are of one class.\<close>

datatype comparison = EqualComparison | NotEqualComparison | LessComparison | LessOrEqualComparison
  | GreaterComparison | GreaterOrEqualComparison | PatternMatchingComparison ComparisonID

fun getComparisonID :: "comparison \<Rightarrow> ComparisonID" where
  "getComparisonID EqualComparison = kEqual"
| "getComparisonID NotEqualComparison = kNotEqual"
| "getComparisonID LessComparison = kLess"
| "getComparisonID LessOrEqualComparison = kLessOrEqual"
| "getComparisonID GreaterComparison = kGreater"
| "getComparisonID GreaterOrEqualComparison = kGreaterOrEqual"
| "getComparisonID (PatternMatchingComparison comparison) = comparison"

fun GetComparison :: "ComparisonID \<Rightarrow> comparison" where
  "GetComparison kEqual = EqualComparison"
| "GetComparison kNotEqual = NotEqualComparison"
| "GetComparison kLess = LessComparison"
| "GetComparison kLessOrEqual = LessOrEqualComparison"
| "GetComparison kGreater = GreaterComparison"
| "GetComparison kGreaterOrEqual = GreaterOrEqualComparison"
| "GetComparison comparison = PatternMatchingComparison comparison"

definition isBasicComparison :: "comparison \<Rightarrow> bool" where
  "isBasicComparison c \<longleftrightarrow>
     getComparisonID c = kEqual \<or> getComparisonID c = kNotEqual \<or> getComparisonID c = kLess \<or>
     getComparisonID c = kLessOrEqual \<or> getComparisonID c = kGreater \<or> getComparisonID c = kGreaterOrEqual"

text \<open>The enumeration of the protocol-buffer message.\<close>

datatype proto_comparison_id = EQUAL | NOT_EQUAL | LESS | LESS_OR_EQUAL | GREATER | GREATER_OR_EQUAL
  | LIKE | NOT_LIKE | REGEX_MATCH | NOT_REGEX_MATCH

definition Comparison_getProto :: "comparison \<Rightarrow> proto_comparison_id" where
  "Comparison_getProto c =
     (case getComparisonID c of
        kEqual \<Rightarrow> EQUAL | kNotEqual \<Rightarrow> NOT_EQUAL | kLess \<Rightarrow> LESS | kLessOrEqual \<Rightarrow> LESS_OR_EQUAL
      | kGreater \<Rightarrow> GREATER | kGreaterOrEqual \<Rightarrow> GREATER_OR_EQUAL | kLike \<Rightarrow> LIKE | kNotLike \<Rightarrow> NOT_LIKE
      | kRegexMatch \<Rightarrow> REGEX_MATCH | kNotRegexMatch \<Rightarrow> NOT_REGEX_MATCH)"

fun Comparison_ReconstructFromProto :: "proto_comparison_id \<Rightarrow> comparison" where
  "Comparison_ReconstructFromProto EQUAL = GetComparison kEqual"
| "Comparison_ReconstructFromProto NOT_EQUAL = GetComparison kNotEqual"
| "Comparison_ReconstructFromProto LESS = GetComparison kLess"
| "Comparison_ReconstructFromProto LESS_OR_EQUAL = GetComparison kLessOrEqual"
| "Comparison_ReconstructFromProto GREATER = GetComparison kGreater"
| "Comparison_ReconstructFromProto GREATER_OR_EQUAL = GetComparison kGreaterOrEqual"
| "Comparison_ReconstructFromProto LIKE = GetComparison kLike"
| "Comparison_ReconstructFromProto NOT_LIKE = GetComparison kNotLike"
| "Comparison_ReconstructFromProto REGEX_MATCH = GetComparison kRegexMatch"
| "Comparison_ReconstructFromProto NOT_REGEX_MATCH = GetComparison kNotRegexMatch"

section \<open>Types that can be compared\<close>

definition canCompareTypes :: "sql_type \<Rightarrow> sql_type \<Rightarrow> bool" where
  "canCompareTypes left right =
     (case type_id left of
        kInt \<Rightarrow> type_id right \<in> {kInt, kLong, kFloat, kDouble}
      | kLong \<Rightarrow> type_id right \<in> {kInt, kLong, kFloat, kDouble}
      | kFloat \<Rightarrow> type_id right \<in> {kInt, kLong, kFloat, kDouble}
      | kDouble \<Rightarrow> type_id right \<in> {kInt, kLong, kFloat, kDouble}
      | kDate \<Rightarrow> type_id right = kDate
      | kDatetime \<Rightarrow> type_id right = kDatetime
      | kDatetimeInterval \<Rightarrow> type_id right = kDatetimeInterval
      | kYearMonthInterval \<Rightarrow> type_id right = kYearMonthInterval
      | kChar \<Rightarrow> type_id right \<in> {kChar, kVarChar}
      | kVarChar \<Rightarrow> type_id right \<in> {kChar, kVarChar}
      | _ \<Rightarrow> False)"

definition canComparePartialTypes :: "sql_type option \<Rightarrow> sql_type option \<Rightarrow> bool" where
  "canComparePartialTypes left_type right_type =
     (case (left_type, right_type) of
        (None, None) \<Rightarrow> True
      | (Some l, Some r) \<Rightarrow> canCompareTypes l r
      | (Some known_type, None) \<Rightarrow> type_id known_type \<in>
          {kInt, kLong, kFloat, kDouble, kDate, kDatetime, kDatetimeInterval, kYearMonthInterval, kChar, kVarChar}
      | (None, Some known_type) \<Rightarrow> type_id known_type \<in>
          {kInt, kLong, kFloat, kDouble, kDate, kDatetime, kDatetimeInterval, kYearMonthInterval, kChar, kVarChar})"

section \<open>Functors\<close>

text \<open>
  \<^verbatim>\<open>EqualFunctor\<close> and its siblings, which are also \<^verbatim>\<open>std::equal_to\<close> and its siblings: one C++ operator each, on
  two literals. For numbers of different types C++ converts to the wider type first: to \<^verbatim>\<open>double\<close> if either is,
  else to \<^verbatim>\<open>float\<close> if either is, else to the wider integer.
\<close>

datatype basic_functor = EqualFunctor | NotEqualFunctor | LessFunctor | LessOrEqualFunctor
  | GreaterFunctor | GreaterOrEqualFunctor

fun compare_ints :: "basic_functor \<Rightarrow> int \<Rightarrow> int \<Rightarrow> bool" where
  "compare_ints EqualFunctor l r = (l = r)"
| "compare_ints NotEqualFunctor l r = (l \<noteq> r)"
| "compare_ints LessFunctor l r = (l < r)"
| "compare_ints LessOrEqualFunctor l r = (l \<le> r)"
| "compare_ints GreaterFunctor l r = (l > r)"
| "compare_ints GreaterOrEqualFunctor l r = (l \<ge> r)"

fun compare_fps :: "basic_functor \<Rightarrow> fp \<Rightarrow> fp \<Rightarrow> bool" where
  "compare_fps EqualFunctor l r = fp_equal l r"
| "compare_fps NotEqualFunctor l r = (\<not> fp_equal l r)"
| "compare_fps LessFunctor l r = fp_less l r"
| "compare_fps LessOrEqualFunctor l r = fp_less_eq l r"
| "compare_fps GreaterFunctor l r = fp_less r l"
| "compare_fps GreaterOrEqualFunctor l r = fp_less_eq r l"

fun compare_dates :: "basic_functor \<Rightarrow> DateLit \<Rightarrow> DateLit \<Rightarrow> bool" where
  "compare_dates EqualFunctor l r = DateLit_equal l r"
| "compare_dates NotEqualFunctor l r = (\<not> DateLit_equal l r)"
| "compare_dates LessFunctor l r = DateLit_less l r"
| "compare_dates LessOrEqualFunctor l r = DateLit_less_eq l r"
| "compare_dates GreaterFunctor l r = DateLit_greater l r"
| "compare_dates GreaterOrEqualFunctor l r = DateLit_greater_eq l r"

fun as_int64 :: "numeric_lit \<Rightarrow> int" where
  "as_int64 (IntLit i) = sint i"
| "as_int64 (LongLit i) = sint i"
| "as_int64 _ = 0"

fun as_float :: "numeric_lit \<Rightarrow> fp" where
  "as_float (IntLit i) = f32 (to_f32 (fp_of_int (sint i)))"
| "as_float (LongLit i) = f32 (to_f32 (fp_of_int (sint i)))"
| "as_float (FloatLit f) = f32 f"
| "as_float (DoubleLit d) = f32 (to_f32 (f64 d))"

fun as_double :: "numeric_lit \<Rightarrow> fp" where
  "as_double (IntLit i) = f64 (to_f64 (fp_of_int (sint i)))"
| "as_double (LongLit i) = f64 (to_f64 (fp_of_int (sint i)))"
| "as_double (FloatLit f) = f64 (to_f64 (f32 f))"
| "as_double (DoubleLit d) = f64 d"

fun is_double :: "numeric_lit \<Rightarrow> bool" where
  "is_double (DoubleLit _) = True"
| "is_double _ = False"

fun is_float :: "numeric_lit \<Rightarrow> bool" where
  "is_float (FloatLit _) = True"
| "is_float _ = False"

definition compare_numbers :: "basic_functor \<Rightarrow> numeric_lit \<Rightarrow> numeric_lit \<Rightarrow> bool" where
  "compare_numbers F l r =
     (if is_double l \<or> is_double r then compare_fps F (as_double l) (as_double r)
      else if is_float l \<or> is_float r then compare_fps F (as_float l) (as_float r)
      else compare_ints F (as_int64 l) (as_int64 r))"

text \<open>Other pairs of literals have no comparison operator and no comparator is instantiated for them.\<close>

fun apply_functor :: "basic_functor \<Rightarrow> literal \<Rightarrow> literal \<Rightarrow> bool option" where
  "apply_functor F (number l) (number r) = Some (compare_numbers F l r)"
| "apply_functor F (date l) (date r) = Some (compare_dates F l r)"
| "apply_functor F (datetime l) (datetime r) = Some (compare_ints F (sint (ticks l)) (sint (ticks r)))"
| "apply_functor F (datetime_interval l) (datetime_interval r) =
     Some (compare_ints F (sint (interval_ticks l)) (sint (interval_ticks r)))"
| "apply_functor F (year_month_interval l) (year_month_interval r) =
     Some (compare_ints F (sint (months l)) (sint (months r)))"
| "apply_functor F _ _ = None"

section \<open>C strings\<close>

text \<open>
  \<^verbatim>\<open>std::strcmp\<close>, \<^verbatim>\<open>std::strncmp\<close> and \<^verbatim>\<open>strnlen\<close> on the bytes readable through their arguments. Only the sign of
  the first two is used.
\<close>

fun strcmp :: "u8 list \<Rightarrow> u8 list \<Rightarrow> int option" where
  "strcmp (a # l) (b # r) =
     (if a \<noteq> b then Some (int (unat a) - int (unat b)) else if a = 0 then Some 0 else strcmp l r)"
| "strcmp _ _ = None"

fun strncmp :: "u8 list \<Rightarrow> u8 list \<Rightarrow> nat \<Rightarrow> int option" where
  "strncmp _ _ 0 = Some 0"
| "strncmp (a # l) (b # r) (Suc n) =
     (if a \<noteq> b then Some (int (unat a) - int (unat b)) else if a = 0 then Some 0 else strncmp l r n)"
| "strncmp _ _ (Suc n) = None"

fun strnlen_within :: "u8 list \<Rightarrow> nat \<Rightarrow> nat option" where
  "strnlen_within _ 0 = Some 0"
| "strnlen_within [] (Suc n) = None"
| "strnlen_within (c # cs) (Suc n) = (if c = 0 then Some 0 else map_option Suc (strnlen_within cs n))"

section \<open>Checked comparison\<close>

definition BasicComparison_strcmpHelper :: "heap \<Rightarrow> typed_value \<Rightarrow> typed_value \<Rightarrow> int option" where
  "BasicComparison_strcmpHelper h left right =
     (let l = out_of_line_bytes h left; r = out_of_line_bytes h right
      in if getTypeID left = kVarChar \<and> getTypeID right = kVarChar then strcmp l r
         else let left_length = getAsciiStringLength h left; right_length = getAsciiStringLength h right
              in if left_length < right_length
                 then do { res \<leftarrow> strncmp l r left_length; Some (if res \<noteq> 0 then res else - 1) }
                 else if left_length > right_length
                 then do { res \<leftarrow> strncmp l r right_length; Some (if res \<noteq> 0 then res else 1) }
                 else strncmp l r left_length)"

text \<open>The types without a unifying type are numbers: of two numbers there is one.\<close>

definition compareTypedValuesCheckedHelper ::
  "basic_functor \<Rightarrow> u64 \<Rightarrow> heap \<Rightarrow> typed_value \<Rightarrow> sql_type \<Rightarrow> typed_value \<Rightarrow> sql_type \<Rightarrow> bool option" where
  "compareTypedValuesCheckedHelper F p h left left_type right right_type =
     (let same = (\<lambda>tid. if getTypeID right = tid
                        then (if isNull left \<or> isNull right then Some False
                              else apply_functor F (getLiteral tid left) (getLiteral tid right))
                        else None);
          strings = (if getTypeID right \<in> {kChar, kVarChar}
                     then (if isNull left \<or> isNull right then Some False
                           else do { c \<leftarrow> BasicComparison_strcmpHelper h left right; Some (compare_ints F c 0) })
                     else None);
          numbers = (if type_id right_type \<in> {kInt, kLong, kFloat, kDouble}
                     then (if isNull left \<or> isNull right then Some False
                           else do {
                             unifier \<leftarrow> GetUnifyingType left_type right_type;
                             (left_coerced, _) \<leftarrow> coerceValue p unifier left left_type h;
                             (right_coerced, _) \<leftarrow> coerceValue p unifier right right_type h;
                             if type_id unifier \<in> {kInt, kLong, kFloat, kDouble}
                             then apply_functor F (getLiteral (type_id unifier) left_coerced)
                               (getLiteral (type_id unifier) right_coerced)
                             else None
                           })
                     else None)
      in case type_id left_type of
           kInt \<Rightarrow> numbers | kLong \<Rightarrow> numbers | kFloat \<Rightarrow> numbers | kDouble \<Rightarrow> numbers
         | kDate \<Rightarrow> same kDate | kDatetime \<Rightarrow> same kDatetime
         | kDatetimeInterval \<Rightarrow> same kDatetimeInterval | kYearMonthInterval \<Rightarrow> same kYearMonthInterval
         | kChar \<Rightarrow> strings | kVarChar \<Rightarrow> strings
         | _ \<Rightarrow> None)"

text \<open>Each basic comparison is its functor; pattern matching is not of this class.\<close>

fun functor_of :: "comparison \<Rightarrow> basic_functor option" where
  "functor_of EqualComparison = Some EqualFunctor"
| "functor_of NotEqualComparison = Some NotEqualFunctor"
| "functor_of LessComparison = Some LessFunctor"
| "functor_of LessOrEqualComparison = Some LessOrEqualFunctor"
| "functor_of GreaterComparison = Some GreaterFunctor"
| "functor_of GreaterOrEqualComparison = Some GreaterOrEqualFunctor"
| "functor_of (PatternMatchingComparison _) = None"

definition compareTypedValuesChecked ::
  "comparison \<Rightarrow> u64 \<Rightarrow> heap \<Rightarrow> typed_value \<Rightarrow> sql_type \<Rightarrow> typed_value \<Rightarrow> sql_type \<Rightarrow> bool option" where
  "compareTypedValuesChecked cmp p h left left_type right right_type = do {
     F \<leftarrow> functor_of cmp;
     compareTypedValuesCheckedHelper F p h left left_type right right_type
   }"

section \<open>Unchecked comparators\<close>

type_synonym data_ptr = "u8 list option"

text \<open>
  A comparator object. The C++ type of a literal is named by its type ID; the flags of a string comparator
  are, for either side, nullable, null-terminated and longer, and its members are the two lengths.
\<close>

datatype comparator =
  LiteralUncheckedComparator basic_functor TypeID bool TypeID bool
| AsciiStringUncheckedComparator basic_functor bool bool bool bool bool bool nat nat

definition cpp_size :: "TypeID \<Rightarrow> nat" where
  "cpp_size tid = (case tid of kInt \<Rightarrow> 4 | kFloat \<Rightarrow> 4 | _ \<Rightarrow> 8)"

definition literal_of_bytes :: "TypeID \<Rightarrow> u8 list \<Rightarrow> literal" where
  "literal_of_bytes tid bs =
     (let w = bytes_word bs
      in case tid of
           kInt \<Rightarrow> number (IntLit (ucast w))
         | kLong \<Rightarrow> number (LongLit w)
         | kFloat \<Rightarrow> number (FloatLit (ucast w))
         | kDouble \<Rightarrow> number (DoubleLit w)
         | kDate \<Rightarrow> date (DateLit (ucast w) (ucast (drop_bit 32 w)) (ucast (drop_bit 40 w)))
         | kDatetime \<Rightarrow> datetime (DatetimeLit w)
         | kDatetimeInterval \<Rightarrow> datetime_interval (DatetimeIntervalLit w)
         | _ \<Rightarrow> year_month_interval (YearMonthIntervalLit w))"

text \<open>\<^verbatim>\<open>*static_cast<const CppType*>(ptr)\<close>.\<close>

definition deref :: "TypeID \<Rightarrow> data_ptr \<Rightarrow> literal option" where
  "deref tid ptr = do {
     bs \<leftarrow> ptr;
     if cpp_size tid \<le> length bs then Some (literal_of_bytes tid (take (cpp_size tid) bs)) else None
   }"

definition AsciiString_strcmpHelper ::
  "bool \<Rightarrow> bool \<Rightarrow> bool \<Rightarrow> bool \<Rightarrow> nat \<Rightarrow> nat \<Rightarrow> u8 list \<Rightarrow> u8 list \<Rightarrow> int option" where
  "AsciiString_strcmpHelper left_null_terminated left_longer right_null_terminated right_longer left_length right_length
     left right =
     (if left_null_terminated \<and> right_null_terminated then strcmp left right
      else if right_longer then do {
        res \<leftarrow> strncmp left right left_length;
        if res \<noteq> 0 then Some res
        else do { n \<leftarrow> strnlen_within right right_length; Some (if n > left_length then - 1 else res) }
      }
      else if left_longer then do {
        res \<leftarrow> strncmp left right right_length;
        if res \<noteq> 0 then Some res
        else do { n \<leftarrow> strnlen_within left left_length; Some (if n > right_length then 1 else res) }
      }
      else strncmp left right left_length)"

text \<open>The application of a comparator to two items of data that are there.\<close>

fun compare_items :: "comparator \<Rightarrow> data_ptr \<Rightarrow> data_ptr \<Rightarrow> bool option" where
  "compare_items (LiteralUncheckedComparator F lt left_nullable rt right_nullable) left right = do {
     l \<leftarrow> deref lt left;
     r \<leftarrow> deref rt right;
     apply_functor F l r
   }"
| "compare_items (AsciiStringUncheckedComparator F left_nullable lnt ll right_nullable rnt rl left_length right_length) left right = do {
     l \<leftarrow> left;
     r \<leftarrow> right;
     c \<leftarrow> AsciiString_strcmpHelper lnt ll rnt rl left_length right_length l r;
     Some (compare_ints F c 0)
   }"

fun left_nullable :: "comparator \<Rightarrow> bool" where
  "left_nullable (LiteralUncheckedComparator _ _ n _ _) = n"
| "left_nullable (AsciiStringUncheckedComparator _ n _ _ _ _ _ _ _) = n"

fun right_nullable :: "comparator \<Rightarrow> bool" where
  "right_nullable (LiteralUncheckedComparator _ _ _ _ n) = n"
| "right_nullable (AsciiStringUncheckedComparator _ _ _ _ n _ _ _ _) = n"

definition compareDataPtrs :: "comparator \<Rightarrow> data_ptr \<Rightarrow> data_ptr \<Rightarrow> bool option" where
  "compareDataPtrs c left right =
     (if (left_nullable c \<and> left = None) \<or> (right_nullable c \<and> right = None) then Some False
      else compare_items c left right)"

text \<open>The helper of the loops over vectors: the arguments may be swapped, nulls are not checked.\<close>

definition compareDataPtrsHelper :: "comparator \<Rightarrow> bool \<Rightarrow> data_ptr \<Rightarrow> data_ptr \<Rightarrow> bool option" where
  "compareDataPtrsHelper c arguments_in_order left right =
     compare_items c (if arguments_in_order then left else right) (if arguments_in_order then right else left)"

text \<open>The literal or string of a value, as a comparator of the given side reads it.\<close>

fun compare_values :: "heap \<Rightarrow> comparator \<Rightarrow> typed_value \<Rightarrow> typed_value \<Rightarrow> bool option" where
  "compare_values h (LiteralUncheckedComparator F lt _ rt _) left right =
     apply_functor F (getLiteral lt left) (getLiteral rt right)"
| "compare_values h (AsciiStringUncheckedComparator F ln lnt ll rn rnt rl llen rlen) left right =
     compare_items (AsciiStringUncheckedComparator F ln lnt ll rn rnt rl llen rlen)
       (Some (out_of_line_bytes h left)) (Some (out_of_line_bytes h right))"

definition compareTypedValues :: "heap \<Rightarrow> comparator \<Rightarrow> typed_value \<Rightarrow> typed_value \<Rightarrow> bool option" where
  "compareTypedValues h c left right =
     (if (left_nullable c \<and> isNull left) \<or> (right_nullable c \<and> isNull right) then Some False
      else compare_values h c left right)"

fun compareTypedValueWithDataPtr :: "heap \<Rightarrow> comparator \<Rightarrow> typed_value \<Rightarrow> data_ptr \<Rightarrow> bool option" where
  "compareTypedValueWithDataPtr h (LiteralUncheckedComparator F lt ln rt rn) left right =
     (if (ln \<and> isNull left) \<or> (rn \<and> right = None) then Some False
      else do { r \<leftarrow> deref rt right; apply_functor F (getLiteral lt left) r })"
| "compareTypedValueWithDataPtr h (AsciiStringUncheckedComparator F ln lnt ll rn rnt rl llen rlen) left right =
     (if (ln \<and> isNull left) \<or> (rn \<and> right = None) then Some False
      else compare_items (AsciiStringUncheckedComparator F ln lnt ll rn rnt rl llen rlen)
        (Some (out_of_line_bytes h left)) right)"

fun compareDataPtrWithTypedValue :: "heap \<Rightarrow> comparator \<Rightarrow> data_ptr \<Rightarrow> typed_value \<Rightarrow> bool option" where
  "compareDataPtrWithTypedValue h (LiteralUncheckedComparator F lt ln rt rn) left right =
     (if (ln \<and> left = None) \<or> (rn \<and> isNull right) then Some False
      else do { l \<leftarrow> deref lt left; apply_functor F l (getLiteral rt right) })"
| "compareDataPtrWithTypedValue h (AsciiStringUncheckedComparator F ln lnt ll rn rnt rl llen rlen) left right =
     (if (ln \<and> left = None) \<or> (rn \<and> isNull right) then Some False
      else compare_items (AsciiStringUncheckedComparator F ln lnt ll rn rnt rl llen rlen)
        left (Some (out_of_line_bytes h right)))"

section \<open>Making a comparator for two types\<close>

definition makeNumericComparatorInnerHelper ::
  "basic_functor \<Rightarrow> TypeID \<Rightarrow> bool \<Rightarrow> sql_type \<Rightarrow> comparator option" where
  "makeNumericComparatorInnerHelper F lt ln right =
     (case type_id right of
        kInt \<Rightarrow> Some (LiteralUncheckedComparator F lt ln kInt (nullable right))
      | kLong \<Rightarrow> Some (LiteralUncheckedComparator F lt ln kLong (nullable right))
      | kFloat \<Rightarrow> Some (LiteralUncheckedComparator F lt ln kFloat (nullable right))
      | kDouble \<Rightarrow> Some (LiteralUncheckedComparator F lt ln kDouble (nullable right))
      | _ \<Rightarrow> None)"

definition makeNumericComparatorOuterHelper :: "basic_functor \<Rightarrow> sql_type \<Rightarrow> sql_type \<Rightarrow> comparator option" where
  "makeNumericComparatorOuterHelper F left right =
     (case type_id left of
        kInt \<Rightarrow> makeNumericComparatorInnerHelper F kInt (nullable left) right
      | kLong \<Rightarrow> makeNumericComparatorInnerHelper F kLong (nullable left) right
      | kFloat \<Rightarrow> makeNumericComparatorInnerHelper F kFloat (nullable left) right
      | kDouble \<Rightarrow> makeNumericComparatorInnerHelper F kDouble (nullable left) right
      | _ \<Rightarrow> None)"

text \<open>Both sides of a date comparator have the C++ type of the left one.\<close>

definition makeDateComparatorInnerHelper :: "basic_functor \<Rightarrow> TypeID \<Rightarrow> bool \<Rightarrow> sql_type \<Rightarrow> comparator option" where
  "makeDateComparatorInnerHelper F lt ln right =
     (if type_id right \<in> {kDate, kDatetime, kDatetimeInterval, kYearMonthInterval}
      then Some (LiteralUncheckedComparator F lt ln lt (nullable right)) else None)"

definition makeDateComparatorOuterHelper :: "basic_functor \<Rightarrow> sql_type \<Rightarrow> sql_type \<Rightarrow> comparator option" where
  "makeDateComparatorOuterHelper F left right =
     (case type_id left of
        kDate \<Rightarrow> makeDateComparatorInnerHelper F kDate (nullable left) right
      | kDatetime \<Rightarrow> makeDateComparatorInnerHelper F kDatetime (nullable left) right
      | kDatetimeInterval \<Rightarrow> makeDateComparatorInnerHelper F kDatetimeInterval (nullable left) right
      | kYearMonthInterval \<Rightarrow> makeDateComparatorInnerHelper F kYearMonthInterval (nullable left) right
      | _ \<Rightarrow> None)"

definition makeStringComparatorInnerHelper ::
  "basic_functor \<Rightarrow> bool \<Rightarrow> bool \<Rightarrow> bool \<Rightarrow> bool \<Rightarrow> nat \<Rightarrow> nat \<Rightarrow> comparator" where
  "makeStringComparatorInnerHelper F ln lnt rn rnt left_length right_length =
     (if left_length < right_length
      then AsciiStringUncheckedComparator F ln lnt False rn rnt True left_length right_length
      else if left_length > right_length
      then AsciiStringUncheckedComparator F ln lnt True rn rnt False left_length right_length
      else AsciiStringUncheckedComparator F ln lnt False rn rnt False left_length right_length)"

definition makeStringComparatorMiddleHelper ::
  "basic_functor \<Rightarrow> bool \<Rightarrow> bool \<Rightarrow> sql_type \<Rightarrow> nat \<Rightarrow> comparator option" where
  "makeStringComparatorMiddleHelper F ln lnt right left_length =
     (case type_id right of
        kChar \<Rightarrow> Some (makeStringComparatorInnerHelper F ln lnt (nullable right) False left_length
          (maximumByteLength right))
      | kVarChar \<Rightarrow> Some (makeStringComparatorInnerHelper F ln lnt (nullable right) True left_length
          (maximumByteLength right - 1))
      | _ \<Rightarrow> None)"

definition makeStringComparatorOuterHelper :: "basic_functor \<Rightarrow> sql_type \<Rightarrow> sql_type \<Rightarrow> comparator option" where
  "makeStringComparatorOuterHelper F left right =
     (case type_id left of
        kChar \<Rightarrow> makeStringComparatorMiddleHelper F (nullable left) False right (maximumByteLength left)
      | kVarChar \<Rightarrow> makeStringComparatorMiddleHelper F (nullable left) True right (maximumByteLength left - 1)
      | _ \<Rightarrow> None)"

definition makeUncheckedComparatorForTypesHelper :: "basic_functor \<Rightarrow> sql_type \<Rightarrow> sql_type \<Rightarrow> comparator option" where
  "makeUncheckedComparatorForTypesHelper F left right =
     (if getSuperTypeID left = kNumeric \<and> getSuperTypeID right = kNumeric
      then makeNumericComparatorOuterHelper F left right
      else if (type_id left = kDate \<and> type_id right = kDate) \<or> (type_id left = kDatetime \<and> type_id right = kDatetime) \<or>
        (type_id left = kDatetimeInterval \<and> type_id right = kDatetimeInterval) \<or>
        (type_id left = kYearMonthInterval \<and> type_id right = kYearMonthInterval)
      then makeDateComparatorOuterHelper F left right
      else if getSuperTypeID left = kAsciiString \<and> getSuperTypeID right = kAsciiString
      then makeStringComparatorOuterHelper F left right
      else None)"

definition makeUncheckedComparatorForTypes :: "comparison \<Rightarrow> sql_type \<Rightarrow> sql_type \<Rightarrow> comparator option" where
  "makeUncheckedComparatorForTypes cmp left right = do {
     F \<leftarrow> functor_of cmp;
     makeUncheckedComparatorForTypesHelper F left right
   }"

section \<open>Numbers: both ways agree\<close>

text \<open>Zeros of either sign and any exponent compare alike.\<close>

fun fp_same :: "fp \<Rightarrow> fp \<Rightarrow> bool" where
  "fp_same (Fin s m e) (Fin t n f) = (s = t \<and> m = n \<and> e = f \<or> m = 0 \<and> n = 0)"
| "fp_same x y = (x = y)"

lemma fp_same_refl [simp]: "fp_same x x"
  by (cases x) simp_all

lemma align_sign: "0 < fp_align q t n g \<longleftrightarrow> \<not> t \<and> 0 < n" "fp_align q t n g < 0 \<longleftrightarrow> t \<and> 0 < n" "fp_align q t n g = 0 \<longleftrightarrow> n = 0"
  by (auto simp: fp_align_def signed_mant_def zero_less_mult_iff mult_less_0_iff)

lemma align_zero [simp]: "fp_align q s 0 e = 0"
  by (simp add: fp_align_def signed_mant_def)

lemma zero_compare:
  "fp_less (Fin s 0 e) y = fp_less (Fin t 0 f) y" "fp_less y (Fin s 0 e) = fp_less y (Fin t 0 f)"
  "fp_equal (Fin s 0 e) y = fp_equal (Fin t 0 f) y" "fp_equal y (Fin s 0 e) = fp_equal y (Fin t 0 f)"
  by (cases y; simp add: align_sign)+

lemma fp_same_compare:
  assumes "fp_same x x'" "fp_same y y'"
  shows "compare_fps F x y = compare_fps F x' y'"
proof -
  have eq: "x = x' \<or> (\<exists>s e t f. x = Fin s 0 e \<and> x' = Fin t 0 f)" if "fp_same x x'" for x x'
    using that by (cases x; cases x') auto
  have "fp_less x z = fp_less x' z \<and> fp_less z x = fp_less z x' \<and> fp_equal x z = fp_equal x' z \<and> fp_equal z x = fp_equal z x'"
    if "fp_same x x'" for x x' z
    using eq [OF that] zero_compare by blast
  then show ?thesis using assms by (cases F) (auto simp: fp_less_eq_def)
qed

text \<open>What is stored behaves as what was to be stored.\<close>

lemma fp_same_stored:
  "fp_same (f32 (if fp_equal (f32 w) (fp_of_int 0) then 0 else w)) (f32 w)"
  "fp_same (f64 (if fp_equal (f64 x) (fp_of_int 0) then 0 else x)) (f64 x)"
proof -
  have z: "f32 0 = Fin False 0 (- 149)" "f64 0 = Fin False 0 (- 1074)" by (simp_all add: f32_def f64_def fp_eval)
  have same: "fp_same (Fin False 0 k) y" if "fp_equal y (fp_of_int 0)" for k y
    using that by (rule fp_zero) simp
  show "fp_same (f32 (if fp_equal (f32 w) (fp_of_int 0) then 0 else w)) (f32 w)"
    using same [of "f32 w"] z(1) by (cases "fp_equal (f32 w) (fp_of_int 0)") simp_all
  show "fp_same (f64 (if fp_equal (f64 x) (fp_of_int 0) then 0 else x)) (f64 x)"
    using same [of "f64 x"] z(2) by (cases "fp_equal (f64 x) (fp_of_int 0)") simp_all
qed

definition long_float :: "TypeID \<Rightarrow> TypeID \<Rightarrow> bool" where
  "long_float a b \<longleftrightarrow> (a = kLong \<and> b = kFloat) \<or> (a = kFloat \<and> b = kLong)"

fun stored_number :: "numeric_lit \<Rightarrow> numeric_lit" where
  "stored_number (FloatLit f) = FloatLit (if fp_equal (f32 f) (fp_of_int 0) then 0 else f)"
| "stored_number (DoubleLit d) = DoubleLit (if fp_equal (f64 d) (fp_of_int 0) then 0 else d)"
| "stored_number x = x"

lemma stored_literal_number [simp]: "stored_literal (number x) = number (stored_number x)"
  by (cases x) simp_all

text \<open>The literal of a number coerced to the type of ID \<open>tid\<close>, where the coercion is safe.\<close>

fun coerced_number :: "TypeID \<Rightarrow> numeric_lit \<Rightarrow> numeric_lit" where
  "coerced_number kLong (IntLit i) = LongLit (scast i)"
| "coerced_number kFloat (IntLit i) = stored_number (FloatLit (to_f32 (fp_of_int (sint i))))"
| "coerced_number kDouble (IntLit i) = stored_number (DoubleLit (to_f64 (fp_of_int (sint i))))"
| "coerced_number kDouble (LongLit i) = stored_number (DoubleLit (to_f64 (fp_of_int (sint i))))"
| "coerced_number kDouble (FloatLit f) =
     stored_number (DoubleLit (to_f64 (f32 (if fp_equal (f32 f) (fp_of_int 0) then 0 else f))))"
| "coerced_number tid x = stored_number x"

lemma coerce_number:
  assumes "type_id t = literal_type (number x)" "type_id t \<in> safely_below (type_id u)" "type_id u \<noteq> kNullType"
  shows "\<exists>v. coerceValue p u (literal_value pad (number x)) t h = Some (v, h) \<and>
    getLiteral (type_id u) v = number (coerced_number (type_id u) x)"
proof (cases x)
  case (IntLit i)
  then show ?thesis using assms
    by (cases "type_id u") (simp_all add: coerceValue_def IntType_coerceValue_def LongType_coerceValue_def
        FloatType_coerceValue_def DoubleType_coerceValue_def value_simps getLiteral_def)
next
  case (LongLit i)
  then show ?thesis using assms
    by (cases "type_id u") (simp_all add: coerceValue_def LongType_coerceValue_def DoubleType_coerceValue_def
        value_simps getLiteral_def)
next
  case (FloatLit f)
  then show ?thesis using assms
    by (cases "type_id u") (simp_all add: coerceValue_def FloatType_coerceValue_def DoubleType_coerceValue_def
        value_simps getLiteral_def)
next
  case (DoubleLit d)
  then show ?thesis using assms
    by (cases "type_id u") (simp_all add: coerceValue_def DoubleType_coerceValue_def value_simps getLiteral_def)
qed

lemma coerced_same:
  "fp_same (as_double (coerced_number kDouble x)) (as_double (stored_number x))"
  "is_double (coerced_number kDouble x)"
  by (cases x; simp add: fp_same_stored)+

lemma sint_scast: "sint (scast (i :: u32) :: u64) = sint i"
  unfolding scast_eq by (rule sint_of_int64) (use sint32_bounds [of i] in simp_all)

lemma coerced_compare:
  assumes "NumericTypeUnifier (literal_type (number x)) (literal_type (number y)) = Some u"
    "\<not> long_float (literal_type (number x)) (literal_type (number y))"
  shows "apply_functor F (number (coerced_number u x)) (number (coerced_number u y)) =
    Some (compare_numbers F (stored_number x) (stored_number y))"
proof -
  have dbl: "compare_fps F (as_double (coerced_number kDouble x)) (as_double (coerced_number kDouble y)) =
      compare_fps F (as_double (stored_number x)) (as_double (stored_number y))"
    by (rule fp_same_compare) (rule coerced_same)+
  have flt: "compare_fps F (f32 (if fp_equal (f32 a) (fp_of_int 0) then 0 else a)) z = compare_fps F (f32 a) z"
    "compare_fps F z (f32 (if fp_equal (f32 a) (fp_of_int 0) then 0 else a)) = compare_fps F z (f32 a)" for a z
    by (rule fp_same_compare, rule fp_same_stored fp_same_refl, rule fp_same_stored fp_same_refl)+
  show ?thesis
  proof (cases "is_double (stored_number x) \<or> is_double (stored_number y)")
    case True
    then have "u = kDouble" using assms(1) by (cases x; cases y) simp_all
    then show ?thesis using dbl True coerced_same(2) by (simp add: compare_numbers_def)
  next
    case False
    then show ?thesis using assms flt
      by (cases x; cases y) (auto simp: compare_numbers_def long_float_def sint_scast)
  qed
qed

definition numeric_type :: "sql_type \<Rightarrow> bool" where
  "numeric_type t \<longleftrightarrow> type_id t \<in> {kInt, kLong, kFloat, kDouble}"

lemma unifier_below:
  assumes "NumericTypeUnifier a b = Some u"
  shows "a \<in> safely_below u" "b \<in> safely_below u" "u \<in> {kInt, kLong, kFloat, kDouble}"
  using assms by (cases a; cases b; auto)+

lemma checked_numbers:
  assumes "type_wf lt" "type_wf rt" "type_id lt = literal_type (number x)" "type_id rt = literal_type (number y)"
    "\<not> long_float (type_id lt) (type_id rt)"
  shows "compareTypedValuesCheckedHelper F p h (literal_value a (number x)) lt (literal_value b (number y)) rt =
    Some (compare_numbers F (stored_number x) (stored_number y))"
proof -
  have nums: "type_id lt \<in> {kInt, kLong, kFloat, kDouble}" "type_id rt \<in> {kInt, kLong, kFloat, kDouble}"
    using assms(3,4) by (cases x; cases y; simp)+
  then have sup: "getSuperTypeID lt = kNumeric" "getSuperTypeID rt = kNumeric" by (auto simp: getSuperTypeID_def)
  obtain u where u: "NumericTypeUnifier (type_id lt) (type_id rt) = Some u"
    using assms(3,4) by (cases x; cases y) auto
  let ?u = "Instance u (nullable lt \<or> nullable rt)"
  have un: "GetUnifyingType lt rt = Some ?u" using numeric_unifier [OF assms(1,2) sup] u by simp
  have iu: "type_id ?u = u" by simp
  note below = unifier_below [OF u]
  have nn: "u \<noteq> kNullType" using below(3) by auto
  obtain v where v: "coerceValue p ?u (literal_value a (number x)) lt h = Some (v, h)" "getLiteral u v = number (coerced_number u x)"
    using coerce_number [OF assms(3), of ?u p a h] below(1) nn iu by auto
  obtain w where w: "coerceValue p ?u (literal_value b (number y)) rt h = Some (w, h)" "getLiteral u w = number (coerced_number u y)"
    using coerce_number [OF assms(4), of ?u p b h] below(2) nn iu by auto
  have "apply_functor F (number (coerced_number u x)) (number (coerced_number u y)) =
      Some (compare_numbers F (stored_number x) (stored_number y))"
    using coerced_compare [of x y u F] u assms(3-5) by simp
  then have "(do { unifier \<leftarrow> GetUnifyingType lt rt;
        (left_coerced, _) \<leftarrow> coerceValue p unifier (literal_value a (number x)) lt h;
        (right_coerced, _) \<leftarrow> coerceValue p unifier (literal_value b (number y)) rt h;
        if type_id unifier \<in> {kInt, kLong, kFloat, kDouble}
        then apply_functor F (getLiteral (type_id unifier) left_coerced) (getLiteral (type_id unifier) right_coerced)
        else None }) = Some (compare_numbers F (stored_number x) (stored_number y))"
    using un v w below(3) iu by simp
  then show ?thesis using nums
    unfolding compareTypedValuesCheckedHelper_def Let_def by auto
qed

section \<open>Strings: the lexicographic order\<close>

fun lexicographic :: "u8 list \<Rightarrow> u8 list \<Rightarrow> int" where
  "lexicographic [] [] = 0"
| "lexicographic [] (_ # _) = - 1"
| "lexicographic (_ # _) [] = 1"
| "lexicographic (a # l) (b # r) = (if a < b then - 1 else if b < a then 1 else lexicographic l r)"

abbreviation c_string :: "u8 list \<Rightarrow> u8 list" where
  "c_string xs \<equiv> takeWhile (\<lambda>c. c \<noteq> 0) xs"

lemma sgn_uint: "sgn (uint a - uint b) = (if a < b then - 1 else if b < a then 1 else 0)" for a b :: u8
  by (cases a b rule: linorder_cases) (simp_all add: word_less_def)

lemma compare_sign: "compare_ints F c 0 = compare_ints F (sgn c) 0"
  by (cases F) (auto simp: sgn_if)

lemma strcmp_sign:
  "0 \<in> set l \<Longrightarrow> 0 \<in> set r \<Longrightarrow>
    \<exists>c. strcmp l r = Some c \<and> sgn c = lexicographic (c_string l) (c_string r)"
proof (induction l r rule: strcmp.induct)
  case (1 a l b r)
  then show ?case
    by (cases "a = b") (auto simp: sgn_uint word_gt_0)
qed simp_all

text \<open>Bytes of which the first \<open>n\<close> can be read, or at least a terminated string.\<close>

definition readable :: "nat \<Rightarrow> u8 list \<Rightarrow> bool" where
  "readable n xs \<longleftrightarrow> n \<le> length xs \<or> 0 \<in> set xs"

lemma strncmp_sign:
  "readable n l \<Longrightarrow> readable n r \<Longrightarrow>
    \<exists>c. strncmp l r n = Some c \<and> sgn c = lexicographic (take n (c_string l)) (take n (c_string r))"
proof (induction l r n rule: strncmp.induct)
  case (2 a l b r n)
  then show ?case
    by (cases "a = b") (auto simp: sgn_uint readable_def word_gt_0)
qed (auto simp: readable_def)

lemma strnlen_bounded: "readable n xs \<Longrightarrow> strnlen_within xs n = Some (min n (length (c_string xs)))"
  by (induction xs n rule: strnlen_within.induct) (auto simp: readable_def)

lemma lexicographic_same [simp]: "lexicographic xs xs = 0"
  by (induction xs) simp_all

lemma lexicographic_prefix:
  "lexicographic (take n xs) (take n ys) \<noteq> 0 \<Longrightarrow> lexicographic xs ys = lexicographic (take n xs) (take n ys)"
  by (induction xs ys arbitrary: n rule: lexicographic.induct) (auto simp: take_Cons' split: if_splits)

lemma lexicographic_zero: "lexicographic xs ys = 0 \<longleftrightarrow> xs = ys"
  by (induction xs ys rule: lexicographic.induct) auto

lemma lexicographic_longer: "n < length xs \<Longrightarrow> lexicographic (take n xs) xs = - 1 \<and> lexicographic xs (take n xs) = 1"
  by (induction xs arbitrary: n) (auto simp: take_Cons')

lemma sgn_nonzero: "sgn c = l \<Longrightarrow> c = 0 \<longleftrightarrow> l = 0" for c :: int
  by (simp add: sgn_if split: if_splits)

text \<open>
  The comparison with the lengths of the strings, and the one with the lengths of the types. The first
  trusts the lengths the values report; it is the lexicographic order except for a string that is given
  once as a Char and once as a VarChar and whose lengths are reported differently.
\<close>

definition lengths_disagree :: "heap \<Rightarrow> typed_value \<Rightarrow> typed_value \<Rightarrow> bool" where
  "lengths_disagree h l r \<longleftrightarrow> \<not> isNull l \<and> \<not> isNull r \<and>
     (getTypeID l = kChar \<and> getTypeID r = kVarChar \<or> getTypeID l = kVarChar \<and> getTypeID r = kChar) \<and>
     string_of h l = string_of h r \<and> getAsciiStringLength h l \<noteq> getAsciiStringLength h r"

definition checked_order :: "heap \<Rightarrow> typed_value \<Rightarrow> typed_value \<Rightarrow> int" where
  "checked_order h l r =
     (if lengths_disagree h l r then (if getTypeID l = kChar then - 1 else 1)
      else lexicographic (string_of h l) (string_of h r))"

lemma checked_string_sign:
  assumes types: "getTypeID left \<in> {kChar, kVarChar}" "getTypeID right \<in> {kChar, kVarChar}"
    and there: "\<not> isNull left" "\<not> isNull right"
    and ends: "\<And>v. v \<in> {left, right} \<Longrightarrow> getTypeID v = kVarChar \<Longrightarrow> 0 \<in> set (out_of_line_bytes h v)"
    and long: "\<And>v. v \<in> {left, right} \<Longrightarrow> length (string_of h v) \<le> getAsciiStringLength h v"
    and exact: "\<And>v. v \<in> {left, right} \<Longrightarrow> getTypeID v = kChar \<Longrightarrow> getAsciiStringLength h v = length (string_of h v)"
    and read: "\<And>v. v \<in> {left, right} \<Longrightarrow> readable (getAsciiStringLength h v) (out_of_line_bytes h v)"
  shows "\<exists>c. BasicComparison_strcmpHelper h left right = Some c \<and> sgn c = checked_order h left right"
proof -
  let ?l = "out_of_line_bytes h left" and ?r = "out_of_line_bytes h right"
  let ?s = "string_of h left" and ?t = "string_of h right"
  let ?m = "getAsciiStringLength h left" and ?n = "getAsciiStringLength h right"
  have s: "c_string ?l = ?s" "c_string ?r = ?t" by (simp_all add: string_of_def)
  show ?thesis
  proof (cases "getTypeID left = kVarChar \<and> getTypeID right = kVarChar")
    case True
    then show ?thesis using strcmp_sign [of ?l ?r] ends
      by (simp add: BasicComparison_strcmpHelper_def checked_order_def lengths_disagree_def s)
  next
    case False
    have "readable (min ?m ?n) ?l" "readable (min ?m ?n) ?r"
      using read [of left] read [of right] by (auto simp: readable_def)
    then obtain c where c: "strncmp ?l ?r (min ?m ?n) = Some c" "sgn c = lexicographic (take (min ?m ?n) ?s) (take (min ?m ?n) ?t)"
      using strncmp_sign [of "min ?m ?n" ?l ?r] s by auto
    note len = long [of left, simplified] long [of right, simplified]
    have zero: "c = 0 \<longleftrightarrow> take (min ?m ?n) ?s = take (min ?m ?n) ?t"
      by (simp add: sgn_nonzero [OF c(2)] lexicographic_zero)
    have pre: "c \<noteq> 0 \<Longrightarrow> lexicographic ?s ?t = sgn c"
      using lexicographic_prefix [of "min ?m ?n" ?s ?t] c(2) by (simp add: sgn_nonzero [OF c(2)])
    have helper: "BasicComparison_strcmpHelper h left right =
      Some (if c \<noteq> 0 then c else if ?m < ?n then - 1 else if ?n < ?m then 1 else 0)"
      using c(1) False by (auto simp: BasicComparison_strcmpHelper_def Let_def min_def split: if_splits)
    have shorter: "lexicographic ?s ?t = - 1" if "c = 0" "?s \<noteq> ?t" "?m < ?n"
    proof -
      have st: "?s = take ?m ?t" using that len zero by simp
      then have "?m < length ?t" using that(2) by (cases "?m < length ?t") simp_all
      then show ?thesis using lexicographic_longer [of ?m ?t] st by simp
    qed
    have longer: "lexicographic ?s ?t = 1" if "c = 0" "?s \<noteq> ?t" "?n < ?m"
    proof -
      have ts: "?t = take ?n ?s" using that len zero by simp
      then have "?n < length ?s" using that(2) by (cases "?n < length ?s") simp_all
      then show ?thesis using lexicographic_longer [of ?n ?s] ts by simp
    qed
    have even: "?s = ?t" if "c = 0" "?m = ?n" using that len zero by simp
    have eq: "?s = ?t \<Longrightarrow> c = 0" using zero by simp
    have same: "lexicographic ?s ?s = 0" by (simp add: lexicographic_zero)
    show ?thesis
    proof (cases "?s = ?t")
      case True
      have "getTypeID left = getTypeID right \<Longrightarrow> ?m = ?n"
        "getTypeID left = kChar \<Longrightarrow> ?m \<le> ?n" "getTypeID right = kChar \<Longrightarrow> ?n \<le> ?m"
        using False types exact [of left] exact [of right] len True by auto
      then show ?thesis using eq [OF True] True types there False same
        unfolding helper by (auto simp: checked_order_def lengths_disagree_def)
    next
      case ne: False
      then have "\<not> lengths_disagree h left right" by (simp add: lengths_disagree_def)
      then show ?thesis
        using shorter longer even ne pre unfolding helper checked_order_def
        by (cases "c = 0"; cases ?m ?n rule: linorder_cases) auto
    qed
  qed
qed

lemma unchecked_string_sign:
  assumes "length (c_string l) \<le> m" "length (c_string r) \<le> n" "readable m l" "readable n r"
    "lnt \<Longrightarrow> 0 \<in> set l" "rnt \<Longrightarrow> 0 \<in> set r" "ll \<longleftrightarrow> n < m" "rl \<longleftrightarrow> m < n"
  shows "\<exists>c. AsciiString_strcmpHelper lnt ll rnt rl m n l r = Some c \<and> sgn c = lexicographic (c_string l) (c_string r)"
proof (cases "lnt \<and> rnt")
  case True
  then show ?thesis using strcmp_sign [of l r] assms(5,6) by (simp add: AsciiString_strcmpHelper_def)
next
  case False
  have read: "readable (min m n) l" "readable (min m n) r" using assms(3,4) by (auto simp: readable_def)
  obtain c where c: "strncmp l r (min m n) = Some c"
    "sgn c = lexicographic (take (min m n) (c_string l)) (take (min m n) (c_string r))"
    using strncmp_sign [OF read] by blast
  note pre = lexicographic_prefix [of "min m n" "c_string l" "c_string r"] sgn_nonzero [OF c(2)]
  note zero = lexicographic_zero [of "take (min m n) (c_string l)" "take (min m n) (c_string r)"]
  consider "m < n" | "n < m" | "m = n" by linarith
  then show ?thesis
  proof cases
    case 1
    have len: "strnlen_within r n = Some (length (c_string r))"
      using strnlen_bounded [OF assms(4)] assms(2) by (simp add: min_def)
    have "lexicographic (c_string l) (c_string r) = (if c \<noteq> 0 then sgn c else if m < length (c_string r) then - 1 else 0)"
      using pre zero c(2) 1 assms(1) lexicographic_longer [of m "c_string r"] by (auto simp: min_def)
    then show ?thesis using 1 c(1) len False assms(7,8)
      by (auto simp: AsciiString_strcmpHelper_def min_def)
  next
    case 2
    have len: "strnlen_within l m = Some (length (c_string l))"
      using strnlen_bounded [OF assms(3)] assms(1) by (simp add: min_def)
    have "lexicographic (c_string l) (c_string r) = (if c \<noteq> 0 then sgn c else if n < length (c_string l) then 1 else 0)"
      using pre zero c(2) 2 assms(2) lexicographic_longer [of n "c_string l"] by (auto simp: min_def)
    then show ?thesis using 2 c(1) len False assms(7,8)
      by (auto simp: AsciiString_strcmpHelper_def min_def)
  next
    case 3
    then show ?thesis using c False assms(1,2,7,8) by (auto simp: AsciiString_strcmpHelper_def)
  qed
qed

section \<open>The paths of a comparison\<close>

text \<open>
  The values of a type, and the data item a value is stored as. A string value is one that the type calls a
  plausible instance, and a VarChar has a terminating null byte; its size may be larger than the string and
  this byte need (as \<^verbatim>\<open>VarCharType::coerceValue\<close> leaves it when it is given a padded Char), so the length
  it reports may be too large. A value of \<^verbatim>\<open>coerceValue\<close> that is not even a plausible instance is not covered.
\<close>

definition value_of_type :: "heap \<Rightarrow> typed_value \<Rightarrow> sql_type \<Rightarrow> bool" where
  "value_of_type h v t \<longleftrightarrow> getTypeID v = type_id t \<and>
     (if isNull v then nullable t
      else (\<exists>pad l. v = literal_value pad l) \<or>
        string_value v \<and> isPlausibleInstanceOf h v (getSignature t) \<and>
        (getTypeID v = kVarChar \<longrightarrow> 0 \<in> set (out_of_line_bytes h v)))"

definition item_of :: "heap \<Rightarrow> typed_value \<Rightarrow> data_ptr" where
  "item_of h v =
     (if isNull v then None
      else Some (if RepresentedInline (getTypeID v) then word_bytes (cpp_size (getTypeID v)) (value_union v)
                 else out_of_line_bytes h v))"

lemma literal_inline: "RepresentedInline (literal_type l)" "literal_type l \<noteq> kNullType"
  by (induction l rule: literal_type.induct) (simp_all add: RepresentedInline_def)

lemma not_string_literal: "\<not> string_value (literal_value pad l)"
  using literal_inline(1) [of l] not_inline_string [of "literal_type l"] by (auto simp: string_value_def)

lemma take_low_bits: "ucast (take_bit 32 w) = (ucast w :: u32)" for w :: u64
  by (rule bit_word_eqI) (auto simp: bit_ucast_iff bit_take_bit_iff)

lemma deref_literal:
  "deref (literal_type l) (item_of h (literal_value pad l)) = Some (getLiteral (literal_type l) (literal_value pad l))"
proof -
  have size: "length (word_bytes n w) = n" for n w by (simp add: word_bytes_def)
  have full: "bytes_word (word_bytes 8 w) = w" for w using bytes_word_word_bytes [of 8 w] by (simp add: take_bit_word_eq_self)
  have low: "ucast (bytes_word (word_bytes 4 w)) = (ucast w :: u32)" for w
    using bytes_word_word_bytes [of 4 w] by (simp add: take_low_bits)
  show ?thesis
    using literal_inline [of l] size full low
    by (cases "literal_type l")
      (simp_all add: deref_def item_of_def literal_of_bytes_def getLiteral_def cpp_size_def Let_def getLiteral_int_def
        getLiteral_long_def getLiteral_float_def getLiteral_double_def getLiteral_date_def getLiteral_datetime_def
        getLiteral_datetime_interval_def getLiteral_year_month_interval_def)
qed

text \<open>What a comparator needs of its two arguments, for all entry points to compute the same.\<close>

lemma entry_points:
  assumes "\<And>F a b n m. c = LiteralUncheckedComparator F a n b m \<Longrightarrow>
      (isNull l \<or> deref a (item_of h l) = Some (getLiteral a l)) \<and> (isNull r \<or> deref b (item_of h r) = Some (getLiteral b r))"
    "\<And>F a b d e f g i j. c = AsciiStringUncheckedComparator F a b d e f g i j \<Longrightarrow>
      (isNull l \<or> item_of h l = Some (out_of_line_bytes h l)) \<and> (isNull r \<or> item_of h r = Some (out_of_line_bytes h r))"
    "isNull l \<Longrightarrow> left_nullable c" "isNull r \<Longrightarrow> right_nullable c"
  shows "compareDataPtrs c (item_of h l) (item_of h r) = compareTypedValues h c l r \<and>
    compareTypedValueWithDataPtr h c l (item_of h r) = compareTypedValues h c l r \<and>
    compareDataPtrWithTypedValue h c (item_of h l) r = compareTypedValues h c l r"
proof -
  have n: "item_of h v = None \<longleftrightarrow> isNull v" for v by (simp add: item_of_def)
  show ?thesis
    using assms by (cases c) (auto simp: compareDataPtrs_def compareTypedValues_def n)
qed

lemma made_comparator:
  assumes "canCompareTypes lt rt" "functor_of cmp = Some F"
  shows "makeUncheckedComparatorForTypes cmp lt rt = Some
    (if type_id lt \<in> {kChar, kVarChar}
     then AsciiStringUncheckedComparator F (nullable lt) (type_id lt = kVarChar) (string_length rt < string_length lt)
       (nullable rt) (type_id rt = kVarChar) (string_length lt < string_length rt) (string_length lt) (string_length rt)
     else LiteralUncheckedComparator F (type_id lt) (nullable lt) (type_id rt) (nullable rt))"
  using assms
  by (cases "type_id lt"; cases "type_id rt";
      simp add: canCompareTypes_def makeUncheckedComparatorForTypes_def makeUncheckedComparatorForTypesHelper_def getSuperTypeID_def
        makeNumericComparatorOuterHelper_def makeNumericComparatorInnerHelper_def makeDateComparatorOuterHelper_def
        makeDateComparatorInnerHelper_def makeStringComparatorOuterHelper_def makeStringComparatorMiddleHelper_def
        makeStringComparatorInnerHelper_def maximumByteLength_def)

lemma string_facts:
  assumes "value_of_type h v t" "type_id t \<in> {kChar, kVarChar}" "\<not> isNull v"
  shows "length (string_of h v) \<le> string_length t" "readable (string_length t) (out_of_line_bytes h v)"
    "readable (getAsciiStringLength h v) (out_of_line_bytes h v)" "length (string_of h v) \<le> getAsciiStringLength h v"
    "getTypeID v = kVarChar \<Longrightarrow> 0 \<in> set (out_of_line_bytes h v)" "getTypeID v = type_id t"
    "item_of h v = Some (out_of_line_bytes h v)" "string_value v"
    "getTypeID v = kChar \<Longrightarrow> getAsciiStringLength h v = length (string_of h v)"
proof -
  show t: "getTypeID v = type_id t" using assms(1) by (simp add: value_of_type_def)
  have "\<nexists>pad l. v = literal_value pad l"
    using t assms(2) literal_inline(1) not_inline_string by (metis literal_value_observers(1))
  then have s: "string_value v" "isPlausibleInstanceOf h v (getSignature t)"
    "getTypeID v = kVarChar \<longrightarrow> 0 \<in> set (out_of_line_bytes h v)"
    using assms(1,3) by (auto simp: value_of_type_def)
  show "string_value v" by (rule s(1))
  note pl = plausible_string [OF s(1) t [symmetric], of h]
  show "length (string_of h v) \<le> string_length t" using plausible_fits [OF s(1) t [symmetric] s(2)] s(3) by blast
  show "readable (string_length t) (out_of_line_bytes h v)"
    using pl s(2,3) assms(2) t by (auto simp: readable_def out_of_line_bytes_def)
  show exact: "getAsciiStringLength h v = length (string_of h v)" if "getTypeID v = kChar"
    using that by (simp add: getAsciiStringLength_def strnlen_def string_of_def out_of_line_bytes_def)
  show z: "0 \<in> set (out_of_line_bytes h v)" if "getTypeID v = kVarChar" using that s(3) by simp
  have size: "length (out_of_line_bytes h v) = getDataSize v" by (simp add: out_of_line_bytes_def)
  have var: "getAsciiStringLength h v = getDataSize v - 1 \<and> length (string_of h v) < getDataSize v" if "getTypeID v = kVarChar"
    using that string_shorter [of h v] string_length_le [of h v] z size by (auto simp: getAsciiStringLength_def)
  show "length (string_of h v) \<le> getAsciiStringLength h v"
    using exact var assms(2) t by auto
  show "readable (getAsciiStringLength h v) (out_of_line_bytes h v)"
    using exact var assms(2) t size string_length_le [of h v] by (auto simp: readable_def)
  show "item_of h v = Some (out_of_line_bytes h v)"
    using assms(2,3) t not_inline_string [of "getTypeID v"] by (simp add: item_of_def)
qed

lemma literal_facts:
  assumes "value_of_type h v t" "type_id t \<notin> {kChar, kVarChar}" "\<not> isNull v"
  obtains pad l where "v = literal_value pad l" "literal_type l = type_id t"
  using assms by (auto simp: value_of_type_def string_value_def)

lemma checked_strings:
  assumes "value_of_type h l lt" "value_of_type h r rt" "type_id lt \<in> {kChar, kVarChar}" "type_id rt \<in> {kChar, kVarChar}"
    "\<not> isNull l" "\<not> isNull r"
  shows "compareTypedValuesCheckedHelper F p h l lt r rt = Some (compare_ints F (checked_order h l r) 0)"
proof -
  note f = string_facts [OF assms(1,3,5)] and g = string_facts [OF assms(2,4,6)]
  have "\<exists>c. BasicComparison_strcmpHelper h l r = Some c \<and> sgn c = checked_order h l r"
    by (rule checked_string_sign) (use f g assms(3-6) in auto)
  then obtain c where "BasicComparison_strcmpHelper h l r = Some c" "sgn c = checked_order h l r"
    by blast
  then show ?thesis using f(6) g(6) assms(3-6) compare_sign [of F c]
    unfolding compareTypedValuesCheckedHelper_def Let_def by auto
qed

lemma unchecked_strings:
  assumes "value_of_type h l lt" "value_of_type h r rt" "type_id lt \<in> {kChar, kVarChar}" "type_id rt \<in> {kChar, kVarChar}"
    "\<not> isNull l" "\<not> isNull r"
  shows "compareTypedValues h (AsciiStringUncheckedComparator F (nullable lt) (type_id lt = kVarChar) (string_length rt < string_length lt)
       (nullable rt) (type_id rt = kVarChar) (string_length lt < string_length rt) (string_length lt) (string_length rt)) l r =
    Some (compare_ints F (lexicographic (string_of h l) (string_of h r)) 0)"
proof -
  note f = string_facts [OF assms(1,3,5)] and g = string_facts [OF assms(2,4,6)]
  have "\<exists>c. AsciiString_strcmpHelper (type_id lt = kVarChar) (string_length rt < string_length lt) (type_id rt = kVarChar)
      (string_length lt < string_length rt) (string_length lt) (string_length rt) (out_of_line_bytes h l) (out_of_line_bytes h r) =
      Some c \<and> sgn c = lexicographic (string_of h l) (string_of h r)"
    unfolding string_of_def
    by (rule unchecked_string_sign) (use f g in \<open>auto simp: string_of_def\<close>)
  then obtain c where "AsciiString_strcmpHelper (type_id lt = kVarChar) (string_length rt < string_length lt) (type_id rt = kVarChar)
      (string_length lt < string_length rt) (string_length lt) (string_length rt) (out_of_line_bytes h l) (out_of_line_bytes h r) =
      Some c" "sgn c = lexicographic (string_of h l) (string_of h r)" by blast
  then show ?thesis using assms(5,6) compare_sign [of F c] by (simp add: compareTypedValues_def)
qed

lemma checked_literals:
  assumes "literal_type a = type_id lt" "literal_type b = type_id rt" "type_wf lt" "type_wf rt" "canCompareTypes lt rt"
    "\<not> long_float (type_id lt) (type_id rt)"
  shows "\<exists>x. compareTypedValuesCheckedHelper F p h (literal_value pad a) lt (literal_value pad' b) rt = Some x \<and>
    apply_functor F (getLiteral (type_id lt) (literal_value pad a)) (getLiteral (type_id rt) (literal_value pad' b)) = Some x"
proof (cases a)
  case (number x)
  then have "type_id lt \<in> {kInt, kLong, kFloat, kDouble}" using assms(1) by (cases x) auto
  then have "type_id rt \<in> {kInt, kLong, kFloat, kDouble}" using assms(5) by (auto simp: canCompareTypes_def)
  then obtain y where y: "b = number y" using assms(2) by (cases b) auto
  have "apply_functor F (getLiteral (type_id lt) (literal_value pad a)) (getLiteral (type_id rt) (literal_value pad' b)) =
      Some (compare_numbers F (stored_number x) (stored_number y))"
    unfolding assms(1,2) [symmetric] getLiteral_value using number y by simp
  then show ?thesis
    using checked_numbers [OF assms(3,4) assms(1) [symmetric, unfolded number] assms(2) [symmetric, unfolded y] assms(6)]
      number y by auto
qed (use assms(1,2,5) in \<open>cases b; auto simp: canCompareTypes_def compareTypedValuesCheckedHelper_def value_simps getLiteral_def
    dest!: sym [of _ "type_id lt"] sym [of _ "type_id rt"]\<close>)+

lemma deref_value:
  assumes "value_of_type h v t" "type_id t \<notin> {kChar, kVarChar}"
  shows "isNull v \<or> deref (type_id t) (item_of h v) = Some (getLiteral (type_id t) v)"
proof (cases "isNull v")
  case False
  from literal_facts [OF assms False] obtain pad l where "v = literal_value pad l" "literal_type l = type_id t" .
  then show ?thesis using deref_literal [of l h pad] by simp
qed simp

lemma canCompare_string: "canCompareTypes lt rt \<Longrightarrow> type_id lt \<in> {kChar, kVarChar} \<longleftrightarrow> type_id rt \<in> {kChar, kVarChar}"
  by (auto simp: canCompareTypes_def split: TypeID.splits)

lemma checked_null:
  assumes "canCompareTypes lt rt" "value_of_type h l lt" "value_of_type h r rt" "isNull l \<or> isNull r"
  shows "compareTypedValuesCheckedHelper F p h l lt r rt = Some False"
proof -
  have "getTypeID r = type_id rt" using assms(3) by (simp add: value_of_type_def)
  then show ?thesis using assms(1,4)
    by (cases "type_id lt") (auto simp: canCompareTypes_def compareTypedValuesCheckedHelper_def Let_def)
qed

text \<open>
  C24: For comparable types a comparator is made, and all its entry points (two values, a value and a stored
  item, two stored items) give the same answer, without reading out of bounds; with a null argument the
  answer is no. The checked comparison gives this answer too, but for two exceptions: a Long with a Float,
  which the theorem leaves out, and a Char with a VarChar that hold one string and report different lengths
  for it (the VarChar being padded): there it takes the Char for the smaller one.
\<close>

theorem comparison_paths_agree:
  assumes "functor_of cmp = Some F" "canCompareTypes lt rt" "type_wf lt" "type_wf rt"
    "value_of_type h l lt" "value_of_type h r rt" "\<not> long_float (type_id lt) (type_id rt)"
  shows "\<exists>c b. makeUncheckedComparatorForTypes cmp lt rt = Some c \<and> compareTypedValues h c l r = Some b \<and>
    compareDataPtrs c (item_of h l) (item_of h r) = Some b \<and>
    compareTypedValueWithDataPtr h c l (item_of h r) = Some b \<and>
    compareDataPtrWithTypedValue h c (item_of h l) r = Some b \<and> (isNull l \<or> isNull r \<longrightarrow> \<not> b) \<and>
    compareTypedValuesChecked cmp p h l lt r rt =
      Some (if lengths_disagree h l r then compare_ints F (if getTypeID l = kChar then - 1 else 1) 0 else b)"
proof -
  define c where "c = (if type_id lt \<in> {kChar, kVarChar}
     then AsciiStringUncheckedComparator F (nullable lt) (type_id lt = kVarChar) (string_length rt < string_length lt)
       (nullable rt) (type_id rt = kVarChar) (string_length lt < string_length rt) (string_length lt) (string_length rt)
     else LiteralUncheckedComparator F (type_id lt) (nullable lt) (type_id rt) (nullable rt))"
  have made: "makeUncheckedComparatorForTypes cmp lt rt = Some c"
    using made_comparator [OF assms(2,1)] by (simp add: c_def)
  have nulls: "isNull l \<Longrightarrow> left_nullable c" "isNull r \<Longrightarrow> right_nullable c"
    using assms(5,6) by (auto simp: c_def value_of_type_def split: if_splits)
  note strings = canCompare_string [OF assms(2)]
  have entry: "compareDataPtrs c (item_of h l) (item_of h r) = compareTypedValues h c l r \<and>
    compareTypedValueWithDataPtr h c l (item_of h r) = compareTypedValues h c l r \<and>
    compareDataPtrWithTypedValue h c (item_of h l) r = compareTypedValues h c l r"
  proof (rule entry_points)
    show "(isNull l \<or> deref a (item_of h l) = Some (getLiteral a l)) \<and> (isNull r \<or> deref b (item_of h r) = Some (getLiteral b r))"
      if "c = LiteralUncheckedComparator F a n b m" for F a b n m
      using that strings deref_value [OF assms(5)] deref_value [OF assms(6)] by (auto simp: c_def split: if_splits)
    show "(isNull l \<or> item_of h l = Some (out_of_line_bytes h l)) \<and> (isNull r \<or> item_of h r = Some (out_of_line_bytes h r))"
      if "c = AsciiStringUncheckedComparator F a b d e f g i j" for F a b d e f g i j
      using that strings string_facts(7) [OF assms(5)] string_facts(7) [OF assms(6)] by (auto simp: c_def split: if_splits)
  qed (use nulls in blast)+
  have checked: "compareTypedValuesChecked cmp p h l lt r rt = compareTypedValuesCheckedHelper F p h l lt r rt"
    using assms(1) by (simp add: compareTypedValuesChecked_def)
  show ?thesis
  proof (cases "isNull l \<or> isNull r")
    case True
    then have "compareTypedValues h c l r = Some False" "\<not> lengths_disagree h l r"
      using nulls by (auto simp: compareTypedValues_def lengths_disagree_def)
    then show ?thesis
      using made checked checked_null [OF assms(2,5,6) True, of F p] entry by (intro exI [of _ c] exI [of _ False]) simp
  next
    case False
    have "\<exists>b. compareTypedValuesCheckedHelper F p h l lt r rt =
        Some (if lengths_disagree h l r then compare_ints F (if getTypeID l = kChar then - 1 else 1) 0 else b) \<and>
      compareTypedValues h c l r = Some b"
    proof (cases "type_id lt \<in> {kChar, kVarChar}")
      case True
      then show ?thesis
        using checked_strings [OF assms(5,6), of F p] unchecked_strings [OF assms(5,6), of F] strings False
        by (auto simp: c_def checked_order_def)
    next
      case lit: False
      from literal_facts [OF assms(5) lit] False obtain pad a where a: "l = literal_value pad a" "literal_type a = type_id lt" by blast
      have "type_id rt \<notin> {kChar, kVarChar}" using lit strings by blast
      from literal_facts [OF assms(6) this] False obtain pad' b where b: "r = literal_value pad' b" "literal_type b = type_id rt" by blast
      have "\<not> lengths_disagree h l r" using lit assms(5) by (auto simp: lengths_disagree_def value_of_type_def)
      then show ?thesis
        using checked_literals [OF a(2) b(2) assms(3,4,2,7), of F p h pad pad'] a(1) b(1) lit False
        by (auto simp: c_def compareTypedValues_def)
    qed
    then show ?thesis using made checked entry False by (auto intro!: exI [of _ c])
  qed
qed

lemma value_of_literal: "literal_type l = type_id t \<Longrightarrow> value_of_type h (literal_value pad l) t"
  by (auto simp: value_of_type_def)

theorem comparison_paths_agree_witness:
  "\<exists>c b. makeUncheckedComparatorForTypes LessComparison (basic_type kInt) (basic_type kDouble) = Some c \<and>
    compareTypedValuesChecked LessComparison 0 sample_heap (TypedValue_int 1) (basic_type kInt)
      (TypedValue_double 0x4000000000000000) (basic_type kDouble) = Some b \<and>
    compareTypedValues sample_heap c (TypedValue_int 1) (TypedValue_double 0x4000000000000000) = Some b"
proof -
  have v: "value_of_type sample_heap (TypedValue_int 1) (basic_type kInt)"
    "value_of_type sample_heap (TypedValue_double 0x4000000000000000) (basic_type kDouble)"
    using value_of_literal [of "number (IntLit 1)" "basic_type kInt" sample_heap 0]
      value_of_literal [of "number (DoubleLit 0x4000000000000000)" "basic_type kDouble" sample_heap 0]
    by (simp_all add: basic_type_def)
  have "\<not> lengths_disagree sample_heap (TypedValue_int 1) (TypedValue_double 0x4000000000000000)"
    by (simp add: lengths_disagree_def value_simps)
  then show ?thesis
    using comparison_paths_agree [of LessComparison LessFunctor "basic_type kInt" "basic_type kDouble", OF _ _ _ _ v, of 0]
    by (auto simp: canCompareTypes_def type_wf_def basic_type_def long_float_def TypeRequiresLengthParameter_def)
qed

text \<open>
  C25: Two strings are compared lexicographically by their bytes up to the first null byte, whatever their types and
  the lengths of these: shorter is less, padding does not count. This holds for the comparator without
  exception; the checked comparison differs from it exactly for a Char and a VarChar that hold one string
  and report different lengths for it (a VarChar coerced from a padded Char does): there the Char is the
  smaller one instead of the two being equal.
\<close>

theorem strings_compare_lexicographically:
  assumes "functor_of cmp = Some F" "type_id lt \<in> {kChar, kVarChar}" "type_id rt \<in> {kChar, kVarChar}"
    "value_of_type h l lt" "value_of_type h r rt" "\<not> isNull l" "\<not> isNull r"
  shows "compareTypedValuesChecked cmp p h l lt r rt =
      Some (compare_ints F
        (if lengths_disagree h l r then (if getTypeID l = kChar then - 1 else 1)
         else lexicographic (string_of h l) (string_of h r)) 0) \<and>
    (\<exists>c. makeUncheckedComparatorForTypes cmp lt rt = Some c \<and>
      compareTypedValues h c l r = Some (compare_ints F (lexicographic (string_of h l) (string_of h r)) 0))"
proof -
  have "canCompareTypes lt rt" using assms(2,3) by (auto simp: canCompareTypes_def)
  from made_comparator [OF this assms(1)] show ?thesis
    using checked_strings [OF assms(4,5,2,3,6,7)] unchecked_strings [OF assms(4,5,2,3,6,7)] assms(1,2)
    by (simp add: compareTypedValuesChecked_def checked_order_def)
qed

theorem strings_compare_lexicographically_witness:
  "let h = write_bytes 0x1000 [97, 98, 0, 0] sample_heap;
       char = \<lparr>type_id = kChar, nullable = False, string_length = 4\<rparr>;
       varchar = \<lparr>type_id = kVarChar, nullable = False, string_length = 9\<rparr>
   in compareTypedValuesChecked EqualComparison 0 h (TypedValue_reference kChar 0x1000 4) char
        (TypedValue_reference kVarChar 0x1000 3) varchar = Some True \<and>
      compareTypedValuesChecked EqualComparison 0 h (TypedValue_reference kChar 0x1000 4) char
        (TypedValue_reference kVarChar 0x1000 4) varchar = Some False"
proof -
  let ?h = "write_bytes 0x1000 [97, 98, 0, 0] sample_heap"
  let ?l = "TypedValue_reference kChar 0x1000 4" and ?r = "\<lambda>n. TypedValue_reference kVarChar 0x1000 n"
  let ?a = "\<lparr>type_id = kChar, nullable = False, string_length = 4\<rparr>"
  let ?b = "\<lparr>type_id = kVarChar, nullable = False, string_length = 9\<rparr>"
  have l: "string_value ?l" "getTypeID ?l = kChar" "getDataSize ?l = 4"
    using owned_bytes [of kChar 4 ?l "0x1000"] by simp_all
  have r: "string_value (?r n)" "getTypeID (?r n) = kVarChar" "getDataSize (?r n) = n" if "n \<in> {3, 4}" for n
    using owned_bytes [of kVarChar n "?r n" "0x1000"] that by auto
  have s: "string_of ?h ?l = [97, 98]" "string_of ?h (?r 3) = [97, 98]" "string_of ?h (?r 4) = [97, 98]"
    "out_of_line_bytes ?h (?r 3) = [97, 98, 0]" "out_of_line_bytes ?h (?r 4) = [97, 98, 0, 0]" by code_simp+
  have len: "getAsciiStringLength ?h ?l = 2" "getAsciiStringLength ?h (?r 3) = 2" "getAsciiStringLength ?h (?r 4) = 3"
    by code_simp+
  have n: "\<not> isNull ?l" "\<not> isNull (?r 3)" "\<not> isNull (?r 4)"
    using l(1) r(1) [of 3] r(1) [of 4] by (simp_all add: string_value_def)
  have "isPlausibleInstanceOf ?h ?l (getSignature ?a)" using plausible_string [of ?l ?a ?h] l by simp
  then have vl: "value_of_type ?h ?l ?a" using l n by (simp add: value_of_type_def)
  have vr: "value_of_type ?h (?r n) ?b" if "n \<in> {3, 4}" for n
    using plausible_string [of "?r n" ?b ?h] r [OF that] n s(4,5) that by (auto simp: value_of_type_def)
  note compare = strings_compare_lexicographically [of EqualComparison EqualFunctor ?a ?b ?h ?l _ 0]
  have "compareTypedValuesChecked EqualComparison 0 ?h ?l ?a (?r 3) ?b = Some True"
    using compare [of "?r 3"] vl vr [of 3] n s len by (simp add: lengths_disagree_def)
  moreover have "compareTypedValuesChecked EqualComparison 0 ?h ?l ?a (?r 4) ?b = Some False"
    using compare [of "?r 4"] vl vr [of 4] n s len l(2) r(2) [of 4] by (simp add: lengths_disagree_def)
  ultimately show ?thesis by (simp add: Let_def)
qed

text \<open>
  A Long and a Float are compared as doubles when checked and as floats when not, so that the two ways differ:
  16777217 is not equal to 16777216.0 in the one, and is in the other.
\<close>

theorem long_float_comparison_differs:
  "\<exists>c. makeUncheckedComparatorForTypes EqualComparison (basic_type kLong) (basic_type kFloat) = Some c \<and>
    compareTypedValues h c (TypedValue_long 16777217) (TypedValue_float 0x4B800000) = Some True \<and>
    compareTypedValuesChecked EqualComparison p h (TypedValue_long 16777217) (basic_type kLong)
      (TypedValue_float 0x4B800000) (basic_type kFloat) = Some False"
proof -
  have c: "canCompareTypes (basic_type kLong) (basic_type kFloat)" by (simp add: canCompareTypes_def basic_type_def)
  note made = made_comparator [OF c, of EqualComparison EqualFunctor]
  have f: "to_f32 (fp_of_int 16777217) = 0x4B800000" "\<not> fp_equal (f32 0x4B800000) (fp_of_int 0)"
    by (simp_all add: to_f32_def f32_def fp_eval)
  have e: "fp_equal (f32 0x4B800000) (f32 0x4B800000)" by (simp add: f32_def fp_eval)
  have d: "to_f64 (fp_of_int 16777217) = 0x4170000010000000" "to_f64 (f32 0x4B800000) = 0x4170000000000000"
    "\<not> fp_equal (f64 0x4170000010000000) (fp_of_int 0)" "\<not> fp_equal (f64 0x4170000000000000) (fp_of_int 0)"
    "\<not> fp_equal (f64 0x4170000010000000) (f64 0x4170000000000000)"
    by (simp_all add: to_f64_def f64_def f32_def fp_eval)
  have u: "GetUnifyingType (basic_type kLong) (basic_type kFloat) = Some (basic_type kDouble)"
    by (simp add: basic_type_def GetUnifyingType_def GetMostSpecificType_def coercibility_defs GetType_def)
  have "compareTypedValuesCheckedHelper EqualFunctor p h (TypedValue_long 16777217) (basic_type kLong)
      (TypedValue_float 0x4B800000) (basic_type kFloat) = Some False"
    using u d f by (simp add: compareTypedValuesCheckedHelper_def basic_type_def value_simps coerceValue_def
        DoubleType_coerceValue_def getLiteral_def compare_numbers_def)
  moreover have "compareTypedValues h (LiteralUncheckedComparator EqualFunctor kLong False kFloat False)
      (TypedValue_long 16777217) (TypedValue_float 0x4B800000) = Some True"
    using f e by (simp add: compareTypedValues_def getLiteral_def value_simps compare_numbers_def)
  ultimately show ?thesis using made by (simp add: basic_type_def compareTypedValuesChecked_def)
qed

lemma flipped_functor:
  assumes "flipComparisonID (getComparisonID cmp) = Some flipped" "functor_of cmp = Some F"
    "functor_of (GetComparison flipped) = Some G"
  shows "apply_functor G r l = apply_functor F l r"
proof -
  have eq: "fp_equal x y = fp_equal y x" for x y
    by (cases x; cases y) (auto simp: min.commute)
  have ints: "compare_ints G x y = compare_ints F y x" for x y
    using assms by (cases cmp) auto
  have fps: "compare_fps G x y = compare_fps F y x" for x y
    using assms eq by (cases cmp) (auto simp: fp_less_eq_def)
  have nums: "compare_numbers G x y = compare_numbers F y x" for x y
    by (auto simp: compare_numbers_def ints fps)
  have dates: "compare_dates G x y = compare_dates F y x" for x y
    using assms by (cases cmp)
      (auto simp: DateLit_equal_def DateLit_less_eq_def DateLit_greater_eq_def DateLit_greater_def DateLit_less_def)
  show ?thesis by (cases l; cases r) (simp_all add: ints nums dates)
qed

text \<open>
  Two partly unknown types may be compared exactly when types for the unknown ones exist that can be, a flipped
  comparison swaps its arguments, and a comparison object is rebuilt from its message.
\<close>

theorem comparison_objects:
  "(canComparePartialTypes a b \<longleftrightarrow> (\<exists>l r. (a = None \<or> a = Some l) \<and> (b = None \<or> b = Some r) \<and> canCompareTypes l r)) \<and>
   (\<forall>flipped F. flipComparisonID (getComparisonID cmp) = Some flipped \<and> functor_of cmp = Some F \<longrightarrow>
     (\<exists>G. functor_of (GetComparison flipped) = Some G \<and> (\<forall>l r. apply_functor G r l = apply_functor F l r))) \<and>
   Comparison_ReconstructFromProto (Comparison_getProto (GetComparison i)) = GetComparison i \<and>
   getComparisonID (GetComparison i) = i \<and> (isBasicComparison (GetComparison i) \<longleftrightarrow> functor_of (GetComparison i) \<noteq> None)"
proof (intro conjI)
  have left: "(\<exists>r. canCompareTypes l r) \<longleftrightarrow> type_id l \<noteq> kNullType" for l
    by (cases "type_id l") (auto simp: canCompareTypes_def intro: exI [of _ "basic_type kInt"] exI [of _ "basic_type kDate"]
        exI [of _ "basic_type kDatetime"] exI [of _ "basic_type kDatetimeInterval"] exI [of _ "basic_type kYearMonthInterval"]
        exI [of _ "basic_type kChar"] simp: basic_type_def)
  have right: "(\<exists>l. canCompareTypes l r) \<longleftrightarrow> type_id r \<noteq> kNullType" for r
  proof -
    have "canCompareTypes l r \<longleftrightarrow> canCompareTypes r l" for l
      by (cases "type_id l"; cases "type_id r"; simp add: canCompareTypes_def)
    then show ?thesis using left [of r] by simp
  qed
  have known: "type_id t \<in> {kInt, kLong, kFloat, kDouble, kDate, kDatetime, kDatetimeInterval, kYearMonthInterval, kChar, kVarChar}
      \<longleftrightarrow> type_id t \<noteq> kNullType" for t
    by (cases "type_id t") simp_all
  have "\<exists>l r. canCompareTypes l r" by (intro exI [of _ "basic_type kInt"]) (simp add: canCompareTypes_def basic_type_def)
  then show "canComparePartialTypes a b \<longleftrightarrow>
      (\<exists>l r. (a = None \<or> a = Some l) \<and> (b = None \<or> b = Some r) \<and> canCompareTypes l r)"
    using left right known by (cases a; cases b) (simp_all add: canComparePartialTypes_def)
  show "\<forall>flipped F. flipComparisonID (getComparisonID cmp) = Some flipped \<and> functor_of cmp = Some F \<longrightarrow>
     (\<exists>G. functor_of (GetComparison flipped) = Some G \<and> (\<forall>l r. apply_functor G r l = apply_functor F l r))"
  proof (intro allI impI, elim conjE)
    fix flipped F
    assume f: "flipComparisonID (getComparisonID cmp) = Some flipped" "functor_of cmp = Some F"
    then obtain G where "functor_of (GetComparison flipped) = Some G" by (cases cmp) auto
    then show "\<exists>G. functor_of (GetComparison flipped) = Some G \<and> (\<forall>l r. apply_functor G r l = apply_functor F l r)"
      using flipped_functor [OF f] by blast
  qed
qed (cases i; simp add: Comparison_getProto_def isBasicComparison_def)+

theorem comparison_objects_witness:
  "\<exists>G. functor_of (GetComparison kGreater) = Some G \<and> (\<forall>l r. apply_functor G r l = apply_functor LessFunctor l r)"
  using comparison_objects [of None None LessComparison kLess] by auto

end
