(* ===== verification/DataItems.thy ===== *)
theory DataItems
  imports Comparisons
begin

text \<open>
  What the items of data mean. A column, a tuple and a \<^verbatim>\<open>TypedValue\<close> keep the same SQL value in different
  ways: in a slot of an array, out of line with or without a terminating null byte, or inline. \<open>sql_value\<close> is
  the value itself, \<open>item_holds\<close> says that a pointer handed to a comparator stands for it, and the lemmas
  show that a comparator depends on the values only.
\<close>

datatype sql_value = SqlNull | SqlLiteral literal | SqlString "u8 list"

definition sql_value_of :: "heap \<Rightarrow> typed_value \<Rightarrow> sql_value" where
  "sql_value_of h v =
     (if isNull v then SqlNull
      else if getTypeID v \<in> {kChar, kVarChar} then SqlString (string_of h v)
      else SqlLiteral (getLiteral (getTypeID v) v))"

fun sql_of_type :: "sql_type \<Rightarrow> sql_value \<Rightarrow> bool" where
  "sql_of_type t SqlNull \<longleftrightarrow> nullable t"
| "sql_of_type t (SqlLiteral l) \<longleftrightarrow> literal_type l = type_id t"
| "sql_of_type t (SqlString cs) \<longleftrightarrow> type_id t \<in> {kChar, kVarChar} \<and> length cs \<le> string_length t"

text \<open>The comparison of two values; a null value compares as false.\<close>

fun compare_sql :: "basic_functor \<Rightarrow> sql_value \<Rightarrow> sql_value \<Rightarrow> bool" where
  "compare_sql F (SqlLiteral a) (SqlLiteral b) \<longleftrightarrow> apply_functor F a b = Some True"
| "compare_sql F (SqlString l) (SqlString r) \<longleftrightarrow> compare_ints F (lexicographic l r) 0"
| "compare_sql F _ _ \<longleftrightarrow> False"

text \<open>The bytes at the pointer of \<^verbatim>\<open>TypedValue::getDataPtr()\<close>: out-of-line data, or the union itself.\<close>

definition getDataPtr :: "heap \<Rightarrow> typed_value \<Rightarrow> u8 list" where
  "getDataPtr h v =
     (if value_info v AND kSizeBitsMask \<noteq> 0
      then read_bytes h (value_union v) (unat (drop_bit kSizeShift (value_info v)))
      else word_bytes 8 (value_union v))"

definition item_holds :: "sql_type \<Rightarrow> data_ptr \<Rightarrow> sql_value \<Rightarrow> bool" where
  "item_holds t d s \<longleftrightarrow> sql_of_type t s \<and>
     (case s of
        SqlNull \<Rightarrow> d = None
      | SqlLiteral l \<Rightarrow> deref (type_id t) d = Some l
      | SqlString cs \<Rightarrow> (\<exists>bs. d = Some bs \<and> c_string bs = cs \<and> readable (string_length t) bs \<and>
          (type_id t = kVarChar \<longrightarrow> 0 \<in> set bs)))"

lemma deref_some: "deref tid d = Some l \<Longrightarrow> d \<noteq> None"
  by (cases d) (simp_all add: deref_def)

lemma item_holds_type: "item_holds t d s \<Longrightarrow> sql_of_type t s"
  by (simp add: item_holds_def)

lemma item_holds_null: "item_holds t d s \<Longrightarrow> d = None \<longleftrightarrow> s = SqlNull"
  by (cases s) (auto simp: item_holds_def dest: deref_some)

lemma item_holds_nullable: "item_holds t None s \<Longrightarrow> nullable t"
  by (cases s) (auto simp: item_holds_def dest: deref_some)

lemma item_holdsE:
  assumes "item_holds t d s"
  obtains (null) "s = SqlNull" "d = None" "nullable t"
    | (literal) l where "s = SqlLiteral l" "literal_type l = type_id t" "deref (type_id t) d = Some l" "type_id t \<notin> {kChar, kVarChar}"
    | (string) bs where "s = SqlString (c_string bs)" "d = Some bs" "type_id t \<in> {kChar, kVarChar}"
        "length (c_string bs) \<le> string_length t" "readable (string_length t) bs" "type_id t = kVarChar \<Longrightarrow> 0 \<in> set bs"
proof (cases s)
  case SqlNull
  then show ?thesis using assms null by (simp add: item_holds_def)
next
  case (SqlLiteral l)
  then have l: "literal_type l = type_id t" "deref (type_id t) d = Some l" using assms by (simp_all add: item_holds_def)
  then have "type_id t \<notin> {kChar, kVarChar}" using literal_inline(1) [of l] not_inline_string by auto
  then show ?thesis using SqlLiteral l literal by blast
next
  case (SqlString cs)
  then show ?thesis using assms string by (auto simp: item_holds_def)
qed

lemma item_holds_unique: "item_holds t d a \<Longrightarrow> item_holds t d b \<Longrightarrow> a = b"
  by (erule item_holdsE; erule item_holdsE) (auto dest: deref_some)

text \<open>Comparable literals compare.\<close>

lemma functor_total:
  assumes "canCompareTypes lt rt" "literal_type a = type_id lt" "literal_type b = type_id rt"
  shows "apply_functor F a b = Some (apply_functor F a b = Some True)"
proof -
  have "literal_type a \<in> {kInt, kLong, kFloat, kDouble} \<and> literal_type b \<in> {kInt, kLong, kFloat, kDouble} \<or> literal_type a = literal_type b"
    using assms(1) literal_inline [of a] literal_inline [of b] unfolding assms(2,3)
    by (cases "type_id lt"; cases "type_id rt"; simp add: canCompareTypes_def RepresentedInline_def)
  then have "apply_functor F a b \<noteq> None"
    by (cases a rule: literal_type.cases; cases b rule: literal_type.cases; simp)
  then show ?thesis by (cases "apply_functor F a b") auto
qed

text \<open>A comparator made for two types, applied to items that hold values of them, compares the values.\<close>

lemma compare_held:
  assumes "canCompareTypes lt rt" "functor_of cmp = Some F" "makeUncheckedComparatorForTypes cmp lt rt = Some c"
    "item_holds lt dl l" "item_holds rt dr r"
  shows "compareDataPtrs c dl dr = Some (compare_sql F l r)"
proof -
  have c: "c = (if type_id lt \<in> {kChar, kVarChar}
     then AsciiStringUncheckedComparator F (nullable lt) (type_id lt = kVarChar) (string_length rt < string_length lt)
       (nullable rt) (type_id rt = kVarChar) (string_length lt < string_length rt) (string_length lt) (string_length rt)
     else LiteralUncheckedComparator F (type_id lt) (nullable lt) (type_id rt) (nullable rt))"
    using made_comparator [OF assms(1,2)] assms(3) by simp
  have "left_nullable c = nullable lt" "right_nullable c = nullable rt" using c by simp_all
  note n = this
  note str = canCompare_string [OF assms(1)]
  show ?thesis
    using assms(4)
  proof (cases rule: item_holdsE)
    case null
    then show ?thesis using n by (simp add: compareDataPtrs_def)
  next
    case left: (literal a)
    show ?thesis
      using assms(5)
    proof (cases rule: item_holdsE)
      case null
      then show ?thesis using n left(1) by (simp add: compareDataPtrs_def)
    next
      case right: (literal b)
      obtain x y where "dl = Some x" "dr = Some y" using deref_some [OF left(3)] deref_some [OF right(3)] by blast
      then show ?thesis
        using left right c functor_total [OF assms(1) left(2) right(2), of F] by (simp add: compareDataPtrs_def)
    qed (use left(4) str in simp)
  next
    case left: (string xs)
    show ?thesis
      using assms(5)
    proof (cases rule: item_holdsE)
      case null
      then show ?thesis using n left(1) by (simp add: compareDataPtrs_def)
    next
      case right: (string ys)
      have "\<exists>k. AsciiString_strcmpHelper (type_id lt = kVarChar) (string_length rt < string_length lt) (type_id rt = kVarChar)
          (string_length lt < string_length rt) (string_length lt) (string_length rt) xs ys = Some k \<and>
          sgn k = lexicographic (c_string xs) (c_string ys)"
        by (rule unchecked_string_sign) (use left right in auto)
      then obtain k where k: "AsciiString_strcmpHelper (type_id lt = kVarChar) (string_length rt < string_length lt)
          (type_id rt = kVarChar) (string_length lt < string_length rt) (string_length lt) (string_length rt) xs ys = Some k"
        "sgn k = lexicographic (c_string xs) (c_string ys)" by blast
      then show ?thesis
        using left right c compare_sign [of F k] by (simp add: compareDataPtrs_def)
    qed (use left(3) str in simp)
  qed
qed

lemma helper_held:
  assumes "canCompareTypes lt rt" "functor_of cmp = Some F" "makeUncheckedComparatorForTypes cmp lt rt = Some c"
    "item_holds lt dl l" "item_holds rt dr r" "dl \<noteq> None" "dr \<noteq> None"
  shows "compareDataPtrsHelper c True dl dr = Some (compare_sql F l r)"
    and "compareDataPtrsHelper c False dr dl = Some (compare_sql F l r)"
  using compare_held [OF assms(1-5)] assms(6,7) by (simp_all add: compareDataPtrs_def compareDataPtrsHelper_def)

text \<open>A \<^verbatim>\<open>TypedValue\<close> of a type, and the item at its data pointer.\<close>

lemma sql_value_type:
  assumes "value_of_type h v t"
  shows "sql_of_type t (sql_value_of h v)"
proof (cases "isNull v")
  case True
  then show ?thesis using assms by (simp add: value_of_type_def sql_value_of_def)
next
  case False
  show ?thesis
  proof (cases "type_id t \<in> {kChar, kVarChar}")
    case True
    then show ?thesis using string_facts(1,6) [OF assms True False] False by (simp add: sql_value_of_def)
  next
    case str: False
    obtain pad l where v: "v = literal_value pad l" "literal_type l = type_id t" by (rule literal_facts [OF assms str False])
    have "literal_type (stored_literal l) = literal_type l" by (induction l rule: stored_literal.induct) simp_all
    then have "sql_value_of h v = SqlLiteral (stored_literal l)" "literal_type (stored_literal l) = type_id t"
      using v str getLiteral_value [of l pad] by (simp_all add: sql_value_of_def)
    then show ?thesis by simp
  qed
qed

lemma sizes_inline [simp]: "value_info (literal_value pad l) AND kSizeBitsMask = 0"
proof -
  have "take_bit 8 (value_info (literal_value pad l)) = value_info (literal_value pad l)"
    using literal_value_inline [of pad l] by (simp add: kSizeShift_def take_bit_eq_self_iff_drop_bit_eq_0)
  moreover have "kNonSizeBitsMask = mask 8" by (simp add: kNonSizeBitsMask_def mask_eq_exp_minus_1)
  ultimately show ?thesis
    unfolding kSizeBitsMask_def by (metis take_bit_eq_mask and.assoc bit.conj_cancel_right and_zero_eq)
qed

lemma length_word_bytes [simp]: "length (word_bytes n w) = n"
  by (simp add: word_bytes_def)

lemma take_word_bytes [simp]: "m \<le> n \<Longrightarrow> take m (word_bytes n w) = word_bytes m w"
  by (simp add: word_bytes_def take_map)

lemma deref_take: "cpp_size tid \<le> length bs \<Longrightarrow> deref tid (Some bs) = Some (literal_of_bytes tid (take (cpp_size tid) bs))"
  by (simp add: deref_def)

lemma deref_prefix:
  assumes "cpp_size (literal_type l) \<le> n"
  shows "deref (literal_type l) (Some (word_bytes n (value_union (literal_value pad l)) @ bs)) = Some (stored_literal l)"
proof -
  have "deref (literal_type l) (Some (word_bytes (cpp_size (literal_type l)) (value_union (literal_value pad l)))) = Some (stored_literal l)"
    using deref_literal [of l h pad for h] literal_inline [of l] by (simp add: item_of_def)
  then show ?thesis using assms by (simp add: deref_take)
qed

text \<open>The bytes \<^verbatim>\<open>copyInto\<close> writes.\<close>

definition stored_bytes :: "heap \<Rightarrow> typed_value \<Rightarrow> u8 list" where
  "stored_bytes h v =
     (if drop_bit kSizeShift (value_info v) \<noteq> 0
      then read_bytes h (value_union v) (unat (drop_bit kSizeShift (value_info v)))
      else word_bytes (if getTypeID v \<in> {kInt, kFloat} then 4 else 8) (value_union v))"

lemma copyInto_stored: "copyInto p v h = write_bytes p (stored_bytes h v) h"
  by (cases "getTypeID v") (simp_all add: copyInto_def stored_bytes_def Let_def unat_eq_0)

lemma stored_literal_bytes: "stored_bytes h (literal_value pad l) = word_bytes (cpp_size (literal_type l)) (value_union (literal_value pad l))"
  by (cases "literal_type l") (simp_all add: stored_bytes_def literal_value_inline cpp_size_def)

lemma size_bits: "value_info v AND kSizeBitsMask = 0 \<longleftrightarrow> drop_bit kSizeShift (value_info v) = 0"
proof -
  have m: "kSizeBitsMask = NOT (mask 8)" by (simp add: kSizeBitsMask_def kNonSizeBitsMask_def mask_eq_exp_minus_1)
  have "w AND NOT n = 0 \<longleftrightarrow> w AND n = w" for w n :: u64
    by (auto simp: bit_eq_iff bit_and_iff bit_not_iff)
  then show ?thesis
    unfolding m kSizeShift_def by (simp add: take_bit_eq_mask [symmetric] take_bit_eq_self_iff_drop_bit_eq_0)
qed

lemma string_size:
  assumes "string_value v"
  shows "unat (drop_bit kSizeShift (value_info v)) = getDataSize v" "drop_bit kSizeShift (value_info v) \<noteq> 0"
proof -
  obtain own where "value_info v = info_word (getTypeID v) False own (getDataSize v)" "0 < getDataSize v"
    "getDataSize v < 2 ^ 56" using string_info [OF assms] .
  moreover have "\<not> RepresentedInline (getTypeID v)" using assms by (intro not_inline_string) (simp add: string_value_def)
  ultimately show "unat (drop_bit kSizeShift (value_info v)) = getDataSize v"
    using assms by (auto simp: getDataSize_def string_value_def)
  then show "drop_bit kSizeShift (value_info v) \<noteq> 0" using \<open>0 < getDataSize v\<close> by auto
qed

lemma stored_string_bytes: "string_value v \<Longrightarrow> stored_bytes h v = out_of_line_bytes h v"
  by (simp add: stored_bytes_def string_size out_of_line_bytes_def)

text \<open>The data pointer of a value, and a slot its bytes have been copied to, hold its SQL value.\<close>

lemma string_held:
  assumes "value_of_type h v t" "type_id t \<in> {kChar, kVarChar}" "\<not> isNull v"
  shows "item_holds t (Some (out_of_line_bytes h v)) (sql_value_of h v)"
proof -
  note f = string_facts [OF assms]
  have "sql_value_of h v = SqlString (string_of h v)" using assms f(6) by (simp add: sql_value_of_def)
  moreover have "c_string (out_of_line_bytes h v) = string_of h v" by (simp add: string_of_def)
  ultimately show ?thesis
    using sql_value_type [OF assms(1)] f(2,5,6) assms(2) unfolding item_holds_def by auto
qed

lemma literal_held:
  assumes "v = literal_value pad l" "literal_type l = type_id t" "cpp_size (type_id t) \<le> n"
  shows "item_holds t (Some (word_bytes n (value_union v) @ bs)) (sql_value_of h v)"
proof -
  have "\<not> string_value v" using assms(1) not_string_literal by simp
  then have s: "type_id t \<notin> {kChar, kVarChar}" using assms(2) literal_inline(1) [of l] not_inline_string by auto
  have "getTypeID v = type_id t" "\<not> isNull v" "getLiteral (type_id t) v = stored_literal l"
    using assms(1,2) getLiteral_value [of l pad] by simp_all
  then have "sql_value_of h v = SqlLiteral (stored_literal l)" using s by (simp add: sql_value_of_def)
  moreover have "literal_type (stored_literal l) = type_id t"
    using assms(2) by (induction l rule: stored_literal.induct) simp_all
  ultimately show ?thesis
    using deref_prefix [of l n pad bs] assms by (simp add: item_holds_def)
qed

lemma data_ptr_held:
  assumes "value_of_type h v t" "\<not> isNull v"
  shows "item_holds t (Some (getDataPtr h v)) (sql_value_of h v)"
proof (cases "type_id t \<in> {kChar, kVarChar}")
  case True
  have "string_value v" using string_facts(8) [OF assms(1) True assms(2)] .
  then have "getDataPtr h v = out_of_line_bytes h v"
    using string_size by (simp add: getDataPtr_def size_bits out_of_line_bytes_def)
  then show ?thesis using string_held [OF assms(1) True assms(2)] by simp
next
  case False
  obtain pad l where v: "v = literal_value pad l" "literal_type l = type_id t" by (rule literal_facts [OF assms(1) False assms(2)])
  have "cpp_size (type_id t) \<le> 8" by (simp add: cpp_size_def split: TypeID.splits)
  then show ?thesis using literal_held [OF v, of 8 "[]" h] v(1) by (simp add: getDataPtr_def)
qed

lemma stored_size:
  assumes "value_of_type h v t" "\<not> isNull v" "type_id t \<noteq> kVarChar"
  shows "length (stored_bytes h v) \<le> maximumByteLength t" "type_id t \<noteq> kChar \<Longrightarrow> length (stored_bytes h v) = maximumByteLength t"
proof -
  have "length (stored_bytes h v) \<le> maximumByteLength t \<and> (type_id t \<noteq> kChar \<longrightarrow> length (stored_bytes h v) = maximumByteLength t)"
  proof (cases "type_id t = kChar")
    case True
    then have f: "string_value v" "getTypeID v = type_id t" using string_facts(6,8) [OF assms(1) _ assms(2)] by auto
    then have "isPlausibleInstanceOf h v (getSignature t)"
      using assms not_string_literal by (auto simp: value_of_type_def)
    then show ?thesis
      using plausible_string [OF f(1) f(2) [symmetric]] True f(1)
      by (auto simp: stored_string_bytes out_of_line_bytes_def read_bytes_def maximumByteLength_def)
  next
    case False
    obtain pad l where v: "v = literal_value pad l" "literal_type l = type_id t"
      by (rule literal_facts [OF assms(1) _ assms(2)]) (use False assms(3) in auto)
    then have "length (stored_bytes h v) = cpp_size (type_id t)" by (simp add: stored_literal_bytes)
    then show ?thesis using v(2) literal_inline [of l]
      by (cases "type_id t") (simp_all add: cpp_size_def maximumByteLength_def RepresentedInline_def)
  qed
  then show "length (stored_bytes h v) \<le> maximumByteLength t"
    "type_id t \<noteq> kChar \<Longrightarrow> length (stored_bytes h v) = maximumByteLength t" by simp_all
qed

text \<open>A slot of the type's size that begins with the stored bytes, whatever follows them.\<close>

lemma slot_held:
  assumes "value_of_type h v t" "\<not> isNull v" "type_id t \<noteq> kVarChar"
    "length (stored_bytes h v @ rest) = maximumByteLength t"
  shows "item_holds t (Some (stored_bytes h v @ rest)) (sql_value_of h v)"
proof (cases "type_id t = kChar")
  case True
  then have c: "type_id t \<in> {kChar, kVarChar}" by simp
  note f = string_facts [OF assms(1) c assms(2)]
  have p: "isPlausibleInstanceOf h v (getSignature t)"
    using assms f(8) not_string_literal by (auto simp: value_of_type_def)
  have s: "stored_bytes h v = out_of_line_bytes h v" using stored_string_bytes f(8) .
  have l: "maximumByteLength t = string_length t" using True by (simp add: maximumByteLength_def)
  have z: "0 \<in> set (out_of_line_bytes h v) \<or> rest = []"
    using plausible_string [OF f(8) f(6) [symmetric], of h] p True assms(4) l s
    by (auto simp: out_of_line_bytes_def read_bytes_def)
  have "c_string (out_of_line_bytes h v @ rest) = c_string (out_of_line_bytes h v)"
    using z takeWhile_append1 [of 0 "out_of_line_bytes h v"] by auto
  then have "c_string (stored_bytes h v @ rest) = string_of h v" by (simp add: s string_of_def)
  moreover have "sql_value_of h v = SqlString (string_of h v)" using assms(2) f(6) True by (simp add: sql_value_of_def)
  ultimately show ?thesis
    using sql_value_type [OF assms(1)] True assms(4) l by (auto simp: item_holds_def readable_def)
next
  case False
  obtain pad l where v: "v = literal_value pad l" "literal_type l = type_id t"
    by (rule literal_facts [OF assms(1) _ assms(2)]) (use False assms(3) in auto)
  then show ?thesis using literal_held [OF v, of "cpp_size (type_id t)" rest h] by (simp add: stored_literal_bytes)
qed

end
