(* ===== verification/ColumnVectors.thy ===== *)
theory ColumnVectors
  imports DataItems TupleIds
begin

text \<open>
  \<^verbatim>\<open>types/containers/ColumnVector.hpp\<close>: vectors of values of one type. A native column is an array of
  fixed-size slots in memory with a bit vector of the null positions; an indirect column is a vector of
  \<^verbatim>\<open>TypedValue\<close>s. \<open>column_holds\<close> is the list of SQL values a column stands for.
\<close>

section \<open>Native columns\<close>

record native_column_vector =
  column_type :: sql_type
  type_length :: nat
  array_address :: u64
  reserved_length :: nat
  actual_length :: nat
  null_bitmap :: "bitvector option"

text \<open>
  The constructor; \<open>p\<close> is the address \<^verbatim>\<open>malloc\<close> returns for the array, whose size is computed in 64 bits,
  and \<open>garbage\<close> the content of the memory of the null bitmap before it is cleared.
\<close>

definition NativeColumnVector_new ::
  "u64 \<Rightarrow> (nat \<Rightarrow> u64) \<Rightarrow> sql_type \<Rightarrow> nat \<Rightarrow> heap \<Rightarrow> native_column_vector \<times> heap" where
  "NativeColumnVector_new p garbage t n h =
     (\<lparr>column_type = t, type_length = maximumByteLength t, array_address = p, reserved_length = n, actual_length = 0,
       null_bitmap = (if nullable t then Some (clear (BitVector_new garbage n)) else None)\<rparr>,
      malloc_block p ((maximumByteLength t * n) mod 2 ^ 64) h)"

definition NativeColumnVector_destroy :: "native_column_vector \<Rightarrow> heap \<Rightarrow> heap option" where
  "NativeColumnVector_destroy cv h = free_block (array_address cv) h"

definition UsableForType :: "sql_type \<Rightarrow> bool" where
  "UsableForType t \<longleftrightarrow> \<not> isVariableLength t"

definition native_typeIsNullable :: "native_column_vector \<Rightarrow> bool" where
  "native_typeIsNullable cv \<longleftrightarrow> null_bitmap cv \<noteq> None"

definition native_size :: "native_column_vector \<Rightarrow> nat" where
  "native_size cv = actual_length cv"

text \<open>The address \<^verbatim>\<open>static_cast<char*>(values_) + (position * type_length_)\<close>.\<close>

definition slot_address :: "native_column_vector \<Rightarrow> nat \<Rightarrow> u64" where
  "slot_address cv position = array_address cv + of_nat (position * type_length cv)"

definition null_at :: "native_column_vector \<Rightarrow> nat \<Rightarrow> bool" where
  "null_at cv position = (case null_bitmap cv of None \<Rightarrow> False | Some bm \<Rightarrow> getBit bm position)"

text \<open>A pointer to a slot gives the bytes of the slot.\<close>

definition native_getUntypedValue :: "bool \<Rightarrow> heap \<Rightarrow> native_column_vector \<Rightarrow> nat \<Rightarrow> data_ptr" where
  "native_getUntypedValue check_null h cv position =
     (if check_null \<and> null_at cv position then None
      else Some (read_bytes h (slot_address cv position) (type_length cv)))"

definition native_getTypedValue :: "u16 \<Rightarrow> heap \<Rightarrow> native_column_vector \<Rightarrow> nat \<Rightarrow> typed_value option" where
  "native_getTypedValue padding h cv position =
     (if null_at cv position then Some (makeNullValue (column_type cv))
      else makeValue padding h (column_type cv) (slot_address cv position) (type_length cv))"

text \<open>The writes. \<open>None\<close> is the use of a null bitmap that is not there.\<close>

definition native_appendUntypedValue :: "u64 \<Rightarrow> native_column_vector \<Rightarrow> heap \<Rightarrow> native_column_vector \<times> heap" where
  "native_appendUntypedValue value cv h =
     (cv\<lparr>actual_length := actual_length cv + 1\<rparr>,
      write_bytes (slot_address cv (actual_length cv)) (read_bytes h value (type_length cv)) h)"

definition native_appendNullValue :: "native_column_vector \<Rightarrow> native_column_vector option" where
  "native_appendNullValue cv = do {
     bm \<leftarrow> null_bitmap cv;
     Some (cv\<lparr>null_bitmap := Some (setBit (actual_length cv) True bm), actual_length := actual_length cv + 1\<rparr>)
   }"

definition native_appendTypedValue :: "typed_value \<Rightarrow> native_column_vector \<Rightarrow> heap \<Rightarrow> native_column_vector \<times> heap" where
  "native_appendTypedValue value cv h =
     (let (cv, h) = (case null_bitmap cv of
          Some bm \<Rightarrow> if isNull value then (cv\<lparr>null_bitmap := Some (setBit (actual_length cv) True bm)\<rparr>, h)
                     else (cv, copyInto (slot_address cv (actual_length cv)) value h)
        | None \<Rightarrow> (cv, copyInto (slot_address cv (actual_length cv)) value h))
      in (cv\<lparr>actual_length := actual_length cv + 1\<rparr>, h))"

definition native_getPtrForDirectWrite :: "native_column_vector \<Rightarrow> u64 \<times> native_column_vector" where
  "native_getPtrForDirectWrite cv = (slot_address cv (actual_length cv), cv\<lparr>actual_length := actual_length cv + 1\<rparr>)"

definition native_fillWithNulls :: "native_column_vector \<Rightarrow> native_column_vector option" where
  "native_fillWithNulls cv = do {
     bm \<leftarrow> null_bitmap cv;
     Some (cv\<lparr>null_bitmap := Some (setBitRange 0 (reserved_length cv) True bm), actual_length := reserved_length cv\<rparr>)
   }"

definition native_fillWithValue :: "typed_value \<Rightarrow> native_column_vector \<Rightarrow> heap \<Rightarrow> (native_column_vector \<times> heap) option" where
  "native_fillWithValue value cv h =
     (if isNull value then map_option (\<lambda>cv. (cv, h)) (native_fillWithNulls cv)
      else Some (cv\<lparr>null_bitmap := map_option clear (null_bitmap cv), actual_length := reserved_length cv\<rparr>,
                 fold (\<lambda>pos. copyInto (slot_address cv pos) value) [0..<reserved_length cv] h))"

definition native_prepareForPositionalWrites :: "native_column_vector \<Rightarrow> native_column_vector" where
  "native_prepareForPositionalWrites cv = cv\<lparr>actual_length := reserved_length cv\<rparr>"

definition native_positionalWriteUntypedValue :: "nat \<Rightarrow> u64 \<Rightarrow> native_column_vector \<Rightarrow> heap \<Rightarrow> heap" where
  "native_positionalWriteUntypedValue position value cv h =
     write_bytes (slot_address cv position) (read_bytes h value (type_length cv)) h"

definition native_positionalWriteNullValue :: "nat \<Rightarrow> native_column_vector \<Rightarrow> native_column_vector option" where
  "native_positionalWriteNullValue position cv = do {
     bm \<leftarrow> null_bitmap cv;
     Some (cv\<lparr>null_bitmap := Some (setBit position True bm)\<rparr>)
   }"

definition native_positionalWriteTypedValue ::
  "nat \<Rightarrow> typed_value \<Rightarrow> native_column_vector \<Rightarrow> heap \<Rightarrow> native_column_vector \<times> heap" where
  "native_positionalWriteTypedValue position value cv h =
     (case null_bitmap cv of
        Some bm \<Rightarrow> if isNull value then (cv\<lparr>null_bitmap := Some (setBit position True bm)\<rparr>, h)
                   else (cv, copyInto (slot_address cv position) value h)
      | None \<Rightarrow> (cv, copyInto (slot_address cv position) value h))"

section \<open>Indirect columns\<close>

record indirect_column_vector =
  indirect_type :: sql_type
  type_is_nullable :: bool
  indirect_reserved :: nat
  indirect_values :: "typed_value list"

definition IndirectColumnVector_new :: "sql_type \<Rightarrow> nat \<Rightarrow> indirect_column_vector" where
  "IndirectColumnVector_new t n =
     \<lparr>indirect_type = t, type_is_nullable = nullable t, indirect_reserved = n, indirect_values = []\<rparr>"

definition indirect_typeIsNullable :: "indirect_column_vector \<Rightarrow> bool" where
  "indirect_typeIsNullable cv = type_is_nullable cv"

definition indirect_size :: "indirect_column_vector \<Rightarrow> nat" where
  "indirect_size cv = length (indirect_values cv)"

definition indirect_getUntypedValue :: "bool \<Rightarrow> heap \<Rightarrow> indirect_column_vector \<Rightarrow> nat \<Rightarrow> data_ptr" where
  "indirect_getUntypedValue check_null h cv position =
     (if check_null \<and> type_is_nullable cv \<and> isNull (indirect_values cv ! position) then None
      else Some (getDataPtr h (indirect_values cv ! position)))"

definition indirect_getTypedValue :: "indirect_column_vector \<Rightarrow> nat \<Rightarrow> typed_value" where
  "indirect_getTypedValue cv position = indirect_values cv ! position"

definition indirect_moveTypedValue :: "nat \<Rightarrow> indirect_column_vector \<Rightarrow> typed_value \<times> indirect_column_vector" where
  "indirect_moveTypedValue position cv =
     (let (v, left) = TypedValue_move (indirect_values cv ! position)
      in (v, cv\<lparr>indirect_values := (indirect_values cv)[position := left]\<rparr>))"

definition indirect_appendTypedValue ::
  "u64 \<Rightarrow> typed_value \<Rightarrow> indirect_column_vector \<Rightarrow> heap \<Rightarrow> indirect_column_vector \<times> heap" where
  "indirect_appendTypedValue p value cv h =
     (let (v, h) = TypedValue_copy p value h in (cv\<lparr>indirect_values := indirect_values cv @ [v]\<rparr>, h))"

text \<open>The append of a value to be moved from, with what is left of the value.\<close>

definition indirect_appendMovedValue ::
  "typed_value \<Rightarrow> indirect_column_vector \<Rightarrow> indirect_column_vector \<times> typed_value" where
  "indirect_appendMovedValue value cv =
     (let (v, left) = TypedValue_move value in (cv\<lparr>indirect_values := indirect_values cv @ [v]\<rparr>, left))"

definition indirect_prepareForPositionalWrites :: "indirect_column_vector \<Rightarrow> indirect_column_vector" where
  "indirect_prepareForPositionalWrites cv =
     cv\<lparr>indirect_values := replicate (indirect_reserved cv) TypedValue_default\<rparr>"

definition indirect_positionalWriteTypedValue ::
  "u64 \<Rightarrow> nat \<Rightarrow> typed_value \<Rightarrow> indirect_column_vector \<Rightarrow> heap \<Rightarrow> (indirect_column_vector \<times> heap) option" where
  "indirect_positionalWriteTypedValue p position value cv h = do {
     (v, h) \<leftarrow> copy_assign p (indirect_values cv ! position) value h;
     Some (cv\<lparr>indirect_values := (indirect_values cv)[position := v]\<rparr>, h)
   }"

definition indirect_positionalWriteMovedValue ::
  "nat \<Rightarrow> typed_value \<Rightarrow> indirect_column_vector \<Rightarrow> heap \<Rightarrow> (indirect_column_vector \<times> typed_value \<times> heap) option" where
  "indirect_positionalWriteMovedValue position value cv h = do {
     (v, left, h) \<leftarrow> move_assign (indirect_values cv ! position) value h;
     Some (cv\<lparr>indirect_values := (indirect_values cv)[position := v]\<rparr>, left, h)
   }"

text \<open>
  \<^verbatim>\<open>values_.assign(reserved_length_, value)\<close> on an empty vector, as \<^verbatim>\<open>MakeVectorOfValue\<close> calls it: one copy
  for each position, with the addresses the copies get.
\<close>

fun copies_of :: "typed_value \<Rightarrow> u64 list \<Rightarrow> heap \<Rightarrow> typed_value list \<times> heap" where
  "copies_of value [] h = ([], h)"
| "copies_of value (p # ps) h =
     (let (v, h) = TypedValue_copy p value h; (vs, h) = copies_of value ps h in (v # vs, h))"

definition indirect_fillWithValue ::
  "u64 list \<Rightarrow> typed_value \<Rightarrow> indirect_column_vector \<Rightarrow> heap \<Rightarrow> indirect_column_vector \<times> heap" where
  "indirect_fillWithValue ps value cv h =
     (let (vs, h) = copies_of value (take (indirect_reserved cv) ps) h in (cv\<lparr>indirect_values := vs\<rparr>, h))"

section \<open>Columns of either kind\<close>

datatype column_vector = NativeColumn native_column_vector | IndirectColumn indirect_column_vector

fun isNative :: "column_vector \<Rightarrow> bool" where
  "isNative (NativeColumn _) = True"
| "isNative (IndirectColumn _) = False"

fun cv_size :: "column_vector \<Rightarrow> nat" where
  "cv_size (NativeColumn cv) = native_size cv"
| "cv_size (IndirectColumn cv) = indirect_size cv"

fun cv_getUntypedValue :: "bool \<Rightarrow> heap \<Rightarrow> column_vector \<Rightarrow> nat \<Rightarrow> data_ptr" where
  "cv_getUntypedValue check_null h (NativeColumn cv) = native_getUntypedValue check_null h cv"
| "cv_getUntypedValue check_null h (IndirectColumn cv) = indirect_getUntypedValue check_null h cv"

fun cv_getTypedValue :: "u16 \<Rightarrow> heap \<Rightarrow> column_vector \<Rightarrow> nat \<Rightarrow> typed_value option" where
  "cv_getTypedValue padding h (NativeColumn cv) position = native_getTypedValue padding h cv position"
| "cv_getTypedValue padding h (IndirectColumn cv) position = Some (indirect_getTypedValue cv position)"

definition MakeVectorOfValue ::
  "u64 list \<Rightarrow> (nat \<Rightarrow> u64) \<Rightarrow> sql_type \<Rightarrow> typed_value \<Rightarrow> nat \<Rightarrow> heap \<Rightarrow> (column_vector \<times> heap) option" where
  "MakeVectorOfValue ps garbage value_type value num_copies h =
     (if UsableForType value_type
      then (let (cv, h) = NativeColumnVector_new (hd ps) garbage value_type num_copies h
            in map_option (\<lambda>(cv, h). (NativeColumn cv, h)) (native_fillWithValue value cv h))
      else (let (cv, h) = indirect_fillWithValue ps value (IndirectColumnVector_new value_type num_copies) h
            in Some (IndirectColumn cv, h)))"

section \<open>Memory regions\<close>

definition apart :: "u64 \<Rightarrow> nat \<Rightarrow> u64 \<Rightarrow> nat \<Rightarrow> bool" where
  "apart p m q n \<longleftrightarrow> (\<forall>i<m. \<forall>j<n. p + of_nat i \<noteq> q + of_nat j)"

lemma of_nat_inj64: "of_nat a = (of_nat b :: u64) \<Longrightarrow> a < 2 ^ 64 \<Longrightarrow> b < 2 ^ 64 \<Longrightarrow> a = b"
  by (simp add: word_of_nat_eq_iff take_bit_nat_eq_self)

lemma unat_of_nat_le: "unat (of_nat n :: u64) \<le> n"
  by (simp add: unsigned_of_nat)

lemma apart_sym: "apart p m q n \<Longrightarrow> apart q n p m"
  by (auto simp: apart_def) (metis)

lemma apart_sub: "apart p m q n \<Longrightarrow> k \<le> m \<Longrightarrow> apart p k q n"
  by (auto simp: apart_def)

lemma apart_inside:
  assumes "apart p m q n" "k + l \<le> n"
  shows "apart p m (q + of_nat k) l"
proof -
  have "p + of_nat i \<noteq> q + of_nat k + of_nat j" if "i < m" "j < l" for i j
  proof -
    have "k + j < n" using that assms(2) by simp
    then have "p + of_nat i \<noteq> q + of_nat (k + j)" using assms(1) that(1) unfolding apart_def by blast
    then show ?thesis by (simp only: of_nat_add add.assoc not_False_eq_True)
  qed
  then show ?thesis by (simp add: apart_def)
qed

lemma apartI: "m \<le> unat (q - p) \<Longrightarrow> n \<le> unat (p - q) \<Longrightarrow> m < 2 ^ 64 \<Longrightarrow> n < 2 ^ 64 \<Longrightarrow> apart p m q n"
proof -
  assume a: "m \<le> unat (q - p)" "n \<le> unat (p - q)" "m < 2 ^ 64" "n < 2 ^ 64"
  have "p + of_nat i \<noteq> q + of_nat j" if ij: "i < m" "j < n" for i j
  proof
    assume e: "p + of_nat i = q + of_nat j"
    show False
    proof (cases "j \<le> i")
      case True
      have "q - p = of_nat i - of_nat j" using e by (simp add: algebra_simps)
      also have "\<dots> = of_nat (i - j)" using True by (simp add: of_nat_diff)
      finally have "unat (q - p) \<le> i" using unat_of_nat_le [of "i - j"] by simp
      then show False using a(1) ij(1) by simp
    next
      case False
      have "p - q = of_nat j - of_nat i" using e by (simp add: algebra_simps)
      also have "\<dots> = of_nat (j - i)" using False by (simp add: of_nat_diff)
      finally have "unat (p - q) \<le> j" using unat_of_nat_le [of "j - i"] by simp
      then show False using a(2) ij(2) by simp
    qed
  qed
  then show ?thesis by (simp add: apart_def)
qed

lemma read_apart: "apart p (length xs) q n \<Longrightarrow> read_bytes (write_bytes p xs h) q n = read_bytes h q n"
proof -
  assume a: "apart p (length xs) q n"
  have "\<not> unat (q + of_nat j - p) < length xs" if "j < n" for j
  proof
    assume l: "unat (q + of_nat j - p) < length xs"
    have "p + of_nat (unat (q + of_nat j - p)) = q + of_nat j" by simp
    moreover have "p + of_nat (unat (q + of_nat j - p)) \<noteq> q + of_nat j" using a l that unfolding apart_def by blast
    ultimately show False by blast
  qed
  then show ?thesis by (simp add: read_bytes_def write_bytes_def)
qed

lemma length_read [simp]: "length (read_bytes h p n) = n"
  by (simp add: read_bytes_def)

lemma read_prefix:
  assumes "length xs \<le> n" "n \<le> 2 ^ 64"
  shows "read_bytes (write_bytes p xs h) p n = xs @ drop (length xs) (read_bytes h p n)"
proof (rule nth_equalityI)
  fix i assume "i < length (read_bytes (write_bytes p xs h) p n)"
  then have i: "i < n" by simp
  then have "unat (of_nat i :: u64) = i" using assms by (simp add: unat_of_nat take_bit_nat_eq_self)
  then show "read_bytes (write_bytes p xs h) p n ! i = (xs @ drop (length xs) (read_bytes h p n)) ! i"
    using i assms(1) by (simp add: read_bytes_def write_bytes_def nth_append)
qed (use assms in simp)

lemma slots_apart:
  assumes "i \<noteq> j" "(i + 1) * n \<le> 2 ^ 64" "(j + 1) * n \<le> 2 ^ 64"
  shows "apart (b + of_nat (i * n)) n (b + of_nat (j * n)) n"
proof -
  have "b + of_nat (i * n) + of_nat k \<noteq> b + of_nat (j * n) + of_nat l" if kl: "k < n" "l < n" for k l
  proof
    assume "b + of_nat (i * n) + of_nat k = b + of_nat (j * n) + of_nat l"
    then have "(of_nat (i * n + k) :: u64) = of_nat (j * n + l)" by (simp add: algebra_simps)
    moreover have "i * n + k < 2 ^ 64" "j * n + l < 2 ^ 64" using kl assms(2,3) by (simp_all add: algebra_simps)
    ultimately have "i * n + k = j * n + l" by (rule of_nat_inj64)
    then have "(i * n + k) div n = (j * n + l) div n" by simp
    then show False using kl assms(1) by simp
  qed
  then show ?thesis by (simp add: apart_def)
qed

section \<open>What every column promises\<close>

text \<open>
  The interface of a column to those who fill it and read it: \<open>append\<close> puts a value behind those that are
  there, and what \<open>item\<close> returns holds the value appended. A value may be appended in a state when it is
  \<open>ok\<close> there; two values are \<open>compatible\<close> when appending the first does not disturb the second.
\<close>

locale column_store =
  fixes inv :: "'s \<Rightarrow> bool"
    and kind :: "'s \<Rightarrow> sql_type"
    and size_of :: "'s \<Rightarrow> nat"
    and room :: "'s \<Rightarrow> nat"
    and item :: "'s \<Rightarrow> nat \<Rightarrow> data_ptr"
    and ok :: "'s \<Rightarrow> 'v \<Rightarrow> bool"
    and val :: "'s \<Rightarrow> 'v \<Rightarrow> sql_value"
    and compatible :: "'v \<Rightarrow> 'v \<Rightarrow> bool"
    and append :: "'v \<Rightarrow> 's \<Rightarrow> 's"
  assumes append_inv: "inv s \<Longrightarrow> size_of s < room s \<Longrightarrow> ok s v \<Longrightarrow> inv (append v s)"
    and append_shape: "inv s \<Longrightarrow> size_of s < room s \<Longrightarrow> ok s v \<Longrightarrow>
      size_of (append v s) = Suc (size_of s) \<and> room (append v s) = room s \<and> kind (append v s) = kind s"
    and append_new: "inv s \<Longrightarrow> size_of s < room s \<Longrightarrow> ok s v \<Longrightarrow>
      item_holds (kind s) (item (append v s) (size_of s)) (val s v)"
    and append_old: "inv s \<Longrightarrow> size_of s < room s \<Longrightarrow> ok s v \<Longrightarrow> i < size_of s \<Longrightarrow>
      item (append v s) i = item s i"
    and append_other: "inv s \<Longrightarrow> size_of s < room s \<Longrightarrow> ok s v \<Longrightarrow> ok s w \<Longrightarrow> compatible v w \<Longrightarrow>
      ok (append v s) w \<and> val (append v s) w = val s w"
begin

definition holds :: "'s \<Rightarrow> sql_value list \<Rightarrow> bool" where
  "holds s xs \<longleftrightarrow> size_of s = length xs \<and> (\<forall>i<length xs. item_holds (kind s) (item s i) (xs ! i))"

lemma append_holds:
  assumes "inv s" "size_of s < room s" "ok s v" "holds s xs"
  shows "holds (append v s) (xs @ [val s v])"
  using append_shape [OF assms(1-3)] append_new [OF assms(1-3)] append_old [OF assms(1-3)] assms(4)
  by (auto simp: holds_def nth_append less_Suc_eq)

lemma append_all:
  assumes "inv s" "size_of s + length vs \<le> room s" "\<And>v. v \<in> set vs \<Longrightarrow> ok s v" "sorted_wrt compatible vs" "holds s xs"
  shows "inv (fold append vs s) \<and> kind (fold append vs s) = kind s \<and> room (fold append vs s) = room s \<and>
    holds (fold append vs s) (xs @ map (val s) vs)"
  using assms
proof (induction vs arbitrary: s xs)
  case Nil
  then show ?case by simp
next
  case (Cons v vs)
  have now: "size_of s < room s" "ok s v" using Cons.prems(2,3) by simp_all
  note shape = append_shape [OF Cons.prems(1) now]
  have other: "ok (append v s) w \<and> val (append v s) w = val s w" if "w \<in> set vs" for w
    using append_other [OF Cons.prems(1) now, of w] Cons.prems(3,4) that by simp
  have "inv (fold append vs (append v s)) \<and> kind (fold append vs (append v s)) = kind (append v s) \<and>
      room (fold append vs (append v s)) = room (append v s) \<and>
      holds (fold append vs (append v s)) ((xs @ [val s v]) @ map (val (append v s)) vs)"
    using append_inv [OF Cons.prems(1) now] shape Cons.prems(2,4) other append_holds [OF Cons.prems(1) now Cons.prems(5)]
    by (intro Cons.IH) auto
  moreover have "map (val (append v s)) vs = map (val s) vs" using other by simp
  ultimately show ?case using shape by simp
qed

end

section \<open>Native columns keep the promise\<close>

definition native_inv :: "native_column_vector \<Rightarrow> bool" where
  "native_inv cv \<longleftrightarrow> type_id (column_type cv) \<noteq> kVarChar \<and> type_length cv = maximumByteLength (column_type cv) \<and>
     actual_length cv \<le> reserved_length cv \<and> reserved_length cv * type_length cv \<le> 2 ^ 64 \<and> reserved_length cv < 2 ^ 63 \<and>
     (case null_bitmap cv of
        None \<Rightarrow> \<not> nullable (column_type cv)
      | Some bm \<Rightarrow> nullable (column_type cv) \<and> bv_inv bm \<and> num_bits bm = reserved_length cv \<and>
          bv_set bm \<subseteq> {..<actual_length cv})"

definition null_set :: "native_column_vector \<Rightarrow> nat set" where
  "null_set cv = (case null_bitmap cv of None \<Rightarrow> {} | Some bm \<Rightarrow> bv_set bm)"

definition slot :: "heap \<Rightarrow> native_column_vector \<Rightarrow> nat \<Rightarrow> u8 list" where
  "slot h cv i = read_bytes h (slot_address cv i) (type_length cv)"

text \<open>The memory a value refers to is not that of the column.\<close>

definition outside :: "native_column_vector \<Rightarrow> typed_value \<Rightarrow> bool" where
  "outside cv v \<longleftrightarrow> isNull v \<or> getTypeID v \<notin> {kChar, kVarChar} \<or>
     apart (array_address cv) (reserved_length cv * type_length cv) (value_union v) (getDataSize v)"

lemma native_item:
  assumes "native_inv cv" "i < reserved_length cv"
  shows "native_getUntypedValue True h cv i = (if i \<in> null_set cv then None else Some (slot h cv i))"
  using assms by (auto simp: native_getUntypedValue_def null_at_def null_set_def slot_def bv_set_def native_inv_def split: option.splits)

lemma write_slot:
  assumes "native_inv cv" "i < reserved_length cv" "j < reserved_length cv" "length xs \<le> type_length cv"
  shows "slot (write_bytes (slot_address cv i) xs h) cv j = (if j = i then xs @ drop (length xs) (slot h cv i) else slot h cv j)"
proof -
  have n: "reserved_length cv * type_length cv \<le> 2 ^ 64" using assms(1) unfolding native_inv_def by blast
  have m: "(k + 1) * type_length cv \<le> 2 ^ 64" if "k < reserved_length cv" for k
    using mult_le_mono1 [of "k + 1" "reserved_length cv" "type_length cv"] that n by simp
  show ?thesis
  proof (cases "j = i")
    case True
    have "type_length cv \<le> 2 ^ 64" using m [OF assms(2)] by simp
    then show ?thesis using True read_prefix [OF assms(4)] by (simp add: slot_def)
  next
    case False
    then have "apart (slot_address cv i) (type_length cv) (slot_address cv j) (type_length cv)"
      unfolding slot_address_def by (intro slots_apart m assms(2,3)) simp
    then show ?thesis using False read_apart apart_sub [OF _ assms(4)] by (simp add: slot_def)
  qed
qed

lemma slot_inside:
  assumes "apart (array_address cv) (reserved_length cv * type_length cv) q n" "i < reserved_length cv" "k \<le> type_length cv"
  shows "apart (slot_address cv i) k q n"
proof -
  have "(i + 1) * type_length cv \<le> reserved_length cv * type_length cv" using assms(2) by (intro mult_le_mono1) simp
  then have "i * type_length cv + k \<le> reserved_length cv * type_length cv" using assms(3) by simp
  then have "apart q n (slot_address cv i) k"
    unfolding slot_address_def using apart_inside [OF apart_sym [OF assms(1)]] by blast
  then show ?thesis by (rule apart_sym)
qed

text \<open>A value is not changed by stores to other memory.\<close>

lemma value_frame:
  assumes "isNull v \<or> getTypeID v \<notin> {kChar, kVarChar} \<or> out_of_line_bytes h' v = out_of_line_bytes h v"
  shows "value_of_type h' v t \<longleftrightarrow> value_of_type h v t" "sql_value_of h' v = sql_value_of h v"
proof -
  consider (null) "isNull v" | (inline) "getTypeID v \<notin> {kChar, kVarChar}" | (same) "out_of_line_bytes h' v = out_of_line_bytes h v"
    using assms by blast
  then have "(value_of_type h' v t \<longleftrightarrow> value_of_type h v t) \<and> sql_value_of h' v = sql_value_of h v"
  proof cases
    case null
    then show ?thesis by (simp add: value_of_type_def sql_value_of_def)
  next
    case inline
    then show ?thesis by (auto simp: value_of_type_def sql_value_of_def string_value_def)
  next
    case same
    then have "getAsciiStringLength h' v = getAsciiStringLength h v" "string_of h' v = string_of h v"
      "isPlausibleInstanceOf h' v s = isPlausibleInstanceOf h v s" for s
      by (simp_all add: getAsciiStringLength_def string_of_def isPlausibleInstanceOf_def out_of_line_bytes_def cong: TypeID.case_cong)
    then show ?thesis using same by (simp add: value_of_type_def sql_value_of_def)
  qed
  then show "value_of_type h' v t \<longleftrightarrow> value_of_type h v t" "sql_value_of h' v = sql_value_of h v" by simp_all
qed

text \<open>Storing a value in a slot, and marking a slot as null.\<close>

definition store_value :: "nat \<Rightarrow> typed_value \<Rightarrow> native_column_vector \<times> heap \<Rightarrow> native_column_vector \<times> heap" where
  "store_value i v s = native_positionalWriteTypedValue i v (fst s) (snd s)"

lemma store_value_pair: "store_value i v = (\<lambda>(cv, h). native_positionalWriteTypedValue i v cv h)"
  by (simp add: fun_eq_iff store_value_def)

lemma append_store:
  "native_appendTypedValue v cv h =
    (let s = store_value (actual_length cv) v (cv, h) in ((fst s)\<lparr>actual_length := actual_length cv + 1\<rparr>, snd s))"
  by (cases "null_bitmap cv") (simp_all add: native_appendTypedValue_def store_value_def native_positionalWriteTypedValue_def Let_def)

lemma store_shape [simp]:
  "column_type (fst (store_value i v s)) = column_type (fst s)" "type_length (fst (store_value i v s)) = type_length (fst s)"
  "array_address (fst (store_value i v s)) = array_address (fst s)" "reserved_length (fst (store_value i v s)) = reserved_length (fst s)"
  "actual_length (fst (store_value i v s)) = actual_length (fst s)"
  by (cases "null_bitmap (fst s)"; simp add: store_value_def native_positionalWriteTypedValue_def)+

lemma value_null: "value_of_type h v t \<Longrightarrow> isNull v \<Longrightarrow> nullable t"
  by (simp add: value_of_type_def)

lemma bitmap_there: "native_inv cv \<Longrightarrow> value_of_type h v (column_type cv) \<Longrightarrow> isNull v \<Longrightarrow> null_bitmap cv \<noteq> None"
  by (cases "null_bitmap cv") (auto simp: native_inv_def dest: value_null)

lemma store_null_set:
  assumes "native_inv cv" "i < reserved_length cv" "value_of_type h v (column_type cv)"
  shows "null_set (fst (store_value i v (cv, h))) = (if isNull v then insert i (null_set cv) else null_set cv)"
proof (cases "null_bitmap cv")
  case None
  then have "\<not> isNull v" using assms value_null by (auto simp: native_inv_def)
  then show ?thesis using None by (simp add: store_value_def native_positionalWriteTypedValue_def null_set_def)
next
  case (Some bm)
  then have "bv_inv bm" "i < num_bits bm" using assms by (simp_all add: native_inv_def)
  then show ?thesis
    using Some setBit_set [of bm i True] by (simp add: store_value_def native_positionalWriteTypedValue_def null_set_def)
qed

lemma store_slots:
  assumes "native_inv cv" "i < reserved_length cv" "j < reserved_length cv" "value_of_type h v (column_type cv)"
  shows "slot (snd (store_value i v (cv, h))) cv j =
    (if j = i \<and> \<not> isNull v then stored_bytes h v @ drop (length (stored_bytes h v)) (slot h cv i) else slot h cv j)"
proof (cases "isNull v")
  case True
  then have "null_bitmap cv \<noteq> None" using bitmap_there assms by blast
  then show ?thesis using True by (auto simp: store_value_def native_positionalWriteTypedValue_def)
next
  case False
  then have "snd (store_value i v (cv, h)) = write_bytes (slot_address cv i) (stored_bytes h v) h"
    by (cases "null_bitmap cv") (simp_all add: store_value_def native_positionalWriteTypedValue_def copyInto_stored)
  moreover have "length (stored_bytes h v) \<le> type_length cv"
    using stored_size(1) [OF assms(4) False] assms(1) by (simp add: native_inv_def)
  ultimately show ?thesis using write_slot [OF assms(1-3)] False by simp
qed

lemma slot_same [simp]: "slot h (fst (store_value i v s)) j = slot h (fst s) j"
  by (simp add: slot_def slot_address_def)

lemma store_inv:
  assumes "native_inv cv" "i < reserved_length cv" "value_of_type h v (column_type cv)" "actual_length cv \<le> n" "i < n" "n \<le> reserved_length cv"
  shows "native_inv ((fst (store_value i v (cv, h)))\<lparr>actual_length := n\<rparr>)"
proof (cases "null_bitmap cv")
  case None
  then show ?thesis using assms by (auto simp: native_inv_def store_value_def native_positionalWriteTypedValue_def)
next
  case (Some bm)
  then have b: "bv_inv bm" "num_bits bm = reserved_length cv" "bv_set bm \<subseteq> {..<actual_length cv}"
    using assms(1) by (simp_all add: native_inv_def)
  have "null_bitmap (fst (store_value i v (cv, h))) = Some (if isNull v then setBit i True bm else bm)"
    using Some by (simp add: store_value_def native_positionalWriteTypedValue_def)
  moreover have "bv_inv (setBit i True bm)" "bv_set (setBit i True bm) \<subseteq> {..<n}"
    using setBit_inv [OF b(1)] setBit_set [OF b(1)] b assms(2,4,5) by auto
  ultimately show ?thesis using assms(1,4,6) b Some by (auto simp: native_inv_def)
qed

lemma store_item:
  assumes "native_inv cv" "i < reserved_length cv" "value_of_type h v (column_type cv)" "i \<notin> null_set cv"
  shows "item_holds (column_type cv)
    (if i \<in> null_set (fst (store_value i v (cv, h))) then None else Some (slot (snd (store_value i v (cv, h))) cv i)) (sql_value_of h v)"
proof (cases "isNull v")
  case True
  then show ?thesis using store_null_set [OF assms(1-3)] value_null [OF assms(3)] by (simp add: sql_value_of_def item_holds_def)
next
  case False
  have t: "type_id (column_type cv) \<noteq> kVarChar" using assms(1) by (simp add: native_inv_def)
  have "length (stored_bytes h v @ drop (length (stored_bytes h v)) (slot h cv i)) = maximumByteLength (column_type cv)"
    using stored_size(1) [OF assms(3) False t] assms(1) by (simp add: slot_def native_inv_def)
  then show ?thesis
    using slot_held [OF assms(3) False t] store_null_set [OF assms(1-3)] store_slots [OF assms(1,2,2,3)] False assms(4) by simp
qed

lemma store_other:
  assumes "native_inv cv" "i < reserved_length cv" "value_of_type h v (column_type cv)" "outside cv w"
  shows "(value_of_type (snd (store_value i v (cv, h))) w t \<longleftrightarrow> value_of_type h w t) \<and>
    sql_value_of (snd (store_value i v (cv, h))) w = sql_value_of h w"
proof -
  have "isNull w \<or> getTypeID w \<notin> {kChar, kVarChar} \<or> out_of_line_bytes (snd (store_value i v (cv, h))) w = out_of_line_bytes h w"
  proof (cases "isNull v")
    case True
    then have "null_bitmap cv \<noteq> None" using bitmap_there assms by blast
    then show ?thesis using True by (auto simp: store_value_def native_positionalWriteTypedValue_def)
  next
    case False
    then have e: "snd (store_value i v (cv, h)) = write_bytes (slot_address cv i) (stored_bytes h v) h"
      by (cases "null_bitmap cv") (simp_all add: store_value_def native_positionalWriteTypedValue_def copyInto_stored)
    have "length (stored_bytes h v) \<le> type_length cv"
      using stored_size(1) [OF assms(3) False] assms(1) by (simp add: native_inv_def)
    then show ?thesis
      using assms(4) slot_inside [OF _ assms(2)] read_apart unfolding outside_def e out_of_line_bytes_def by blast
  qed
  then show ?thesis using value_frame by blast
qed

interpretation native: column_store "\<lambda>s. native_inv (fst s)" "\<lambda>s. column_type (fst s)" "\<lambda>s. native_size (fst s)"
  "\<lambda>s. reserved_length (fst s)" "\<lambda>s. native_getUntypedValue True (snd s) (fst s)"
  "\<lambda>s v. value_of_type (snd s) v (column_type (fst s)) \<and> outside (fst s) v" "\<lambda>s. sql_value_of (snd s)" "\<lambda>v w. True"
  "\<lambda>v s. native_appendTypedValue v (fst s) (snd s)"
proof
  fix s :: "native_column_vector \<times> heap" and v
  assume s: "native_inv (fst s)" "native_size (fst s) < reserved_length (fst s)"
    "value_of_type (snd s) v (column_type (fst s)) \<and> outside (fst s) v"
  let ?i = "actual_length (fst s)" and ?s = "native_appendTypedValue v (fst s) (snd s)"
  have i: "?i < reserved_length (fst s)" using s(2) by (simp add: native_size_def)
  have e: "?s = ((fst (store_value ?i v s))\<lparr>actual_length := ?i + 1\<rparr>, snd (store_value ?i v s))"
    by (simp add: append_store Let_def)
  have inv: "native_inv (fst ?s)" using store_inv [OF s(1) i, of "snd s" v "?i + 1"] s(3) i e by simp
  show "native_inv (fst ?s)" by (rule inv)
  show "native_size (fst ?s) = Suc (native_size (fst s)) \<and> reserved_length (fst ?s) = reserved_length (fst s) \<and>
      column_type (fst ?s) = column_type (fst s)"
    using e by (simp add: native_size_def)
  have n: "null_set (fst ?s) = null_set (fst (store_value ?i v s))" using e by (simp add: null_set_def)
  have sl: "slot (snd ?s) (fst ?s) j = slot (snd (store_value ?i v s)) (fst s) j" for j
    using e by (simp add: slot_def slot_address_def)
  have fresh: "?i \<notin> null_set (fst s)" using s(1) by (auto simp: native_inv_def null_set_def split: option.splits)
  have room: "reserved_length (fst ?s) = reserved_length (fst s)" using e by simp
  have it: "native_getUntypedValue True (snd ?s) (fst ?s) j =
      (if j \<in> null_set (fst (store_value ?i v s)) then None else Some (slot (snd (store_value ?i v s)) (fst s) j))"
    if "j < reserved_length (fst s)" for j
    using native_item [OF inv, of j "snd ?s"] that room n sl by simp
  show "item_holds (column_type (fst s)) (native_getUntypedValue True (snd ?s) (fst ?s) (native_size (fst s))) (sql_value_of (snd s) v)"
    using store_item [OF s(1) i, of "snd s" v, unfolded prod.collapse] s(3) fresh it [OF i]
    unfolding native_size_def by simp
  show "native_getUntypedValue True (snd ?s) (fst ?s) j = native_getUntypedValue True (snd s) (fst s) j" if "j < native_size (fst s)" for j
  proof -
    have j: "j < reserved_length (fst s)" "j \<noteq> ?i" using that i by (simp_all add: native_size_def)
    show ?thesis
      using it [OF j(1)] native_item [OF s(1) j(1), of "snd s"] store_slots [OF s(1) i j(1), of "snd s" v]
        store_null_set [OF s(1) i, of "snd s" v] s(3) j(2) by simp
  qed
  fix w assume w: "value_of_type (snd s) w (column_type (fst s)) \<and> outside (fst s) w"
  show "(value_of_type (snd ?s) w (column_type (fst ?s)) \<and> outside (fst ?s) w) \<and> sql_value_of (snd ?s) w = sql_value_of (snd s) w"
    using store_other [OF s(1) i, of "snd s" v w "column_type (fst s)"] s(3) w e by (simp add: outside_def)
qed

section \<open>Indirect columns keep the promise\<close>

lemma own_again: "ownsOutOfLineData v \<Longrightarrow> value_info v OR kOwnershipMask = value_info v"
proof -
  assume "ownsOutOfLineData v"
  then have "value_info v AND push_bit 7 1 \<noteq> 0" by (simp add: ownsOutOfLineData_def kOwnershipMask_def)
  then have "bit (value_info v) 7" by (metis and_exp_eq_0_iff_not_bit push_bit_of_1)
  moreover have "bit kOwnershipMask n \<longleftrightarrow> n = 7" for n
  proof -
    have "(kOwnershipMask :: u64) = 2 ^ 7" by (simp add: kOwnershipMask_def)
    then show ?thesis unfolding \<open>kOwnershipMask = 2 ^ 7\<close> bit_exp_iff by auto
  qed
  ultimately show ?thesis by (intro bit_word_eqI) (auto simp: bit_or_iff)
qed

lemma same_info:
  assumes "value_info c = value_info v"
  shows "getTypeID c = getTypeID v" "isNull c \<longleftrightarrow> isNull v" "getDataSize c = getDataSize v" "string_value c \<longleftrightarrow> string_value v"
    "ownsOutOfLineData c \<longleftrightarrow> ownsOutOfLineData v"
  unfolding getTypeID_def isNull_def getDataSize_def string_value_def value_wf_def ownsOutOfLineData_def assms by (rule refl)+

text \<open>A copy stands for the same value, and the copying leaves other memory alone.\<close>

lemma copy_info:
  assumes "TypedValue_copy p v h = (c, h')"
  shows "value_info c = value_info v" "value_union c = (if ownsOutOfLineData v then p else value_union v)"
  using assms own_again [of v] by (auto simp: TypedValue_copy_def convertToLiteral_def Let_def split: if_splits)

lemma copy_bytes:
  assumes "TypedValue_copy p v h = (c, h')" "ownsOutOfLineData v \<longrightarrow> apart p (getDataSize v) q n"
  shows "read_bytes h' q n = read_bytes h q n"
  using assms read_apart [of p "read_bytes h (value_union v) (getDataSize v)" q n "malloc_block p (getDataSize v) h"]
  by (auto simp: TypedValue_copy_def convertToLiteral_def Let_def split: if_splits)

lemma owner_is_string: "value_of_type h v t \<Longrightarrow> \<not> isNull v \<Longrightarrow> ownsOutOfLineData v \<Longrightarrow> string_value v"
  by (auto simp: value_of_type_def ownsOutOfLineData_def)

lemma copy_value:
  assumes "TypedValue_copy p v h = (c, h')" "value_of_type h v t"
  shows "value_of_type h' c t \<and> sql_value_of h' c = sql_value_of h v"
proof (cases "isNull v \<or> \<not> ownsOutOfLineData v")
  case True
  then show ?thesis
    using assms same_info(1,2) [OF copy_info(1) [OF assms(1)]]
    by (auto simp: value_of_type_def sql_value_of_def TypedValue_copy_def)
next
  case False
  then have s: "string_value v" using owner_is_string assms(2) by blast
  note i = same_info [OF copy_info(1) [OF assms(1)]]
  have "getDataSize v < 2 ^ 64" using string_info [OF s] by force
  then have b: "out_of_line_bytes h' c = out_of_line_bytes h v"
    using bytes_convert(1) [of p v h c h'] assms(1) False by (simp add: TypedValue_copy_def)
  have lit: "\<nexists>pad l. v = literal_value pad l" "\<nexists>pad l. c = literal_value pad l"
    using s i(4) not_string_literal by blast+
  have "getAsciiStringLength h' c = getAsciiStringLength h v" "string_of h' c = string_of h v"
    "isPlausibleInstanceOf h' c k = isPlausibleInstanceOf h v k" for k
    using b i by (simp_all add: getAsciiStringLength_def string_of_def isPlausibleInstanceOf_def out_of_line_bytes_def cong: TypeID.case_cong)
  moreover have "getTypeID v \<in> {kChar, kVarChar}" "\<not> isNull v" using s by (simp_all add: string_value_def)
  ultimately show ?thesis using assms(2) b i s lit by (auto simp: value_of_type_def sql_value_of_def)
qed

definition reaches :: "typed_value \<Rightarrow> u64 \<Rightarrow> nat \<Rightarrow> bool" where
  "reaches v p n \<longleftrightarrow> \<not> isNull v \<and> getTypeID v \<in> {kChar, kVarChar} \<and> \<not> apart p n (value_union v) (getDataSize v)"

definition indirect_inv :: "indirect_column_vector \<times> heap \<Rightarrow> bool" where
  "indirect_inv s \<longleftrightarrow> type_is_nullable (fst s) = nullable (indirect_type (fst s)) \<and>
     (\<forall>v\<in>set (indirect_values (fst s)). value_of_type (snd s) v (indirect_type (fst s)))"

text \<open>A value and the address its copy gets: the new block is not the memory of any value that is there.\<close>

definition appendable :: "indirect_column_vector \<times> heap \<Rightarrow> u64 \<times> typed_value \<Rightarrow> bool" where
  "appendable s pv \<longleftrightarrow> value_of_type (snd s) (snd pv) (indirect_type (fst s)) \<and>
     (ownsOutOfLineData (snd pv) \<longrightarrow>
       (\<forall>w\<in>insert (snd pv) (set (indirect_values (fst s))). \<not> reaches w (fst pv) (getDataSize (snd pv))))"

definition appendable_after :: "u64 \<times> typed_value \<Rightarrow> u64 \<times> typed_value \<Rightarrow> bool" where
  "appendable_after pv qw \<longleftrightarrow>
     (ownsOutOfLineData (snd pv) \<longrightarrow> \<not> reaches (snd qw) (fst pv) (getDataSize (snd pv))) \<and>
     (ownsOutOfLineData (snd qw) \<longrightarrow>
       \<not> reaches ((snd pv)\<lparr>value_union := if ownsOutOfLineData (snd pv) then fst pv else value_union (snd pv)\<rparr>)
          (fst qw) (getDataSize (snd qw)))"

lemma not_reached:
  assumes "TypedValue_copy p v h = (c, h')" "ownsOutOfLineData v \<longrightarrow> \<not> reaches w p (getDataSize v)"
  shows "(value_of_type h' w t \<longleftrightarrow> value_of_type h w t) \<and> sql_value_of h' w = sql_value_of h w"
proof -
  have "isNull w \<or> getTypeID w \<notin> {kChar, kVarChar} \<or> out_of_line_bytes h' w = out_of_line_bytes h w"
    using copy_bytes [OF assms(1)] assms(2) unfolding reaches_def out_of_line_bytes_def by blast
  then show ?thesis using value_frame by blast
qed

lemma indirect_item:
  assumes "indirect_inv s" "i < indirect_size (fst s)"
  shows "indirect_getUntypedValue True (snd s) (fst s) i =
      (if isNull (indirect_values (fst s) ! i) then None else Some (getDataPtr (snd s) (indirect_values (fst s) ! i))) \<and>
    item_holds (indirect_type (fst s)) (indirect_getUntypedValue True (snd s) (fst s) i)
      (sql_value_of (snd s) (indirect_values (fst s) ! i))"
proof -
  let ?v = "indirect_values (fst s) ! i"
  have v: "value_of_type (snd s) ?v (indirect_type (fst s))" using assms by (simp add: indirect_inv_def indirect_size_def)
  have "isNull ?v \<Longrightarrow> type_is_nullable (fst s)" using value_null [OF v] assms(1) by (simp add: indirect_inv_def)
  then have "indirect_getUntypedValue True (snd s) (fst s) i = (if isNull ?v then None else Some (getDataPtr (snd s) ?v))"
    by (auto simp: indirect_getUntypedValue_def)
  then show ?thesis
    using data_ptr_held [OF v] value_null [OF v] by (auto simp: item_holds_def sql_value_of_def)
qed

lemma data_ptr_frame:
  assumes "value_of_type h v t" "\<not> isNull v" "getTypeID v \<notin> {kChar, kVarChar} \<or> out_of_line_bytes h' v = out_of_line_bytes h v"
  shows "getDataPtr h' v = getDataPtr h v"
proof (cases "string_value v")
  case True
  then have "out_of_line_bytes h' v = out_of_line_bytes h v" using assms(3) by (auto simp: string_value_def)
  then show ?thesis using string_size [OF True] by (simp add: getDataPtr_def size_bits out_of_line_bytes_def)
next
  case False
  then obtain pad l where "v = literal_value pad l" using assms(1,2) by (auto simp: value_of_type_def)
  then show ?thesis by (simp add: getDataPtr_def)
qed

interpretation indirect: column_store indirect_inv "\<lambda>s. indirect_type (fst s)" "\<lambda>s. indirect_size (fst s)"
  "\<lambda>s. indirect_reserved (fst s)" "\<lambda>s. indirect_getUntypedValue True (snd s) (fst s)" appendable
  "\<lambda>s pv. sql_value_of (snd s) (snd pv)" appendable_after "\<lambda>pv s. indirect_appendTypedValue (fst pv) (snd pv) (fst s) (snd s)"
proof
  fix s :: "indirect_column_vector \<times> heap" and pv
  assume inv: "indirect_inv s" and "indirect_size (fst s) < indirect_reserved (fst s)" and ok: "appendable s pv"
  obtain p v where pv: "pv = (p, v)" by fastforce
  obtain c h' where c: "TypedValue_copy p v (snd s) = (c, h')" by fastforce
  let ?s = "indirect_appendTypedValue (fst pv) (snd pv) (fst s) (snd s)"
  have e: "?s = ((fst s)\<lparr>indirect_values := indirect_values (fst s) @ [c]\<rparr>, h')"
    by (simp add: indirect_appendTypedValue_def pv c)
  have v: "value_of_type (snd s) v (indirect_type (fst s))" using ok pv by (simp add: appendable_def)
  note new = copy_value [OF c v]
  have free: "ownsOutOfLineData v \<longrightarrow> \<not> reaches w p (getDataSize v)" if "w \<in> set (indirect_values (fst s))" for w
    using ok that pv by (simp add: appendable_def)
  have old: "(value_of_type h' w t \<longleftrightarrow> value_of_type (snd s) w t) \<and> sql_value_of h' w = sql_value_of (snd s) w"
    if "w \<in> set (indirect_values (fst s))" for w t
    by (rule not_reached [OF c free [OF that]])
  show inv': "indirect_inv ?s"
    using inv old new e by (auto simp: indirect_inv_def)
  show "indirect_size (fst ?s) = Suc (indirect_size (fst s)) \<and> indirect_reserved (fst ?s) = indirect_reserved (fst s) \<and>
      indirect_type (fst ?s) = indirect_type (fst s)"
    using e by (simp add: indirect_size_def)
  show "item_holds (indirect_type (fst s)) (indirect_getUntypedValue True (snd ?s) (fst ?s) (indirect_size (fst s)))
      (sql_value_of (snd s) (snd pv))"
    using conjunct2 [OF indirect_item [OF inv', of "indirect_size (fst s)"]] new e pv by (simp add: indirect_size_def)
  show "indirect_getUntypedValue True (snd ?s) (fst ?s) i = indirect_getUntypedValue True (snd s) (fst s) i"
    if i: "i < indirect_size (fst s)" for i
  proof -
    let ?w = "indirect_values (fst s) ! i"
    have w: "?w \<in> set (indirect_values (fst s))" using i by (simp add: indirect_size_def)
    have n: "indirect_values (fst ?s) ! i = ?w" using i e by (simp add: nth_append indirect_size_def)
    have "isNull ?w \<or> getTypeID ?w \<notin> {kChar, kVarChar} \<or> out_of_line_bytes h' ?w = out_of_line_bytes (snd s) ?w"
      using copy_bytes [OF c] free [OF w] unfolding reaches_def out_of_line_bytes_def by blast
    then have "\<not> isNull ?w \<Longrightarrow> getDataPtr h' ?w = getDataPtr (snd s) ?w"
      using data_ptr_frame inv w unfolding indirect_inv_def by blast
    then show ?thesis
      using indirect_item [OF inv i] indirect_item [OF inv', of i] i n e by (simp add: indirect_size_def)
  qed
  fix qw assume ok': "appendable s qw" and after: "appendable_after pv qw"
  have w: "ownsOutOfLineData v \<longrightarrow> \<not> reaches (snd qw) p (getDataSize v)" using after pv by (simp add: appendable_after_def)
  have "\<not> reaches c (fst qw) (getDataSize (snd qw))" if "ownsOutOfLineData (snd qw)"
  proof -
    note i = same_info [OF copy_info(1) [OF c]]
    have "reaches c (fst qw) (getDataSize (snd qw)) \<longleftrightarrow>
        reaches (v\<lparr>value_union := if ownsOutOfLineData v then p else value_union v\<rparr>) (fst qw) (getDataSize (snd qw))"
      unfolding reaches_def using i copy_info(2) [OF c]
        same_info [of "v\<lparr>value_union := if ownsOutOfLineData v then p else value_union v\<rparr>" v] by simp
    then show ?thesis using after that pv by (cases "ownsOutOfLineData v") (simp_all add: appendable_after_def)
  qed
  then show "appendable ?s qw \<and> sql_value_of (snd ?s) (snd qw) = sql_value_of (snd s) (snd qw)"
    using ok' not_reached [OF c w] e by (auto simp: appendable_def)
qed

section \<open>Reading typed values back\<close>

fun stored_sql :: "sql_value \<Rightarrow> sql_value" where
  "stored_sql (SqlLiteral l) = SqlLiteral (stored_literal l)"
| "stored_sql s = s"

lemma stored_twice: "stored_literal (stored_literal l) = stored_literal l"
  by (induction l rule: stored_literal.induct) (auto split: if_splits)

lemma stored_sql_value: "value_of_type h v t \<Longrightarrow> stored_sql (sql_value_of h v) = sql_value_of h v"
proof (cases "isNull v \<or> getTypeID v \<in> {kChar, kVarChar}")
  case False
  moreover assume v: "value_of_type h v t"
  moreover have "type_id t \<notin> {kChar, kVarChar}" using v False by (simp add: value_of_type_def)
  ultimately obtain pad l where "v = literal_value pad l" "literal_type l = type_id t" using literal_facts by blast
  then have "sql_value_of h v = SqlLiteral (stored_literal l)"
    using False getLiteral_value [of l pad] by (simp add: sql_value_of_def)
  then show ?thesis by (simp add: stored_twice)
qed (auto simp: sql_value_of_def)

lemma load_literal_bytes:
  assumes "RepresentedInline tid" "tid \<noteq> kNullType" "cpp_size tid \<le> n" "deref tid (Some (read_bytes h p n)) = Some l"
  shows "load_literal tid h p = l"
proof -
  have "take m (read_bytes h p n) = read_bytes h p m" if "m \<le> n" for m
    using that by (simp add: read_bytes_def take_map)
  then have "literal_of_bytes tid (read_bytes h p (cpp_size tid)) = l"
    using assms(3,4) by (simp add: deref_def)
  then show ?thesis
    using assms(1,2) by (cases tid) (simp_all add: load_literal_def literal_of_bytes_def cpp_size_def load_int_def load_word_def
        load_date_def Let_def RepresentedInline_def)
qed

lemma typed_slot:
  assumes "native_inv cv" "i < reserved_length cv" "type_length cv < 2 ^ 56"
    "item_holds (column_type cv) (native_getUntypedValue True h cv i) s"
  shows "\<exists>v. native_getTypedValue pad h cv i = Some v \<and> sql_value_of h v = stored_sql s"
proof -
  let ?t = "column_type cv" and ?p = "slot_address cv i"
  have n: "null_at cv i \<longleftrightarrow> s = SqlNull"
    using item_holds_null [OF assms(4)] by (simp add: native_getUntypedValue_def split: if_splits)
  show ?thesis
    using assms(4)
  proof (cases rule: item_holdsE)
    case null
    then show ?thesis
      using n by (simp add: native_getTypedValue_def makeNullValue_def sql_value_of_def value_simps)
  next
    case (literal l)
    then have d: "native_getUntypedValue True h cv i = Some (read_bytes h ?p (type_length cv))" "\<not> null_at cv i"
      using n by (simp_all add: native_getUntypedValue_def)
    have r: "RepresentedInline (type_id ?t)" "type_id ?t \<noteq> kNullType" using literal(2) literal_inline [of l] by simp_all
    have "cpp_size (type_id ?t) \<le> type_length cv"
      using literal(3) d by (auto simp: deref_def split: if_splits)
    then have l: "load_literal (type_id ?t) h ?p = l" using load_literal_bytes [OF r] literal(3) d by simp
    have "native_getTypedValue pad h cv i = Some (literal_value pad l)"
      using makeValue_literal [OF r, of pad h ?p] l d by (simp add: native_getTypedValue_def)
    moreover have "sql_value_of h (literal_value pad l) = SqlLiteral (stored_literal l)"
      using getLiteral_value [of l pad] literal(2,4) by (simp add: sql_value_of_def)
    ultimately show ?thesis using literal(1) by simp
  next
    case (string bs)
    then have d: "bs = read_bytes h ?p (type_length cv)" "\<not> null_at cv i" using n by (auto simp: native_getUntypedValue_def split: if_splits)
    have t: "type_id ?t = kChar" using string(3) assms(1) by (auto simp: native_inv_def)
    let ?v = "TypedValue_reference kChar ?p (type_length cv)"
    note o = observe_info [OF constructor_info(12) [of kChar ?p "type_length cv"] assms(3)]
    have "native_getTypedValue pad h cv i = Some ?v" using d t by (simp add: native_getTypedValue_def makeValue_def)
    moreover have "getDataSize ?v = type_length cv" using o(6) not_inline_string by simp
    then have "sql_value_of h ?v = SqlString (c_string bs)"
      using o(1,2) d(1) by (simp add: sql_value_of_def string_of_def out_of_line_bytes_def) (simp add: TypedValue_reference_def)
    ultimately show ?thesis using string(1) by simp
  qed
qed

section \<open>What columns hold\<close>

text \<open>As the vector comparisons read it: nulls are looked for only when the type is nullable.\<close>

definition column_holds :: "sql_type \<Rightarrow> heap \<Rightarrow> column_vector \<Rightarrow> sql_value list \<Rightarrow> bool" where
  "column_holds t h cv xs \<longleftrightarrow> cv_size cv = length xs \<and>
     (\<forall>i<length xs. item_holds t (cv_getUntypedValue (nullable t) h cv i) (xs ! i))"

lemma native_column_holds:
  assumes "native_inv cv" "native.holds (cv, h) xs"
  shows "column_holds (column_type cv) h (NativeColumn cv) xs"
proof -
  have "native_getUntypedValue (nullable (column_type cv)) h cv i = native_getUntypedValue True h cv i" for i
    using assms(1) by (auto simp: native_getUntypedValue_def null_at_def native_inv_def split: option.splits)
  then show ?thesis using assms(2) by (simp add: native.holds_def column_holds_def)
qed

lemma indirect_column_holds:
  assumes "indirect_inv (cv, h)" "indirect.holds (cv, h) xs"
  shows "column_holds (indirect_type cv) h (IndirectColumn cv) xs"
proof -
  have "indirect_getUntypedValue (nullable (indirect_type cv)) h cv i = indirect_getUntypedValue True h cv i" for i
    using assms(1) by (auto simp: indirect_getUntypedValue_def indirect_inv_def)
  then show ?thesis using assms(2) by (simp add: indirect.holds_def column_holds_def)
qed

lemma native_new_inv:
  assumes "type_id t \<noteq> kVarChar" "n * maximumByteLength t \<le> 2 ^ 64" "n < 2 ^ 63" "NativeColumnVector_new p g t n h = (cv, h')"
  shows "native_inv cv \<and> column_type cv = t \<and> reserved_length cv = n \<and> array_address cv = p \<and> type_length cv = maximumByteLength t \<and>
    native.holds (cv, h') [] \<and> h' = malloc_block p ((maximumByteLength t * n) mod 2 ^ 64) h"
proof -
  have "bv_inv (clear (BitVector_new g n))" "bv_set (clear (BitVector_new g n)) = {}"
    using assms(3) BitVector_new_inv [of n g] by (auto intro: clear_inv simp: bv_set_bit_at bv_inv_wf clear_inv bit_at_clear)
  then have "native_inv cv"
    using assms by (auto simp: NativeColumnVector_new_def native_inv_def)
  moreover have "native_size cv = 0" using assms(4) by (auto simp: NativeColumnVector_new_def native_size_def)
  then have "native.holds (cv, h') []" by (simp add: native.holds_def)
  ultimately show ?thesis using assms(4) by (auto simp: NativeColumnVector_new_def)
qed

lemma fresh_outside:
  assumes "apart p (n * maximumByteLength t) (value_union v) (getDataSize v) \<or> isNull v \<or> RepresentedInline (getTypeID v)"
    "reserved_length cv = n" "array_address cv = p" "type_length cv = maximumByteLength t"
  shows "outside cv v"
  using assms not_inline_string [of "getTypeID v"] by (auto simp: outside_def)

text \<open>
  C26: A new native column to which values of its type are appended holds those values in order, whatever
  the memory held before: the untyped reads stand for the SQL values that were appended, nulls included,
  and the typed reads return values equal to them. The values must lie outside the memory of the column.
\<close>

theorem appended_values_read_back:
  assumes "type_id t \<noteq> kVarChar" "n * maximumByteLength t \<le> 2 ^ 64" "maximumByteLength t < 2 ^ 56" "n < 2 ^ 63" "length vs \<le> n"
    "NativeColumnVector_new p garbage t n h = (cv, h0)" "\<forall>v\<in>set vs. value_of_type h v t"
    "\<forall>v\<in>set vs. apart p (n * maximumByteLength t) (value_union v) (getDataSize v) \<or> isNull v \<or> RepresentedInline (getTypeID v)"
    "fold (\<lambda>v (cv, h). native_appendTypedValue v cv h) vs (cv, h0) = (cv', h')"
  shows "column_holds t h' (NativeColumn cv') (map (sql_value_of h) vs) \<and>
    (\<forall>i<length vs. \<exists>v. native_getTypedValue padding h' cv' i = Some v \<and> sql_value_of h' v = sql_value_of h (vs ! i))"
proof -
  note new = native_new_inv [OF assms(1,2,4,6)]
  have same: "value_of_type h0 v s \<longleftrightarrow> value_of_type h v s" "sql_value_of h0 v = sql_value_of h v" for v s
    using value_frame [of v h0 h] new by (simp_all add: out_of_line_bytes_def)
  have e: "fold (\<lambda>v s. native_appendTypedValue v (fst s) (snd s)) vs (cv, h0) = (cv', h')"
    using assms(9) by (simp add: case_prod_beta')
  have "native_inv (fst (cv', h')) \<and> column_type (fst (cv', h')) = column_type (fst (cv, h0)) \<and>
      reserved_length (fst (cv', h')) = reserved_length (fst (cv, h0)) \<and>
      native.holds (cv', h') ([] @ map (sql_value_of (snd (cv, h0))) vs)"
    unfolding e [symmetric]
  proof (rule native.append_all)
    show "sorted_wrt (\<lambda>v w. True) vs" by (simp add: sorted_wrt_iff_nth_less)
    show "value_of_type (snd (cv, h0)) v (column_type (fst (cv, h0))) \<and> outside (fst (cv, h0)) v" if "v \<in> set vs" for v
      using assms(7,8) that new same fresh_outside [of p n t v cv] by auto
    show "native_size (fst (cv, h0)) + length vs \<le> reserved_length (fst (cv, h0))"
      using new assms(5) by (simp add: native.holds_def)
    show "native.holds (cv, h0) []" using new by blast
  qed (use new in simp)
  moreover have "sql_value_of (snd (cv, h0)) = sql_value_of h" using same(2) by (simp add: fun_eq_iff)
  ultimately have inv: "native_inv cv'" "column_type cv' = t" "reserved_length cv' = n" "native.holds (cv', h') (map (sql_value_of h) vs)"
    using new by simp_all
  have len: "type_length cv' = maximumByteLength t" using inv(1,2) by (simp add: native_inv_def)
  have typed: "\<exists>v. native_getTypedValue padding h' cv' i = Some v \<and> sql_value_of h' v = sql_value_of h (vs ! i)" if "i < length vs" for i
  proof -
    have "item_holds (column_type cv') (native_getUntypedValue True h' cv' i) (sql_value_of h (vs ! i))"
      using inv(4) that by (simp add: native.holds_def)
    moreover have "i < reserved_length cv'" "type_length cv' < 2 ^ 56" using that assms(3,5) inv(3) len by simp_all
    ultimately have "\<exists>v. native_getTypedValue padding h' cv' i = Some v \<and> sql_value_of h' v = stored_sql (sql_value_of h (vs ! i))"
      using typed_slot [OF inv(1)] by blast
    moreover have "stored_sql (sql_value_of h (vs ! i)) = sql_value_of h (vs ! i)"
      using stored_sql_value [of h "vs ! i" t] assms(7) that by simp
    ultimately show ?thesis by simp
  qed
  show ?thesis using native_column_holds [OF inv(1,4)] inv(2) typed by simp
qed

theorem appended_values_read_back_witness:
  "\<exists>cv h. column_holds \<lparr>type_id = kInt, nullable = True, string_length = 0\<rparr> h (NativeColumn cv) [SqlLiteral (number (IntLit 7)), SqlNull]"
proof -
  let ?t = "\<lparr>type_id = kInt, nullable = True, string_length = 0\<rparr>" and ?vs = "[TypedValue_int 7, TypedValue_null kInt]"
  obtain cv h0 where new: "NativeColumnVector_new 0x4000 (\<lambda>_. 0) ?t 2 sample_heap = (cv, h0)" by fastforce
  obtain cv' h' where run: "fold (\<lambda>v (cv, h). native_appendTypedValue v cv h) ?vs (cv, h0) = (cv', h')" by fastforce
  have "value_of_type sample_heap (TypedValue_int 7) ?t" using value_of_literal [of "number (IntLit 7)" ?t sample_heap 0] by simp
  moreover have "value_of_type sample_heap (TypedValue_null kInt) ?t" by (simp add: value_of_type_def value_simps)
  moreover have "RepresentedInline (getTypeID (TypedValue_int 7))" "RepresentedInline (getTypeID (TypedValue_null kInt))"
    by (simp_all add: value_simps RepresentedInline_def)
  ultimately have "column_holds ?t h' (NativeColumn cv') (map (sql_value_of sample_heap) ?vs)"
    using appended_values_read_back [OF _ _ _ _ _ new _ _ run] by (simp add: maximumByteLength_def)
  moreover have "sql_value_of sample_heap (TypedValue_int 7) = SqlLiteral (number (IntLit 7))"
    "sql_value_of sample_heap (TypedValue_null kInt) = SqlNull"
    by (simp_all add: sql_value_of_def value_simps getLiteral_def)
  ultimately show ?thesis by auto
qed

section \<open>Indirect columns\<close>

text \<open>
  C27: An indirect column to which values are appended holds them in order, and its typed reads return
  them, also when a value owns its bytes: the copy is in a block of its own.
\<close>

theorem appended_copies_read_back:
  assumes "length pvs \<le> n" "\<forall>pv\<in>set pvs. appendable (IndirectColumnVector_new t n, h) pv" "sorted_wrt appendable_after pvs"
    "fold (\<lambda>(p, v) (cv, h). indirect_appendTypedValue p v cv h) pvs (IndirectColumnVector_new t n, h) = (cv', h')"
  shows "column_holds t h' (IndirectColumn cv') (map (\<lambda>pv. sql_value_of h (snd pv)) pvs) \<and>
    (\<forall>i<length pvs. sql_value_of h' (indirect_getTypedValue cv' i) = sql_value_of h (snd (pvs ! i)))"
proof -
  let ?s = "(IndirectColumnVector_new t n, h)"
  have s: "indirect_inv ?s" "indirect_size (fst ?s) = 0" "indirect_reserved (fst ?s) = n" "indirect_type (fst ?s) = t"
    by (simp_all add: indirect_inv_def IndirectColumnVector_new_def indirect_size_def)
  then have "indirect.holds ?s []" by (simp add: indirect.holds_def)
  then have "indirect_inv (fold (\<lambda>pv s. indirect_appendTypedValue (fst pv) (snd pv) (fst s) (snd s)) pvs ?s) \<and>
      indirect_type (fst (fold (\<lambda>pv s. indirect_appendTypedValue (fst pv) (snd pv) (fst s) (snd s)) pvs ?s)) = indirect_type (fst ?s) \<and>
      indirect_reserved (fst (fold (\<lambda>pv s. indirect_appendTypedValue (fst pv) (snd pv) (fst s) (snd s)) pvs ?s)) = indirect_reserved (fst ?s) \<and>
      indirect.holds (fold (\<lambda>pv s. indirect_appendTypedValue (fst pv) (snd pv) (fst s) (snd s)) pvs ?s)
        ([] @ map (\<lambda>pv. sql_value_of (snd ?s) (snd pv)) pvs)"
    using s assms(1-3) by (intro indirect.append_all) simp_all
  moreover have "fold (\<lambda>pv s. indirect_appendTypedValue (fst pv) (snd pv) (fst s) (snd s)) pvs ?s = (cv', h')"
    using assms(4) by (simp add: case_prod_beta')
  ultimately have inv: "indirect_inv (cv', h')" "indirect_type cv' = t"
    "indirect.holds (cv', h') (map (\<lambda>pv. sql_value_of h (snd pv)) pvs)" using s by simp_all
  have "sql_value_of h' (indirect_getTypedValue cv' i) = sql_value_of h (snd (pvs ! i))" if i: "i < length pvs" for i
  proof -
    have l: "i < indirect_size (fst (cv', h'))" using inv(3) i by (simp add: indirect.holds_def)
    have "item_holds t (indirect_getUntypedValue True h' cv' i) (sql_value_of h (snd (pvs ! i)))"
      using inv(2,3) i by (simp add: indirect.holds_def)
    moreover have "item_holds t (indirect_getUntypedValue True h' cv' i) (sql_value_of h' (indirect_values cv' ! i))"
      using conjunct2 [OF indirect_item [OF inv(1) l]] inv(2) by simp
    ultimately show ?thesis unfolding indirect_getTypedValue_def using item_holds_unique by blast
  qed
  then show ?thesis using indirect_column_holds [OF inv(1,3)] inv(2) by simp
qed

theorem appended_copies_read_back_witness:
  "\<exists>cv h. column_holds \<lparr>type_id = kVarChar, nullable = True, string_length = 8\<rparr> h (IndirectColumn cv) [SqlString [97, 98], SqlNull]"
proof -
  let ?t = "\<lparr>type_id = kVarChar, nullable = True, string_length = 8\<rparr>" and ?h = "write_bytes 0x1000 [97, 98, 0, 0] sample_heap"
  let ?v = "CreateWithOwnedData kVarChar 0x1000 3" and ?n = "TypedValue_null kVarChar"
  let ?s = "(IndirectColumnVector_new ?t 2, ?h)"
  obtain cv' h' where run: "fold (\<lambda>(p, v) (cv, h). indirect_appendTypedValue p v cv h) [(0x2000, ?v), (0x3000, ?n)] ?s = (cv', h')"
    by fastforce
  have n: "isNull ?n" "\<not> ownsOutOfLineData ?n" "getTypeID ?n = kVarChar"
    using observe_info [OF constructor_info(10) [of kVarChar]] by simp_all
  have v: "string_value ?v" "getTypeID ?v = kVarChar" "getDataSize ?v = 3"
    using owned_bytes [of kVarChar 3 ?v "0x1000"] by simp_all
  have b: "string_of ?h ?v = [97, 98]" "out_of_line_bytes ?h ?v = [97, 98, 0]" by code_simp+
  have "isPlausibleInstanceOf ?h ?v (getSignature ?t)" using plausible_string [of ?v ?t ?h] v by simp
  moreover have nn: "\<not> isNull ?v" using v(1) by (simp add: string_value_def)
  ultimately have "value_of_type ?h ?v ?t" using v b by (simp add: value_of_type_def getAsciiStringLength_def)
  moreover have "\<not> reaches ?v 0x2000 3"
    using v apartI [of 3 "0x1000" "0x2000" 3] by (simp add: reaches_def CreateWithOwnedData_def TypedValue_reference_def Let_def)
  ultimately have "appendable ?s (0x2000, ?v)" "appendable ?s (0x3000, ?n)" "appendable_after (0x2000, ?v) (0x3000, ?n)"
    using n v by (simp_all add: appendable_def appendable_after_def IndirectColumnVector_new_def value_of_type_def reaches_def)
  then have "column_holds ?t h' (IndirectColumn cv') (map (\<lambda>pv. sql_value_of ?h (snd pv)) [(0x2000, ?v), (0x3000, ?n)])"
    using appended_copies_read_back [OF _ _ _ run] by simp
  then show ?thesis using n v nn b by (auto simp: sql_value_of_def)
qed

section \<open>Positional writes and fills\<close>

lemma positional_all:
  assumes "native_inv cv" "actual_length cv = reserved_length cv" "distinct (map fst ws)" "fst ` set ws \<subseteq> {..<reserved_length cv}"
    "null_set cv \<inter> fst ` set ws = {}" "\<And>i v. (i, v) \<in> set ws \<Longrightarrow> value_of_type h v (column_type cv) \<and> outside cv v"
    "fold (\<lambda>(i, v). store_value i v) ws (cv, h) = (cv', h')"
  shows "native_inv cv' \<and> column_type cv' = column_type cv \<and> actual_length cv' = actual_length cv \<and> reserved_length cv' = reserved_length cv \<and>
    (\<forall>(i, v)\<in>set ws. item_holds (column_type cv) (native_getUntypedValue True h' cv' i) (sql_value_of h v)) \<and>
    (\<forall>j<reserved_length cv. j \<notin> fst ` set ws \<longrightarrow> native_getUntypedValue True h' cv' j = native_getUntypedValue True h cv j)"
  using assms
proof (induction ws arbitrary: cv h)
  case Nil
  then show ?case by simp
next
  case (Cons w ws)
  obtain i v where w: "w = (i, v)" by fastforce
  obtain c1 h1 where s1: "store_value i v (cv, h) = (c1, h1)" by fastforce
  have i: "i < reserved_length cv" "i \<notin> null_set cv" and v: "value_of_type h v (column_type cv)" "outside cv v"
    using Cons.prems(4-6) w by auto
  have f: "column_type c1 = column_type cv" "type_length c1 = type_length cv" "array_address c1 = array_address cv"
    "reserved_length c1 = reserved_length cv" "actual_length c1 = actual_length cv"
    using store_shape [of i v "(cv, h)"] s1 by simp_all
  have nulls: "null_set c1 = (if isNull v then insert i (null_set cv) else null_set cv)"
    using store_null_set [OF Cons.prems(1) i(1) v(1)] s1 by simp
  have inv1: "native_inv c1"
  proof -
    have "native_inv (c1\<lparr>actual_length := actual_length cv\<rparr>)"
      using store_inv [OF Cons.prems(1) i(1) v(1), of "actual_length cv"] Cons.prems(2) i(1) s1 by simp
    then show ?thesis using f(5) by (metis (full_types) native_column_vector.surjective native_column_vector.update_convs(5) native_column_vector.select_convs(5))
  qed
  have item1: "native_getUntypedValue True h1 c1 j = (if j = i then (if isNull v then None else Some (slot h1 cv i)) else native_getUntypedValue True h cv j)"
    if "j < reserved_length cv" for j
    using native_item [OF inv1, of j h1] native_item [OF Cons.prems(1) that, of h] nulls i(2) that f(4)
      store_slots [OF Cons.prems(1) i(1) that v(1)] slot_same [of h1 i v "(cv, h)" j] s1 by auto
  have other: "(value_of_type h1 u t \<longleftrightarrow> value_of_type h u t) \<and> sql_value_of h1 u = sql_value_of h u" if "outside cv u" for u t
    using store_other [OF Cons.prems(1) i(1) v(1) that] s1 by simp
  have held: "item_holds (column_type cv) (native_getUntypedValue True h1 c1 i) (sql_value_of h v)"
    using store_item [OF Cons.prems(1) i(1) v(1) i(2)] item1 [OF i(1)] nulls i(2) s1 by (auto split: if_splits)
  have fresh: "i \<notin> fst ` set ws" using Cons.prems(3) w by simp
  have "native_inv cv' \<and> column_type cv' = column_type c1 \<and> actual_length cv' = actual_length c1 \<and> reserved_length cv' = reserved_length c1 \<and>
    (\<forall>(i, v)\<in>set ws. item_holds (column_type c1) (native_getUntypedValue True h' cv' i) (sql_value_of h1 v)) \<and>
    (\<forall>j<reserved_length c1. j \<notin> fst ` set ws \<longrightarrow> native_getUntypedValue True h' cv' j = native_getUntypedValue True h1 c1 j)"
  proof (rule Cons.IH [OF inv1])
    show "null_set c1 \<inter> fst ` set ws = {}" using Cons.prems(5) nulls fresh w by auto
    show "value_of_type h1 u (column_type c1) \<and> outside c1 u" if "(j, u) \<in> set ws" for j u
      using Cons.prems(6) [of j u] that other [of u "column_type c1"] f by (auto simp: outside_def)
  qed (use Cons.prems w s1 f in auto)
  moreover have "sql_value_of h1 u = sql_value_of h u" if "(j, u) \<in> set ws" for j u
    using Cons.prems(6) [of j u] that other by simp
  ultimately show ?case
    using held fresh w f i(1) item1 by (auto simp: image_iff split: prod.splits)
qed

lemma native_filled:
  assumes "native_inv cv" "actual_length cv = reserved_length cv" "length xs = reserved_length cv"
    "\<And>i. i < reserved_length cv \<Longrightarrow> item_holds (column_type cv) (native_getUntypedValue True h cv i) (xs ! i)"
  shows "column_holds (column_type cv) h (NativeColumn cv) xs"
proof (rule native_column_holds [OF assms(1)])
  have "native_size cv = length xs" using assms(2,3) by (simp add: native_size_def)
  then show "native.holds (cv, h) xs" using assms(3,4) by (simp add: native.holds_def)
qed

lemma prepared_inv: "native_inv cv \<Longrightarrow> native_inv (cv\<lparr>actual_length := reserved_length cv\<rparr>)"
  by (auto simp: native_inv_def split: option.splits)

text \<open>
  A new native column prepared for positional writes, each position of which is then written once in any
  order, holds the values written, at their positions.
\<close>

theorem positional_writes_read_back:
  assumes "type_id t \<noteq> kVarChar" "n * maximumByteLength t \<le> 2 ^ 64" "n < 2 ^ 63" "NativeColumnVector_new p garbage t n h = (cv, h0)"
    "distinct (map fst ws)" "fst ` set ws = {..<n}" "\<forall>(i, v)\<in>set ws. value_of_type h v t"
    "\<forall>(i, v)\<in>set ws. apart p (n * maximumByteLength t) (value_union v) (getDataSize v) \<or> isNull v \<or> RepresentedInline (getTypeID v)"
    "fold (\<lambda>(i, v) (cv, h). native_positionalWriteTypedValue i v cv h) ws (native_prepareForPositionalWrites cv, h0) = (cv', h')"
  shows "column_holds t h' (NativeColumn cv') (map (\<lambda>i. sql_value_of h (the (map_of ws i))) [0..<n])"
proof -
  note new = native_new_inv [OF assms(1-4)]
  let ?c = "native_prepareForPositionalWrites cv"
  have c: "native_inv ?c" "actual_length ?c = reserved_length ?c" "reserved_length ?c = n" "column_type ?c = t"
    "array_address ?c = p" "type_length ?c = maximumByteLength t"
    using new prepared_inv [of cv] by (simp_all add: native_prepareForPositionalWrites_def)
  have same: "value_of_type h0 v s \<longleftrightarrow> value_of_type h v s" "sql_value_of h0 v = sql_value_of h v" for v s
    using value_frame [of v h0 h] new by (simp_all add: out_of_line_bytes_def)
  have "null_set ?c = {}"
  proof -
    have "native_size cv = 0" using new by (simp add: native.holds_def)
    then have "null_set cv = {}" using new by (auto simp: native_inv_def null_set_def native_size_def split: option.splits)
    then show ?thesis by (simp add: null_set_def native_prepareForPositionalWrites_def)
  qed
  moreover have "fold (\<lambda>(i, v). store_value i v) ws (?c, h0) = (cv', h')"
    using assms(9) by (simp add: store_value_pair)
  moreover have "value_of_type h0 v (column_type ?c) \<and> outside ?c v" if "(i, v) \<in> set ws" for i v
    using assms(7,8) that same(1) c fresh_outside [of p n t v ?c] by fastforce
  ultimately have r: "native_inv cv'" "column_type cv' = t" "actual_length cv' = n" "reserved_length cv' = n"
    "\<forall>(i, v)\<in>set ws. item_holds t (native_getUntypedValue True h' cv' i) (sql_value_of h0 v)"
    using positional_all [OF c(1,2) assms(5), of h0 cv' h'] assms(6) c by auto
  have "item_holds t (native_getUntypedValue True h' cv' i) (sql_value_of h (the (map_of ws i)))" if "i < n" for i
  proof -
    have "i \<in> fst ` set ws" using assms(6) that by simp
    then obtain v where v: "(i, v) \<in> set ws" by auto
    then have "map_of ws i = Some v" using map_of_is_SomeI [OF assms(5)] by blast
    moreover have "item_holds t (native_getUntypedValue True h' cv' i) (sql_value_of h0 v)" using r(5) v by blast
    ultimately show ?thesis using same(2) by simp
  qed
  then show ?thesis using native_filled [OF r(1), of "map (\<lambda>i. sql_value_of h (the (map_of ws i))) [0..<n]" h'] r(2-4) by simp
qed

theorem positional_writes_read_back_witness:
  "\<exists>cv h. column_holds \<lparr>type_id = kInt, nullable = True, string_length = 0\<rparr> h (NativeColumn cv) [SqlNull, SqlLiteral (number (IntLit 7))]"
proof -
  let ?t = "\<lparr>type_id = kInt, nullable = True, string_length = 0\<rparr>" and ?ws = "[(1, TypedValue_int 7), (0, TypedValue_null kInt)]"
  obtain cv h0 where new: "NativeColumnVector_new 0x4000 (\<lambda>_. 0) ?t 2 sample_heap = (cv, h0)" by fastforce
  obtain cv' h' where run: "fold (\<lambda>(i, v) (cv, h). native_positionalWriteTypedValue i v cv h) ?ws (native_prepareForPositionalWrites cv, h0) = (cv', h')"
    by fastforce
  have t: "value_of_type sample_heap (TypedValue_int 7) ?t" "value_of_type sample_heap (TypedValue_null kInt) ?t"
    using value_of_literal [of "number (IntLit 7)" ?t sample_heap 0] by (simp_all add: value_of_type_def value_simps)
  have r: "RepresentedInline (getTypeID (TypedValue_int 7))" "RepresentedInline (getTypeID (TypedValue_null kInt))"
    by (simp_all add: value_simps RepresentedInline_def)
  have "column_holds ?t h' (NativeColumn cv') (map (\<lambda>i. sql_value_of sample_heap (the (map_of ?ws i))) [0..<2])"
  proof (rule positional_writes_read_back [OF _ _ _ new _ _ _ _ run])
    show "fst ` set ?ws = {..<2 :: nat}" by auto
    show "\<forall>(i, v)\<in>set ?ws. value_of_type sample_heap v ?t" using t by simp
    show "\<forall>(i, v)\<in>set ?ws. apart 0x4000 (2 * maximumByteLength ?t) (value_union v) (getDataSize v) \<or> isNull v \<or> RepresentedInline (getTypeID v)"
      using r by simp
  qed (simp_all add: maximumByteLength_def)
  moreover have "sql_value_of sample_heap (TypedValue_int 7) = SqlLiteral (number (IntLit 7))"
    "sql_value_of sample_heap (TypedValue_null kInt) = SqlNull"
    by (simp_all add: sql_value_of_def value_simps getLiteral_def)
  ultimately show ?thesis by (auto simp: upt_rec)
qed

lemma fill_store:
  "\<not> isNull v \<Longrightarrow> fold (\<lambda>(i, v). store_value i v) (map (\<lambda>i. (i, v)) is) (cv, h) =
    (cv, fold (\<lambda>pos. copyInto (slot_address cv pos) v) is h)"
  by (induction "is" arbitrary: h) (auto simp: store_value_def native_positionalWriteTypedValue_def split: option.splits)

lemma native_fill:
  assumes "native_inv cv" "value_of_type h v (column_type cv)" "outside cv v"
  shows "\<exists>cv' h'. native_fillWithValue v cv h = Some (cv', h') \<and>
    column_holds (column_type cv) h' (NativeColumn cv') (replicate (reserved_length cv) (sql_value_of h v))"
proof (cases "isNull v")
  case True
  then obtain bm where b: "null_bitmap cv = Some bm" "nullable (column_type cv)" "bv_inv bm" "num_bits bm = reserved_length cv"
  proof -
    obtain bm where "null_bitmap cv = Some bm" using bitmap_there [OF assms(1,2) True] by blast
    then show ?thesis using that assms(1) by (simp add: native_inv_def)
  qed
  let ?n = "reserved_length cv"
  let ?c = "cv\<lparr>null_bitmap := Some (setBitRange 0 ?n True bm), actual_length := ?n\<rparr>"
  have s: "bv_inv (setBitRange 0 ?n True bm)" "bv_set (setBitRange 0 ?n True bm) = bv_set bm \<union> {0..<?n}"
    using setBitRange_inv [OF b(3)] setBitRange_set [OF b(3)] b(4) by simp_all
  then have "bv_set (setBitRange 0 ?n True bm) = {0..<?n}" using b(4) bv_set_less [of _ bm] by auto
  then have inv: "native_inv ?c" "null_set ?c = {0..<?n}" using assms(1) b s(1) by (auto simp: native_inv_def null_set_def)
  have "column_holds (column_type ?c) h (NativeColumn ?c) (replicate ?n SqlNull)"
    using inv b(2) native_item [OF inv(1)] by (intro native_filled) (simp_all add: item_holds_def)
  then show ?thesis
    using True b by (simp add: native_fillWithValue_def native_fillWithNulls_def sql_value_of_def)
next
  case False
  let ?n = "reserved_length cv"
  let ?c = "cv\<lparr>null_bitmap := map_option clear (null_bitmap cv), actual_length := ?n\<rparr>"
  have clear: "bv_inv bm \<Longrightarrow> bv_inv (clear bm) \<and> bv_set (clear bm) = {}" for bm
    by (auto intro: clear_inv simp: bv_set_bit_at bv_inv_wf clear_inv bit_at_clear)
  have inv: "native_inv ?c" "null_set ?c = {}"
    using assms(1) clear by (auto simp: native_inv_def null_set_def split: option.splits)
  obtain h' where f: "fold (\<lambda>pos. copyInto (slot_address ?c pos) v) [0..<?n] h = h'" by blast
  have run: "fold (\<lambda>(i, v). store_value i v) (map (\<lambda>i. (i, v)) [0..<?n]) (?c, h) = (?c, h')"
    unfolding fill_store [OF False] f by (rule refl)
  have "item_holds (column_type cv) (native_getUntypedValue True h' ?c i) (sql_value_of h v)" if "i < ?n" for i
    using positional_all [OF inv(1) _ _ _ _ _ run] inv(2) assms(2,3) that by (force simp: outside_def o_def)
  then have "column_holds (column_type ?c) h' (NativeColumn ?c) (replicate ?n (sql_value_of h v))"
    using inv(1) by (intro native_filled) simp_all
  moreover have "slot_address ?c = slot_address cv" by (simp add: slot_address_def fun_eq_iff)
  ultimately show ?thesis using False f by (simp add: native_fillWithValue_def)
qed

lemma copies_are_appends:
  "fold (\<lambda>pv s. indirect_appendTypedValue (fst pv) (snd pv) (fst s) (snd s)) (map (\<lambda>p. (p, v)) ps) (cv, h) =
    (let (vs, h') = copies_of v ps h in (cv\<lparr>indirect_values := indirect_values cv @ vs\<rparr>, h'))"
  by (induction ps arbitrary: cv h) (simp_all add: indirect_appendTypedValue_def Let_def split: prod.splits)

lemma native_usable: "type_id t \<noteq> kVarChar \<Longrightarrow> UsableForType t"
  by (simp add: UsableForType_def isVariableLength_def minimumByteLength_def)

lemma varchar_not_usable: "type_id t = kVarChar \<Longrightarrow> string_length t \<noteq> 0 \<Longrightarrow> \<not> UsableForType t"
  by (simp add: UsableForType_def isVariableLength_def minimumByteLength_def maximumByteLength_def)

lemma filled_bitmap_stray:
  assumes "n < 2 ^ 63"
  shows "stray (setBitRange 0 n True (clear (BitVector_new g n))) \<longleftrightarrow> n mod 64 = 0"
proof -
  have b: "bv_wf (BitVector_new g n)" "bv_wf (clear (BitVector_new g n))"
    using BitVector_new_inv [OF assms, of g] clear_inv [of "BitVector_new g n"] by (auto dest: bv_inv_wf)
  show ?thesis
    using setBitRange_stray [OF b(2), of 0 n True] stray_clear [OF b(1)] BitVector_new_stray [OF assms, of g]
    by (cases "n = 0") auto
qed

text \<open>
  C28: \<^verbatim>\<open>MakeVectorOfValue\<close> makes a column that holds as many copies of the value as asked for, of the kind
  that fits the type; filling a native column with nulls stores outside its null bitmap exactly when the
  number of copies is a multiple of 64.
\<close>

theorem constant_columns:
  assumes "value_of_type h v t" "n < 2 ^ 63" "ps \<noteq> []"
    "type_id t \<noteq> kVarChar \<Longrightarrow> n * maximumByteLength t \<le> 2 ^ 64 \<and>
      (apart (hd ps) (n * maximumByteLength t) (value_union v) (getDataSize v) \<or> isNull v \<or> RepresentedInline (getTypeID v))"
    "type_id t = kVarChar \<Longrightarrow> string_length t \<noteq> 0 \<and> n \<le> length ps \<and> (\<forall>p\<in>set ps. appendable (IndirectColumnVector_new t n, h) (p, v)) \<and>
      sorted_wrt appendable_after (map (\<lambda>p. (p, v)) (take n ps))"
  shows "\<exists>cv h'. MakeVectorOfValue ps garbage t v n h = Some (cv, h') \<and> isNative cv = (type_id t \<noteq> kVarChar) \<and>
    column_holds t h' cv (replicate n (sql_value_of h v)) \<and>
    (\<forall>c bm. cv = NativeColumn c \<and> null_bitmap c = Some bm \<and> isNull v \<longrightarrow> stray bm = (n mod 64 = 0))"
proof (cases "type_id t = kVarChar")
  case False
  obtain cv h0 where new: "NativeColumnVector_new (hd ps) garbage t n h = (cv, h0)" by fastforce
  note f = native_new_inv [OF False _ assms(2) new]
  have c: "native_inv cv" "column_type cv = t" "reserved_length cv = n" "outside cv v"
    using f assms(4) [OF False] fresh_outside [of "hd ps" n t v cv] by auto
  have same: "value_of_type h0 v t" "sql_value_of h0 v = sql_value_of h v"
    using value_frame [of v h0 h] f assms(1,4) False by (simp_all add: out_of_line_bytes_def)
  obtain cv' h' where fill: "native_fillWithValue v cv h0 = Some (cv', h')"
    "column_holds t h' (NativeColumn cv') (replicate n (sql_value_of h v))"
    using native_fill [OF c(1), of h0 v] c same by auto
  have "stray bm = (n mod 64 = 0)" if "null_bitmap cv' = Some bm" "isNull v" for bm
    using that fill(1) new filled_bitmap_stray [OF assms(2), of garbage]
    by (auto simp: native_fillWithValue_def native_fillWithNulls_def NativeColumnVector_new_def split: if_splits)
  then show ?thesis using fill new False native_usable [OF False] by (simp add: MakeVectorOfValue_def)
next
  case True
  let ?s = "(IndirectColumnVector_new t n, h)" and ?pvs = "map (\<lambda>p. (p, v)) (take n ps)"
  have s: "indirect_inv ?s" "indirect_size (fst ?s) = 0" "indirect_reserved (fst ?s) = n" "indirect_type (fst ?s) = t" "indirect.holds ?s []"
  proof -
    show z: "indirect_size (fst ?s) = 0" by (simp add: IndirectColumnVector_new_def indirect_size_def)
    show "indirect.holds ?s []" using z by (simp add: indirect.holds_def)
  qed (simp_all add: indirect_inv_def IndirectColumnVector_new_def)
  obtain vs h' where copies: "copies_of v (take n ps) h = (vs, h')" by fastforce
  let ?c = "(IndirectColumnVector_new t n)\<lparr>indirect_values := vs\<rparr>"
  have run: "fold (\<lambda>pv s. indirect_appendTypedValue (fst pv) (snd pv) (fst s) (snd s)) ?pvs ?s = (?c, h')"
    unfolding copies_are_appends using copies by (simp add: IndirectColumnVector_new_def)
  have "indirect_inv (?c, h') \<and> indirect_type (fst (?c, h')) = indirect_type (fst ?s) \<and>
      indirect_reserved (fst (?c, h')) = indirect_reserved (fst ?s) \<and>
      indirect.holds (?c, h') ([] @ map (\<lambda>pv. sql_value_of (snd ?s) (snd pv)) ?pvs)"
    unfolding run [symmetric] using s assms(5) True by (intro indirect.append_all) (auto dest: in_set_takeD)
  then have "column_holds t h' (IndirectColumn ?c) (map (\<lambda>pv. sql_value_of h (snd pv)) ?pvs)"
    using indirect_column_holds [of ?c h'] s(4) by simp
  moreover have "map (\<lambda>pv. sql_value_of h (snd pv)) ?pvs = replicate n (sql_value_of h v)"
    using assms(5) [OF True] by (simp add: o_def map_replicate_const min_absorb2)
  ultimately show ?thesis
    using True varchar_not_usable assms(5) copies
    by (simp add: MakeVectorOfValue_def indirect_fillWithValue_def IndirectColumnVector_new_def)
qed

theorem constant_columns_witness:
  "\<exists>cv h. MakeVectorOfValue [0x4000] (\<lambda>_. 0) \<lparr>type_id = kInt, nullable = False, string_length = 0\<rparr> (TypedValue_int 7) 3 sample_heap = Some (cv, h) \<and>
    column_holds \<lparr>type_id = kInt, nullable = False, string_length = 0\<rparr> h cv (replicate 3 (SqlLiteral (number (IntLit 7))))"
proof -
  let ?t = "\<lparr>type_id = kInt, nullable = False, string_length = 0\<rparr>"
  have "value_of_type sample_heap (TypedValue_int 7) ?t" using value_of_literal [of "number (IntLit 7)" ?t sample_heap 0] by simp
  moreover have "RepresentedInline (getTypeID (TypedValue_int 7))" by (simp add: value_simps RepresentedInline_def)
  ultimately have "\<exists>cv h. MakeVectorOfValue [0x4000] (\<lambda>_. 0) ?t (TypedValue_int 7) 3 sample_heap = Some (cv, h) \<and>
      column_holds ?t h cv (replicate 3 (sql_value_of sample_heap (TypedValue_int 7)))"
    using constant_columns [of sample_heap "TypedValue_int 7" ?t 3 "[0x4000]" "\<lambda>_. 0"] by (auto simp: maximumByteLength_def)
  moreover have "sql_value_of sample_heap (TypedValue_int 7) = SqlLiteral (number (IntLit 7))"
    by (simp add: sql_value_of_def value_simps getLiteral_def)
  ultimately show ?thesis by simp
qed

end
