(* ===== verification/ValueAccessors.thy ===== *)
theory ValueAccessors
  imports ColumnVectors
begin

text \<open>
  \<^verbatim>\<open>types/containers/Tuple.hpp\<close>, \<^verbatim>\<open>ValueAccessor.hpp\<close> and the two accessors over them: cursors over tuples.
  A cursor is a position and a source of values; the loops of the engine move it with \<open>next\<close> from before the
  first tuple until it fails. The template parameter of the adapters is the type \<open>plain_accessor\<close>.
\<close>

type_synonym attribute_id = int

section \<open>Tuples\<close>

record tuple =
  attribute_values :: "typed_value list"

text \<open>An operation that may allocate, on each element of a vector; the addresses it gets are given.\<close>

fun map_heap :: "(u64 \<Rightarrow> 'a \<Rightarrow> heap \<Rightarrow> 'b \<times> heap) \<Rightarrow> u64 list \<Rightarrow> 'a list \<Rightarrow> heap \<Rightarrow> 'b list \<times> heap" where
  "map_heap f ps [] h = ([], h)"
| "map_heap f ps (x # xs) h = (let (y, h) = f (hd ps) x h; (ys, h) = map_heap f (tl ps) xs h in (y # ys, h))"

definition Tuple_ensureLiteral :: "u64 list \<Rightarrow> tuple \<Rightarrow> heap \<Rightarrow> tuple \<times> heap" where
  "Tuple_ensureLiteral ps t h =
     (let (vs, h) = map_heap ensureNotReference ps (attribute_values t) h in (t\<lparr>attribute_values := vs\<rparr>, h))"

definition Tuple_clone :: "u64 list \<Rightarrow> u64 list \<Rightarrow> tuple \<Rightarrow> heap \<Rightarrow> tuple \<times> heap" where
  "Tuple_clone ps qs t h =
     (let (vs, h) = map_heap TypedValue_copy ps (attribute_values t) h
      in Tuple_ensureLiteral qs \<lparr>attribute_values = vs\<rparr> h)"

definition Tuple_getAttributeValue :: "tuple \<Rightarrow> attribute_id \<Rightarrow> typed_value" where
  "Tuple_getAttributeValue t attr = attribute_values t ! nat attr"

definition Tuple_getByteSize :: "tuple \<Rightarrow> nat" where
  "Tuple_getByteSize t = fold (\<lambda>v total_size. (total_size + (if isNull v then 0 else getDataSize v)) mod 2 ^ 64) (attribute_values t) 0"

definition Tuple_size :: "tuple \<Rightarrow> nat" where
  "Tuple_size t = length (attribute_values t)"

section \<open>Accessors over tuples and over columns\<close>

record tuple_vector_accessor =
  vector_tuples :: "tuple list"
  tv_position :: nat

record column_vectors_accessor =
  accessor_columns :: "column_vector list"
  column_native :: "bool list"
  column_length :: nat
  cv_position :: nat

datatype plain_accessor = TupleVector tuple_vector_accessor | ColumnVectors column_vectors_accessor

definition TupleVectorValueAccessor_new :: tuple_vector_accessor where
  "TupleVectorValueAccessor_new = \<lparr>vector_tuples = [], tv_position = size_max\<rparr>"

definition addTuple :: "tuple \<Rightarrow> tuple_vector_accessor \<Rightarrow> tuple_vector_accessor" where
  "addTuple t acc = acc\<lparr>vector_tuples := vector_tuples acc @ [t]\<rparr>"

definition ColumnVectorsValueAccessor_new :: column_vectors_accessor where
  "ColumnVectorsValueAccessor_new = \<lparr>accessor_columns = [], column_native = [], column_length = 0, cv_position = size_max\<rparr>"

definition addColumn :: "column_vector \<Rightarrow> column_vectors_accessor \<Rightarrow> column_vectors_accessor" where
  "addColumn column acc =
     acc\<lparr>accessor_columns := accessor_columns acc @ [column], column_native := column_native acc @ [isNative column],
         column_length := cv_size column\<rparr>"

text \<open>The tuple vector's cursor. The position before the first tuple is the largest \<^verbatim>\<open>size_t\<close>, which increments to zero.\<close>

definition tv_beginIteration :: "tuple_vector_accessor \<Rightarrow> tuple_vector_accessor" where
  "tv_beginIteration acc = acc\<lparr>tv_position := size_max\<rparr>"

definition tv_iterationFinished :: "tuple_vector_accessor \<Rightarrow> bool" where
  "tv_iterationFinished acc \<longleftrightarrow> (tv_position acc + 1) mod 2 ^ 64 \<ge> length (vector_tuples acc)"

definition tv_next :: "tuple_vector_accessor \<Rightarrow> bool \<times> tuple_vector_accessor" where
  "tv_next acc =
     (let position = (tv_position acc + 1) mod 2 ^ 64
      in (position < length (vector_tuples acc), acc\<lparr>tv_position := position\<rparr>))"

definition tv_previous :: "tuple_vector_accessor \<Rightarrow> tuple_vector_accessor" where
  "tv_previous acc = acc\<lparr>tv_position := (tv_position acc + size_max) mod 2 ^ 64\<rparr>"

definition tv_getCurrentPosition :: "tuple_vector_accessor \<Rightarrow> tuple_id" where
  "tv_getCurrentPosition acc = size_to_tid (tv_position acc)"

definition tv_getEndPosition :: "tuple_vector_accessor \<Rightarrow> tuple_id" where
  "tv_getEndPosition acc = size_to_tid (length (vector_tuples acc))"

definition tv_getUntypedValueAtAbsolutePosition ::
  "bool \<Rightarrow> heap \<Rightarrow> tuple_vector_accessor \<Rightarrow> attribute_id \<Rightarrow> tuple_id \<Rightarrow> data_ptr" where
  "tv_getUntypedValueAtAbsolutePosition check_null h acc attr_id tid =
     (let value = Tuple_getAttributeValue (vector_tuples acc ! nat tid) attr_id
      in if check_null \<and> isNull value then None else Some (getDataPtr h value))"

definition tv_getTypedValueAtAbsolutePosition :: "tuple_vector_accessor \<Rightarrow> attribute_id \<Rightarrow> tuple_id \<Rightarrow> typed_value" where
  "tv_getTypedValueAtAbsolutePosition acc attr_id tid =
     makeReferenceToThis (Tuple_getAttributeValue (vector_tuples acc ! nat tid) attr_id)"

text \<open>The cursor over columns. The casts go by the flag recorded for the column.\<close>

definition cva_beginIteration :: "column_vectors_accessor \<Rightarrow> column_vectors_accessor" where
  "cva_beginIteration acc = acc\<lparr>cv_position := size_max\<rparr>"

definition cva_iterationFinished :: "column_vectors_accessor \<Rightarrow> bool" where
  "cva_iterationFinished acc \<longleftrightarrow> (cv_position acc + 1) mod 2 ^ 64 \<ge> column_length acc"

definition cva_next :: "column_vectors_accessor \<Rightarrow> bool \<times> column_vectors_accessor" where
  "cva_next acc =
     (let position = (cv_position acc + 1) mod 2 ^ 64 in (position < column_length acc, acc\<lparr>cv_position := position\<rparr>))"

definition cva_previous :: "column_vectors_accessor \<Rightarrow> column_vectors_accessor" where
  "cva_previous acc = acc\<lparr>cv_position := (cv_position acc + size_max) mod 2 ^ 64\<rparr>"

definition cva_getCurrentPosition :: "column_vectors_accessor \<Rightarrow> tuple_id" where
  "cva_getCurrentPosition acc = size_to_tid (cv_position acc)"

definition cva_getEndPosition :: "column_vectors_accessor \<Rightarrow> tuple_id" where
  "cva_getEndPosition acc = size_to_tid (column_length acc)"

fun as_native :: "column_vector \<Rightarrow> native_column_vector" where
  "as_native (NativeColumn cv) = cv"

fun as_indirect :: "column_vector \<Rightarrow> indirect_column_vector" where
  "as_indirect (IndirectColumn cv) = cv"

definition cva_getUntypedValueAtAbsolutePosition ::
  "bool \<Rightarrow> heap \<Rightarrow> column_vectors_accessor \<Rightarrow> attribute_id \<Rightarrow> tuple_id \<Rightarrow> data_ptr" where
  "cva_getUntypedValueAtAbsolutePosition check_null h acc attr_id tid =
     (if column_native acc ! nat attr_id
      then native_getUntypedValue check_null h (as_native (accessor_columns acc ! nat attr_id)) (nat tid)
      else indirect_getUntypedValue check_null h (as_indirect (accessor_columns acc ! nat attr_id)) (nat tid))"

definition cva_getTypedValueAtAbsolutePosition ::
  "u16 \<Rightarrow> heap \<Rightarrow> column_vectors_accessor \<Rightarrow> attribute_id \<Rightarrow> tuple_id \<Rightarrow> typed_value option" where
  "cva_getTypedValueAtAbsolutePosition padding h acc attr_id tid =
     (if column_native acc ! nat attr_id
      then map_option makeReferenceToThis
             (native_getTypedValue padding h (as_native (accessor_columns acc ! nat attr_id)) (nat tid))
      else Some (makeReferenceToThis (indirect_getTypedValue (as_indirect (accessor_columns acc ! nat attr_id)) (nat tid))))"

definition cva_getTupleAtAbsolutePosition :: "u16 \<Rightarrow> heap \<Rightarrow> column_vectors_accessor \<Rightarrow> tuple_id \<Rightarrow> tuple option" where
  "cva_getTupleAtAbsolutePosition padding h acc tid =
     map_option (\<lambda>vs. \<lparr>attribute_values = vs\<rparr>)
       (those (map (\<lambda>attr_id. cva_getTypedValueAtAbsolutePosition padding h acc attr_id tid)
          [0..int (length (accessor_columns acc)) - 1]))"

definition cva_getTupleAtAbsolutePositionWithAttributes ::
  "u16 \<Rightarrow> heap \<Rightarrow> column_vectors_accessor \<Rightarrow> tuple_id \<Rightarrow> attribute_id list \<Rightarrow> tuple option" where
  "cva_getTupleAtAbsolutePositionWithAttributes padding h acc tid attributes =
     map_option (\<lambda>vs. \<lparr>attribute_values = vs\<rparr>)
       (those (map (\<lambda>attr_id. cva_getTypedValueAtAbsolutePosition padding h acc attr_id tid) attributes))"

definition tv_getTupleAtAbsolutePosition ::
  "u64 list \<Rightarrow> u64 list \<Rightarrow> tuple_vector_accessor \<Rightarrow> tuple_id \<Rightarrow> heap \<Rightarrow> tuple \<times> heap" where
  "tv_getTupleAtAbsolutePosition ps qs acc tid h = Tuple_clone ps qs (vector_tuples acc ! nat tid) h"

definition tv_getTupleAtAbsolutePositionWithAttributes ::
  "tuple_vector_accessor \<Rightarrow> tuple_id \<Rightarrow> attribute_id list \<Rightarrow> tuple" where
  "tv_getTupleAtAbsolutePositionWithAttributes acc tid attributes =
     \<lparr>attribute_values = map (\<lambda>attr_id. tv_getTypedValueAtAbsolutePosition acc attr_id tid) attributes\<rparr>"

section \<open>Accessors of either kind\<close>

fun plain_beginIteration :: "plain_accessor \<Rightarrow> plain_accessor" where
  "plain_beginIteration (TupleVector acc) = TupleVector (tv_beginIteration acc)"
| "plain_beginIteration (ColumnVectors acc) = ColumnVectors (cva_beginIteration acc)"

fun plain_iterationFinished :: "plain_accessor \<Rightarrow> bool" where
  "plain_iterationFinished (TupleVector acc) = tv_iterationFinished acc"
| "plain_iterationFinished (ColumnVectors acc) = cva_iterationFinished acc"

fun plain_next :: "plain_accessor \<Rightarrow> bool \<times> plain_accessor" where
  "plain_next (TupleVector acc) = map_prod (\<lambda>b. b) TupleVector (tv_next acc)"
| "plain_next (ColumnVectors acc) = map_prod (\<lambda>b. b) ColumnVectors (cva_next acc)"

fun plain_getCurrentPosition :: "plain_accessor \<Rightarrow> tuple_id" where
  "plain_getCurrentPosition (TupleVector acc) = tv_getCurrentPosition acc"
| "plain_getCurrentPosition (ColumnVectors acc) = cva_getCurrentPosition acc"

fun plain_getEndPosition :: "plain_accessor \<Rightarrow> tuple_id" where
  "plain_getEndPosition (TupleVector acc) = tv_getEndPosition acc"
| "plain_getEndPosition (ColumnVectors acc) = cva_getEndPosition acc"

fun plain_getUntypedValueAt :: "bool \<Rightarrow> heap \<Rightarrow> plain_accessor \<Rightarrow> attribute_id \<Rightarrow> tuple_id \<Rightarrow> data_ptr" where
  "plain_getUntypedValueAt check_null h (TupleVector acc) = tv_getUntypedValueAtAbsolutePosition check_null h acc"
| "plain_getUntypedValueAt check_null h (ColumnVectors acc) = cva_getUntypedValueAtAbsolutePosition check_null h acc"

fun plain_getTypedValueAt :: "u16 \<Rightarrow> heap \<Rightarrow> plain_accessor \<Rightarrow> attribute_id \<Rightarrow> tuple_id \<Rightarrow> typed_value option" where
  "plain_getTypedValueAt padding h (TupleVector acc) attr_id tid = Some (tv_getTypedValueAtAbsolutePosition acc attr_id tid)"
| "plain_getTypedValueAt padding h (ColumnVectors acc) attr_id tid = cva_getTypedValueAtAbsolutePosition padding h acc attr_id tid"

section \<open>Adapters\<close>

record id_adapter =
  ia_accessor :: plain_accessor
  ia_sequence :: tuple_id_sequence
  ia_position :: nat

record ordered_adapter =
  oa_accessor :: plain_accessor
  oa_sequence :: "tuple_id list"
  oa_position :: nat

definition TupleIdSequenceAdapter_new :: "plain_accessor \<Rightarrow> tuple_id_sequence \<Rightarrow> id_adapter" where
  "TupleIdSequenceAdapter_new acc ids =
     \<lparr>ia_accessor = acc, ia_sequence = ids, ia_position = iter_before_begin (internal_bitvector ids)\<rparr>"

definition ia_beginIteration :: "id_adapter \<Rightarrow> id_adapter" where
  "ia_beginIteration acc = acc\<lparr>ia_position := iter_before_begin (internal_bitvector (ia_sequence acc))\<rparr>"

definition ia_iterationFinished :: "id_adapter \<Rightarrow> bool" where
  "ia_iterationFinished acc \<longleftrightarrow>
     (let ids = internal_bitvector (ia_sequence acc); next_position = iter_inc ids (ia_position acc)
      in ia_position acc = iter_end ids \<or> next_position = iter_end ids)"

definition ia_next :: "id_adapter \<Rightarrow> bool \<times> id_adapter" where
  "ia_next acc =
     (let ids = internal_bitvector (ia_sequence acc); position = iter_inc ids (ia_position acc)
      in (position \<noteq> iter_end ids, acc\<lparr>ia_position := position\<rparr>))"

definition ia_previous :: "id_adapter \<Rightarrow> id_adapter" where
  "ia_previous acc = acc\<lparr>ia_position := iter_dec (internal_bitvector (ia_sequence acc)) (ia_position acc)\<rparr>"

definition ia_getCurrentPosition :: "id_adapter \<Rightarrow> tuple_id" where
  "ia_getCurrentPosition acc = iter_deref (ia_position acc)"

definition ia_getEndPosition :: "id_adapter \<Rightarrow> tuple_id" where
  "ia_getEndPosition acc = size_to_tid (tis_length (ia_sequence acc))"

definition ia_getNumTuples :: "id_adapter \<Rightarrow> tuple_id" where
  "ia_getNumTuples acc = size_to_tid (tis_numTuples (ia_sequence acc))"

definition OrderedTupleIdSequenceAdapter_new :: "plain_accessor \<Rightarrow> tuple_id list \<Rightarrow> ordered_adapter" where
  "OrderedTupleIdSequenceAdapter_new acc ids = \<lparr>oa_accessor = acc, oa_sequence = ids, oa_position = size_max\<rparr>"

definition oa_beginIteration :: "ordered_adapter \<Rightarrow> ordered_adapter" where
  "oa_beginIteration acc = acc\<lparr>oa_position := size_max\<rparr>"

definition oa_iterationFinished :: "ordered_adapter \<Rightarrow> bool" where
  "oa_iterationFinished acc \<longleftrightarrow> (oa_position acc + 1) mod 2 ^ 64 \<ge> length (oa_sequence acc)"

definition oa_next :: "ordered_adapter \<Rightarrow> bool \<times> ordered_adapter" where
  "oa_next acc =
     (let position = (oa_position acc + 1) mod 2 ^ 64
      in (position \<noteq> length (oa_sequence acc), acc\<lparr>oa_position := position\<rparr>))"

definition oa_previous :: "ordered_adapter \<Rightarrow> ordered_adapter" where
  "oa_previous acc = acc\<lparr>oa_position := (oa_position acc + size_max) mod 2 ^ 64\<rparr>"

definition oa_getCurrentPosition :: "ordered_adapter \<Rightarrow> tuple_id" where
  "oa_getCurrentPosition acc = oa_sequence acc ! oa_position acc"

text \<open>\<^verbatim>\<open>std::max_element\<close> of the sequence, or zero when there is none, plus one.\<close>

definition oa_getEndPosition :: "ordered_adapter \<Rightarrow> tuple_id" where
  "oa_getEndPosition acc = (case oa_sequence acc of [] \<Rightarrow> 0 | t # ts \<Rightarrow> fold max ts t) + 1"

definition oa_getNumTuples :: "ordered_adapter \<Rightarrow> tuple_id" where
  "oa_getNumTuples acc = size_to_tid (length (oa_sequence acc))"


section \<open>Any accessor\<close>

datatype value_accessor = Plain plain_accessor | IdSequence id_adapter | Ordered ordered_adapter

fun isTupleIdSequenceAdapter :: "value_accessor \<Rightarrow> bool" where
  "isTupleIdSequenceAdapter (IdSequence _) = True"
| "isTupleIdSequenceAdapter _ = False"

fun isOrderedTupleIdSequenceAdapter :: "value_accessor \<Rightarrow> bool" where
  "isOrderedTupleIdSequenceAdapter (Ordered _) = True"
| "isOrderedTupleIdSequenceAdapter _ = False"

text \<open>
  The dispatch to the concrete class. A cast to a class the object does not have is \<open>None\<close>; the second form is
  the one for accessors that may be adapters of a sequence but not of an ordered one.
\<close>

definition InvokeOnAnyValueAccessor ::
  "(plain_accessor \<Rightarrow> 'b) \<Rightarrow> (id_adapter \<Rightarrow> 'b) \<Rightarrow> (ordered_adapter \<Rightarrow> 'b) \<Rightarrow> value_accessor \<Rightarrow> 'b" where
  "InvokeOnAnyValueAccessor f g k accessor =
     (case accessor of Plain acc \<Rightarrow> f acc | IdSequence acc \<Rightarrow> g acc | Ordered acc \<Rightarrow> k acc)"

definition InvokeOnValueAccessorMaybeTupleIdSequenceAdapter ::
  "(plain_accessor \<Rightarrow> 'b option) \<Rightarrow> (id_adapter \<Rightarrow> 'b option) \<Rightarrow> value_accessor \<Rightarrow> 'b option" where
  "InvokeOnValueAccessorMaybeTupleIdSequenceAdapter f g accessor =
     (if isTupleIdSequenceAdapter accessor then (case accessor of IdSequence acc \<Rightarrow> g acc | _ \<Rightarrow> None)
      else (case accessor of Plain acc \<Rightarrow> f acc | _ \<Rightarrow> None))"

definition va_beginIteration :: "value_accessor \<Rightarrow> value_accessor" where
  "va_beginIteration = InvokeOnAnyValueAccessor (\<lambda>acc. Plain (plain_beginIteration acc))
     (\<lambda>acc. IdSequence (ia_beginIteration acc)) (\<lambda>acc. Ordered (oa_beginIteration acc))"

definition va_iterationFinished :: "value_accessor \<Rightarrow> bool" where
  "va_iterationFinished = InvokeOnAnyValueAccessor plain_iterationFinished ia_iterationFinished oa_iterationFinished"

definition va_next :: "value_accessor \<Rightarrow> bool \<times> value_accessor" where
  "va_next = InvokeOnAnyValueAccessor (\<lambda>acc. map_prod (\<lambda>b. b) Plain (plain_next acc))
     (\<lambda>acc. map_prod (\<lambda>b. b) IdSequence (ia_next acc)) (\<lambda>acc. map_prod (\<lambda>b. b) Ordered (oa_next acc))"

definition va_getCurrentPosition :: "value_accessor \<Rightarrow> tuple_id" where
  "va_getCurrentPosition = InvokeOnAnyValueAccessor plain_getCurrentPosition ia_getCurrentPosition oa_getCurrentPosition"

definition va_getEndPosition :: "value_accessor \<Rightarrow> tuple_id" where
  "va_getEndPosition = InvokeOnAnyValueAccessor plain_getEndPosition ia_getEndPosition oa_getEndPosition"

definition va_getNumTuples :: "value_accessor \<Rightarrow> tuple_id" where
  "va_getNumTuples = InvokeOnAnyValueAccessor plain_getEndPosition ia_getNumTuples oa_getNumTuples"

text \<open>The values of the current tuple. The adapters ask the accessor they adapt for those at their position.\<close>

definition va_getUntypedValue :: "bool \<Rightarrow> heap \<Rightarrow> value_accessor \<Rightarrow> attribute_id \<Rightarrow> data_ptr" where
  "va_getUntypedValue check_null h accessor attr_id =
     InvokeOnAnyValueAccessor
       (\<lambda>acc. plain_getUntypedValueAt check_null h acc attr_id (plain_getCurrentPosition acc))
       (\<lambda>acc. plain_getUntypedValueAt check_null h (ia_accessor acc) attr_id (ia_getCurrentPosition acc))
       (\<lambda>acc. plain_getUntypedValueAt check_null h (oa_accessor acc) attr_id (oa_getCurrentPosition acc)) accessor"

definition va_getTypedValue :: "u16 \<Rightarrow> heap \<Rightarrow> value_accessor \<Rightarrow> attribute_id \<Rightarrow> typed_value option" where
  "va_getTypedValue padding h accessor attr_id =
     InvokeOnAnyValueAccessor
       (\<lambda>acc. plain_getTypedValueAt padding h acc attr_id (plain_getCurrentPosition acc))
       (\<lambda>acc. plain_getTypedValueAt padding h (ia_accessor acc) attr_id (ia_getCurrentPosition acc))
       (\<lambda>acc. plain_getTypedValueAt padding h (oa_accessor acc) attr_id (oa_getCurrentPosition acc)) accessor"

text \<open>Values at a position; the ordered adapter gives up with a fatal error, which is \<open>None\<close>.\<close>

definition va_getUntypedValueAtAbsolutePosition ::
  "bool \<Rightarrow> heap \<Rightarrow> value_accessor \<Rightarrow> attribute_id \<Rightarrow> tuple_id \<Rightarrow> data_ptr option" where
  "va_getUntypedValueAtAbsolutePosition check_null h accessor attr_id tid =
     InvokeOnAnyValueAccessor
       (\<lambda>acc. Some (plain_getUntypedValueAt check_null h acc attr_id tid))
       (\<lambda>acc. Some (plain_getUntypedValueAt check_null h (ia_accessor acc) attr_id tid))
       (\<lambda>acc. None) accessor"

definition va_getTypedValueAtAbsolutePosition ::
  "u16 \<Rightarrow> heap \<Rightarrow> value_accessor \<Rightarrow> attribute_id \<Rightarrow> tuple_id \<Rightarrow> typed_value option" where
  "va_getTypedValueAtAbsolutePosition padding h accessor attr_id tid =
     InvokeOnAnyValueAccessor
       (\<lambda>acc. plain_getTypedValueAt padding h acc attr_id tid)
       (\<lambda>acc. plain_getTypedValueAt padding h (ia_accessor acc) attr_id tid)
       (\<lambda>acc. None) accessor"

text \<open>
  The loop \<^verbatim>\<open>while (accessor->next())\<close>: the states of the cursor in which the body runs. \<open>None\<close> is a loop that
  does not return.
\<close>

partial_function (option) visit :: "('s \<Rightarrow> bool \<times> 's) \<Rightarrow> 's \<Rightarrow> 's list option" where
  "visit step s = (let (more, s') = step s
     in if more then Option.bind (visit step s') (\<lambda>ss. Some (s' # ss)) else Some [])"

definition accessor_loop :: "value_accessor \<Rightarrow> value_accessor list option" where
  "accessor_loop accessor = visit va_next (va_beginIteration accessor)"

section \<open>What every accessor promises\<close>

text \<open>
  A cursor has positions still to come, \<open>todo\<close>; \<open>begin\<close> makes them those of the whole collection, \<open>step\<close>
  goes to the first of them, or says that there is none.
\<close>

locale cursor =
  fixes ok :: "'s \<Rightarrow> bool"
    and start :: "'s \<Rightarrow> 's"
    and step :: "'s \<Rightarrow> bool \<times> 's"
    and here :: "'s \<Rightarrow> tuple_id"
    and todo :: "'s \<Rightarrow> tuple_id list"
    and whole :: "'s \<Rightarrow> tuple_id list"
  assumes start_ok: "ok s \<Longrightarrow> ok (start s) \<and> todo (start s) = whole s \<and> whole (start s) = whole s"
    and step_done: "ok s \<Longrightarrow> todo s = [] \<Longrightarrow> \<not> fst (step s)"
    and step_on: "ok s \<Longrightarrow> todo s = t # ts \<Longrightarrow> fst (step s) \<and> ok (snd (step s)) \<and> here (snd (step s)) = t \<and>
      todo (snd (step s)) = ts \<and> whole (snd (step s)) = whole s"
begin

lemma visit_todo:
  assumes "ok s"
  shows "\<exists>ss. visit step s = Some ss \<and> map here ss = todo s \<and> (\<forall>s'\<in>set ss. ok s' \<and> whole s' = whole s)"
  using assms
proof (induction "todo s" arbitrary: s)
  case Nil
  then have "\<not> fst (step s)" using step_done by simp
  then show ?case using Nil by (subst visit.simps) (simp add: case_prod_beta')
next
  case (Cons t ts)
  note on = step_on [OF Cons.prems Cons.hyps(2) [symmetric]]
  then obtain ss where "visit step (snd (step s)) = Some ss" "map here ss = ts"
    "\<forall>s'\<in>set ss. ok s' \<and> whole s' = whole (snd (step s))"
    using Cons.hyps(1) [of "snd (step s)"] by metis
  then show ?case using on Cons.hyps(2) by (subst visit.simps) (auto simp: case_prod_beta')
qed

lemma loop_visits:
  assumes "ok s"
  shows "\<exists>ss. visit step (start s) = Some ss \<and> map here ss = whole s \<and> (\<forall>s'\<in>set ss. ok s' \<and> whole s' = whole s)"
proof -
  note b = start_ok [OF assms]
  have "\<exists>ss. visit step (start s) = Some ss \<and> map here ss = todo (start s) \<and> (\<forall>s'\<in>set ss. ok s' \<and> whole s' = whole (start s))"
    using b by (intro visit_todo) blast
  then show ?thesis using b by simp
qed

end

text \<open>A position that counts up from the largest \<^verbatim>\<open>size_t\<close>, and the elements of a vector it still has to visit.\<close>

definition ahead :: "nat \<Rightarrow> nat \<Rightarrow> nat list" where
  "ahead position n = [(position + 1) mod 2 ^ 64..<n]"

lemma ahead_start [simp]: "ahead size_max n = [0..<n]"
  by (simp add: ahead_def size_max_def)

lemma ahead_Nil: "ahead position n = [] \<longleftrightarrow> n \<le> (position + 1) mod 2 ^ 64"
  by (auto simp: ahead_def)

lemma ahead_Cons:
  assumes "ahead position n = i # is" "n < 2 ^ 63"
  shows "(position + 1) mod 2 ^ 64 = i" "i < n" "ahead i n = is"
proof -
  have i: "(position + 1) mod 2 ^ 64 < n" using assms(1) ahead_Nil [of position n] by force
  have "i # is = (position + 1) mod 2 ^ 64 # [Suc ((position + 1) mod 2 ^ 64)..<n]"
    using assms(1) upt_conv_Cons [OF i] by (simp only: ahead_def)
  then have e: "(position + 1) mod 2 ^ 64 = i" "is = [Suc i..<n]" by (simp_all only: list.inject)
  then show "(position + 1) mod 2 ^ 64 = i" "i < n" using i by simp_all
  then show "ahead i n = is" using e(2) assms(2) by (simp add: ahead_def)
qed


interpretation tuple_vector: cursor "\<lambda>acc. length (vector_tuples acc) < 2 ^ 31" tv_beginIteration tv_next tv_getCurrentPosition
  "\<lambda>acc. map int (ahead (tv_position acc) (length (vector_tuples acc)))" "\<lambda>acc. map int [0..<length (vector_tuples acc)]"
proof
  fix s :: tuple_vector_accessor and t ts
  assume ok: "length (vector_tuples s) < 2 ^ 31" and "map int (ahead (tv_position s) (length (vector_tuples s))) = t # ts"
  then obtain i "is" where a: "ahead (tv_position s) (length (vector_tuples s)) = i # is" "t = int i" "ts = map int is" by auto
  have "length (vector_tuples s) < 2 ^ 63" using ok by simp
  note c = ahead_Cons [OF a(1) this]
  then show "fst (tv_next s) \<and> length (vector_tuples (snd (tv_next s))) < 2 ^ 31 \<and> tv_getCurrentPosition (snd (tv_next s)) = t \<and>
      map int (ahead (tv_position (snd (tv_next s))) (length (vector_tuples (snd (tv_next s))))) = ts \<and>
      map int [0..<length (vector_tuples (snd (tv_next s)))] = map int [0..<length (vector_tuples s)]"
    using ok a by (simp add: tv_next_def tv_getCurrentPosition_def Let_def)
qed (simp_all add: tv_beginIteration_def tv_next_def Let_def ahead_Nil)

interpretation columns: cursor "\<lambda>acc. column_length acc < 2 ^ 31" cva_beginIteration cva_next cva_getCurrentPosition
  "\<lambda>acc. map int (ahead (cv_position acc) (column_length acc))" "\<lambda>acc. map int [0..<column_length acc]"
proof
  fix s :: column_vectors_accessor and t ts
  assume ok: "column_length s < 2 ^ 31" and "map int (ahead (cv_position s) (column_length s)) = t # ts"
  then obtain i "is" where a: "ahead (cv_position s) (column_length s) = i # is" "t = int i" "ts = map int is" by auto
  have "column_length s < 2 ^ 63" using ok by simp
  note c = ahead_Cons [OF a(1) this]
  then show "fst (cva_next s) \<and> column_length (snd (cva_next s)) < 2 ^ 31 \<and> cva_getCurrentPosition (snd (cva_next s)) = t \<and>
      map int (ahead (cv_position (snd (cva_next s))) (column_length (snd (cva_next s)))) = ts \<and>
      map int [0..<column_length (snd (cva_next s))] = map int [0..<column_length s]"
    using ok a by (simp add: cva_next_def cva_getCurrentPosition_def Let_def)
qed (simp_all add: cva_beginIteration_def cva_next_def Let_def ahead_Nil)

text \<open>The vector of an ordered adapter ends one past its last element, where \<open>next\<close> tests for equality.\<close>

interpretation ordered: cursor "\<lambda>acc. length (oa_sequence acc) < 2 ^ 63 \<and> (oa_position acc + 1) mod 2 ^ 64 \<le> length (oa_sequence acc)"
  oa_beginIteration oa_next oa_getCurrentPosition
  "\<lambda>acc. map ((!) (oa_sequence acc)) (ahead (oa_position acc) (length (oa_sequence acc)))" oa_sequence
proof
  fix s :: ordered_adapter
  assume ok: "length (oa_sequence s) < 2 ^ 63 \<and> (oa_position s + 1) mod 2 ^ 64 \<le> length (oa_sequence s)"
  then show "(length (oa_sequence (oa_beginIteration s)) < 2 ^ 63 \<and>
      (oa_position (oa_beginIteration s) + 1) mod 2 ^ 64 \<le> length (oa_sequence (oa_beginIteration s))) \<and>
      map ((!) (oa_sequence (oa_beginIteration s))) (ahead (oa_position (oa_beginIteration s)) (length (oa_sequence (oa_beginIteration s)))) =
        oa_sequence s \<and> oa_sequence (oa_beginIteration s) = oa_sequence s"
    by (simp add: oa_beginIteration_def map_nth) (simp add: size_max_def)
  show "\<not> fst (oa_next s)" if "map ((!) (oa_sequence s)) (ahead (oa_position s) (length (oa_sequence s))) = []"
    using that ok ahead_Nil [of "oa_position s" "length (oa_sequence s)"] by (simp add: oa_next_def Let_def)
  fix t ts assume "map ((!) (oa_sequence s)) (ahead (oa_position s) (length (oa_sequence s))) = t # ts"
  then obtain i "is" where a: "ahead (oa_position s) (length (oa_sequence s)) = i # is" "t = oa_sequence s ! i"
    "ts = map ((!) (oa_sequence s)) is" by auto
  note c = ahead_Cons [OF a(1) conjunct1 [OF ok]]
  then show "fst (oa_next s) \<and> (length (oa_sequence (snd (oa_next s))) < 2 ^ 63 \<and>
      (oa_position (snd (oa_next s)) + 1) mod 2 ^ 64 \<le> length (oa_sequence (snd (oa_next s)))) \<and>
      oa_getCurrentPosition (snd (oa_next s)) = t \<and>
      map ((!) (oa_sequence (snd (oa_next s)))) (ahead (oa_position (snd (oa_next s))) (length (oa_sequence (snd (oa_next s))))) = ts \<and>
      oa_sequence (snd (oa_next s)) = oa_sequence s"
    using ok a by (simp add: oa_next_def oa_getCurrentPosition_def Let_def)
qed

text \<open>The adapter of a sequence: the members beyond its position.\<close>

definition members_ahead :: "bitvector \<Rightarrow> nat \<Rightarrow> nat list" where
  "members_ahead bv position = filter (getBit bv) (ahead position (num_bits bv))"

lemma iter_inc_ahead:
  assumes "bv_inv bv"
  shows "iter_inc bv position = (case members_ahead bv position of [] \<Rightarrow> num_bits bv | i # is \<Rightarrow> i)"
    and "members_ahead bv position = i # is \<Longrightarrow> i < num_bits bv \<and> members_ahead bv i = is"
proof -
  let ?n = "num_bits bv" and ?p = "(position + 1) mod 2 ^ 64"
  have n: "?n < 2 ^ 63" using assms by (simp add: bv_inv_def bv_wf_def)
  have f: "members_ahead bv position =
      (if first_from (getBit bv) ?p ?n < ?n then first_from (getBit bv) ?p ?n # filter (getBit bv) [Suc (first_from (getBit bv) ?p ?n)..<?n] else [])"
    if "?p \<le> ?n"
    unfolding members_ahead_def ahead_def by (rule filter_upt_first_from [OF that])
  have i: "iter_inc bv position = (if ?p < ?n then first_from (getBit bv) ?p ?n else ?n)"
    using assms by (simp add: iter_inc_def Let_def firstOne_first)
  show "iter_inc bv position = (case members_ahead bv position of [] \<Rightarrow> num_bits bv | i # is \<Rightarrow> i)"
  proof (cases "?p < ?n")
    case True
    then show ?thesis using f i first_from_spec(2) [of ?p ?n "getBit bv"] by (auto simp: less_le)
  next
    case False
    then have "members_ahead bv position = []" by (simp add: members_ahead_def ahead_def)
    then show ?thesis using i False by simp
  qed
  show "i < ?n \<and> members_ahead bv i = is" if m: "members_ahead bv position = i # is"
  proof -
    have "?p < ?n" using m by (cases "?p < ?n") (simp_all add: members_ahead_def ahead_def)
    then have "i = first_from (getBit bv) ?p ?n" "i < ?n" "is = filter (getBit bv) [Suc i..<?n]"
      using f m by (auto split: if_splits)
    then show ?thesis using n by (simp add: members_ahead_def ahead_def)
  qed
qed

lemma members_all: "tis_inv s \<Longrightarrow> map size_to_tid (filter (getBit (internal_bitvector s)) [0..<num_bits (internal_bitvector s)]) = tis_tuples s"
  using iter_loop_begin [of "internal_bitvector s"] by (simp add: tis_tuples_def tis_inv_bv)

interpretation id_sequence: cursor "\<lambda>acc. tis_inv (ia_sequence acc)" ia_beginIteration ia_next ia_getCurrentPosition
  "\<lambda>acc. map size_to_tid (members_ahead (internal_bitvector (ia_sequence acc)) (ia_position acc))" "\<lambda>acc. tis_tuples (ia_sequence acc)"
proof
  fix s :: id_adapter
  assume ok: "tis_inv (ia_sequence s)"
  have b: "bv_inv (internal_bitvector (ia_sequence s))" using ok ..
  show "tis_inv (ia_sequence (ia_beginIteration s)) \<and>
      map size_to_tid (members_ahead (internal_bitvector (ia_sequence (ia_beginIteration s))) (ia_position (ia_beginIteration s))) =
        tis_tuples (ia_sequence s) \<and> tis_tuples (ia_sequence (ia_beginIteration s)) = tis_tuples (ia_sequence s)"
    using ok members_all by (simp add: ia_beginIteration_def iter_before_begin_def members_ahead_def)
  show "\<not> fst (ia_next s)" if "map size_to_tid (members_ahead (internal_bitvector (ia_sequence s)) (ia_position s)) = []"
    using that iter_inc_ahead(1) [OF b, of "ia_position s"] by (simp add: ia_next_def Let_def iter_end_def)
  fix t ts assume "map size_to_tid (members_ahead (internal_bitvector (ia_sequence s)) (ia_position s)) = t # ts"
  then obtain i "is" where a: "members_ahead (internal_bitvector (ia_sequence s)) (ia_position s) = i # is" "t = size_to_tid i"
    "ts = map size_to_tid is" by auto
  show "fst (ia_next s) \<and> tis_inv (ia_sequence (snd (ia_next s))) \<and> ia_getCurrentPosition (snd (ia_next s)) = t \<and>
      map size_to_tid (members_ahead (internal_bitvector (ia_sequence (snd (ia_next s)))) (ia_position (snd (ia_next s)))) = ts \<and>
      tis_tuples (ia_sequence (snd (ia_next s))) = tis_tuples (ia_sequence s)"
    using iter_inc_ahead [OF b, of "ia_position s"] a ok
    by (simp add: ia_next_def Let_def iter_end_def ia_getCurrentPosition_def iter_deref_def)
qed

section \<open>The loops over any accessor\<close>

fun va_ok :: "value_accessor \<Rightarrow> bool" where
  "va_ok (Plain (TupleVector acc)) \<longleftrightarrow> length (vector_tuples acc) < 2 ^ 31"
| "va_ok (Plain (ColumnVectors acc)) \<longleftrightarrow> column_length acc < 2 ^ 31"
| "va_ok (IdSequence acc) \<longleftrightarrow> tis_inv (ia_sequence acc)"
| "va_ok (Ordered acc) \<longleftrightarrow> length (oa_sequence acc) < 2 ^ 31 \<and> (oa_position acc + 1) mod 2 ^ 64 \<le> length (oa_sequence acc)"

fun va_positions :: "value_accessor \<Rightarrow> tuple_id list" where
  "va_positions (Plain (TupleVector acc)) = map int [0..<length (vector_tuples acc)]"
| "va_positions (Plain (ColumnVectors acc)) = map int [0..<column_length acc]"
| "va_positions (IdSequence acc) = tis_tuples (ia_sequence acc)"
| "va_positions (Ordered acc) = oa_sequence acc"

fun va_ahead :: "value_accessor \<Rightarrow> tuple_id list" where
  "va_ahead (Plain (TupleVector acc)) = map int (ahead (tv_position acc) (length (vector_tuples acc)))"
| "va_ahead (Plain (ColumnVectors acc)) = map int (ahead (cv_position acc) (column_length acc))"
| "va_ahead (IdSequence acc) = map size_to_tid (members_ahead (internal_bitvector (ia_sequence acc)) (ia_position acc))"
| "va_ahead (Ordered acc) = map ((!) (oa_sequence acc)) (ahead (oa_position acc) (length (oa_sequence acc)))"

lemmas va_defs = va_beginIteration_def va_next_def va_getCurrentPosition_def InvokeOnAnyValueAccessor_def

lemma va_ok_ordered: "va_ok (Ordered acc) \<Longrightarrow> length (oa_sequence acc) < 2 ^ 63 \<and> (oa_position acc + 1) mod 2 ^ 64 \<le> length (oa_sequence acc)"
  by simp

lemma va_kinds:
  obtains (tuples) acc where "a = Plain (TupleVector acc)" | (columns) acc where "a = Plain (ColumnVectors acc)"
    | (ids) acc where "a = IdSequence acc" | (ordered) acc where "a = Ordered acc"
  by (cases a rule: va_ok.cases) auto

interpretation any: cursor va_ok va_beginIteration va_next va_getCurrentPosition va_ahead va_positions
proof
  fix s assume ok: "va_ok s"
  show "va_ok (va_beginIteration s) \<and> va_ahead (va_beginIteration s) = va_positions s \<and> va_positions (va_beginIteration s) = va_positions s"
  proof (cases s rule: va_kinds)
    case (ordered acc)
    then have "length (oa_sequence (oa_beginIteration acc)) = length (oa_sequence acc)" by (simp add: oa_beginIteration_def)
    then show ?thesis using ordered.start_ok [OF va_ok_ordered [OF ok [unfolded ordered]]] ok ordered by (auto simp: va_defs)
  qed (use ok tuple_vector.start_ok columns.start_ok id_sequence.start_ok in \<open>simp_all add: va_defs\<close>)
  show "\<not> fst (va_next s)" if "va_ahead s = []"
  proof (cases s rule: va_kinds)
    case (ordered acc)
    then show ?thesis using ordered.step_done [OF va_ok_ordered [OF ok [unfolded ordered]]] that by (simp add: va_defs)
  qed (use ok that tuple_vector.step_done columns.step_done id_sequence.step_done in \<open>simp_all add: va_defs\<close>)
  fix t ts assume a: "va_ahead s = t # ts"
  show "fst (va_next s) \<and> va_ok (snd (va_next s)) \<and> va_getCurrentPosition (snd (va_next s)) = t \<and> va_ahead (snd (va_next s)) = ts \<and>
      va_positions (snd (va_next s)) = va_positions s"
  proof (cases s rule: va_kinds)
    case (tuples acc)
    then show ?thesis using tuple_vector.step_on [of acc t ts] ok a by (simp add: va_defs)
  next
    case (columns acc)
    then show ?thesis using columns.step_on [of acc t ts] ok a by (simp add: va_defs)
  next
    case (ids acc)
    then show ?thesis using id_sequence.step_on [of acc t ts] ok a by (simp add: va_defs)
  next
    case (ordered acc)
    have "length (oa_sequence (snd (oa_next acc))) = length (oa_sequence acc)" by (simp add: oa_next_def Let_def)
    then show ?thesis using ordered.step_on [OF va_ok_ordered [OF ok [unfolded ordered]], of t ts] ok a ordered by (auto simp: va_defs)
  qed
qed

text \<open>The loop moves the cursor and changes nothing else.\<close>

lemma visit_keeps:
  assumes "\<And>s. g (snd (step s)) = g s"
  shows "visit step s = Some ss \<Longrightarrow> s' \<in> set ss \<Longrightarrow> g s' = g s"
proof (induction ss arbitrary: s)
  case (Cons s1 ss)
  have "snd (step s) = s1" "visit step s1 = Some ss"
    using Cons.prems(1) by (subst (asm) visit.simps; auto simp: case_prod_beta' Let_def split: if_splits bind_splits)+
  then show ?case using Cons assms [of s] by auto
qed simp

lemma next_rewinds: "va_beginIteration (snd (va_next s)) = va_beginIteration s"
  by (cases s rule: va_kinds)
    (simp_all add: va_defs tv_next_def cva_next_def ia_next_def oa_next_def tv_beginIteration_def cva_beginIteration_def
      ia_beginIteration_def oa_beginIteration_def Let_def)

lemma rewound_values:
  "va_getUntypedValueAtAbsolutePosition cn h (va_beginIteration s) attr t = va_getUntypedValueAtAbsolutePosition cn h s attr t"
  by (cases s rule: va_kinds)
    (simp_all add: va_defs va_getUntypedValueAtAbsolutePosition_def tv_beginIteration_def cva_beginIteration_def
      ia_beginIteration_def oa_beginIteration_def tv_getUntypedValueAtAbsolutePosition_def cva_getUntypedValueAtAbsolutePosition_def)

lemma value_here:
  "\<not> isOrderedTupleIdSequenceAdapter s \<Longrightarrow>
    va_getUntypedValueAtAbsolutePosition cn h s attr (va_getCurrentPosition s) = Some (va_getUntypedValue cn h s attr)"
  by (cases s) (simp_all add: va_getUntypedValueAtAbsolutePosition_def va_getCurrentPosition_def va_getUntypedValue_def
      InvokeOnAnyValueAccessor_def)

lemma rewound_kind: "isOrderedTupleIdSequenceAdapter (va_beginIteration s) \<longleftrightarrow> isOrderedTupleIdSequenceAdapter s"
  by (cases s) (simp_all add: va_defs)

lemma accessor_loop_visits:
  assumes "va_ok acc"
  shows "\<exists>ss. accessor_loop acc = Some ss \<and> map va_getCurrentPosition ss = va_positions acc \<and>
    (\<forall>s\<in>set ss. va_ok s \<and> va_beginIteration s = va_beginIteration acc) \<and>
    (\<not> isOrderedTupleIdSequenceAdapter acc \<longrightarrow> (\<forall>s\<in>set ss. \<forall>cn h attr.
      va_getUntypedValueAtAbsolutePosition cn h acc attr (va_getCurrentPosition s) = Some (va_getUntypedValue cn h s attr)))"
proof -
  obtain ss where ss: "visit va_next (va_beginIteration acc) = Some ss" "map va_getCurrentPosition ss = va_positions acc"
    "\<forall>s\<in>set ss. va_ok s \<and> va_positions s = va_positions acc"
    using any.loop_visits [OF assms] by blast
  have same: "va_beginIteration s = va_beginIteration acc" if "s \<in> set ss" for s
  proof -
    have "va_beginIteration s = va_beginIteration (va_beginIteration acc)"
      by (rule visit_keeps [where g = va_beginIteration, OF next_rewinds ss(1) that])
    moreover have "va_beginIteration (va_beginIteration acc) = va_beginIteration acc"
      by (cases acc rule: va_kinds)
        (simp_all add: va_defs tv_beginIteration_def cva_beginIteration_def ia_beginIteration_def oa_beginIteration_def)
    ultimately show ?thesis by simp
  qed
  have "va_getUntypedValueAtAbsolutePosition cn h acc attr (va_getCurrentPosition s) = Some (va_getUntypedValue cn h s attr)"
    if "s \<in> set ss" "\<not> isOrderedTupleIdSequenceAdapter acc" for s cn h attr
    using value_here [of s cn h attr] same [OF that(1)] rewound_values rewound_kind that(2) by metis
  then show ?thesis using ss same by (intro exI [of _ ss]) (simp add: accessor_loop_def)
qed

lemma rewound_typed:
  "va_getTypedValueAtAbsolutePosition pad h (va_beginIteration s) attr t = va_getTypedValueAtAbsolutePosition pad h s attr t"
  by (cases s rule: va_kinds)
    (simp_all add: va_defs va_getTypedValueAtAbsolutePosition_def tv_beginIteration_def cva_beginIteration_def
      ia_beginIteration_def oa_beginIteration_def tv_getTypedValueAtAbsolutePosition_def cva_getTypedValueAtAbsolutePosition_def)

lemma typed_here:
  "\<not> isOrderedTupleIdSequenceAdapter s \<Longrightarrow>
    va_getTypedValueAtAbsolutePosition pad h s attr (va_getCurrentPosition s) = va_getTypedValue pad h s attr"
  by (cases s) (simp_all add: va_getTypedValueAtAbsolutePosition_def va_getCurrentPosition_def va_getTypedValue_def
      InvokeOnAnyValueAccessor_def)

lemma accessor_loop_typed:
  assumes "va_ok acc" "\<not> isOrderedTupleIdSequenceAdapter acc" "accessor_loop acc = Some ss" "s \<in> set ss"
  shows "va_getTypedValue pad h s attr = va_getTypedValueAtAbsolutePosition pad h acc attr (va_getCurrentPosition s)"
proof -
  have same: "va_beginIteration s = va_beginIteration acc" using accessor_loop_visits [OF assms(1)] assms(3,4) by auto
  then have "\<not> isOrderedTupleIdSequenceAdapter s" using rewound_kind assms(2) by metis
  then show ?thesis using typed_here same rewound_typed by metis
qed

lemma positions_below_end:
  assumes "va_ok acc" "t \<in> set (va_positions acc)"
  shows "t < va_getEndPosition acc"
proof (cases acc rule: va_kinds)
  case (ids a)
  then have "t \<in> int ` tis_slots (ia_sequence a)" "tis_length (ia_sequence a) < 2 ^ 31"
    using assms set_tuples inv_length by auto
  then show ?thesis using ids slots_less
    by (auto simp: va_getEndPosition_def InvokeOnAnyValueAccessor_def ia_getEndPosition_def)
next
  case (ordered a)
  have "t \<le> fold max ts u" if "t \<in> set (u # ts)" for u :: int and t ts
    unfolding Max.set_eq_fold [symmetric] by (rule Max_ge [OF finite_set that])
  then have bound: "t \<le> fold max us u" if "oa_sequence a = u # us" for u us
    using assms(2) ordered that by simp
  have "oa_sequence a \<noteq> []" using assms(2) ordered by auto
  then obtain u us where "oa_sequence a = u # us" by (cases "oa_sequence a") auto
  then show ?thesis using bound ordered by (simp add: va_getEndPosition_def InvokeOnAnyValueAccessor_def oa_getEndPosition_def)
qed (use assms in \<open>auto simp: va_getEndPosition_def InvokeOnAnyValueAccessor_def tv_getEndPosition_def cva_getEndPosition_def\<close>)

text \<open>
  C29: The loop \<^verbatim>\<open>beginIteration(); while (next())\<close> over any accessor returns and visits its positions once, in
  order: all tuples of a vector or of columns, the members of a tuple-ID sequence in increasing order, those
  of an ordered sequence as they come. Each lies below \<^verbatim>\<open>getEndPosition()\<close>, and except for an ordered
  adapter the value read there is the one at that absolute position.
\<close>

theorem accessor_loop_visits_positions:
  assumes "va_ok acc"
  shows "\<exists>ss. accessor_loop acc = Some ss \<and> map va_getCurrentPosition ss = va_positions acc \<and>
    (\<forall>t\<in>set (va_positions acc). t < va_getEndPosition acc) \<and>
    (\<forall>s\<in>set ss. \<not> isOrderedTupleIdSequenceAdapter acc \<longrightarrow>
      va_getUntypedValueAtAbsolutePosition cn h acc attr (va_getCurrentPosition s) = Some (va_getUntypedValue cn h s attr))"
proof -
  obtain ss where "accessor_loop acc = Some ss" "map va_getCurrentPosition ss = va_positions acc"
    "\<not> isOrderedTupleIdSequenceAdapter acc \<longrightarrow> (\<forall>s\<in>set ss. \<forall>cn h attr.
      va_getUntypedValueAtAbsolutePosition cn h acc attr (va_getCurrentPosition s) = Some (va_getUntypedValue cn h s attr))"
    using accessor_loop_visits [OF assms] by blast
  then show ?thesis using positions_below_end [OF assms] by (intro exI [of _ ss]) simp
qed

theorem accessor_loop_visits_positions_witness:
  "\<exists>ss. accessor_loop (Ordered (OrderedTupleIdSequenceAdapter_new (TupleVector TupleVectorValueAccessor_new) [4, 1, 7])) = Some ss \<and>
    map va_getCurrentPosition ss = [4, 1, 7]"
proof -
  let ?a = "Ordered (OrderedTupleIdSequenceAdapter_new (TupleVector TupleVectorValueAccessor_new) [4, 1, 7])"
  have "va_ok ?a" by (simp add: OrderedTupleIdSequenceAdapter_new_def size_max_def)
  then show ?thesis
    using accessor_loop_visits_positions [of ?a] by (auto simp: OrderedTupleIdSequenceAdapter_new_def)
qed

end
