(* ===== verification/VectorComparisons.thy ===== *)
theory VectorComparisons
  imports ValueAccessors
begin

text \<open>
  Comparisons of whole columns and of the tuples of an accessor: the vector functions of
  \<^verbatim>\<open>types/operations/comparisons/LiteralComparators-inl.hpp\<close>, \<^verbatim>\<open>AsciiStringComparators-inl.hpp\<close> and the default
  implementations of \<^verbatim>\<open>Comparison-inl.hpp\<close>. The three families have the same loops; these are defined once over
  the test of one position, and every function says which test and which values it runs them with. The
  compile-time flag \<^verbatim>\<open>short_circuit\<close> is an argument. \<open>None\<close> is undefined behaviour in the test of some position,
  such as the use of a null pointer. The memory of a new result is \<open>garbage\<close> before it is cleared.
\<close>

section \<open>The loops\<close>

text \<open>A sequence of stores \<^verbatim>\<open>result->set(tid, test)\<close>.\<close>

fun set_each :: "(tuple_id \<times> bool option) list \<Rightarrow> tuple_id_sequence \<Rightarrow> tuple_id_sequence option" where
  "set_each [] result = Some result"
| "set_each ((tid, test) # entries) result = do { on \<leftarrow> test; set_each entries (tis_set tid on result) }"

definition intersect_filter :: "tuple_id_sequence option \<Rightarrow> tuple_id_sequence \<Rightarrow> tuple_id_sequence" where
  "intersect_filter flt result = (case flt of None \<Rightarrow> result | Some f \<Rightarrow> tis_intersectWith f result)"

text \<open>
  The loops over a column of \<open>n\<close> values, the \<open>i\<close>-th of which is that of the \<open>i\<close>-th tuple of the existence
  bitmap if there is one. \<open>test i tid\<close> compares; positions that the flt excludes are set to false
  (\<open>clears\<close>) or left. \<open>plain\<close> are the stores of the loop without flt and existence bitmap.
\<close>

definition column_result :: "(nat \<Rightarrow> u64) \<Rightarrow> nat \<Rightarrow> tuple_id_sequence option \<Rightarrow> tuple_id_sequence" where
  "column_result garbage n existence_bitmap =
     TupleIdSequence_new garbage (size_to_tid (case existence_bitmap of None \<Rightarrow> n | Some e \<Rightarrow> tis_length e))"

definition column_loops ::
  "bool \<Rightarrow> bool \<Rightarrow> tuple_id_sequence option \<Rightarrow> tuple_id_sequence option \<Rightarrow> nat \<Rightarrow> (nat \<Rightarrow> tuple_id \<Rightarrow> bool option) \<Rightarrow>
   (tuple_id \<times> bool option) list option \<Rightarrow> tuple_id_sequence \<Rightarrow> tuple_id_sequence option" where
  "column_loops short_circuit clears flt existence_bitmap n test plain result =
     (case (if short_circuit then flt else None) of
        Some f \<Rightarrow>
          (case existence_bitmap of
             Some e \<Rightarrow>
               set_each
                 (if clears then map (\<lambda>(i, t). (t, if tis_get f t then test i t else Some False)) (zip [0..<n] (tis_tuples e))
                  else map (\<lambda>(i, t). (t, test i t)) (filter (\<lambda>(i, t). tis_get f t) (zip [0..<n] (tis_tuples e)))) result
           | None \<Rightarrow> set_each (map (\<lambda>t. (t, test (nat t) t)) (tis_tuples f)) result)
      | None \<Rightarrow> do {
          result \<leftarrow> (case existence_bitmap of
                      Some e \<Rightarrow> set_each (map (\<lambda>(i, t). (t, test i t)) (zip [0..<n] (tis_tuples e))) result
                    | None \<Rightarrow> do { entries \<leftarrow> plain; set_each entries result });
          Some (if short_circuit then result else intersect_filter flt result)
        })"

text \<open>The stores of \<^verbatim>\<open>for (pos = 0; pos < n; ++pos) result->set(pos, ...)\<close>.\<close>

definition plain_entries :: "nat \<Rightarrow> (nat \<Rightarrow> tuple_id \<Rightarrow> bool option) \<Rightarrow> (tuple_id \<times> bool option) list" where
  "plain_entries n test = map (\<lambda>pos. (size_to_tid pos, test pos (size_to_tid pos))) [0..<n]"

text \<open>The loops over the tuples of an accessor.\<close>

definition accessor_loops ::
  "bool \<Rightarrow> tuple_id_sequence option \<Rightarrow> value_accessor \<Rightarrow> (tuple_id \<Rightarrow> bool option) \<Rightarrow> (value_accessor \<Rightarrow> bool option) \<Rightarrow>
   tuple_id_sequence \<Rightarrow> tuple_id_sequence option" where
  "accessor_loops short_circuit flt accessor test_at test_here result =
     (case (if short_circuit then flt else None) of
        Some f \<Rightarrow> set_each (map (\<lambda>t. (t, test_at t)) (tis_tuples f)) result
      | None \<Rightarrow> do {
          cursors \<leftarrow> accessor_loop accessor;
          result \<leftarrow> set_each (map (\<lambda>a. (va_getCurrentPosition a, test_here a)) cursors) result;
          Some (if short_circuit then result else intersect_filter flt result)
        })"

section \<open>Two columns\<close>

definition Literal_compareColumnVectors ::
  "bool \<Rightarrow> (nat \<Rightarrow> u64) \<Rightarrow> heap \<Rightarrow> comparator \<Rightarrow> column_vector \<Rightarrow> column_vector \<Rightarrow> tuple_id_sequence option \<Rightarrow>
   tuple_id_sequence option \<Rightarrow> tuple_id_sequence option" where
  "Literal_compareColumnVectors short_circuit garbage h c left right flt existence_bitmap =
     (let left_native = as_native left; right_native = as_native right; n = native_size left_native;
          test = (\<lambda>i t. compareDataPtrs c (native_getUntypedValue (left_nullable c) h left_native i)
                                         (native_getUntypedValue (right_nullable c) h right_native i))
      in column_loops short_circuit True flt existence_bitmap n test (Some (plain_entries n test)) (column_result garbage n existence_bitmap))"

definition AsciiString_compareColumnVectors ::
  "bool \<Rightarrow> (nat \<Rightarrow> u64) \<Rightarrow> heap \<Rightarrow> comparator \<Rightarrow> column_vector \<Rightarrow> column_vector \<Rightarrow> tuple_id_sequence option \<Rightarrow>
   tuple_id_sequence option \<Rightarrow> tuple_id_sequence option" where
  "AsciiString_compareColumnVectors short_circuit garbage h c left right flt existence_bitmap =
     (let n = cv_size left;
          test = (\<lambda>i t. compareDataPtrs c (cv_getUntypedValue (left_nullable c) h left i) (cv_getUntypedValue (right_nullable c) h right i))
      in column_loops short_circuit True flt existence_bitmap n test (Some (plain_entries n test)) (column_result garbage n existence_bitmap))"

definition compareColumnVectorsDefaultImpl ::
  "bool \<Rightarrow> bool \<Rightarrow> bool \<Rightarrow> (nat \<Rightarrow> u64) \<Rightarrow> heap \<Rightarrow> comparator \<Rightarrow> column_vector \<Rightarrow> column_vector \<Rightarrow> tuple_id_sequence option \<Rightarrow>
   tuple_id_sequence option \<Rightarrow> tuple_id_sequence option" where
  "compareColumnVectorsDefaultImpl ln rn short_circuit garbage h c left right flt existence_bitmap =
     (let n = cv_size left;
          test = (\<lambda>i t. compareDataPtrs c (cv_getUntypedValue ln h left i) (cv_getUntypedValue rn h right i))
      in column_loops short_circuit True flt existence_bitmap n test (Some (plain_entries n test)) (column_result garbage n existence_bitmap))"

section \<open>A column and a static value\<close>

text \<open>
  The tests of one side being static: a null item is rejected, then the helper compares without looking for
  nulls. A literal is copied out of the value first and compared through its address.
\<close>

definition item_with_static :: "comparator \<Rightarrow> bool \<Rightarrow> bool \<Rightarrow> data_ptr \<Rightarrow> data_ptr \<Rightarrow> bool option" where
  "item_with_static c item_nullable item_on_left item static =
     (if item_nullable \<and> item = None then Some False else compareDataPtrsHelper c item_on_left item static)"

fun static_literal :: "comparator \<Rightarrow> bool \<Rightarrow> typed_value \<Rightarrow> data_ptr" where
  "static_literal (LiteralUncheckedComparator _ lt _ rt _) on_right v = Some (word_bytes (cpp_size (if on_right then rt else lt)) (value_union v))"
| "static_literal _ _ _ = None"

definition Literal_compareColumnVectorAndStaticValueHelper ::
  "bool \<Rightarrow> bool \<Rightarrow> (nat \<Rightarrow> u64) \<Rightarrow> comparator \<Rightarrow> heap \<Rightarrow> column_vector \<Rightarrow> typed_value \<Rightarrow> tuple_id_sequence option \<Rightarrow>
   tuple_id_sequence option \<Rightarrow> tuple_id_sequence option" where
  "Literal_compareColumnVectorAndStaticValueHelper column_vector_on_left short_circuit garbage c h column_vector static_value flt
     existence_bitmap =
     (let cv_nullable = (if column_vector_on_left then left_nullable c else right_nullable c);
          static_value_nullable = (if column_vector_on_left then right_nullable c else left_nullable c);
          native_column_vector = as_native column_vector; n = native_size native_column_vector;
          result = column_result garbage n existence_bitmap
      in if static_value_nullable \<and> isNull static_value then Some result
         else
           let literal = static_literal c column_vector_on_left static_value;
               test = (\<lambda>i t. item_with_static c cv_nullable column_vector_on_left (native_getUntypedValue cv_nullable h native_column_vector i) literal)
           in column_loops short_circuit False flt existence_bitmap n test (Some (plain_entries n test)) result)"

definition AsciiString_compareColumnVectorAndStaticValueHelper ::
  "bool \<Rightarrow> bool \<Rightarrow> (nat \<Rightarrow> u64) \<Rightarrow> comparator \<Rightarrow> heap \<Rightarrow> column_vector \<Rightarrow> typed_value \<Rightarrow> tuple_id_sequence option \<Rightarrow>
   tuple_id_sequence option \<Rightarrow> tuple_id_sequence option" where
  "AsciiString_compareColumnVectorAndStaticValueHelper column_vector_on_left short_circuit garbage c h column_vector static_value flt
     existence_bitmap =
     (let cv_nullable = (if column_vector_on_left then left_nullable c else right_nullable c);
          static_value_nullable = (if column_vector_on_left then right_nullable c else left_nullable c);
          n = cv_size column_vector;
          result = column_result garbage n existence_bitmap
      in if static_value_nullable \<and> isNull static_value then Some result
         else
           let static_string = Some (getDataPtr h static_value);
               test = (\<lambda>i t. item_with_static c cv_nullable column_vector_on_left (cv_getUntypedValue cv_nullable h column_vector i) static_string)
           in column_loops short_circuit False flt existence_bitmap n test (Some (plain_entries n test)) result)"

definition compareColumnVectorAndStaticValueDefaultImpl ::
  "bool \<Rightarrow> bool \<Rightarrow> bool \<Rightarrow> (nat \<Rightarrow> u64) \<Rightarrow> comparator \<Rightarrow> heap \<Rightarrow> column_vector \<Rightarrow> typed_value \<Rightarrow> tuple_id_sequence option \<Rightarrow>
   tuple_id_sequence option \<Rightarrow> tuple_id_sequence option" where
  "compareColumnVectorAndStaticValueDefaultImpl ln rn short_circuit garbage c h left right flt existence_bitmap =
     (let n = cv_size left; result = column_result garbage n existence_bitmap
      in if rn \<and> isNull right then Some result
         else
           let test = (\<lambda>i t. compareDataPtrWithTypedValue h c (cv_getUntypedValue ln h left i) right)
           in column_loops short_circuit True flt existence_bitmap n test (Some (plain_entries n test)) result)"

definition compareStaticValueAndColumnVectorDefaultImpl ::
  "bool \<Rightarrow> bool \<Rightarrow> bool \<Rightarrow> (nat \<Rightarrow> u64) \<Rightarrow> comparator \<Rightarrow> heap \<Rightarrow> typed_value \<Rightarrow> column_vector \<Rightarrow> tuple_id_sequence option \<Rightarrow>
   tuple_id_sequence option \<Rightarrow> tuple_id_sequence option" where
  "compareStaticValueAndColumnVectorDefaultImpl ln rn short_circuit garbage c h left right flt existence_bitmap =
     (let n = cv_size right; result = column_result garbage n existence_bitmap
      in if ln \<and> isNull left then Some result
         else
           let test = (\<lambda>i t. compareTypedValueWithDataPtr h c left (cv_getUntypedValue rn h right i))
           in column_loops short_circuit True flt existence_bitmap n test (Some (plain_entries n test)) result)"

section \<open>The attributes of an accessor\<close>

text \<open>The accessor may be an adapter of a tuple-ID sequence, but not of an ordered one: that cast is undefined.\<close>

definition on_accessor :: "value_accessor \<Rightarrow> 'a option \<Rightarrow> 'a option" where
  "on_accessor accessor r = (if isOrderedTupleIdSequenceAdapter accessor then None else r)"

definition value_at :: "bool \<Rightarrow> heap \<Rightarrow> value_accessor \<Rightarrow> attribute_id \<Rightarrow> tuple_id \<Rightarrow> data_ptr" where
  "value_at check_null h accessor attr_id tid = the (va_getUntypedValueAtAbsolutePosition check_null h accessor attr_id tid)"

text \<open>The test of two items that are both looked at for nulls first.\<close>

definition both_items :: "comparator \<Rightarrow> bool \<Rightarrow> bool \<Rightarrow> bool \<Rightarrow> data_ptr \<Rightarrow> data_ptr \<Rightarrow> bool option" where
  "both_items c in_order first_nullable second_nullable l r =
     (if \<not> ((first_nullable \<and> l = None) \<or> (second_nullable \<and> r = None)) then compareDataPtrsHelper c in_order l r else Some False)"

definition Literal_compareSingleValueAccessor ::
  "bool \<Rightarrow> (nat \<Rightarrow> u64) \<Rightarrow> comparator \<Rightarrow> heap \<Rightarrow> value_accessor \<Rightarrow> attribute_id \<Rightarrow> attribute_id \<Rightarrow> tuple_id_sequence option \<Rightarrow>
   tuple_id_sequence option" where
  "Literal_compareSingleValueAccessor short_circuit garbage c h accessor left_id right_id flt =
     on_accessor accessor
       (let ln = left_nullable c; rn = right_nullable c
        in accessor_loops short_circuit flt accessor
             (\<lambda>t. both_items c True ln rn (value_at ln h accessor left_id t) (value_at rn h accessor right_id t))
             (\<lambda>a. both_items c True ln rn (va_getUntypedValue ln h a left_id) (va_getUntypedValue rn h a right_id))
             (TupleIdSequence_new garbage (va_getEndPosition accessor)))"

text \<open>
  In the class for strings the loop over all tuples has a parenthesis in another place: the negation covers the
  null check of the left item only.
\<close>

definition misplaced_check :: "comparator \<Rightarrow> data_ptr \<Rightarrow> data_ptr \<Rightarrow> bool option" where
  "misplaced_check c l r =
     (if \<not> (left_nullable c \<and> l = None) \<or> (right_nullable c \<and> r = None) then compareDataPtrsHelper c True l r else Some False)"

definition AsciiString_compareSingleValueAccessor ::
  "bool \<Rightarrow> (nat \<Rightarrow> u64) \<Rightarrow> comparator \<Rightarrow> heap \<Rightarrow> value_accessor \<Rightarrow> attribute_id \<Rightarrow> attribute_id \<Rightarrow> tuple_id_sequence option \<Rightarrow>
   tuple_id_sequence option" where
  "AsciiString_compareSingleValueAccessor short_circuit garbage c h accessor left_id right_id flt =
     on_accessor accessor
       (let ln = left_nullable c; rn = right_nullable c
        in accessor_loops short_circuit flt accessor
             (\<lambda>t. both_items c True ln rn (value_at ln h accessor left_id t) (value_at rn h accessor right_id t))
             (\<lambda>a. misplaced_check c (va_getUntypedValue ln h a left_id) (va_getUntypedValue rn h a right_id))
             (TupleIdSequence_new garbage (va_getEndPosition accessor)))"

definition compareSingleValueAccessorDefaultImpl ::
  "bool \<Rightarrow> bool \<Rightarrow> bool \<Rightarrow> (nat \<Rightarrow> u64) \<Rightarrow> comparator \<Rightarrow> heap \<Rightarrow> value_accessor \<Rightarrow> attribute_id \<Rightarrow> attribute_id \<Rightarrow>
   tuple_id_sequence option \<Rightarrow> tuple_id_sequence option" where
  "compareSingleValueAccessorDefaultImpl ln rn short_circuit garbage c h accessor left_id right_id flt =
     on_accessor accessor
       (accessor_loops short_circuit flt accessor
          (\<lambda>t. compareDataPtrs c (value_at ln h accessor left_id t) (value_at rn h accessor right_id t))
          (\<lambda>a. compareDataPtrs c (va_getUntypedValue ln h a left_id) (va_getUntypedValue rn h a right_id))
          (TupleIdSequence_new garbage (va_getEndPosition accessor)))"

definition Literal_compareValueAccessorAndStaticValueHelper ::
  "bool \<Rightarrow> bool \<Rightarrow> (nat \<Rightarrow> u64) \<Rightarrow> comparator \<Rightarrow> heap \<Rightarrow> value_accessor \<Rightarrow> attribute_id \<Rightarrow> typed_value \<Rightarrow> tuple_id_sequence option \<Rightarrow>
   tuple_id_sequence option" where
  "Literal_compareValueAccessorAndStaticValueHelper value_accessor_on_left short_circuit garbage c h accessor attr_id static_value flt =
     on_accessor accessor
       (let va_nullable = (if value_accessor_on_left then left_nullable c else right_nullable c);
            static_value_nullable = (if value_accessor_on_left then right_nullable c else left_nullable c);
            result = TupleIdSequence_new garbage (va_getEndPosition accessor)
        in if static_value_nullable \<and> isNull static_value then Some result
           else
             let literal = static_literal c value_accessor_on_left static_value
             in accessor_loops short_circuit flt accessor
                  (\<lambda>t. item_with_static c va_nullable value_accessor_on_left (value_at va_nullable h accessor attr_id t) literal)
                  (\<lambda>a. item_with_static c va_nullable value_accessor_on_left (va_getUntypedValue va_nullable h a attr_id) literal) result)"

definition AsciiString_compareValueAccessorAndStaticValueHelper ::
  "bool \<Rightarrow> bool \<Rightarrow> (nat \<Rightarrow> u64) \<Rightarrow> comparator \<Rightarrow> heap \<Rightarrow> value_accessor \<Rightarrow> attribute_id \<Rightarrow> typed_value \<Rightarrow> tuple_id_sequence option \<Rightarrow>
   tuple_id_sequence option" where
  "AsciiString_compareValueAccessorAndStaticValueHelper value_accessor_on_left short_circuit garbage c h accessor attr_id static_value flt =
     on_accessor accessor
       (let va_nullable = (if value_accessor_on_left then left_nullable c else right_nullable c);
            static_value_nullable = (if value_accessor_on_left then right_nullable c else left_nullable c);
            result = TupleIdSequence_new garbage (va_getEndPosition accessor)
        in if static_value_nullable \<and> isNull static_value then Some result
           else
             let static_string = Some (getDataPtr h static_value)
             in accessor_loops short_circuit flt accessor
                  (\<lambda>t. item_with_static c va_nullable value_accessor_on_left (value_at va_nullable h accessor attr_id t) static_string)
                  (\<lambda>a. item_with_static c va_nullable value_accessor_on_left (va_getUntypedValue va_nullable h a attr_id) static_string) result)"

definition compareValueAccessorAndStaticValueDefaultImpl ::
  "bool \<Rightarrow> bool \<Rightarrow> bool \<Rightarrow> (nat \<Rightarrow> u64) \<Rightarrow> comparator \<Rightarrow> heap \<Rightarrow> value_accessor \<Rightarrow> attribute_id \<Rightarrow> typed_value \<Rightarrow> tuple_id_sequence option \<Rightarrow>
   tuple_id_sequence option" where
  "compareValueAccessorAndStaticValueDefaultImpl ln rn short_circuit garbage c h left_accessor left_id right flt =
     on_accessor left_accessor
       (let result = TupleIdSequence_new garbage (va_getEndPosition left_accessor)
        in if rn \<and> isNull right then Some result
           else accessor_loops short_circuit flt left_accessor
                  (\<lambda>t. compareDataPtrWithTypedValue h c (value_at ln h left_accessor left_id t) right)
                  (\<lambda>a. compareDataPtrWithTypedValue h c (va_getUntypedValue ln h a left_id) right) result)"

definition compareStaticValueAndValueAccessorDefaultImpl ::
  "bool \<Rightarrow> bool \<Rightarrow> bool \<Rightarrow> (nat \<Rightarrow> u64) \<Rightarrow> comparator \<Rightarrow> heap \<Rightarrow> typed_value \<Rightarrow> value_accessor \<Rightarrow> attribute_id \<Rightarrow> tuple_id_sequence option \<Rightarrow>
   tuple_id_sequence option" where
  "compareStaticValueAndValueAccessorDefaultImpl ln rn short_circuit garbage c h left right_accessor right_id flt =
     on_accessor right_accessor
       (let result = TupleIdSequence_new garbage (va_getEndPosition right_accessor)
        in if ln \<and> isNull left then Some result
           else accessor_loops short_circuit flt right_accessor
                  (\<lambda>t. compareTypedValueWithDataPtr h c left (value_at rn h right_accessor right_id t))
                  (\<lambda>a. compareTypedValueWithDataPtr h c left (va_getUntypedValue rn h a right_id)) result)"

section \<open>A column and an attribute of an accessor\<close>

text \<open>
  Without filter and existence bitmap the accessor is iterated beside the column. The classes for literals and
  strings store at the position in the column, the default implementations at the position of the accessor.
\<close>

definition paired_entries ::
  "(nat \<Rightarrow> value_accessor \<Rightarrow> tuple_id) \<Rightarrow> (nat \<Rightarrow> value_accessor \<Rightarrow> bool option) \<Rightarrow> value_accessor list \<Rightarrow> (tuple_id \<times> bool option) list" where
  "paired_entries position test cursors = map (\<lambda>(cv_pos, a). (position cv_pos a, test cv_pos a)) (zip [0..<length cursors] cursors)"

definition Literal_compareColumnVectorAndValueAccessorHelper ::
  "bool \<Rightarrow> bool \<Rightarrow> (nat \<Rightarrow> u64) \<Rightarrow> comparator \<Rightarrow> heap \<Rightarrow> column_vector \<Rightarrow> value_accessor \<Rightarrow> attribute_id \<Rightarrow> tuple_id_sequence option \<Rightarrow>
   tuple_id_sequence option \<Rightarrow> tuple_id_sequence option" where
  "Literal_compareColumnVectorAndValueAccessorHelper column_vector_on_left short_circuit garbage c h column_vector accessor attr_id flt
     existence_bitmap =
     on_accessor accessor
       (let cv_nullable = (if column_vector_on_left then left_nullable c else right_nullable c);
            va_nullable = (if column_vector_on_left then right_nullable c else left_nullable c);
            native_column_vector = as_native column_vector; n = native_size native_column_vector;
            test = (\<lambda>i va_value. both_items c column_vector_on_left cv_nullable va_nullable
                (native_getUntypedValue cv_nullable h native_column_vector i) va_value)
        in column_loops short_circuit False flt existence_bitmap n (\<lambda>i t. test i (value_at va_nullable h accessor attr_id t))
            (map_option (paired_entries (\<lambda>i a. size_to_tid i) (\<lambda>i a. test i (va_getUntypedValue va_nullable h a attr_id))) (accessor_loop accessor))
            (column_result garbage n existence_bitmap))"

definition AsciiString_compareColumnVectorAndValueAccessorHelper ::
  "bool \<Rightarrow> bool \<Rightarrow> (nat \<Rightarrow> u64) \<Rightarrow> comparator \<Rightarrow> heap \<Rightarrow> column_vector \<Rightarrow> value_accessor \<Rightarrow> attribute_id \<Rightarrow> tuple_id_sequence option \<Rightarrow>
   tuple_id_sequence option \<Rightarrow> tuple_id_sequence option" where
  "AsciiString_compareColumnVectorAndValueAccessorHelper column_vector_on_left short_circuit garbage c h column_vector accessor attr_id flt
     existence_bitmap =
     on_accessor accessor
       (let cv_nullable = (if column_vector_on_left then left_nullable c else right_nullable c);
            va_nullable = (if column_vector_on_left then right_nullable c else left_nullable c);
            n = cv_size column_vector;
            test = (\<lambda>i va_value. both_items c column_vector_on_left cv_nullable va_nullable
                (cv_getUntypedValue cv_nullable h column_vector i) va_value)
        in column_loops short_circuit False flt existence_bitmap n (\<lambda>i t. test i (value_at va_nullable h accessor attr_id t))
            (map_option (paired_entries (\<lambda>i a. size_to_tid i) (\<lambda>i a. test i (va_getUntypedValue va_nullable h a attr_id))) (accessor_loop accessor))
            (column_result garbage n existence_bitmap))"

definition compareColumnVectorAndValueAccessorDefaultImpl ::
  "bool \<Rightarrow> bool \<Rightarrow> bool \<Rightarrow> (nat \<Rightarrow> u64) \<Rightarrow> comparator \<Rightarrow> heap \<Rightarrow> column_vector \<Rightarrow> value_accessor \<Rightarrow> attribute_id \<Rightarrow> tuple_id_sequence option \<Rightarrow>
   tuple_id_sequence option \<Rightarrow> tuple_id_sequence option" where
  "compareColumnVectorAndValueAccessorDefaultImpl ln rn short_circuit garbage c h left right_accessor right_id flt existence_bitmap =
     on_accessor right_accessor
       (let n = cv_size left; test = (\<lambda>i va_value. compareDataPtrs c (cv_getUntypedValue ln h left i) va_value)
        in column_loops short_circuit True flt existence_bitmap n (\<lambda>i t. test i (value_at rn h right_accessor right_id t))
            (map_option (paired_entries (\<lambda>i a. va_getCurrentPosition a) (\<lambda>i a. test i (va_getUntypedValue rn h a right_id))) (accessor_loop right_accessor))
            (column_result garbage n existence_bitmap))"

definition compareValueAccessorAndColumnVectorDefaultImpl ::
  "bool \<Rightarrow> bool \<Rightarrow> bool \<Rightarrow> (nat \<Rightarrow> u64) \<Rightarrow> comparator \<Rightarrow> heap \<Rightarrow> value_accessor \<Rightarrow> attribute_id \<Rightarrow> column_vector \<Rightarrow> tuple_id_sequence option \<Rightarrow>
   tuple_id_sequence option \<Rightarrow> tuple_id_sequence option" where
  "compareValueAccessorAndColumnVectorDefaultImpl ln rn short_circuit garbage c h left_accessor left_id right flt existence_bitmap =
     on_accessor left_accessor
       (let n = cv_size right; test = (\<lambda>i va_value. compareDataPtrs c va_value (cv_getUntypedValue rn h right i))
        in column_loops short_circuit True flt existence_bitmap n (\<lambda>i t. test i (value_at ln h left_accessor left_id t))
            (map_option (paired_entries (\<lambda>i a. va_getCurrentPosition a) (\<lambda>i a. test i (va_getUntypedValue ln h a left_id))) (accessor_loop left_accessor))
            (column_result garbage n existence_bitmap))"

section \<open>Accumulation\<close>

text \<open>
  The value of a column, or of an attribute, that no value after it beats; nulls are skipped. For literals the
  candidate is a pointer. The other classes keep a copy of the candidate; copies that are replaced are freed, and
  the model keeps the value copied.
\<close>

fun accumulate_items :: "comparator \<Rightarrow> data_ptr list \<Rightarrow> data_ptr \<Rightarrow> data_ptr option" where
  "accumulate_items c [] current_literal = Some current_literal"
| "accumulate_items c (item # items) current_literal =
     (if left_nullable c \<and> item = None then accumulate_items c items current_literal
      else if current_literal = None then accumulate_items c items item
      else do {
        better \<leftarrow> compareDataPtrsHelper c True item current_literal;
        accumulate_items c items (if better then item else current_literal)
      })"

fun left_type :: "comparator \<Rightarrow> TypeID" where
  "left_type (LiteralUncheckedComparator _ lt _ _ _) = lt"
| "left_type _ = kNullType"

definition literal_result :: "u16 \<Rightarrow> comparator \<Rightarrow> typed_value \<Rightarrow> data_ptr \<Rightarrow> typed_value option" where
  "literal_result padding c current current_literal =
     (case current_literal of
        Some _ \<Rightarrow> map_option (literal_value padding) (deref (left_type c) current_literal)
      | None \<Rightarrow> Some (TypedValue_null (getTypeID current)))"

definition Literal_accumulateColumnVector ::
  "u16 \<Rightarrow> comparator \<Rightarrow> heap \<Rightarrow> typed_value \<Rightarrow> column_vector \<Rightarrow> typed_value option" where
  "Literal_accumulateColumnVector padding c h current column_vector =
     (let native_vector = as_native column_vector
      in do {
        literal \<leftarrow> accumulate_items c (map (native_getUntypedValue (left_nullable c) h native_vector) [0..<native_size native_vector])
                     (if isNull current then None else Some (getDataPtr h current));
        literal_result padding c current literal
      })"

definition Literal_accumulateValueAccessor ::
  "u16 \<Rightarrow> comparator \<Rightarrow> heap \<Rightarrow> typed_value \<Rightarrow> value_accessor \<Rightarrow> attribute_id \<Rightarrow> typed_value option" where
  "Literal_accumulateValueAccessor padding c h current accessor attr_id =
     on_accessor accessor (do {
       cursors \<leftarrow> accessor_loop accessor;
       literal \<leftarrow> accumulate_items c (map (\<lambda>a. va_getUntypedValue (left_nullable c) h a attr_id) cursors)
                    (if isNull current then None else Some (getDataPtr h current));
       literal_result padding c current literal
     })"

fun accumulate_values :: "bool \<Rightarrow> heap \<Rightarrow> comparator \<Rightarrow> typed_value option list \<Rightarrow> typed_value \<Rightarrow> typed_value option" where
  "accumulate_values value_nullable h c [] accumulated = Some accumulated"
| "accumulate_values value_nullable h c (item # items) accumulated = do {
     value \<leftarrow> item;
     if value_nullable \<and> isNull value then accumulate_values value_nullable h c items accumulated
     else if isNull accumulated then accumulate_values value_nullable h c items value
     else do {
       better \<leftarrow> compareTypedValues h c value accumulated;
       accumulate_values value_nullable h c items (if better then value else accumulated)
     }
   }"

definition AsciiString_accumulateColumnVector ::
  "u16 \<Rightarrow> comparator \<Rightarrow> heap \<Rightarrow> typed_value \<Rightarrow> column_vector \<Rightarrow> typed_value option" where
  "AsciiString_accumulateColumnVector padding c h current column_vector =
     accumulate_values (left_nullable c) h c (map (cv_getTypedValue padding h column_vector) [0..<cv_size column_vector]) current"

definition AsciiString_accumulateValueAccessor ::
  "u16 \<Rightarrow> comparator \<Rightarrow> heap \<Rightarrow> typed_value \<Rightarrow> value_accessor \<Rightarrow> attribute_id \<Rightarrow> typed_value option" where
  "AsciiString_accumulateValueAccessor padding c h current accessor attr_id =
     on_accessor accessor (do {
       cursors \<leftarrow> accessor_loop accessor;
       accumulate_values (left_nullable c) h c (map (\<lambda>a. va_getTypedValue padding h a attr_id) cursors) current
     })"

definition accumulateColumnVectorDefaultImpl ::
  "bool \<Rightarrow> u16 \<Rightarrow> comparator \<Rightarrow> heap \<Rightarrow> typed_value \<Rightarrow> column_vector \<Rightarrow> typed_value option" where
  "accumulateColumnVectorDefaultImpl value_nullable padding c h current column_vector =
     accumulate_values value_nullable h c (map (cv_getTypedValue padding h column_vector) [0..<cv_size column_vector]) current"

definition accumulateValueAccessorDefaultImpl ::
  "bool \<Rightarrow> u16 \<Rightarrow> comparator \<Rightarrow> heap \<Rightarrow> typed_value \<Rightarrow> value_accessor \<Rightarrow> attribute_id \<Rightarrow> typed_value option" where
  "accumulateValueAccessorDefaultImpl value_nullable padding c h current accessor attr_id =
     on_accessor accessor (do {
       cursors \<leftarrow> accessor_loop accessor;
       accumulate_values value_nullable h c (map (\<lambda>a. va_getTypedValue padding h a attr_id) cursors) current
     })"

section \<open>What the loops compute\<close>

definition filter_set :: "tuple_id_sequence option \<Rightarrow> nat set" where
  "filter_set flt = (case flt of None \<Rightarrow> UNIV | Some f \<Rightarrow> tis_slots f)"

text \<open>The tuple a position of a column stands for.\<close>

definition tuple_of :: "tuple_id_sequence option \<Rightarrow> nat \<Rightarrow> nat" where
  "tuple_of existence_bitmap i = (case existence_bitmap of None \<Rightarrow> i | Some e \<Rightarrow> sorted_list_of_set (tis_slots e) ! i)"

definition column_length_of :: "tuple_id_sequence option \<Rightarrow> nat \<Rightarrow> nat" where
  "column_length_of existence_bitmap n = (case existence_bitmap of None \<Rightarrow> n | Some e \<Rightarrow> tis_length e)"

text \<open>What the callers guarantee of the existence bitmap and the filter.\<close>

definition bitmaps_ok :: "tuple_id_sequence option \<Rightarrow> tuple_id_sequence option \<Rightarrow> nat \<Rightarrow> bool" where
  "bitmaps_ok flt existence_bitmap n \<longleftrightarrow> n < 2 ^ 31 \<and>
     (case existence_bitmap of None \<Rightarrow> True | Some e \<Rightarrow> tis_inv e \<and> tis_numTuples e = n) \<and>
     (case flt of None \<Rightarrow> True | Some f \<Rightarrow> tis_inv f \<and> tis_length f = column_length_of existence_bitmap n)"

lemma set_each_fold:
  "set_each (map (\<lambda>p. (int p, Some (P p))) ps) s = Some (fold (\<lambda>p. tis_set (int p) (P p)) ps s)"
  by (induction ps arbitrary: s) simp_all

lemma set_each_slots:
  assumes "tis_inv s" "tis_slots s = {}" "\<And>p. p \<in> set ps \<Longrightarrow> p < tis_length s"
  shows "\<exists>r. set_each (map (\<lambda>p. (int p, Some (P p))) ps) s = Some r \<and> tis_inv r \<and> tis_length r = tis_length s \<and>
    tis_slots r = {p \<in> set ps. P p}"
  using tids.put_loop(1,2) [OF assms(1,3), where P = P] tids.put_loop_empty [OF assms, where P = P]
  by (simp add: set_each_fold)

lemma entries_cong:
  "(\<And>x. x \<in> set xs \<Longrightarrow> f x = (int (g x), Some (P (g x)))) \<Longrightarrow> map f xs = map (\<lambda>p. (int p, Some (P p))) (map g xs)"
  by simp

lemma intersected:
  assumes "tis_inv r" "flt = None \<or> (\<exists>f. flt = Some f \<and> tis_inv f \<and> tis_length f = tis_length r)"
  shows "tis_inv (intersect_filter flt r) \<and> tis_length (intersect_filter flt r) = tis_length r \<and>
    tis_slots (intersect_filter flt r) = tis_slots r \<inter> filter_set flt"
  using assms intersect_inv [OF assms(1)] intersect_slots [OF assms(1)]
  by (auto simp: intersect_filter_def filter_set_def)

lemma tuples_of_existence:
  assumes "tis_inv e" "tis_numTuples e = n"
  shows "zip [0..<n] (tis_tuples e) = map (\<lambda>i. (i, int (tuple_of (Some e) i))) [0..<n]"
    and "i < n \<Longrightarrow> tuple_of (Some e) i < tis_length e" and "inj_on (tuple_of (Some e)) {..<n}"
proof -
  let ?l = "sorted_list_of_set (tis_slots e)"
  have len: "length ?l = n" and card: "card (tis_slots e) = n" using assms numTuples_slots [OF assms(1)] by simp_all
  have "tis_tuples e = map (\<lambda>i. int (?l ! i)) [0..<n]"
    unfolding tuples_sorted [OF assms(1)] by (rule nth_equalityI) (simp_all add: card)
  then show "zip [0..<n] (tis_tuples e) = map (\<lambda>i. (i, int (tuple_of (Some e) i))) [0..<n]"
    by (simp add: tuple_of_def zip_map2 zip_same_conv_map o_def)
  show "i < n \<Longrightarrow> tuple_of (Some e) i < tis_length e"
    using nth_mem [of i ?l] len slots_less [of "?l ! i" e] by (simp add: tuple_of_def)
  show "inj_on (tuple_of (Some e)) {..<n}"
    using len distinct_sorted_list_of_set [of "tis_slots e"] by (auto simp: inj_on_def tuple_of_def nth_eq_iff_index_eq)
qed

lemma new_result:
  assumes "bitmaps_ok flt ex n"
  shows "tis_inv (column_result g n ex) \<and> tis_length (column_result g n ex) = column_length_of ex n \<and> tis_slots (column_result g n ex) = {}"
proof -
  have "column_length_of ex n < 2 ^ 31"
    using assms inv_length by (auto simp: bitmaps_ok_def column_length_of_def split: option.splits)
  moreover have "column_result g n ex = TupleIdSequence_new g (size_to_tid (column_length_of ex n))"
    by (simp add: column_result_def column_length_of_def)
  ultimately show ?thesis using new_inv new_length new_slots by simp
qed

lemma tuple_of_less: "bitmaps_ok flt ex n \<Longrightarrow> i < n \<Longrightarrow> tuple_of ex i < column_length_of ex n"
  using tuples_of_existence(2) by (cases ex) (auto simp: bitmaps_ok_def column_length_of_def tuple_of_def)

lemma tuple_of_inj: "bitmaps_ok flt ex n \<Longrightarrow> inj_on (tuple_of ex) {..<n}"
  using tuples_of_existence(3) by (cases ex) (auto simp: bitmaps_ok_def tuple_of_def inj_on_def)

text \<open>The loops over a column leave exactly the tuples that pass the test and the filter.\<close>

lemma column_loops_slots:
  assumes ok: "bitmaps_ok flt ex n"
    and test: "\<And>i. i < n \<Longrightarrow> test i (int (tuple_of ex i)) = Some (P i)"
    and plain: "ex = None \<Longrightarrow> plain = Some (map (\<lambda>i. (int i, Some (P i))) [0..<n])"
  shows "\<exists>r. column_loops short_circuit clears flt ex n test plain (column_result g n ex) = Some r \<and> tis_inv r \<and>
    tis_length r = column_length_of ex n \<and> tis_slots r = {tuple_of ex i |i. i < n \<and> P i} \<inter> filter_set flt"
proof -
  note new = new_result [OF ok, of g]
  let ?r = "column_result g n ex" and ?Q = "\<lambda>p. \<exists>i<n. tuple_of ex i = p \<and> P i"
  have inj: "tuple_of ex i = tuple_of ex j \<longleftrightarrow> i = j" if "i < n" "j < n" for i j
    using that inj_on_eq_iff [OF tuple_of_inj [OF ok]] by simp
  have Q: "?Q (tuple_of ex i) = P i" if "i < n" for i
    using that inj by metis
  have all: "\<exists>r. set_each (map (\<lambda>i. (int (tuple_of ex i), Some (P i))) [0..<n]) ?r = Some r \<and> tis_inv r \<and>
      tis_length r = column_length_of ex n \<and> tis_slots r = {tuple_of ex i |i. i < n \<and> P i}"
  proof -
    have "map (\<lambda>i. (int (tuple_of ex i), Some (P i))) [0..<n] = map (\<lambda>p. (int p, Some (?Q p))) (map (tuple_of ex) [0..<n])"
      using Q by simp
    moreover have "{p \<in> set (map (tuple_of ex) [0..<n]). ?Q p} = {tuple_of ex i |i. i < n \<and> P i}" by (auto; metis)
    moreover have "\<exists>r. set_each (map (\<lambda>p. (int p, Some (?Q p))) (map (tuple_of ex) [0..<n])) ?r = Some r \<and> tis_inv r \<and>
        tis_length r = tis_length ?r \<and> tis_slots r = {p \<in> set (map (tuple_of ex) [0..<n]). ?Q p}"
      using new tuple_of_less [OF ok] by (intro set_each_slots) auto
    ultimately show ?thesis using new by (simp only:)
  qed
  show ?thesis
  proof (cases "short_circuit \<and> flt \<noteq> None")
    case False
    have "(case ex of Some e \<Rightarrow> set_each (map (\<lambda>(i, t). (t, test i t)) (zip [0..<n] (tis_tuples e))) ?r | None \<Rightarrow> do { entries \<leftarrow> plain; set_each entries ?r }) =
        set_each (map (\<lambda>i. (int (tuple_of ex i), Some (P i))) [0..<n]) ?r"
    proof (cases ex)
      case None
      then show ?thesis using plain by (simp add: tuple_of_def)
    next
      case (Some e)
      then have "tis_inv e" "tis_numTuples e = n" using ok by (simp_all add: bitmaps_ok_def)
      then have "map (\<lambda>(i, t). (t, test i t)) (zip [0..<n] (tis_tuples e)) = map (\<lambda>i. (int (tuple_of ex i), Some (P i))) [0..<n]"
        using tuples_of_existence(1) test Some by simp
      then show ?thesis using Some by simp
    qed
    moreover obtain r where r: "set_each (map (\<lambda>i. (int (tuple_of ex i), Some (P i))) [0..<n]) ?r = Some r" "tis_inv r"
      "tis_length r = column_length_of ex n" "tis_slots r = {tuple_of ex i |i. i < n \<and> P i}" using all by blast
    moreover have "tis_inv (intersect_filter flt r) \<and> tis_length (intersect_filter flt r) = tis_length r \<and>
        tis_slots (intersect_filter flt r) = tis_slots r \<inter> filter_set flt"
      using ok r(3) by (intro intersected [OF r(2)]) (auto simp: bitmaps_ok_def split: option.splits)
    ultimately show ?thesis
      using False by (cases "short_circuit") (auto simp: column_loops_def filter_set_def)
  next
    case True
    then obtain f where f: "flt = Some f" "tis_inv f" "tis_length f = column_length_of ex n" using ok by (auto simp: bitmaps_ok_def)
    show ?thesis
    proof (cases ex)
      case None
      have l: "\<And>p. p \<in> tis_slots f \<Longrightarrow> p < n" using slots_less [of _ f] f(3) None by (simp add: column_length_of_def)
      have "map (\<lambda>t. (t, test (nat t) t)) (tis_tuples f) = map (\<lambda>p. (int p, Some (P p))) (sorted_list_of_set (tis_slots f))"
        using l test None by (simp add: tuples_sorted [OF f(2)] tuple_of_def)
      then show ?thesis
        using set_each_slots [of ?r "sorted_list_of_set (tis_slots f)" P] new l True f(1) None
        by (auto simp: column_loops_def filter_set_def tuple_of_def column_length_of_def)
    next
      case (Some e)
      then have e: "tis_inv e" "tis_numTuples e = n" using ok by (simp_all add: bitmaps_ok_def)
      have get: "tis_get f (int (tuple_of ex i)) \<longleftrightarrow> tuple_of ex i \<in> tis_slots f" if "i < n" for i
        using get_slots [OF _ f(2)] tuple_of_less [OF ok that] f(3) by simp
      let ?ps = "map (tuple_of ex) (if clears then [0..<n] else filter (\<lambda>i. tuple_of ex i \<in> tis_slots f) [0..<n])"
      let ?S = "\<lambda>p. p \<in> tis_slots f \<and> ?Q p"
      have "(if clears then map (\<lambda>(i, t). (t, if tis_get f t then test i t else Some False)) (zip [0..<n] (tis_tuples e))
          else map (\<lambda>(i, t). (t, test i t)) (filter (\<lambda>(i, t). tis_get f t) (zip [0..<n] (tis_tuples e)))) =
          map (\<lambda>p. (int p, Some (?S p))) ?ps"
      proof (cases clears)
        case True
        then show ?thesis using tuples_of_existence(1) [OF e] get test Q Some by auto
      next
        case False
        have "filter (\<lambda>i. tis_get f (int (tuple_of (Some e) i))) [0..<n] = filter (\<lambda>i. tuple_of (Some e) i \<in> tis_slots f) [0..<n]"
          using get Some by (intro filter_cong) auto
        then have "filter (\<lambda>(i, t). tis_get f t) (zip [0..<n] (tis_tuples e)) =
            map (\<lambda>i. (i, int (tuple_of ex i))) (filter (\<lambda>i. tuple_of ex i \<in> tis_slots f) [0..<n])"
          using tuples_of_existence(1) [OF e] Some by (simp add: filter_map o_def)
        then show ?thesis using False test Q by auto
      qed
      moreover have "{p \<in> set ?ps. ?S p} = {tuple_of ex i |i. i < n \<and> P i} \<inter> tis_slots f"
        using Q by (auto split: if_splits; metis)
      moreover have "\<And>p. p \<in> set ?ps \<Longrightarrow> p < tis_length ?r" using tuple_of_less [OF ok] new by (auto split: if_splits)
      ultimately show ?thesis
        using set_each_slots [of ?r ?ps ?S] new True f(1) Some by (simp add: column_loops_def filter_set_def)
    qed
  qed
qed


section \<open>What the tests compute\<close>

definition made_for :: "basic_functor \<Rightarrow> sql_type \<Rightarrow> sql_type \<Rightarrow> comparator \<Rightarrow> bool" where
  "made_for F lt rt c \<longleftrightarrow> canCompareTypes lt rt \<and> (\<exists>cmp. functor_of cmp = Some F \<and> makeUncheckedComparatorForTypes cmp lt rt = Some c)"

lemma made_shape:
  assumes "made_for F lt rt c"
  shows "c = (if type_id lt \<in> {kChar, kVarChar}
     then AsciiStringUncheckedComparator F (nullable lt) (type_id lt = kVarChar) (string_length rt < string_length lt)
       (nullable rt) (type_id rt = kVarChar) (string_length lt < string_length rt) (string_length lt) (string_length rt)
     else LiteralUncheckedComparator F (type_id lt) (nullable lt) (type_id rt) (nullable rt))"
  using assms made_comparator by (auto simp: made_for_def)

lemma made_nullable: "made_for F lt rt c \<Longrightarrow> left_nullable c = nullable lt \<and> right_nullable c = nullable rt"
  by (drule made_shape) simp

lemma made_string: "made_for F lt rt c \<Longrightarrow> type_id lt \<in> {kChar, kVarChar} \<longleftrightarrow> type_id rt \<in> {kChar, kVarChar}"
  using canCompare_string by (auto simp: made_for_def)

lemma made_held: "made_for F lt rt c \<Longrightarrow> item_holds lt dl l \<Longrightarrow> item_holds rt dr r \<Longrightarrow> compareDataPtrs c dl dr = Some (compare_sql F l r)"
  using compare_held by (auto simp: made_for_def)

lemma both_held:
  assumes "made_for F lt rt c" "item_holds lt dl l" "item_holds rt dr r"
  shows "both_items c True (nullable lt) (nullable rt) dl dr = Some (compare_sql F l r)"
    and "both_items c False (nullable rt) (nullable lt) dr dl = Some (compare_sql F l r)"
  using made_held [OF assms] made_nullable [OF assms(1)]
  by (auto simp: both_items_def compareDataPtrs_def compareDataPtrsHelper_def split: if_splits)

text \<open>A static value on one side.\<close>

lemma string_data_ptr: "value_of_type h v t \<Longrightarrow> type_id t \<in> {kChar, kVarChar} \<Longrightarrow> \<not> isNull v \<Longrightarrow> getDataPtr h v = out_of_line_bytes h v"
  using string_facts(8) string_size by (simp add: getDataPtr_def size_bits out_of_line_bytes_def)

lemma literal_data_ptr:
  assumes "value_of_type h v t" "type_id t \<notin> {kChar, kVarChar}" "\<not> isNull v"
  shows "deref (type_id t) (Some (getDataPtr h v)) = Some (getLiteral (type_id t) v)"
    and "item_holds t (Some (word_bytes (cpp_size (type_id t)) (value_union v))) (sql_value_of h v)"
proof -
  obtain pad l where v: "v = literal_value pad l" "literal_type l = type_id t" by (rule literal_facts [OF assms])
  have "cpp_size (type_id t) \<le> 8" by (simp add: cpp_size_def split: TypeID.splits)
  then show "deref (type_id t) (Some (getDataPtr h v)) = Some (getLiteral (type_id t) v)"
    using deref_prefix [of l 8 pad "[]"] getLiteral_value [of l pad] v by (simp add: getDataPtr_def)
  show "item_holds t (Some (word_bytes (cpp_size (type_id t)) (value_union v))) (sql_value_of h v)"
    using literal_held [OF v, of "cpp_size (type_id t)" "[]"] by simp
qed

lemma compare_sql_null [simp]: "\<not> compare_sql F SqlNull r" "\<not> compare_sql F l SqlNull"
  by (cases r; simp) (cases l; simp)

lemma sql_null: "isNull v \<Longrightarrow> sql_value_of h v = SqlNull"
  by (simp add: sql_value_of_def)

lemma static_right:
  assumes "made_for F lt rt c" "item_holds lt d l" "value_of_type h v rt" "\<not> isNull v"
  shows "compareDataPtrWithTypedValue h c d v = Some (compare_sql F l (sql_value_of h v))"
    and "type_id lt \<in> {kChar, kVarChar} \<Longrightarrow>
      item_with_static c (nullable lt) True d (Some (getDataPtr h v)) = Some (compare_sql F l (sql_value_of h v))"
    and "type_id lt \<notin> {kChar, kVarChar} \<Longrightarrow>
      item_with_static c (nullable lt) True d (static_literal c True v) = Some (compare_sql F l (sql_value_of h v))"
proof -
  note held = made_held [OF assms(1,2)] and c = made_shape [OF assms(1)] and null = made_nullable [OF assms(1)]
  note ptr = held [OF data_ptr_held [OF assms(3,4)]]
  show "compareDataPtrWithTypedValue h c d v = Some (compare_sql F l (sql_value_of h v))"
  proof (cases "type_id lt \<in> {kChar, kVarChar}")
    case True
    then show ?thesis
      using ptr c assms(4) string_data_ptr [OF assms(3) _ assms(4)] made_string [OF assms(1)]
      by (auto simp: compareDataPtrs_def split: if_splits)
  next
    case False
    then show ?thesis
      using ptr c assms(4) literal_data_ptr(1) [OF assms(3) _ assms(4)] made_string [OF assms(1)]
      by (auto simp: compareDataPtrs_def split: if_splits)
  qed
  have *: "item_with_static c (nullable lt) True d (Some bs) = Some (compare_sql F l (sql_value_of h v))"
    if "item_holds rt (Some bs) (sql_value_of h v)" for bs
    using held [OF that] null by (auto simp: item_with_static_def compareDataPtrs_def compareDataPtrsHelper_def split: if_splits)
  show "item_with_static c (nullable lt) True d (Some (getDataPtr h v)) = Some (compare_sql F l (sql_value_of h v))"
    using * data_ptr_held [OF assms(3,4)] by simp
  show "item_with_static c (nullable lt) True d (static_literal c True v) = Some (compare_sql F l (sql_value_of h v))"
    if "type_id lt \<notin> {kChar, kVarChar}"
    using * [OF literal_data_ptr(2) [OF assms(3) _ assms(4)]] that c made_string [OF assms(1)] by simp
qed

lemma static_left:
  assumes "made_for F lt rt c" "item_holds rt d r" "value_of_type h v lt" "\<not> isNull v"
  shows "compareTypedValueWithDataPtr h c v d = Some (compare_sql F (sql_value_of h v) r)"
    and "type_id lt \<in> {kChar, kVarChar} \<Longrightarrow>
      item_with_static c (nullable rt) False d (Some (getDataPtr h v)) = Some (compare_sql F (sql_value_of h v) r)"
    and "type_id lt \<notin> {kChar, kVarChar} \<Longrightarrow>
      item_with_static c (nullable rt) False d (static_literal c False v) = Some (compare_sql F (sql_value_of h v) r)"
proof -
  note held = made_held [OF assms(1) _ assms(2)] and c = made_shape [OF assms(1)] and null = made_nullable [OF assms(1)]
  note ptr = held [OF data_ptr_held [OF assms(3,4)]]
  show "compareTypedValueWithDataPtr h c v d = Some (compare_sql F (sql_value_of h v) r)"
  proof (cases "type_id lt \<in> {kChar, kVarChar}")
    case True
    then show ?thesis
      using ptr c assms(4) string_data_ptr [OF assms(3) _ assms(4)]
      by (auto simp: compareDataPtrs_def split: if_splits)
  next
    case False
    then show ?thesis
      using ptr c assms(4) literal_data_ptr(1) [OF assms(3) _ assms(4)]
      by (auto simp: compareDataPtrs_def split: if_splits)
  qed
  have *: "item_with_static c (nullable rt) False d (Some bs) = Some (compare_sql F (sql_value_of h v) r)"
    if "item_holds lt (Some bs) (sql_value_of h v)" for bs
    using held [OF that] null by (auto simp: item_with_static_def compareDataPtrs_def compareDataPtrsHelper_def split: if_splits)
  show "item_with_static c (nullable rt) False d (Some (getDataPtr h v)) = Some (compare_sql F (sql_value_of h v) r)"
    using * data_ptr_held [OF assms(3,4)] by simp
  show "item_with_static c (nullable rt) False d (static_literal c False v) = Some (compare_sql F (sql_value_of h v) r)"
    if "type_id lt \<notin> {kChar, kVarChar}"
    using * [OF literal_data_ptr(2) [OF assms(3) _ assms(4)]] that c by simp
qed


section \<open>The tuples a comparison selects\<close>

text \<open>A function that returns a result of the given length with exactly the given tuples.\<close>

definition selects :: "tuple_id_sequence option \<Rightarrow> nat \<Rightarrow> nat set \<Rightarrow> bool" where
  "selects res n S \<longleftrightarrow> (\<exists>r. res = Some r \<and> tis_inv r \<and> tis_length r = n \<and> tis_slots r = S)"

lemma column_selects:
  assumes "bitmaps_ok flt ex n" "\<And>i. i < n \<Longrightarrow> test i = Some (P i)"
  shows "selects (column_loops sc clears flt ex n (\<lambda>i t. test i) (Some (plain_entries n (\<lambda>i t. test i))) (column_result g n ex))
    (column_length_of ex n) ({tuple_of ex i |i. i < n \<and> P i} \<inter> filter_set flt)"
proof -
  have "n < 2 ^ 31" using assms(1) by (simp add: bitmaps_ok_def)
  then have "plain_entries n (\<lambda>i t. test i) = map (\<lambda>i. (int i, Some (P i))) [0..<n]"
    using assms(2) by (simp add: plain_entries_def)
  then show ?thesis unfolding selects_def by (intro column_loops_slots assms) simp_all
qed

lemma null_selects: "bitmaps_ok flt ex n \<Longrightarrow> selects (Some (column_result g n ex)) (column_length_of ex n) {}"
  using new_result by (simp add: selects_def)

lemma column_item: "column_holds t h cv xs \<Longrightarrow> i < length xs \<Longrightarrow> item_holds t (cv_getUntypedValue (nullable t) h cv i) (xs ! i)"
  by (simp add: column_holds_def)

lemma native_column: "isNative cv \<Longrightarrow> native_getUntypedValue cn h (as_native cv) i = cv_getUntypedValue cn h cv i"
  "isNative cv \<Longrightarrow> native_size (as_native cv) = cv_size cv"
  by (cases cv; simp)+

text \<open>
  C30: Comparing two columns of equal length selects exactly the tuples whose items compare so as SQL values,
  restricted to the filter; a comparison with a null is false. The default implementation, the class for literals
  (on native columns) and the class for strings select the same, with and without short-circuiting, filter and
  existence bitmap.
\<close>

theorem column_comparison_selects:
  assumes "made_for F lt rt c" "column_holds lt h left ls" "column_holds rt h right rs" "length rs = length ls"
    "bitmaps_ok flt ex (length ls)"
  shows "let S = {tuple_of ex i |i. i < length ls \<and> compare_sql F (ls ! i) (rs ! i)} \<inter> filter_set flt;
      n = column_length_of ex (length ls)
    in selects (compareColumnVectorsDefaultImpl (nullable lt) (nullable rt) sc g h c left right flt ex) n S \<and>
      selects (AsciiString_compareColumnVectors sc g h c left right flt ex) n S \<and>
      (isNative left \<and> isNative right \<longrightarrow> selects (Literal_compareColumnVectors sc g h c left right flt ex) n S)"
proof -
  have [simp]: "cv_size left = length ls" using assms(2) by (simp add: column_holds_def)
  have "compareDataPtrs c (cv_getUntypedValue (nullable lt) h left i) (cv_getUntypedValue (nullable rt) h right i) =
      Some (compare_sql F (ls ! i) (rs ! i))" if "i < length ls" for i
    using made_held [OF assms(1)] column_item [OF assms(2)] column_item [OF assms(3)] assms(4) that by simp
  then show ?thesis
    using column_selects [OF assms(5), where P = "\<lambda>i. compare_sql F (ls ! i) (rs ! i)" and sc = sc and g = g and clears = True]
      made_nullable [OF assms(1)]
    by (simp add: Let_def compareColumnVectorsDefaultImpl_def AsciiString_compareColumnVectors_def Literal_compareColumnVectors_def
        native_column)
qed

text \<open>
  C31: Comparing a column with a static value of the other type, on either side, selects exactly the tuples
  whose items compare so with the value; a null value selects nothing. All three implementations agree.
\<close>

theorem static_comparison_selects:
  assumes "made_for F lt rt c" "bitmaps_ok flt ex (length xs)"
  shows "let n = column_length_of ex (length xs) in
    (column_holds lt h cv xs \<and> value_of_type h v rt \<longrightarrow>
      (let S = {tuple_of ex i |i. i < length xs \<and> compare_sql F (xs ! i) (sql_value_of h v)} \<inter> filter_set flt
       in selects (compareColumnVectorAndStaticValueDefaultImpl (nullable lt) (nullable rt) sc g c h cv v flt ex) n S \<and>
         (if type_id lt \<in> {kChar, kVarChar}
          then selects (AsciiString_compareColumnVectorAndStaticValueHelper True sc g c h cv v flt ex) n S
          else isNative cv \<longrightarrow> selects (Literal_compareColumnVectorAndStaticValueHelper True sc g c h cv v flt ex) n S))) \<and>
    (column_holds rt h cv xs \<and> value_of_type h v lt \<longrightarrow>
      (let S = {tuple_of ex i |i. i < length xs \<and> compare_sql F (sql_value_of h v) (xs ! i)} \<inter> filter_set flt
       in selects (compareStaticValueAndColumnVectorDefaultImpl (nullable lt) (nullable rt) sc g c h v cv flt ex) n S \<and>
         (if type_id lt \<in> {kChar, kVarChar}
          then selects (AsciiString_compareColumnVectorAndStaticValueHelper False sc g c h cv v flt ex) n S
          else isNative cv \<longrightarrow> selects (Literal_compareColumnVectorAndStaticValueHelper False sc g c h cv v flt ex) n S)))"
proof -
  note null = made_nullable [OF assms(1)]
  show ?thesis
    unfolding Let_def
  proof (intro conjI impI)
    assume a: "column_holds lt h cv xs \<and> value_of_type h v rt"
    let ?S = "{tuple_of ex i |i. i < length xs \<and> compare_sql F (xs ! i) (sql_value_of h v)} \<inter> filter_set flt"
    have [simp]: "cv_size cv = length xs" using a by (simp add: column_holds_def)
    have nv: "isNull v \<Longrightarrow> nullable rt" using a by (simp add: value_of_type_def)
    note t = static_right [OF assms(1) column_item [of lt h cv xs]] and
      sel = column_selects [OF assms(2), where P = "\<lambda>i. compare_sql F (xs ! i) (sql_value_of h v)" and sc = sc and g = g]
    show "selects (compareColumnVectorAndStaticValueDefaultImpl (nullable lt) (nullable rt) sc g c h cv v flt ex)
        (column_length_of ex (length xs)) ?S"
      using null_selects [OF assms(2)] sel t(1) a nv
      by (cases "isNull v") (simp_all add: compareColumnVectorAndStaticValueDefaultImpl_def Let_def sql_null)
    show "if type_id lt \<in> {kChar, kVarChar}
      then selects (AsciiString_compareColumnVectorAndStaticValueHelper True sc g c h cv v flt ex) (column_length_of ex (length xs)) ?S
      else isNative cv \<longrightarrow> selects (Literal_compareColumnVectorAndStaticValueHelper True sc g c h cv v flt ex) (column_length_of ex (length xs)) ?S"
      using null_selects [OF assms(2)] sel t(2,3) a nv null
      by (cases "isNull v"; simp add: AsciiString_compareColumnVectorAndStaticValueHelper_def
          Literal_compareColumnVectorAndStaticValueHelper_def Let_def sql_null native_column)
  next
    assume a: "column_holds rt h cv xs \<and> value_of_type h v lt"
    let ?S = "{tuple_of ex i |i. i < length xs \<and> compare_sql F (sql_value_of h v) (xs ! i)} \<inter> filter_set flt"
    have [simp]: "cv_size cv = length xs" using a by (simp add: column_holds_def)
    have nv: "isNull v \<Longrightarrow> nullable lt" using a by (simp add: value_of_type_def)
    note t = static_left [OF assms(1) column_item [of rt h cv xs]] and
      sel = column_selects [OF assms(2), where P = "\<lambda>i. compare_sql F (sql_value_of h v) (xs ! i)" and sc = sc and g = g]
    show "selects (compareStaticValueAndColumnVectorDefaultImpl (nullable lt) (nullable rt) sc g c h v cv flt ex)
        (column_length_of ex (length xs)) ?S"
      using null_selects [OF assms(2)] sel t(1) a nv
      by (cases "isNull v") (simp_all add: compareStaticValueAndColumnVectorDefaultImpl_def Let_def sql_null)
    show "if type_id lt \<in> {kChar, kVarChar}
      then selects (AsciiString_compareColumnVectorAndStaticValueHelper False sc g c h cv v flt ex) (column_length_of ex (length xs)) ?S
      else isNative cv \<longrightarrow> selects (Literal_compareColumnVectorAndStaticValueHelper False sc g c h cv v flt ex) (column_length_of ex (length xs)) ?S"
      using null_selects [OF assms(2)] sel t(2,3) a nv null
      by (cases "isNull v"; simp add: AsciiString_compareColumnVectorAndStaticValueHelper_def
          Literal_compareColumnVectorAndStaticValueHelper_def Let_def sql_null native_column)
  qed
qed


section \<open>Accessors\<close>

definition accessor_holds :: "sql_type \<Rightarrow> heap \<Rightarrow> value_accessor \<Rightarrow> attribute_id \<Rightarrow> (nat \<Rightarrow> sql_value) \<Rightarrow> bool" where
  "accessor_holds t h acc attr x \<longleftrightarrow>
     (\<forall>p. int p \<in> set (va_positions acc) \<longrightarrow> item_holds t (value_at (nullable t) h acc attr (int p)) (x p))"

text \<open>What the callers guarantee: a filter is one over the tuples of the accessor.\<close>

definition filter_ok :: "tuple_id_sequence option \<Rightarrow> value_accessor \<Rightarrow> bool" where
  "filter_ok flt acc \<longleftrightarrow> va_ok acc \<and> \<not> isOrderedTupleIdSequenceAdapter acc \<and>
     (case flt of None \<Rightarrow> True | Some f \<Rightarrow> tis_inv f \<and> tis_length f = nat (va_getEndPosition acc) \<and>
        int ` tis_slots f \<subseteq> set (va_positions acc))"

lemma accessor_range:
  assumes "va_ok acc" "\<not> isOrderedTupleIdSequenceAdapter acc"
  shows "0 \<le> va_getEndPosition acc" "va_getEndPosition acc < 2 ^ 31" "t \<in> set (va_positions acc) \<Longrightarrow> 0 \<le> t"
    "distinct (va_positions acc)" "length (va_positions acc) < 2 ^ 31"
proof -
  show "0 \<le> va_getEndPosition acc" "va_getEndPosition acc < 2 ^ 31" "t \<in> set (va_positions acc) \<Longrightarrow> 0 \<le> t"
    using assms inv_length [of "ia_sequence a" for a]
    by (cases acc rule: va_kinds; force simp: va_getEndPosition_def InvokeOnAnyValueAccessor_def tv_getEndPosition_def
        cva_getEndPosition_def ia_getEndPosition_def set_tuples)+
  show "distinct (va_positions acc)"
    using assms by (cases acc rule: va_kinds) (simp_all add: distinct_map tuples_sorted)
  have "card (tis_slots s) \<le> tis_length s" if "tis_inv s" for s
    using card_mono [of "{..<tis_length s}" "tis_slots s"] slots_less by (auto simp: subset_iff)
  then show "length (va_positions acc) < 2 ^ 31"
    using assms inv_length [of "ia_sequence a" for a]
    by (cases acc rule: va_kinds) (auto simp: tuples_sorted intro: le_less_trans)
qed

lemma not_ordered_accessor: "\<not> isOrderedTupleIdSequenceAdapter acc \<Longrightarrow> on_accessor acc r = r"
  by (cases acc) (simp_all add: on_accessor_def InvokeOnValueAccessorMaybeTupleIdSequenceAdapter_def)

text \<open>The cursors of the loop read what is at their position.\<close>

lemma accessor_cursors:
  assumes "va_ok acc" "\<not> isOrderedTupleIdSequenceAdapter acc"
  shows "\<exists>ss. accessor_loop acc = Some ss \<and> map va_getCurrentPosition ss = va_positions acc \<and>
    (\<forall>s\<in>set ss. \<forall>cn h attr. va_getUntypedValue cn h s attr = value_at cn h acc attr (va_getCurrentPosition s))"
proof -
  obtain ss where "accessor_loop acc = Some ss" "map va_getCurrentPosition ss = va_positions acc"
    "\<forall>s\<in>set ss. \<forall>cn h attr. va_getUntypedValueAtAbsolutePosition cn h acc attr (va_getCurrentPosition s) = Some (va_getUntypedValue cn h s attr)"
    using accessor_loop_visits [OF assms(1)] assms(2) by blast
  then show ?thesis by (intro exI [of _ ss]) (simp add: value_at_def)
qed

lemma accessor_selects:
  assumes ok: "filter_ok flt acc"
    and at: "\<And>p. int p \<in> set (va_positions acc) \<Longrightarrow> flt \<noteq> None \<Longrightarrow> sc \<Longrightarrow> test_at (int p) = Some (P p)"
    and here: "\<And>s p. int p \<in> set (va_positions acc) \<Longrightarrow> flt = None \<or> \<not> sc \<Longrightarrow>
      (\<forall>cn h attr. va_getUntypedValue cn h s attr = value_at cn h acc attr (int p)) \<Longrightarrow> test_here s = Some (P p)"
  shows "selects (accessor_loops sc flt acc test_at test_here (TupleIdSequence_new g (va_getEndPosition acc)))
    (nat (va_getEndPosition acc)) ({p. int p \<in> set (va_positions acc) \<and> P p} \<inter> filter_set flt)"
proof -
  let ?past = "va_getEndPosition acc" and ?r = "TupleIdSequence_new g (va_getEndPosition acc)"
  have acc: "va_ok acc" "\<not> isOrderedTupleIdSequenceAdapter acc" using ok by (simp_all add: filter_ok_def)
  note range = accessor_range [OF acc]
  have new: "tis_inv ?r" "tis_slots ?r = {}" "tis_length ?r = nat ?past"
    using range(1,2) new_inv [of "nat ?past" g] new_slots [of "nat ?past" g] new_length [of "nat ?past" g] by simp_all
  show ?thesis
  proof (cases "sc \<and> flt \<noteq> None")
    case True
    then obtain f where f: "flt = Some f" "tis_inv f" "tis_length f = nat ?past" "int ` tis_slots f \<subseteq> set (va_positions acc)"
      using ok by (auto simp: filter_ok_def)
    have "map (\<lambda>t. (t, test_at t)) (tis_tuples f) = map (\<lambda>p. (int p, Some (P p))) (sorted_list_of_set (tis_slots f))"
      using at f True by (auto simp: tuples_sorted [OF f(2)])
    moreover have "\<And>x. x \<in> tis_slots f \<Longrightarrow> int x \<in> set (va_positions acc)" using f(4) by auto
    ultimately show ?thesis
      using set_each_slots [OF new(1,2), of "sorted_list_of_set (tis_slots f)" P] True f new(3) slots_less [of _ f]
      by (auto simp: selects_def accessor_loops_def filter_set_def)
  next
    case False
    obtain ss where ss: "accessor_loop acc = Some ss" "map va_getCurrentPosition ss = va_positions acc"
      "\<forall>s\<in>set ss. \<forall>cn h attr. va_getUntypedValue cn h s attr = value_at cn h acc attr (va_getCurrentPosition s)"
      using accessor_cursors [OF acc] by blast
    let ?ps = "map (\<lambda>s. nat (va_getCurrentPosition s)) ss"
    have pos: "va_getCurrentPosition s \<in> set (va_positions acc)" if "s \<in> set ss" for s
      using that ss(2) by (metis image_eqI set_map)
    have nn: "int (nat (va_getCurrentPosition s)) = va_getCurrentPosition s" if "s \<in> set ss" for s
      using range(3) pos [OF that] by simp
    have "map (\<lambda>a. (va_getCurrentPosition a, test_here a)) ss = map (\<lambda>p. (int p, Some (P p))) ?ps"
      using here [of "nat (va_getCurrentPosition s)" s for s] pos nn ss(3) False by auto
    moreover have set: "p \<in> set ?ps \<longleftrightarrow> int p \<in> set (va_positions acc)" for p
      using nn by (auto simp: ss(2) [symmetric] image_iff) (metis nat_int)+
    moreover have "p < nat ?past" if "p \<in> set ?ps" for p
      using positions_below_end [OF acc(1)] that unfolding set by (metis nat_int zless_nat_eq_int_zless)
    ultimately obtain r where r: "set_each (map (\<lambda>a. (va_getCurrentPosition a, test_here a)) ss) ?r = Some r" "tis_inv r"
      "tis_length r = nat ?past" "tis_slots r = {p. int p \<in> set (va_positions acc) \<and> P p}"
      using set_each_slots [OF new(1,2), of ?ps P] new(3) by auto
    have "tis_inv (intersect_filter flt r) \<and> tis_length (intersect_filter flt r) = tis_length r \<and>
        tis_slots (intersect_filter flt r) = tis_slots r \<inter> filter_set flt"
      using ok r(3) by (intro intersected [OF r(2)]) (auto simp: filter_ok_def split: option.splits)
    then show ?thesis
      using ss(1) r False by (cases sc) (auto simp: selects_def accessor_loops_def filter_set_def)
  qed
qed


lemma held_at: "accessor_holds t h acc attr x \<Longrightarrow> int p \<in> set (va_positions acc) \<Longrightarrow>
    item_holds t (value_at (nullable t) h acc attr (int p)) (x p)"
  by (simp add: accessor_holds_def)

text \<open>
  C32: Comparing two attributes of the tuples of an accessor selects exactly the tuples of the accessor whose
  items compare so, within the filter. The default implementation and the class for literals do this always. The
  class for strings does it when it short-circuits on a filter; otherwise its loop passes over the null check of
  the right item, and it does this if no right item is null and uses a null pointer if one is.
\<close>

theorem accessor_comparison_selects:
  assumes "made_for F lt rt c" "filter_ok flt acc" "accessor_holds lt h acc left_id x" "accessor_holds rt h acc right_id y"
  shows "let S = {p. int p \<in> set (va_positions acc) \<and> compare_sql F (x p) (y p)} \<inter> filter_set flt; n = nat (va_getEndPosition acc)
    in selects (compareSingleValueAccessorDefaultImpl (nullable lt) (nullable rt) sc g c h acc left_id right_id flt) n S \<and>
      selects (Literal_compareSingleValueAccessor sc g c h acc left_id right_id flt) n S \<and>
      (let res = AsciiString_compareSingleValueAccessor sc g c h acc left_id right_id flt
       in if (sc \<and> flt \<noteq> None) \<or> (\<forall>p. int p \<in> set (va_positions acc) \<longrightarrow> y p \<noteq> SqlNull) then selects res n S else res = None)"
proof -
  have acc: "va_ok acc" "\<not> isOrderedTupleIdSequenceAdapter acc" using assms(2) by (simp_all add: filter_ok_def)
  note range = accessor_range [OF acc]
  let ?P = "\<lambda>p. compare_sql F (x p) (y p)" and ?l = "\<lambda>p. value_at (nullable lt) h acc left_id (int p)"
    and ?r = "\<lambda>p. value_at (nullable rt) h acc right_id (int p)"
  have cmp: "compareDataPtrs c (?l p) (?r p) = Some (?P p)" "both_items c True (nullable lt) (nullable rt) (?l p) (?r p) = Some (?P p)"
    if "int p \<in> set (va_positions acc)" for p
    using made_held [OF assms(1)] both_held(1) [OF assms(1)] held_at [OF assms(3) that] held_at [OF assms(4) that] by simp_all
  have mis: "misplaced_check c (?l p) (?r p) = (if y p = SqlNull then None else Some (?P p))" if p: "int p \<in> set (va_positions acc)" for p
  proof (cases "y p = SqlNull")
    case True
    then have "?r p = None" using item_holds_null [OF held_at [OF assms(4) p]] by simp
    then show ?thesis
      using item_holds_nullable [of rt "y p"] held_at [OF assms(4) p] made_shape [OF assms(1)] True
      by (auto simp: misplaced_check_def compareDataPtrsHelper_def deref_def)
  next
    case False
    then have "?r p \<noteq> None" using item_holds_null [OF held_at [OF assms(4) p]] by simp
    then have "misplaced_check c (?l p) (?r p) = both_items c True (nullable lt) (nullable rt) (?l p) (?r p)"
      using made_nullable [OF assms(1)] by (auto simp: misplaced_check_def both_items_def)
    then show ?thesis using cmp(2) [OF p] False by simp
  qed
  note null = made_nullable [OF assms(1)]
  have "AsciiString_compareSingleValueAccessor sc g c h acc left_id right_id flt = None"
    if n: "\<not> (sc \<and> flt \<noteq> None)" "int p \<in> set (va_positions acc)" "y p = SqlNull" for p
  proof -
    obtain ss where ss: "accessor_loop acc = Some ss" "map va_getCurrentPosition ss = va_positions acc"
      "\<forall>s\<in>set ss. \<forall>cn h attr. va_getUntypedValue cn h s attr = value_at cn h acc attr (va_getCurrentPosition s)"
      using accessor_cursors [OF acc] by blast
    obtain s where s: "s \<in> set ss" "va_getCurrentPosition s = int p" using n(2) ss(2) by (metis imageE set_map)
    have stuck: "set_each es r = None" if "(t, None) \<in> set es" for es r t
      using that by (induction es r rule: set_each.induct) (auto split: bind_splits)
    have "misplaced_check c (va_getUntypedValue (left_nullable c) h s left_id) (va_getUntypedValue (right_nullable c) h s right_id) = None"
      using mis [OF n(2)] n(3) ss(3) s null by simp
    then have "(int p, None) \<in> set (map (\<lambda>a. (va_getCurrentPosition a, misplaced_check c (va_getUntypedValue (left_nullable c) h a left_id)
        (va_getUntypedValue (right_nullable c) h a right_id))) ss)"
      using s by (force simp: image_iff)
    note stuck [OF this]
    then show ?thesis
      using n(1) ss(1) by (auto simp: AsciiString_compareSingleValueAccessor_def not_ordered_accessor [OF acc(2)] accessor_loops_def Let_def)
  qed
  moreover have "selects (AsciiString_compareSingleValueAccessor sc g c h acc left_id right_id flt) (nat (va_getEndPosition acc))
      ({p. int p \<in> set (va_positions acc) \<and> ?P p} \<inter> filter_set flt)"
    if "(sc \<and> flt \<noteq> None) \<or> (\<forall>p. int p \<in> set (va_positions acc) \<longrightarrow> y p \<noteq> SqlNull)"
    unfolding AsciiString_compareSingleValueAccessor_def not_ordered_accessor [OF acc(2)] Let_def
    by (rule accessor_selects [OF assms(2)]) (use cmp mis null that in auto)
  moreover have "selects (compareSingleValueAccessorDefaultImpl (nullable lt) (nullable rt) sc g c h acc left_id right_id flt)
      (nat (va_getEndPosition acc)) ({p. int p \<in> set (va_positions acc) \<and> ?P p} \<inter> filter_set flt)"
    unfolding compareSingleValueAccessorDefaultImpl_def not_ordered_accessor [OF acc(2)] Let_def
    by (rule accessor_selects [OF assms(2)]) (use cmp null in auto)
  moreover have "selects (Literal_compareSingleValueAccessor sc g c h acc left_id right_id flt)
      (nat (va_getEndPosition acc)) ({p. int p \<in> set (va_positions acc) \<and> ?P p} \<inter> filter_set flt)"
    unfolding Literal_compareSingleValueAccessor_def not_ordered_accessor [OF acc(2)] Let_def
    by (rule accessor_selects [OF assms(2)]) (use cmp null in auto)
  ultimately show ?thesis by (auto simp: Let_def)
qed


text \<open>
  Comparing an attribute of the tuples of an accessor with a static value, on either side, selects exactly
  the tuples of the accessor whose items compare so with the value, within the filter; a null value selects
  nothing. All three implementations agree.
\<close>

theorem accessor_static_comparison_selects:
  assumes "made_for F lt rt c" "filter_ok flt acc"
  shows "let n = nat (va_getEndPosition acc) in
    (accessor_holds lt h acc attr x \<and> value_of_type h v rt \<longrightarrow>
      (let S = {p. int p \<in> set (va_positions acc) \<and> compare_sql F (x p) (sql_value_of h v)} \<inter> filter_set flt
       in selects (compareValueAccessorAndStaticValueDefaultImpl (nullable lt) (nullable rt) sc g c h acc attr v flt) n S \<and>
         (if type_id lt \<in> {kChar, kVarChar}
          then selects (AsciiString_compareValueAccessorAndStaticValueHelper True sc g c h acc attr v flt) n S
          else selects (Literal_compareValueAccessorAndStaticValueHelper True sc g c h acc attr v flt) n S))) \<and>
    (accessor_holds rt h acc attr x \<and> value_of_type h v lt \<longrightarrow>
      (let S = {p. int p \<in> set (va_positions acc) \<and> compare_sql F (sql_value_of h v) (x p)} \<inter> filter_set flt
       in selects (compareStaticValueAndValueAccessorDefaultImpl (nullable lt) (nullable rt) sc g c h v acc attr flt) n S \<and>
         (if type_id lt \<in> {kChar, kVarChar}
          then selects (AsciiString_compareValueAccessorAndStaticValueHelper False sc g c h acc attr v flt) n S
          else selects (Literal_compareValueAccessorAndStaticValueHelper False sc g c h acc attr v flt) n S)))"
proof -
  have acc: "va_ok acc" "\<not> isOrderedTupleIdSequenceAdapter acc" using assms(2) by (simp_all add: filter_ok_def)
  note range = accessor_range [OF acc] and null = made_nullable [OF assms(1)] and oa = not_ordered_accessor [OF acc(2)]
  have none: "selects (Some (TupleIdSequence_new g (va_getEndPosition acc))) (nat (va_getEndPosition acc)) {}"
    using range(1,2) new_inv [of "nat (va_getEndPosition acc)" g] new_slots [of "nat (va_getEndPosition acc)" g]
      new_length [of "nat (va_getEndPosition acc)" g] by (simp add: selects_def)
  show ?thesis
    unfolding Let_def
  proof (intro conjI impI)
    assume a: "accessor_holds lt h acc attr x \<and> value_of_type h v rt"
    let ?S = "{p. int p \<in> set (va_positions acc) \<and> compare_sql F (x p) (sql_value_of h v)} \<inter> filter_set flt"
    have nv: "isNull v \<Longrightarrow> nullable rt" using a by (simp add: value_of_type_def)
    note t = static_right [OF assms(1) held_at [of lt h acc attr x]]
      and sel = accessor_selects [OF assms(2), where P = "\<lambda>p. compare_sql F (x p) (sql_value_of h v)" and sc = sc and g = g]
    show "selects (compareValueAccessorAndStaticValueDefaultImpl (nullable lt) (nullable rt) sc g c h acc attr v flt)
        (nat (va_getEndPosition acc)) ?S"
      using none sel t(1) a nv
      by (cases "isNull v") (simp_all add: compareValueAccessorAndStaticValueDefaultImpl_def oa Let_def sql_null)
    show "if type_id lt \<in> {kChar, kVarChar}
      then selects (AsciiString_compareValueAccessorAndStaticValueHelper True sc g c h acc attr v flt) (nat (va_getEndPosition acc)) ?S
      else selects (Literal_compareValueAccessorAndStaticValueHelper True sc g c h acc attr v flt) (nat (va_getEndPosition acc)) ?S"
      using none sel t(2,3) a nv null
      by (cases "isNull v"; simp add: AsciiString_compareValueAccessorAndStaticValueHelper_def
          Literal_compareValueAccessorAndStaticValueHelper_def oa Let_def sql_null)
  next
    assume a: "accessor_holds rt h acc attr x \<and> value_of_type h v lt"
    let ?S = "{p. int p \<in> set (va_positions acc) \<and> compare_sql F (sql_value_of h v) (x p)} \<inter> filter_set flt"
    have nv: "isNull v \<Longrightarrow> nullable lt" using a by (simp add: value_of_type_def)
    note t = static_left [OF assms(1) held_at [of rt h acc attr x]]
      and sel = accessor_selects [OF assms(2), where P = "\<lambda>p. compare_sql F (sql_value_of h v) (x p)" and sc = sc and g = g]
    show "selects (compareStaticValueAndValueAccessorDefaultImpl (nullable lt) (nullable rt) sc g c h v acc attr flt)
        (nat (va_getEndPosition acc)) ?S"
      using none sel t(1) a nv
      by (cases "isNull v") (simp_all add: compareStaticValueAndValueAccessorDefaultImpl_def oa Let_def sql_null)
    show "if type_id lt \<in> {kChar, kVarChar}
      then selects (AsciiString_compareValueAccessorAndStaticValueHelper False sc g c h acc attr v flt) (nat (va_getEndPosition acc)) ?S
      else selects (Literal_compareValueAccessorAndStaticValueHelper False sc g c h acc attr v flt) (nat (va_getEndPosition acc)) ?S"
      using none sel t(2,3) a nv null
      by (cases "isNull v"; simp add: AsciiString_compareValueAccessorAndStaticValueHelper_def
          Literal_compareValueAccessorAndStaticValueHelper_def oa Let_def sql_null)
  qed
qed

text \<open>A column and an attribute of an accessor over the same tuples.\<close>

lemma paired_selects:
  assumes ok: "bitmaps_ok flt ex n" "va_ok acc" "\<not> isOrderedTupleIdSequenceAdapter acc"
    and pos: "va_positions acc = map (\<lambda>i. int (tuple_of ex i)) [0..<n]"
    and test: "\<And>i. i < n \<Longrightarrow> test i (value_at cn h acc attr (int (tuple_of ex i))) = Some (P i)"
    and position: "\<And>i s. i < n \<Longrightarrow> va_getCurrentPosition s = int i \<Longrightarrow> position i s = int i"
  shows "selects (column_loops sc clears flt ex n (\<lambda>i t. test i (value_at cn h acc attr t))
      (map_option (paired_entries position (\<lambda>i s. test i (va_getUntypedValue cn h s attr))) (accessor_loop acc)) (column_result g n ex))
    (column_length_of ex n) ({tuple_of ex i |i. i < n \<and> P i} \<inter> filter_set flt)"
  unfolding selects_def
proof (rule column_loops_slots [OF ok(1)])
  show "test i (value_at cn h acc attr (int (tuple_of ex i))) = Some (P i)" if "i < n" for i using test [OF that] .
  assume ex: "ex = None"
  obtain ss where ss: "accessor_loop acc = Some ss" "map va_getCurrentPosition ss = map int [0..<n]"
    "\<forall>s\<in>set ss. \<forall>cn h attr. va_getUntypedValue cn h s attr = value_at cn h acc attr (va_getCurrentPosition s)"
    using accessor_cursors [OF ok(2,3)] pos ex by (auto simp: tuple_of_def)
  have len: "length ss = n" using arg_cong [OF ss(2), of length] by simp
  have at: "va_getCurrentPosition (ss ! i) = int i" if "i < n" for i
    using arg_cong [OF ss(2), of "\<lambda>l. l ! i"] that len by simp
  have "paired_entries position (\<lambda>i s. test i (va_getUntypedValue cn h s attr)) ss = map (\<lambda>i. (int i, Some (P i))) [0..<n]"
    using at position test ss(3) ex len by (intro nth_equalityI) (simp_all add: paired_entries_def tuple_of_def)
  then show "map_option (paired_entries position (\<lambda>i s. test i (va_getUntypedValue cn h s attr))) (accessor_loop acc) =
      Some (map (\<lambda>i. (int i, Some (P i))) [0..<n])" using ss(1) by simp
qed

text \<open>
  C33: Comparing a column with an attribute of an accessor whose tuples are those the column stands for, on
  either side, selects exactly the tuples whose two items compare so, within the filter. All three
  implementations agree.
\<close>

theorem column_accessor_comparison_selects:
  assumes "made_for F lt rt c" "bitmaps_ok flt ex (length xs)" "va_ok acc" "\<not> isOrderedTupleIdSequenceAdapter acc"
    "va_positions acc = map (\<lambda>i. int (tuple_of ex i)) [0..<length xs]"
  shows "let n = column_length_of ex (length xs) in
    (column_holds lt h cv xs \<and> accessor_holds rt h acc attr y \<longrightarrow>
      (let S = {tuple_of ex i |i. i < length xs \<and> compare_sql F (xs ! i) (y (tuple_of ex i))} \<inter> filter_set flt
       in selects (compareColumnVectorAndValueAccessorDefaultImpl (nullable lt) (nullable rt) sc g c h cv acc attr flt ex) n S \<and>
         selects (AsciiString_compareColumnVectorAndValueAccessorHelper True sc g c h cv acc attr flt ex) n S \<and>
         (isNative cv \<longrightarrow> selects (Literal_compareColumnVectorAndValueAccessorHelper True sc g c h cv acc attr flt ex) n S))) \<and>
    (column_holds rt h cv xs \<and> accessor_holds lt h acc attr y \<longrightarrow>
      (let S = {tuple_of ex i |i. i < length xs \<and> compare_sql F (y (tuple_of ex i)) (xs ! i)} \<inter> filter_set flt
       in selects (compareValueAccessorAndColumnVectorDefaultImpl (nullable lt) (nullable rt) sc g c h acc attr cv flt ex) n S \<and>
         selects (AsciiString_compareColumnVectorAndValueAccessorHelper False sc g c h cv acc attr flt ex) n S \<and>
         (isNative cv \<longrightarrow> selects (Literal_compareColumnVectorAndValueAccessorHelper False sc g c h cv acc attr flt ex) n S)))"
proof -
  note null = made_nullable [OF assms(1)] and oa = not_ordered_accessor [OF assms(4)]
  have small: "length xs < 2 ^ 31" using assms(2) by (simp add: bitmaps_ok_def)
  have in_acc: "int (tuple_of ex i) \<in> set (va_positions acc)" if "i < length xs" for i using assms(5) that by simp
  show ?thesis
    unfolding Let_def
  proof (intro conjI impI)
    assume a: "column_holds lt h cv xs \<and> accessor_holds rt h acc attr y"
    have [simp]: "cv_size cv = length xs" using a by (simp add: column_holds_def)
    note items = column_item [OF conjunct1 [OF a]] held_at [OF conjunct2 [OF a] in_acc]
    have t: "compareDataPtrs c (cv_getUntypedValue (nullable lt) h cv i) (value_at (nullable rt) h acc attr (int (tuple_of ex i))) =
        Some (compare_sql F (xs ! i) (y (tuple_of ex i)))"
      "both_items c True (nullable lt) (nullable rt) (cv_getUntypedValue (nullable lt) h cv i)
        (value_at (nullable rt) h acc attr (int (tuple_of ex i))) = Some (compare_sql F (xs ! i) (y (tuple_of ex i)))"
      if "i < length xs" for i
      using made_held [OF assms(1) items(1) [OF that] items(2) [OF that]] both_held(1) [OF assms(1) items(1) [OF that] items(2) [OF that]] by simp_all
    let ?S = "{tuple_of ex i |i. i < length xs \<and> compare_sql F (xs ! i) (y (tuple_of ex i))} \<inter> filter_set flt"
    note sel = paired_selects [OF assms(2-5), where P = "\<lambda>i. compare_sql F (xs ! i) (y (tuple_of ex i))" and h = h and attr = attr
        and sc = sc and g = g and cn = "nullable rt"]
    show "selects (compareColumnVectorAndValueAccessorDefaultImpl (nullable lt) (nullable rt) sc g c h cv acc attr flt ex)
        (column_length_of ex (length xs)) ?S"
      unfolding compareColumnVectorAndValueAccessorDefaultImpl_def oa Let_def \<open>cv_size cv = length xs\<close>
      by (rule sel) (use t in simp_all)
    show "selects (AsciiString_compareColumnVectorAndValueAccessorHelper True sc g c h cv acc attr flt ex)
        (column_length_of ex (length xs)) ?S"
      unfolding AsciiString_compareColumnVectorAndValueAccessorHelper_def oa Let_def \<open>cv_size cv = length xs\<close> if_True conjunct1 [OF null] conjunct2 [OF null]
      by (rule sel) (use t null small in simp_all)
    show "selects (Literal_compareColumnVectorAndValueAccessorHelper True sc g c h cv acc attr flt ex)
        (column_length_of ex (length xs)) ?S" if "isNative cv"
      unfolding Literal_compareColumnVectorAndValueAccessorHelper_def oa Let_def native_column [OF that] \<open>cv_size cv = length xs\<close> if_True conjunct1 [OF null] conjunct2 [OF null]
      by (rule sel) (use t null small in simp_all)
  next
    assume a: "column_holds rt h cv xs \<and> accessor_holds lt h acc attr y"
    have [simp]: "cv_size cv = length xs" using a by (simp add: column_holds_def)
    note items = held_at [OF conjunct2 [OF a] in_acc] column_item [OF conjunct1 [OF a]]
    have t: "compareDataPtrs c (value_at (nullable lt) h acc attr (int (tuple_of ex i))) (cv_getUntypedValue (nullable rt) h cv i) =
        Some (compare_sql F (y (tuple_of ex i)) (xs ! i))"
      "both_items c False (nullable rt) (nullable lt) (cv_getUntypedValue (nullable rt) h cv i)
        (value_at (nullable lt) h acc attr (int (tuple_of ex i))) = Some (compare_sql F (y (tuple_of ex i)) (xs ! i))"
      if "i < length xs" for i
      using made_held [OF assms(1) items(1) [OF that] items(2) [OF that]] both_held(2) [OF assms(1) items(1) [OF that] items(2) [OF that]] by simp_all
    let ?S = "{tuple_of ex i |i. i < length xs \<and> compare_sql F (y (tuple_of ex i)) (xs ! i)} \<inter> filter_set flt"
    note sel = paired_selects [OF assms(2-5), where P = "\<lambda>i. compare_sql F (y (tuple_of ex i)) (xs ! i)" and h = h and attr = attr
        and sc = sc and g = g and cn = "nullable lt"]
    show "selects (compareValueAccessorAndColumnVectorDefaultImpl (nullable lt) (nullable rt) sc g c h acc attr cv flt ex)
        (column_length_of ex (length xs)) ?S"
      unfolding compareValueAccessorAndColumnVectorDefaultImpl_def oa Let_def \<open>cv_size cv = length xs\<close>
      by (rule sel) (use t in simp_all)
    show "selects (AsciiString_compareColumnVectorAndValueAccessorHelper False sc g c h cv acc attr flt ex)
        (column_length_of ex (length xs)) ?S"
      unfolding AsciiString_compareColumnVectorAndValueAccessorHelper_def oa Let_def \<open>cv_size cv = length xs\<close> if_False conjunct1 [OF null] conjunct2 [OF null]
      by (rule sel) (use t null small in simp_all)
    show "selects (Literal_compareColumnVectorAndValueAccessorHelper False sc g c h cv acc attr flt ex)
        (column_length_of ex (length xs)) ?S" if "isNative cv"
      unfolding Literal_compareColumnVectorAndValueAccessorHelper_def oa Let_def native_column [OF that] \<open>cv_size cv = length xs\<close> if_False conjunct1 [OF null] conjunct2 [OF null]
      by (rule sel) (use t null small in simp_all)
  qed
qed


section \<open>A column of integers\<close>

definition int_column :: "u32 list \<Rightarrow> column_vector" where
  "int_column is =
     IndirectColumn (foldl (\<lambda>cv i. cv\<lparr>indirect_values := indirect_values cv @ [TypedValue_int i]\<rparr>)
       (IndirectColumnVector_new (basic_type kInt) (length is)) is)"

definition int_less :: comparator where
  "int_less = LiteralUncheckedComparator LessFunctor kInt False kInt False"

definition int_accessor :: "u32 list \<Rightarrow> value_accessor" where
  "int_accessor is = Plain (ColumnVectors (addColumn (int_column is) ColumnVectorsValueAccessor_new))"

lemma int_less_made: "made_for LessFunctor (basic_type kInt) (basic_type kInt) int_less"
proof -
  have "canCompareTypes (basic_type kInt) (basic_type kInt)"
    by (simp add: canCompareTypes_def basic_type_def)
  then show ?thesis
    using made_comparator [of "basic_type kInt" "basic_type kInt" LessComparison LessFunctor]
    by (auto simp: made_for_def int_less_def basic_type_def intro!: exI [of _ LessComparison])
qed

lemma int_value: "value_of_type h (TypedValue_int i) (basic_type kInt)"
  "sql_value_of h (TypedValue_int i) = SqlLiteral (number (IntLit i))" "\<not> isNull (TypedValue_int i)"
proof -
  show "value_of_type h (TypedValue_int i) (basic_type kInt)"
    using value_of_literal [of "number (IntLit i)" "basic_type kInt" h 0] by (simp add: basic_type_def)
  show "sql_value_of h (TypedValue_int i) = SqlLiteral (number (IntLit i))"
    using getLiteral_value [of "number (IntLit i)" 0] literal_observers by (simp add: sql_value_of_def)
  show "\<not> isNull (TypedValue_int i)" using literal_observers by simp
qed

lemma int_column_values: "\<exists>cv. int_column is = IndirectColumn cv \<and> indirect_values cv = map TypedValue_int is"
proof -
  have "indirect_values (foldl (\<lambda>cv i. cv\<lparr>indirect_values := indirect_values cv @ [TypedValue_int i]\<rparr>) cv is) =
      indirect_values cv @ map TypedValue_int is" for cv :: indirect_column_vector
    by (induction "is" arbitrary: cv) simp_all
  then show ?thesis by (simp add: int_column_def IndirectColumnVector_new_def)
qed

lemma int_column_holds: "column_holds (basic_type kInt) h (int_column is) (map (\<lambda>i. SqlLiteral (number (IntLit i))) is)"
proof -
  obtain cv where cv: "int_column is = IndirectColumn cv" "indirect_values cv = map TypedValue_int is"
    using int_column_values by blast
  have "item_holds (basic_type kInt) (Some (getDataPtr h (TypedValue_int i))) (SqlLiteral (number (IntLit i)))" for i
    using data_ptr_held [OF int_value(1) int_value(3)] int_value(2) by simp
  then show ?thesis
    using cv by (simp add: column_holds_def indirect_getUntypedValue_def indirect_size_def int_value(3))
qed

text \<open>An accessor over one column holds what the column holds.\<close>

lemma column_accessor_holds:
  assumes "column_holds t h cv xs" "length xs < 2 ^ 31"
  shows "accessor_holds t h (Plain (ColumnVectors (addColumn cv ColumnVectorsValueAccessor_new))) 0 ((!) xs)"
    and "va_positions (Plain (ColumnVectors (addColumn cv ColumnVectorsValueAccessor_new))) = map int [0..<length xs]"
    and "filter_ok None (Plain (ColumnVectors (addColumn cv ColumnVectorsValueAccessor_new)))"
    and "va_getEndPosition (Plain (ColumnVectors (addColumn cv ColumnVectorsValueAccessor_new))) = int (length xs)"
proof -
  have s: "cv_size cv = length xs" using assms(1) by (simp add: column_holds_def)
  show pos: "va_positions (Plain (ColumnVectors (addColumn cv ColumnVectorsValueAccessor_new))) = map int [0..<length xs]"
    using s by (simp add: addColumn_def)
  show "filter_ok None (Plain (ColumnVectors (addColumn cv ColumnVectorsValueAccessor_new)))"
    using s assms(2) by (simp add: filter_ok_def addColumn_def)
  show "va_getEndPosition (Plain (ColumnVectors (addColumn cv ColumnVectorsValueAccessor_new))) = int (length xs)"
    using s assms(2) by (simp add: va_getEndPosition_def InvokeOnAnyValueAccessor_def cva_getEndPosition_def addColumn_def)
  have "value_at cn h (Plain (ColumnVectors (addColumn cv ColumnVectorsValueAccessor_new))) 0 (int p) = cv_getUntypedValue cn h cv p" for cn p
    by (cases cv) (simp_all add: value_at_def va_getUntypedValueAtAbsolutePosition_def InvokeOnAnyValueAccessor_def
        cva_getUntypedValueAtAbsolutePosition_def addColumn_def ColumnVectorsValueAccessor_new_def)
  then show "accessor_holds t h (Plain (ColumnVectors (addColumn cv ColumnVectorsValueAccessor_new))) 0 ((!) xs)"
    using column_item [OF assms(1)] pos by (auto simp: accessor_holds_def)
qed

section \<open>What accumulation computes\<close>

definition keep_better :: "basic_functor \<Rightarrow> sql_value \<Rightarrow> sql_value \<Rightarrow> sql_value" where
  "keep_better F x best = (if x = SqlNull then best else if best = SqlNull \<or> compare_sql F x best then x else best)"

definition accumulated :: "basic_functor \<Rightarrow> sql_value \<Rightarrow> sql_value list \<Rightarrow> sql_value" where
  "accumulated F current xs = fold (keep_better F) xs current"

lemma keep_better_in: "keep_better F x best = x \<or> keep_better F x best = best"
  by (simp add: keep_better_def)

lemma accumulated_in: "accumulated F current xs \<in> insert current (set xs)"
  unfolding accumulated_def
proof (induction xs arbitrary: current)
  case (Cons x xs)
  then show ?case using keep_better_in [of F x current] by (metis fold_simps(2) insert_iff list.simps(15))
qed simp

text \<open>With a strict order, nothing that was looked at beats the result.\<close>

lemma accumulated_best:
  assumes "\<forall>x\<in>V. \<not> compare_sql F x x"
    and trans: "\<forall>x\<in>V. \<forall>y\<in>V. \<forall>z\<in>V. compare_sql F x y \<and> compare_sql F y z \<longrightarrow> compare_sql F x z"
    and "set xs \<subseteq> V" "current \<in> V" "x \<in> insert current (set xs)" "x \<noteq> SqlNull"
  shows "accumulated F current xs \<noteq> SqlNull \<and> \<not> compare_sql F x (accumulated F current xs)"
proof -
  have "accumulated F current xs \<noteq> SqlNull \<and> \<not> compare_sql F x (accumulated F current xs)"
    if "(\<exists>y. y \<in> V \<and> y = x \<and> current \<noteq> SqlNull \<and> \<not> compare_sql F x current) \<or> x \<in> set xs" "set xs \<subseteq> V" "current \<in> V" for xs
    using that
  proof (induction xs arbitrary: current)
    case Nil
    then show ?case by (auto simp: accumulated_def)
  next
    case (Cons a xs)
    let ?b = "keep_better F a current"
    have b: "?b \<in> V" using Cons.prems(2,3) keep_better_in [of F a current] by auto
    have "(\<exists>y. y \<in> V \<and> y = x \<and> ?b \<noteq> SqlNull \<and> \<not> compare_sql F x ?b) \<or> x \<in> set xs"
    proof (cases "x \<in> set xs")
      case False
      then consider "x \<in> V" "current \<noteq> SqlNull" "\<not> compare_sql F x current" | "x = a" using Cons.prems(1) by auto
      then show ?thesis
      proof cases
        case 1
        moreover have "compare_sql F x a \<Longrightarrow> compare_sql F a current \<Longrightarrow> compare_sql F x current"
          using trans 1(1) Cons.prems(2,3) by (meson list.set_intros(1) subsetD)
        ultimately show ?thesis by (auto simp: keep_better_def)
      next
        case 2
        then show ?thesis using assms(1) assms(6) Cons.prems(2) by (auto simp: keep_better_def)
      qed
    qed simp
    then show ?case using Cons.IH [OF _ _ b] Cons.prems(2) by (simp add: accumulated_def)
  qed
  note * = this
  have "(\<exists>y. y \<in> V \<and> y = x \<and> current \<noteq> SqlNull \<and> \<not> compare_sql F x current) \<or> x \<in> set xs"
    using assms(1,4-6) by auto
  then show ?thesis by (rule * [OF _ assms(3,4)])
qed

definition candidate :: "sql_type \<Rightarrow> data_ptr \<Rightarrow> sql_value \<Rightarrow> bool" where
  "candidate t d s \<longleftrightarrow> d = None \<and> s = SqlNull \<or> d \<noteq> None \<and> item_holds t d s"

lemma accumulated_items:
  assumes "made_for F t t c"
  shows "list_all2 (item_holds t) ds xs \<Longrightarrow> candidate t d s \<Longrightarrow> \<exists>d'. accumulate_items c ds d = Some d' \<and> candidate t d' (accumulated F s xs)"
proof (induction ds xs arbitrary: d s rule: list_all2_induct)
  case (Cons e ds x xs)
  note null = item_holds_null [OF Cons.hyps(1)] and c = made_nullable [OF assms]
  have eq: "accumulated F s (x # xs) = accumulated F (keep_better F x s) xs" by (simp add: accumulated_def)
  show ?case
  proof (cases "x = SqlNull \<or> d = None")
    case True
    then have "candidate t (if x = SqlNull then d else e) (keep_better F x s)" "accumulate_items c (e # ds) d = accumulate_items c ds (if x = SqlNull then d else e)"
      using Cons.prems Cons.hyps(1) null item_holds_nullable [of t x] c item_holds_null [of t d s] by (auto simp: candidate_def keep_better_def)
    then show ?thesis using Cons.IH eq by simp
  next
    case False
    then obtain bd be where d: "d = Some bd" "e = Some be" "item_holds t d s" using Cons.prems null by (auto simp: candidate_def)
    then have s: "s \<noteq> SqlNull" using item_holds_null by auto
    have "compareDataPtrsHelper c True e d = Some (compare_sql F x s)"
      using assms helper_held(1) [OF _ _ _ Cons.hyps(1) d(3)] d(1,2) by (auto simp: made_for_def)
    moreover have "candidate t (if compare_sql F x s then e else d) (keep_better F x s)"
      using d s False Cons.hyps(1) by (auto simp: candidate_def keep_better_def)
    ultimately show ?thesis
      using Cons.IH [of "if compare_sql F x s then e else d" "keep_better F x s"] d eq by (cases "compare_sql F x s") simp_all
  qed
qed (simp add: accumulated_def)

lemma typed_held:
  assumes "made_for F t t c" "value_of_type h l t" "value_of_type h r t" "\<not> isNull l" "\<not> isNull r"
  shows "compareTypedValues h c l r = Some (compare_sql F (sql_value_of h l) (sql_value_of h r))"
proof -
  note c = made_shape [OF assms(1)] and d = data_ptr_held [OF assms(2,4)]
  have "compareDataPtrWithTypedValue h c (Some (getDataPtr h l)) r = compareTypedValues h c l r"
    using c assms(4,5) string_data_ptr [OF assms(2) _ assms(4)] literal_data_ptr(1) [OF assms(2) _ assms(4)]
    by (cases "type_id t \<in> {kChar, kVarChar}") (auto simp: compareTypedValues_def)
  then show ?thesis using static_right(1) [OF assms(1) d assms(3,5)] by simp
qed

lemma accumulated_values:
  assumes "made_for F t t c"
  shows "list_all2 (\<lambda>e x. \<exists>v. e = Some v \<and> value_of_type h v t \<and> sql_value_of h v = x) vs xs \<Longrightarrow> isNull cur \<or> value_of_type h cur t \<Longrightarrow>
    \<exists>v. accumulate_values (nullable t) h c vs cur = Some v \<and> (isNull v \<or> value_of_type h v t) \<and>
      sql_value_of h v = accumulated F (sql_value_of h cur) xs"
proof (induction vs xs arbitrary: cur rule: list_all2_induct)
  case (Cons e vs x xs)
  obtain v where v: "e = Some v" "value_of_type h v t" "sql_value_of h v = x" using Cons.hyps(1) by auto
  have eq: "accumulated F s (x # xs) = accumulated F (keep_better F x s) xs" for s by (simp add: accumulated_def)
  have null: "isNull w \<longleftrightarrow> sql_value_of h w = SqlNull" for w by (simp add: sql_value_of_def)
  have nv: "isNull v \<Longrightarrow> nullable t" using v(2) by (simp add: value_of_type_def)
  let ?next = "if x = SqlNull then cur else if isNull cur \<or> compare_sql F x (sql_value_of h cur) then v else cur"
  have "accumulate_values (nullable t) h c (e # vs) cur = accumulate_values (nullable t) h c vs ?next"
    using v nv null [of v] typed_held [OF assms v(2), of cur] Cons.prems by (cases "isNull v"; cases "isNull cur") auto
  moreover have "sql_value_of h ?next = keep_better F x (sql_value_of h cur)" "isNull ?next \<or> value_of_type h ?next t"
    using v Cons.prems null by (auto simp: keep_better_def)
  ultimately show ?case using Cons.IH [of ?next] eq by simp
qed (simp add: accumulated_def)


lemma candidate_result:
  assumes "made_for F t t c" "type_id t \<notin> {kChar, kVarChar}" "candidate t d s"
  shows "\<exists>v. literal_result padding c current d = Some v \<and> sql_value_of h v = stored_sql s"
proof (cases d)
  case None
  then show ?thesis using assms(3) literal_observers by (auto simp: literal_result_def candidate_def sql_value_of_def)
next
  case (Some bs)
  then have held: "item_holds t d s" using assms(3) by (simp add: candidate_def)
  obtain l where l: "s = SqlLiteral l" "literal_type l = type_id t" "deref (type_id t) d = Some l"
    by (rule item_holdsE [OF held]) (use Some assms(2) in auto)
  have "left_type c = type_id t" using made_shape [OF assms(1)] assms(2) by simp
  moreover have "sql_value_of h (literal_value padding l) = SqlLiteral (stored_literal l)"
    using getLiteral_value [of l padding] l(2) assms(2) by (simp add: sql_value_of_def)
  ultimately show ?thesis using Some l by (auto simp: literal_result_def)
qed

lemma current_candidate: "isNull v \<or> value_of_type h v t \<Longrightarrow> candidate t (if isNull v then None else Some (getDataPtr h v)) (sql_value_of h v)"
  using data_ptr_held sql_null by (auto simp: candidate_def)

text \<open>
  C34: Accumulation by a comparator made for one type on both sides, with a comparison that is a strict order on the
  values at hand, such as less for MIN or greater for MAX: the result is one of the values or the current value, and
  none of these beats it; nulls are skipped, and the result is null only if all are. All six implementations give
  this result: the class for literals over a native column (the only ones it takes) and over an accessor, the class for strings
  and the default implementation over a column and over an accessor. The literal that the first class stores again
  has the zeros normalised; an accessor is any but an ordered adapter, which the code refuses.
\<close>

theorem accumulation_finds_best:
  assumes "made_for F t t c" "isNull current \<or> value_of_type h current t"
    and V: "V = insert (sql_value_of h current) (set xs)" "\<forall>x\<in>V. \<not> compare_sql F x x"
      "\<forall>x\<in>V. \<forall>y\<in>V. \<forall>z\<in>V. compare_sql F x y \<and> compare_sql F y z \<longrightarrow> compare_sql F x z"
  shows "let best = accumulated F (sql_value_of h current) xs in
    best \<in> V \<and> (\<forall>x\<in>V. x \<noteq> SqlNull \<longrightarrow> best \<noteq> SqlNull \<and> \<not> compare_sql F x best) \<and>
    (type_id t \<notin> {kChar, kVarChar} \<and> column_holds t h cv xs \<and> isNative cv \<longrightarrow>
      (\<exists>v. Literal_accumulateColumnVector padding c h current cv = Some v \<and> sql_value_of h v = stored_sql best)) \<and>
    (type_id t \<notin> {kChar, kVarChar} \<and> va_ok acc \<and> \<not> isOrderedTupleIdSequenceAdapter acc \<and> accessor_holds t h acc attr y \<and>
       xs = map (y \<circ> nat) (va_positions acc) \<longrightarrow>
      (\<exists>v. Literal_accumulateValueAccessor padding c h current acc attr = Some v \<and> sql_value_of h v = stored_sql best)) \<and>
    (cv_size cv = length xs \<and>
       (\<forall>i<length xs. \<exists>v. cv_getTypedValue padding h cv i = Some v \<and> value_of_type h v t \<and> sql_value_of h v = xs ! i) \<longrightarrow>
      (\<exists>v. AsciiString_accumulateColumnVector padding c h current cv = Some v \<and>
        accumulateColumnVectorDefaultImpl (nullable t) padding c h current cv = Some v \<and> sql_value_of h v = best)) \<and>
    (va_ok acc \<and> \<not> isOrderedTupleIdSequenceAdapter acc \<and> xs = map (y \<circ> nat) (va_positions acc) \<and>
       (\<forall>p\<in>set (va_positions acc). \<exists>v. va_getTypedValueAtAbsolutePosition padding h acc attr p = Some v \<and>
          value_of_type h v t \<and> sql_value_of h v = y (nat p)) \<longrightarrow>
      (\<exists>v. AsciiString_accumulateValueAccessor padding c h current acc attr = Some v \<and>
        accumulateValueAccessorDefaultImpl (nullable t) padding c h current acc attr = Some v \<and> sql_value_of h v = best))"
  unfolding Let_def
proof (intro conjI impI ballI)
  let ?best = "accumulated F (sql_value_of h current) xs"
  show "?best \<in> V" using accumulated_in V(1) by blast
  show "?best \<noteq> SqlNull" "\<not> compare_sql F x ?best" if "x \<in> V" "x \<noteq> SqlNull" for x
    using accumulated_best [OF V(2,3), where xs = xs and current = "sql_value_of h current" and x = x] that V(1) by auto
  note cur = current_candidate [OF assms(2)] and null = made_nullable [OF assms(1)]
  have literal: "\<exists>v. do { l \<leftarrow> accumulate_items c ds (if isNull current then None else Some (getDataPtr h current));
      literal_result padding c current l } = Some v \<and> sql_value_of h v = stored_sql ?best"
    if "list_all2 (item_holds t) ds xs" "type_id t \<notin> {kChar, kVarChar}" for ds
    using accumulated_items [OF assms(1) that(1) cur] candidate_result [OF assms(1) that(2)] by fastforce
  show "\<exists>v. Literal_accumulateColumnVector padding c h current cv = Some v \<and> sql_value_of h v = stored_sql ?best"
    if a: "type_id t \<notin> {kChar, kVarChar} \<and> column_holds t h cv xs \<and> isNative cv"
  proof -
    have "list_all2 (item_holds t) (map (cv_getUntypedValue (nullable t) h cv) [0..<cv_size cv]) xs"
      using a by (auto simp: list_all2_conv_all_nth column_holds_def)
    note literal [OF this]
    moreover have "native_getUntypedValue (nullable t) h (as_native cv) = cv_getUntypedValue (nullable t) h cv"
      using a native_column by (intro ext) simp
    ultimately show ?thesis
      using a null by (simp add: Literal_accumulateColumnVector_def Let_def native_column)
  qed
  show "\<exists>v. Literal_accumulateValueAccessor padding c h current acc attr = Some v \<and> sql_value_of h v = stored_sql ?best"
    if a: "type_id t \<notin> {kChar, kVarChar} \<and> va_ok acc \<and> \<not> isOrderedTupleIdSequenceAdapter acc \<and> accessor_holds t h acc attr y \<and>
       xs = map (y \<circ> nat) (va_positions acc)"
  proof -
    have acc: "va_ok acc" "\<not> isOrderedTupleIdSequenceAdapter acc" using a by simp_all
    obtain ss where ss: "accessor_loop acc = Some ss" "map va_getCurrentPosition ss = va_positions acc"
      "\<forall>s\<in>set ss. \<forall>cn h attr. va_getUntypedValue cn h s attr = value_at cn h acc attr (va_getCurrentPosition s)"
      using accessor_cursors [OF acc] by blast
    have "item_holds t (va_getUntypedValue (nullable t) h s attr) (y (nat (va_getCurrentPosition s)))" if "s \<in> set ss" for s
    proof -
      have p: "va_getCurrentPosition s \<in> set (va_positions acc)" using that ss(2) by (metis image_eqI set_map)
      then show ?thesis
        using held_at [of t h acc attr y "nat (va_getCurrentPosition s)"] a ss(3) that accessor_range(3) [OF acc p] by simp
    qed
    then have "list_all2 (item_holds t) (map (\<lambda>s. va_getUntypedValue (nullable t) h s attr) ss) xs"
      using a ss(2) [symmetric] by (simp add: list_all2_map1 list_all2_map2 list_all2_same o_def)
    then show ?thesis
      using literal a null ss(1) by (simp add: Literal_accumulateValueAccessor_def not_ordered_accessor)
  qed
  show "\<exists>v. AsciiString_accumulateValueAccessor padding c h current acc attr = Some v \<and>
      accumulateValueAccessorDefaultImpl (nullable t) padding c h current acc attr = Some v \<and> sql_value_of h v = ?best"
    if a: "va_ok acc \<and> \<not> isOrderedTupleIdSequenceAdapter acc \<and> xs = map (y \<circ> nat) (va_positions acc) \<and>
       (\<forall>p\<in>set (va_positions acc). \<exists>v. va_getTypedValueAtAbsolutePosition padding h acc attr p = Some v \<and>
          value_of_type h v t \<and> sql_value_of h v = y (nat p))"
  proof -
    obtain ss where ss: "accessor_loop acc = Some ss" "map va_getCurrentPosition ss = va_positions acc"
      using accessor_cursors a by blast
    have "\<exists>v. va_getTypedValue padding h s attr = Some v \<and> value_of_type h v t \<and>
        sql_value_of h v = y (nat (va_getCurrentPosition s))" if "s \<in> set ss" for s
    proof -
      have "va_getCurrentPosition s \<in> set (va_positions acc)" using that ss(2) by (metis image_eqI set_map)
      then show ?thesis using a accessor_loop_typed [OF _ _ ss(1) that] by simp
    qed
    then have "list_all2 (\<lambda>e x. \<exists>v. e = Some v \<and> value_of_type h v t \<and> sql_value_of h v = x)
        (map (\<lambda>s. va_getTypedValue padding h s attr) ss) xs"
      using a ss(2) [symmetric] by (simp add: list_all2_map1 list_all2_map2 list_all2_same o_def)
    note accumulated_values [OF assms(1) this assms(2)]
    then show ?thesis
      using a null ss(1)
      by (auto simp: AsciiString_accumulateValueAccessor_def accumulateValueAccessorDefaultImpl_def not_ordered_accessor)
  qed
  assume a: "cv_size cv = length xs \<and>
    (\<forall>i<length xs. \<exists>v. cv_getTypedValue padding h cv i = Some v \<and> value_of_type h v t \<and> sql_value_of h v = xs ! i)"
  have "list_all2 (\<lambda>e x. \<exists>v. e = Some v \<and> value_of_type h v t \<and> sql_value_of h v = x) (map (cv_getTypedValue padding h cv) [0..<cv_size cv]) xs"
    using a by (auto simp: list_all2_conv_all_nth)
  note accumulated_values [OF assms(1) this assms(2)]
  then show "\<exists>v. AsciiString_accumulateColumnVector padding c h current cv = Some v \<and>
      accumulateColumnVectorDefaultImpl (nullable t) padding c h current cv = Some v \<and> sql_value_of h v = ?best"
    using null by (auto simp: AsciiString_accumulateColumnVector_def accumulateColumnVectorDefaultImpl_def)
qed


section \<open>The comparisons of integers 1, 5 and 9\<close>

lemma int_compare [simp]: "compare_numbers LessFunctor (IntLit a) (IntLit b) \<longleftrightarrow> sint a < sint b"
  by (simp add: compare_numbers_def)

lemma int_static_nullable [simp]: "nullable (basic_type kInt) = False" "type_id (basic_type kInt) = kInt"
  by (simp_all add: basic_type_def)

lemma no_bitmaps [simp]: "bitmaps_ok None None n \<longleftrightarrow> n < 2 ^ 31" "tuple_of None i = i" "column_length_of None n = n" "filter_set None = UNIV"
  by (simp_all add: bitmaps_ok_def tuple_of_def column_length_of_def filter_set_def)

lemma below_three: "(\<exists>i. p = i \<and> i < 3 \<and> P i) \<longleftrightarrow> p < 3 \<and> P p" for p :: nat
  by auto

lemma three_cases: "p < 3 \<longleftrightarrow> p = 0 \<or> p = 1 \<or> p = 2" for p :: nat
  by auto

theorem column_comparison_selects_witness:
  "selects (AsciiString_compareColumnVectors False (\<lambda>_. 0) sample_heap int_less (int_column [1, 5, 9]) (int_column [2, 4, 11]) None None) 3 {0, 2}"
proof -
  have "{i. i < 3 \<and> compare_sql LessFunctor ([SqlLiteral (number (IntLit 1)), SqlLiteral (number (IntLit 5)), SqlLiteral (number (IntLit 9))] ! i)
      ([SqlLiteral (number (IntLit 2)), SqlLiteral (number (IntLit 4)), SqlLiteral (number (IntLit 11))] ! i)} = {0, 2}"
    by (auto simp: three_cases)
  then show ?thesis
    using column_comparison_selects [OF int_less_made int_column_holds [of sample_heap "[1, 5, 9]"] int_column_holds [of sample_heap "[2, 4, 11]"],
        of None None False "\<lambda>_. 0"] by (simp add: Let_def numeral_3_eq_3)
qed

theorem static_comparison_selects_witness:
  "selects (compareColumnVectorAndStaticValueDefaultImpl False False True (\<lambda>_. 0) int_less sample_heap (int_column [1, 5, 9]) (TypedValue_int 6) None None)
    3 {0, 1}"
proof -
  have "{i. i < 3 \<and> compare_sql LessFunctor ([SqlLiteral (number (IntLit 1)), SqlLiteral (number (IntLit 5)), SqlLiteral (number (IntLit 9))] ! i)
      (SqlLiteral (number (IntLit 6)))} = {0, 1}"
    by (auto simp: three_cases)
  then show ?thesis
    using static_comparison_selects [OF int_less_made, of None None "map (\<lambda>i. SqlLiteral (number (IntLit i))) [1, 5, 9]" sample_heap
        "int_column [1, 5, 9]" "TypedValue_int 6" True "\<lambda>_. 0"] int_column_holds [of sample_heap "[1, 5, 9]"]
    by (simp add: Let_def int_value numeral_3_eq_3)
qed

lemmas int_accessor_facts = column_accessor_holds [OF int_column_holds, folded int_accessor_def]

theorem accessor_comparison_selects_witness:
  "selects (AsciiString_compareSingleValueAccessor False (\<lambda>_. 0) int_less sample_heap (int_accessor [1, 5, 9]) 0 0 None) 3 {}"
proof -
  let ?xs = "[SqlLiteral (number (IntLit 1)), SqlLiteral (number (IntLit 5)), SqlLiteral (number (IntLit 9))]"
  have S: "{p. (p = 0 \<or> p = Suc 0 \<or> p = 2) \<and> compare_sql LessFunctor (?xs ! p) (?xs ! p)} = {}"
    by (rule equals0I) (elim CollectE conjE disjE; simp)
  show ?thesis
    using accessor_comparison_selects [where flt = None and acc = "int_accessor [1, 5, 9]" and h = sample_heap and sc = False and g = "\<lambda>_. 0",
      OF int_less_made int_accessor_facts(3) int_accessor_facts(1) int_accessor_facts(1)] int_accessor_facts(2,4) [of "[1, 5, 9]"]
    by (auto simp: Let_def S split: if_splits)
qed

theorem accessor_static_comparison_selects_witness:
  "selects (compareValueAccessorAndStaticValueDefaultImpl False False True (\<lambda>_. 0) int_less sample_heap (int_accessor [1, 5, 9]) 0 (TypedValue_int 6) None)
    3 {0, 1}"
proof -
  have "{i. (i = 0 \<or> i = Suc 0 \<or> i = 2) \<and> compare_sql LessFunctor ([SqlLiteral (number (IntLit 1)), SqlLiteral (number (IntLit 5)), SqlLiteral (number (IntLit 9))] ! i)
      (SqlLiteral (number (IntLit 6)))} = {0, 1}"
    by auto
  then show ?thesis
    using accessor_static_comparison_selects [OF int_less_made int_accessor_facts(3), of "[1, 5, 9]" sample_heap 0
        "(!) (map (\<lambda>i. SqlLiteral (number (IntLit i))) [1, 5, 9])" "TypedValue_int 6" True "\<lambda>_. 0"]
      int_accessor_facts(1) [of "[1, 5, 9]" sample_heap] int_accessor_facts(2-4) [of "[1, 5, 9]"]
    by (auto simp: Let_def int_value image_iff)
qed

theorem column_accessor_comparison_selects_witness:
  "selects (compareColumnVectorAndValueAccessorDefaultImpl False False True (\<lambda>_. 0) int_less sample_heap (int_column [1, 5, 9]) (int_accessor [2, 4, 11]) 0
    None None) 3 {0, 2}"
proof -
  have "{i. i < 3 \<and> compare_sql LessFunctor ([SqlLiteral (number (IntLit 1)), SqlLiteral (number (IntLit 5)), SqlLiteral (number (IntLit 9))] ! i)
      ([SqlLiteral (number (IntLit 2)), SqlLiteral (number (IntLit 4)), SqlLiteral (number (IntLit 11))] ! i)} = {0, 2}"
    by (auto simp: three_cases)
  then show ?thesis
    using column_accessor_comparison_selects [OF int_less_made, of None None "map (\<lambda>i. SqlLiteral (number (IntLit i))) [1, 5, 9]"
        "int_accessor [2, 4, 11]" sample_heap "int_column [1, 5, 9]" 0 "(!) (map (\<lambda>i. SqlLiteral (number (IntLit i))) [2, 4, 11])"
        True "\<lambda>_. 0"] int_column_holds [of sample_heap "[1, 5, 9]"] int_accessor_facts(1) [of "[2, 4, 11]" sample_heap] int_accessor_facts(2-4) [of "[2, 4, 11]"]
    by (simp add: Let_def filter_ok_def numeral_3_eq_3)
qed

theorem accumulation_finds_best_witness:
  "\<exists>v. accumulateColumnVectorDefaultImpl False 0 int_less sample_heap (TypedValue_null kInt) (int_column [5, 1, 9]) = Some v \<and>
    sql_value_of sample_heap v = SqlLiteral (number (IntLit 1))"
proof -
  let ?xs = "map (\<lambda>i. SqlLiteral (number (IntLit i))) [5, 1, 9 :: u32]"
  have typed: "\<exists>v. cv_getTypedValue 0 h (int_column [5, 1, 9]) i = Some v \<and> value_of_type h v (basic_type kInt) \<and> sql_value_of h v = ?xs ! i"
    if "i < 3" for i h
  proof -
    obtain cv where cv: "int_column [5, 1, 9] = IndirectColumn cv" "indirect_values cv = map TypedValue_int [5, 1, 9]"
      using int_column_values by blast
    then show ?thesis using that by (auto simp: three_cases indirect_getTypedValue_def int_value)
  qed
  have size: "cv_size (int_column [5, 1, 9]) = 3"
    using int_column_holds [of sample_heap "[5, 1, 9]"] by (simp add: column_holds_def)
  have best: "accumulated LessFunctor SqlNull ?xs = SqlLiteral (number (IntLit 1))"
    by (simp add: accumulated_def keep_better_def)
  have null: "sql_value_of sample_heap (TypedValue_null kInt) = SqlNull" "isNull (TypedValue_null kInt)"
    using literal_observers by (simp_all add: sql_value_of_def)
  let ?V = "insert (sql_value_of sample_heap (TypedValue_null kInt)) (set ?xs)"
  have "\<forall>x\<in>?V. \<not> compare_sql LessFunctor x x"
    "\<forall>x\<in>?V. \<forall>y\<in>?V. \<forall>z\<in>?V. compare_sql LessFunctor x y \<and> compare_sql LessFunctor y z \<longrightarrow> compare_sql LessFunctor x z"
    unfolding null by simp_all
  note accumulation_finds_best [OF int_less_made disjI1 [OF null(2)] refl this, where padding = 0 and cv = "int_column [5, 1, 9]"
      and acc = "int_accessor []" and attr = 0 and y = "\<lambda>_. SqlNull", unfolded Let_def null best]
  then show ?thesis using typed size by (auto simp: numeral_3_eq_3)
qed

end
