(* ===== verification/Arithmetic.thy ===== *)
theory Arithmetic
  imports VectorComparisons
begin

text \<open>
  The arithmetic operations on values, from \<^verbatim>\<open>types/operations/binary_operations\<close>: the function objects and the
  unchecked operators of \<^verbatim>\<open>ArithmeticBinaryOperators.hpp\<close>, their making in \<^verbatim>\<open>ArithmeticBinaryOperation.hpp\<close> and the
  operations, and the checked application of an operation to two values. \<open>None\<close> is undefined behaviour, such as
  signed overflow or a division by zero, or a fatal error. \<open>gmtime\<close> is the C library's function; the functions on columns
  take the address and the previous contents of the memory of their result, which is allocated there, as
  arguments, and read their operands in the memory at the call: the result's memory is fresh.
\<close>

section \<open>The function objects\<close>

datatype arith_functor = AddFunctor | SubtractFunctor | MultiplyFunctor | DivideFunctor | IntegerModuloFunctor | FloatModuloFunctor

fun is_long :: "numeric_lit \<Rightarrow> bool" where
  "is_long (LongLit _) = True"
| "is_long _ = False"

text \<open>
  The built-in operators on signed integers of a width that \<open>check\<close> tests. The remainder of the least number by
  \<open>- 1\<close> is undefined as the quotient is.
\<close>

fun int_op :: "(int \<Rightarrow> 'w option) \<Rightarrow> (int \<Rightarrow> 'w) \<Rightarrow> arith_functor \<Rightarrow> int \<Rightarrow> int \<Rightarrow> 'w option" where
  "int_op check conv AddFunctor a b = check (a + b)"
| "int_op check conv SubtractFunctor a b = check (a - b)"
| "int_op check conv MultiplyFunctor a b = check (a * b)"
| "int_op check conv DivideFunctor a b = (if b = 0 then None else check (a sdiv b))"
| "int_op check conv IntegerModuloFunctor a b =
     (if b = 0 then None else do { quotient \<leftarrow> check (a sdiv b); Some (conv (a smod b)) })"
| "int_op check conv FloatModuloFunctor a b = None"

fun float_op :: "arith_functor \<Rightarrow> fp \<Rightarrow> fp \<Rightarrow> fp option" where
  "float_op AddFunctor a b = Some (fp_add a b)"
| "float_op SubtractFunctor a b = Some (fp_add a (fp_neg b))"
| "float_op MultiplyFunctor a b = Some (fp_mul a b)"
| "float_op DivideFunctor a b = Some (fp_div a b)"
| "float_op IntegerModuloFunctor a b = None"
| "float_op FloatModuloFunctor a b = Some (fp_fmod a b)"

text \<open>
  The type an operator computes in: the usual arithmetic conversions, except that a 64-bit integer and a
  \<^verbatim>\<open>float\<close> are computed in \<^verbatim>\<open>double\<close>, and that \<^verbatim>\<open>std::fmod\<close> takes integers as \<^verbatim>\<open>double\<close>.
\<close>

definition number_op :: "arith_functor \<Rightarrow> numeric_lit \<Rightarrow> numeric_lit \<Rightarrow> numeric_lit option" where
  "number_op F l r =
     (if is_double l \<or> is_double r \<or> (F = FloatModuloFunctor \<and> \<not> (is_float l \<and> is_float r)) \<or>
         (is_long l \<and> is_float r) \<or> (is_float l \<and> is_long r)
      then map_option (\<lambda>x. DoubleLit (to_f64 x)) (float_op F (as_double l) (as_double r))
      else if is_float l \<or> is_float r
      then map_option (\<lambda>x. FloatLit (to_f32 x)) (float_op F (as_float l) (as_float r))
      else if is_long l \<or> is_long r
      then map_option LongLit (int_op checked64 word_of_int F (as_int64 l) (as_int64 r))
      else map_option IntLit (int_op checked32 word_of_int F (as_int64 l) (as_int64 r)))"

text \<open>The C++ operators between the C++ types of two literals; the other pairs have no such operator.\<close>

definition plus_literals :: "(int \<Rightarrow> tm) \<Rightarrow> literal \<Rightarrow> literal \<Rightarrow> literal option" where
  "plus_literals gmtime left right =
     (case left of
        number l \<Rightarrow> (case right of number r \<Rightarrow> map_option number (number_op AddFunctor l r) | _ \<Rightarrow> None)
      | datetime l \<Rightarrow> (case right of
            datetime_interval r \<Rightarrow> map_option datetime (datetime_plus_interval l r)
          | year_month_interval r \<Rightarrow> map_option datetime (datetime_plus_yearmonth gmtime l r)
          | _ \<Rightarrow> None)
      | datetime_interval l \<Rightarrow> (case right of
            datetime r \<Rightarrow> map_option datetime (interval_plus_datetime l r)
          | datetime_interval r \<Rightarrow> map_option datetime_interval (interval_plus l r)
          | _ \<Rightarrow> None)
      | year_month_interval l \<Rightarrow> (case right of
            datetime r \<Rightarrow> map_option datetime (yearmonth_plus_datetime gmtime l r)
          | year_month_interval r \<Rightarrow> map_option year_month_interval (yearmonth_plus l r)
          | _ \<Rightarrow> None)
      | _ \<Rightarrow> None)"

definition minus_literals :: "(int \<Rightarrow> tm) \<Rightarrow> literal \<Rightarrow> literal \<Rightarrow> literal option" where
  "minus_literals gmtime left right =
     (case left of
        number l \<Rightarrow> (case right of number r \<Rightarrow> map_option number (number_op SubtractFunctor l r) | _ \<Rightarrow> None)
      | datetime l \<Rightarrow> (case right of
            datetime r \<Rightarrow> map_option datetime_interval (datetime_minus_datetime l r)
          | datetime_interval r \<Rightarrow> map_option datetime (datetime_minus_interval l r)
          | year_month_interval r \<Rightarrow> map_option datetime (datetime_minus_yearmonth gmtime l r)
          | _ \<Rightarrow> None)
      | datetime_interval l \<Rightarrow> (case right of
            datetime_interval r \<Rightarrow> map_option datetime_interval (interval_minus l r)
          | _ \<Rightarrow> None)
      | year_month_interval l \<Rightarrow> (case right of
            year_month_interval r \<Rightarrow> map_option year_month_interval (yearmonth_minus l r)
          | _ \<Rightarrow> None)
      | _ \<Rightarrow> None)"

definition times_literals :: "literal \<Rightarrow> literal \<Rightarrow> literal option" where
  "times_literals left right =
     (case left of
        number l \<Rightarrow> (case right of
            number r \<Rightarrow> map_option number (number_op MultiplyFunctor l r)
          | datetime_interval r \<Rightarrow> map_option datetime_interval (times_interval l r)
          | year_month_interval r \<Rightarrow> map_option year_month_interval (times_yearmonth l r)
          | _ \<Rightarrow> None)
      | datetime_interval l \<Rightarrow> (case right of number r \<Rightarrow> map_option datetime_interval (interval_times l r) | _ \<Rightarrow> None)
      | year_month_interval l \<Rightarrow> (case right of number r \<Rightarrow> map_option year_month_interval (yearmonth_times l r) | _ \<Rightarrow> None)
      | _ \<Rightarrow> None)"

definition divide_literals :: "literal \<Rightarrow> literal \<Rightarrow> literal option" where
  "divide_literals left right =
     (case right of
        number r \<Rightarrow> (case left of
            number l \<Rightarrow> map_option number (number_op DivideFunctor l r)
          | datetime_interval l \<Rightarrow> map_option datetime_interval (interval_divide l r)
          | year_month_interval l \<Rightarrow> map_option year_month_interval (yearmonth_divide l r)
          | _ \<Rightarrow> None)
      | _ \<Rightarrow> None)"

definition modulo_literals :: "arith_functor \<Rightarrow> literal \<Rightarrow> literal \<Rightarrow> literal option" where
  "modulo_literals F left right =
     (case left of number l \<Rightarrow> (case right of number r \<Rightarrow> map_option number (number_op F l r) | _ \<Rightarrow> None) | _ \<Rightarrow> None)"

definition op_functor :: "(int \<Rightarrow> tm) \<Rightarrow> arith_functor \<Rightarrow> literal \<Rightarrow> literal \<Rightarrow> literal option" where
  "op_functor gmtime F left right =
     (case F of AddFunctor \<Rightarrow> plus_literals gmtime left right | SubtractFunctor \<Rightarrow> minus_literals gmtime left right
      | MultiplyFunctor \<Rightarrow> times_literals left right | DivideFunctor \<Rightarrow> divide_literals left right
      | _ \<Rightarrow> modulo_literals F left right)"

lemmas op_functor_defs = op_functor_def plus_literals_def minus_literals_def times_literals_def divide_literals_def
  modulo_literals_def

text \<open>
  The conversion to \<^verbatim>\<open>ResultType::cpptype\<close> of a result that is assigned. The types differ only where
  \<^verbatim>\<open>std::fmod\<close> of a \<^verbatim>\<open>float\<close> and an \<^verbatim>\<open>int\<close> gives a \<^verbatim>\<open>double\<close>.
\<close>

fun to_cpptype :: "TypeID \<Rightarrow> literal \<Rightarrow> literal" where
  "to_cpptype kFloat (number (DoubleLit d)) = number (FloatLit (to_f32 (f64 d)))"
| "to_cpptype tid l = l"

section \<open>Unchecked operators\<close>

record arith_operator =
  ao_functor :: arith_functor
  ao_result :: TypeID
  ao_left :: TypeID
  ao_left_nullable :: bool
  ao_right :: TypeID
  ao_right_nullable :: bool

definition ao_nullable :: "arith_operator \<Rightarrow> bool" where
  "ao_nullable c \<longleftrightarrow> ao_left_nullable c \<or> ao_right_nullable c"

definition applyToTypedValues :: "(int \<Rightarrow> tm) \<Rightarrow> u16 \<Rightarrow> arith_operator \<Rightarrow> typed_value \<Rightarrow> typed_value \<Rightarrow> typed_value option" where
  "applyToTypedValues gmtime padding c left right =
     (if (ao_left_nullable c \<and> isNull left) \<or> (ao_right_nullable c \<and> isNull right) then Some (TypedValue_null (ao_result c))
      else map_option (literal_value padding)
             (op_functor gmtime (ao_functor c) (getLiteral (ao_left c) left) (getLiteral (ao_right c) right)))"

definition applyToDataPtrs :: "(int \<Rightarrow> tm) \<Rightarrow> u16 \<Rightarrow> arith_operator \<Rightarrow> data_ptr \<Rightarrow> data_ptr \<Rightarrow> typed_value option" where
  "applyToDataPtrs gmtime padding c left right =
     (if (ao_left_nullable c \<and> left = None) \<or> (ao_right_nullable c \<and> right = None) then Some (TypedValue_null (ao_result c))
      else do {
        l \<leftarrow> deref (ao_left c) left;
        r \<leftarrow> deref (ao_right c) right;
        map_option (literal_value padding) (op_functor gmtime (ao_functor c) l r)
      })"

definition castAndApply :: "(int \<Rightarrow> tm) \<Rightarrow> arith_operator \<Rightarrow> bool \<Rightarrow> data_ptr \<Rightarrow> data_ptr \<Rightarrow> literal option" where
  "castAndApply gmtime c arguments_in_order left right = do {
     l \<leftarrow> deref (ao_left c) (if arguments_in_order then left else right);
     r \<leftarrow> deref (ao_right c) (if arguments_in_order then right else left);
     map_option (to_cpptype (ao_result c)) (op_functor gmtime (ao_functor c) l r)
   }"

text \<open>The bytes of a literal of one of the result types.\<close>

fun literal_bytes :: "literal \<Rightarrow> u8 list" where
  "literal_bytes (number (IntLit i)) = word_bytes 4 (ucast i)"
| "literal_bytes (number (LongLit i)) = word_bytes 8 i"
| "literal_bytes (number (FloatLit f)) = word_bytes 4 (ucast f)"
| "literal_bytes (number (DoubleLit d)) = word_bytes 8 d"
| "literal_bytes (datetime t) = word_bytes 8 (ticks t)"
| "literal_bytes (datetime_interval i) = word_bytes 8 (interval_ticks i)"
| "literal_bytes (year_month_interval m) = word_bytes 8 (months m)"
| "literal_bytes (date d) = word_bytes 8 (ucast (date_year d) OR push_bit 32 (ucast (date_month d)) OR push_bit 40 (ucast (date_day d)))"

text \<open>
  The body of all loops over vectors: a null if one of the operands is null, else the result, written directly.
  The operands are those of the operator in its order; \<open>first_nullable\<close> and \<open>second_nullable\<close> say which are looked at
  for nulls.
\<close>

definition append_item ::
  "(int \<Rightarrow> tm) \<Rightarrow> arith_operator \<Rightarrow> data_ptr \<Rightarrow> data_ptr \<Rightarrow> native_column_vector \<times> heap \<Rightarrow> (native_column_vector \<times> heap) option" where
  "append_item gmtime c left right s =
     (if (ao_left_nullable c \<and> left = None) \<or> (ao_right_nullable c \<and> right = None)
      then map_option (\<lambda>cv. (cv, snd s)) (native_appendNullValue (fst s))
      else do {
        l \<leftarrow> castAndApply gmtime c True left right;
        let (ptr, cv) = native_getPtrForDirectWrite (fst s) in Some (cv, write_bytes ptr (literal_bytes l) (snd s))
      })"

fun append_items ::
  "(int \<Rightarrow> tm) \<Rightarrow> arith_operator \<Rightarrow> (data_ptr \<times> data_ptr) list \<Rightarrow> native_column_vector \<times> heap \<Rightarrow> (native_column_vector \<times> heap) option" where
  "append_items gmtime c [] s = Some s"
| "append_items gmtime c ((left, right) # items) s = do { s \<leftarrow> append_item gmtime c left right s; append_items gmtime c items s }"

text \<open>The new result column: its address, the old contents of its bitmap, the number of its values.\<close>

definition new_result_column :: "u64 \<Rightarrow> (nat \<Rightarrow> u64) \<Rightarrow> arith_operator \<Rightarrow> nat \<Rightarrow> heap \<Rightarrow> native_column_vector \<times> heap" where
  "new_result_column p g c n h = NativeColumnVector_new p g (Instance (ao_result c) (ao_nullable c)) n h"

definition static_item :: "TypeID \<Rightarrow> typed_value \<Rightarrow> data_ptr" where
  "static_item tid v = Some (word_bytes (cpp_size tid) (value_union v))"

text \<open>
  A static value that is null: \<^verbatim>\<open>fillWithNulls\<close> sets the whole null bitmap by \<open>setBitRange\<close>, so for a
  length that is a positive multiple of 64 it also makes the store past the bitmap's last word; the bitmap's
  \<open>stray\<close> flag records it (see \<open>setBitRange_out_of_bounds\<close> and \<open>constant_columns\<close>).
\<close>

definition all_null_column :: "native_column_vector \<times> heap \<Rightarrow> (native_column_vector \<times> heap) option" where
  "all_null_column s = map_option (\<lambda>cv. (cv, snd s)) (native_fillWithNulls (fst s))"


subsection \<open>Columns and accessors\<close>

definition applyToColumnVectors ::
  "u64 \<Rightarrow> (nat \<Rightarrow> u64) \<Rightarrow> (int \<Rightarrow> tm) \<Rightarrow> arith_operator \<Rightarrow> heap \<Rightarrow> column_vector \<Rightarrow> column_vector \<Rightarrow> (native_column_vector \<times> heap) option" where
  "applyToColumnVectors p g gmtime c h left right =
     (let left_native = as_native left; right_native = as_native right; n = native_size left_native
      in append_items gmtime c
           (map (\<lambda>pos. (native_getUntypedValue (ao_left_nullable c) h left_native pos,
                        native_getUntypedValue (ao_right_nullable c) h right_native pos)) [0..<n])
           (new_result_column p g c n h))"

definition applyToColumnVectorAndStaticValueHelper ::
  "bool \<Rightarrow> u64 \<Rightarrow> (nat \<Rightarrow> u64) \<Rightarrow> (int \<Rightarrow> tm) \<Rightarrow> arith_operator \<Rightarrow> heap \<Rightarrow> column_vector \<Rightarrow> typed_value \<Rightarrow>
   (native_column_vector \<times> heap) option" where
  "applyToColumnVectorAndStaticValueHelper column_vector_on_left p g gmtime c h column_vector static_value =
     (let cv_nullable = (if column_vector_on_left then ao_left_nullable c else ao_right_nullable c);
          static_value_nullable = (if column_vector_on_left then ao_right_nullable c else ao_left_nullable c);
          native_column_vector = as_native column_vector; n = native_size native_column_vector;
          result = new_result_column p g c n h
      in if static_value_nullable \<and> isNull static_value then all_null_column result
         else
           let literal = static_item (if column_vector_on_left then ao_right c else ao_left c) static_value
           in append_items gmtime c
                (map (\<lambda>pos. let item = native_getUntypedValue cv_nullable h native_column_vector pos
                            in if column_vector_on_left then (item, literal) else (literal, item)) [0..<n]) result)"

definition applyToSingleValueAccessor ::
  "u64 \<Rightarrow> (nat \<Rightarrow> u64) \<Rightarrow> (int \<Rightarrow> tm) \<Rightarrow> arith_operator \<Rightarrow> heap \<Rightarrow> value_accessor \<Rightarrow> attribute_id \<Rightarrow> attribute_id \<Rightarrow>
   (native_column_vector \<times> heap) option" where
  "applyToSingleValueAccessor p g gmtime c h accessor left_id right_id =
     on_accessor accessor (do {
       cursors \<leftarrow> accessor_loop accessor;
       append_items gmtime c
         (map (\<lambda>a. (va_getUntypedValue (ao_left_nullable c) h a left_id, va_getUntypedValue (ao_right_nullable c) h a right_id)) cursors)
         (new_result_column p g c (nat (va_getNumTuples accessor)) h)
     })"

definition applyToValueAccessorAndStaticValueHelper ::
  "bool \<Rightarrow> u64 \<Rightarrow> (nat \<Rightarrow> u64) \<Rightarrow> (int \<Rightarrow> tm) \<Rightarrow> arith_operator \<Rightarrow> heap \<Rightarrow> value_accessor \<Rightarrow> attribute_id \<Rightarrow> typed_value \<Rightarrow>
   (native_column_vector \<times> heap) option" where
  "applyToValueAccessorAndStaticValueHelper value_accessor_on_left p g gmtime c h accessor attr_id static_value =
     on_accessor accessor
       (let va_nullable = (if value_accessor_on_left then ao_left_nullable c else ao_right_nullable c);
            static_value_nullable = (if value_accessor_on_left then ao_right_nullable c else ao_left_nullable c);
            result = new_result_column p g c (nat (va_getNumTuples accessor)) h
        in if static_value_nullable \<and> isNull static_value then all_null_column result
           else
             let literal = static_item (if value_accessor_on_left then ao_right c else ao_left c) static_value
             in do {
               cursors \<leftarrow> accessor_loop accessor;
               append_items gmtime c
                 (map (\<lambda>a. let item = va_getUntypedValue va_nullable h a attr_id
                           in if value_accessor_on_left then (item, literal) else (literal, item)) cursors) result
             })"

definition applyToColumnVectorAndValueAccessorHelper ::
  "bool \<Rightarrow> u64 \<Rightarrow> (nat \<Rightarrow> u64) \<Rightarrow> (int \<Rightarrow> tm) \<Rightarrow> arith_operator \<Rightarrow> heap \<Rightarrow> column_vector \<Rightarrow> value_accessor \<Rightarrow> attribute_id \<Rightarrow>
   (native_column_vector \<times> heap) option" where
  "applyToColumnVectorAndValueAccessorHelper column_vector_on_left p g gmtime c h column_vector accessor attr_id =
     on_accessor accessor
       (let cv_nullable = (if column_vector_on_left then ao_left_nullable c else ao_right_nullable c);
            va_nullable = (if column_vector_on_left then ao_right_nullable c else ao_left_nullable c);
            native_column_vector = as_native column_vector
        in do {
          cursors \<leftarrow> accessor_loop accessor;
          append_items gmtime c
            (map (\<lambda>(cv_pos, a). let cv_value = native_getUntypedValue cv_nullable h native_column_vector cv_pos;
                                    va_value = va_getUntypedValue va_nullable h a attr_id
                                in if column_vector_on_left then (cv_value, va_value) else (va_value, cv_value))
               (zip [0..<length cursors] cursors))
            (new_result_column p g c (native_size native_column_vector) h)
        })"

text \<open>
  For a join the pairs of tuple IDs say which tuples of the two relations go together; the accessors are not
  adapters.
\<close>

definition joined :: "bool \<Rightarrow> tuple_id \<times> tuple_id \<Rightarrow> tuple_id" where
  "joined accessor_is_left_relation joined_pair = (if accessor_is_left_relation then fst joined_pair else snd joined_pair)"

definition InvokeOnValueAccessorNotAdapter :: "value_accessor \<Rightarrow> (plain_accessor \<Rightarrow> 'b option) \<Rightarrow> 'b option" where
  "InvokeOnValueAccessorNotAdapter accessor f = (case accessor of Plain acc \<Rightarrow> f acc | _ \<Rightarrow> None)"

definition applyToValueAccessorsForJoin ::
  "u64 \<Rightarrow> (nat \<Rightarrow> u64) \<Rightarrow> (int \<Rightarrow> tm) \<Rightarrow> arith_operator \<Rightarrow> heap \<Rightarrow> value_accessor \<Rightarrow> bool \<Rightarrow> attribute_id \<Rightarrow> value_accessor \<Rightarrow> bool \<Rightarrow>
   attribute_id \<Rightarrow> (tuple_id \<times> tuple_id) list \<Rightarrow> (native_column_vector \<times> heap) option" where
  "applyToValueAccessorsForJoin p g gmtime c h left_accessor left_accessor_is_left_relation left_id right_accessor
     right_accessor_is_left_relation right_id joined_tuple_ids =
     InvokeOnValueAccessorNotAdapter left_accessor (\<lambda>l. InvokeOnValueAccessorNotAdapter right_accessor (\<lambda>r.
       append_items gmtime c
         (map (\<lambda>jp. (plain_getUntypedValueAt (ao_left_nullable c) h l left_id (joined left_accessor_is_left_relation jp),
                     plain_getUntypedValueAt (ao_right_nullable c) h r right_id (joined right_accessor_is_left_relation jp))) joined_tuple_ids)
         (new_result_column p g c (length joined_tuple_ids) h)))"

definition applyToValueAccessorAndStaticValueForJoinHelper ::
  "bool \<Rightarrow> u64 \<Rightarrow> (nat \<Rightarrow> u64) \<Rightarrow> (int \<Rightarrow> tm) \<Rightarrow> arith_operator \<Rightarrow> heap \<Rightarrow> value_accessor \<Rightarrow> bool \<Rightarrow> attribute_id \<Rightarrow> typed_value \<Rightarrow>
   (tuple_id \<times> tuple_id) list \<Rightarrow> (native_column_vector \<times> heap) option" where
  "applyToValueAccessorAndStaticValueForJoinHelper value_accessor_on_left p g gmtime c h accessor accessor_is_left_relation attr_id
     static_value joined_tuple_ids =
     (let va_nullable = (if value_accessor_on_left then ao_left_nullable c else ao_right_nullable c);
          static_value_nullable = (if value_accessor_on_left then ao_right_nullable c else ao_left_nullable c);
          result = new_result_column p g c (length joined_tuple_ids) h
      in if static_value_nullable \<and> isNull static_value then all_null_column result
         else
           let literal = static_item (if value_accessor_on_left then ao_right c else ao_left c) static_value
           in InvokeOnValueAccessorNotAdapter accessor (\<lambda>acc.
                append_items gmtime c
                  (map (\<lambda>jp. let item = plain_getUntypedValueAt va_nullable h acc attr_id (joined accessor_is_left_relation jp)
                             in if value_accessor_on_left then (item, literal) else (literal, item)) joined_tuple_ids) result))"

definition applyToColumnVectorAndValueAccessorForJoinHelper ::
  "bool \<Rightarrow> u64 \<Rightarrow> (nat \<Rightarrow> u64) \<Rightarrow> (int \<Rightarrow> tm) \<Rightarrow> arith_operator \<Rightarrow> heap \<Rightarrow> column_vector \<Rightarrow> value_accessor \<Rightarrow> bool \<Rightarrow> attribute_id \<Rightarrow>
   (tuple_id \<times> tuple_id) list \<Rightarrow> (native_column_vector \<times> heap) option" where
  "applyToColumnVectorAndValueAccessorForJoinHelper column_vector_on_left p g gmtime c h column_vector accessor
     accessor_is_left_relation attr_id joined_tuple_ids =
     (let cv_nullable = (if column_vector_on_left then ao_left_nullable c else ao_right_nullable c);
          va_nullable = (if column_vector_on_left then ao_right_nullable c else ao_left_nullable c);
          native_column_vector = as_native column_vector; n = native_size native_column_vector
      in InvokeOnValueAccessorNotAdapter accessor (\<lambda>acc.
           append_items gmtime c
             (map (\<lambda>pos. let cv_value = native_getUntypedValue cv_nullable h native_column_vector pos;
                             va_value = plain_getUntypedValueAt va_nullable h acc attr_id
                                          (joined accessor_is_left_relation (joined_tuple_ids ! pos))
                         in if column_vector_on_left then (cv_value, va_value) else (va_value, cv_value)) [0..<n])
             (new_result_column p g c n h)))"

text \<open>The operands in either order.\<close>

definition applyToColumnVectorAndStaticValue ::
  "u64 \<Rightarrow> (nat \<Rightarrow> u64) \<Rightarrow> (int \<Rightarrow> tm) \<Rightarrow> arith_operator \<Rightarrow> heap \<Rightarrow> column_vector \<Rightarrow> typed_value \<Rightarrow> (native_column_vector \<times> heap) option" where
  "applyToColumnVectorAndStaticValue p g gmtime c h left right =
     applyToColumnVectorAndStaticValueHelper True p g gmtime c h left right"

definition applyToStaticValueAndColumnVector ::
  "u64 \<Rightarrow> (nat \<Rightarrow> u64) \<Rightarrow> (int \<Rightarrow> tm) \<Rightarrow> arith_operator \<Rightarrow> heap \<Rightarrow> typed_value \<Rightarrow> column_vector \<Rightarrow> (native_column_vector \<times> heap) option" where
  "applyToStaticValueAndColumnVector p g gmtime c h left right =
     applyToColumnVectorAndStaticValueHelper False p g gmtime c h right left"

definition applyToValueAccessorAndStaticValue ::
  "u64 \<Rightarrow> (nat \<Rightarrow> u64) \<Rightarrow> (int \<Rightarrow> tm) \<Rightarrow> arith_operator \<Rightarrow> heap \<Rightarrow> value_accessor \<Rightarrow> attribute_id \<Rightarrow> typed_value \<Rightarrow> (native_column_vector \<times> heap) option" where
  "applyToValueAccessorAndStaticValue p g gmtime c h left_accessor left_id right =
     applyToValueAccessorAndStaticValueHelper True p g gmtime c h left_accessor left_id right"

definition applyToStaticValueAndValueAccessor ::
  "u64 \<Rightarrow> (nat \<Rightarrow> u64) \<Rightarrow> (int \<Rightarrow> tm) \<Rightarrow> arith_operator \<Rightarrow> heap \<Rightarrow> typed_value \<Rightarrow> value_accessor \<Rightarrow> attribute_id \<Rightarrow> (native_column_vector \<times> heap) option" where
  "applyToStaticValueAndValueAccessor p g gmtime c h left right_accessor right_id =
     applyToValueAccessorAndStaticValueHelper False p g gmtime c h right_accessor right_id left"

definition applyToColumnVectorAndValueAccessor ::
  "u64 \<Rightarrow> (nat \<Rightarrow> u64) \<Rightarrow> (int \<Rightarrow> tm) \<Rightarrow> arith_operator \<Rightarrow> heap \<Rightarrow> column_vector \<Rightarrow> value_accessor \<Rightarrow> attribute_id \<Rightarrow> (native_column_vector \<times> heap) option" where
  "applyToColumnVectorAndValueAccessor p g gmtime c h left right_accessor right_id =
     applyToColumnVectorAndValueAccessorHelper True p g gmtime c h left right_accessor right_id"

definition applyToValueAccessorAndColumnVector ::
  "u64 \<Rightarrow> (nat \<Rightarrow> u64) \<Rightarrow> (int \<Rightarrow> tm) \<Rightarrow> arith_operator \<Rightarrow> heap \<Rightarrow> value_accessor \<Rightarrow> attribute_id \<Rightarrow> column_vector \<Rightarrow> (native_column_vector \<times> heap) option" where
  "applyToValueAccessorAndColumnVector p g gmtime c h left_accessor left_id right =
     applyToColumnVectorAndValueAccessorHelper False p g gmtime c h right left_accessor left_id"

definition applyToValueAccessorAndStaticValueForJoin ::
  "u64 \<Rightarrow> (nat \<Rightarrow> u64) \<Rightarrow> (int \<Rightarrow> tm) \<Rightarrow> arith_operator \<Rightarrow> heap \<Rightarrow> value_accessor \<Rightarrow> bool \<Rightarrow> attribute_id \<Rightarrow> typed_value \<Rightarrow> (tuple_id \<times> tuple_id) list \<Rightarrow> (native_column_vector \<times> heap) option" where
  "applyToValueAccessorAndStaticValueForJoin p g gmtime c h left_accessor is_left left_id right ids =
     applyToValueAccessorAndStaticValueForJoinHelper True p g gmtime c h left_accessor is_left left_id right ids"

definition applyToStaticValueAndValueAccessorForJoin ::
  "u64 \<Rightarrow> (nat \<Rightarrow> u64) \<Rightarrow> (int \<Rightarrow> tm) \<Rightarrow> arith_operator \<Rightarrow> heap \<Rightarrow> typed_value \<Rightarrow> value_accessor \<Rightarrow> bool \<Rightarrow> attribute_id \<Rightarrow> (tuple_id \<times> tuple_id) list \<Rightarrow> (native_column_vector \<times> heap) option" where
  "applyToStaticValueAndValueAccessorForJoin p g gmtime c h left right_accessor is_left right_id ids =
     applyToValueAccessorAndStaticValueForJoinHelper False p g gmtime c h right_accessor is_left right_id left ids"

definition applyToColumnVectorAndValueAccessorForJoin ::
  "u64 \<Rightarrow> (nat \<Rightarrow> u64) \<Rightarrow> (int \<Rightarrow> tm) \<Rightarrow> arith_operator \<Rightarrow> heap \<Rightarrow> column_vector \<Rightarrow> value_accessor \<Rightarrow> bool \<Rightarrow> attribute_id \<Rightarrow> (tuple_id \<times> tuple_id) list \<Rightarrow> (native_column_vector \<times> heap) option" where
  "applyToColumnVectorAndValueAccessorForJoin p g gmtime c h left right_accessor is_left right_id ids =
     applyToColumnVectorAndValueAccessorForJoinHelper True p g gmtime c h left right_accessor is_left right_id ids"

definition applyToValueAccessorAndColumnVectorForJoin ::
  "u64 \<Rightarrow> (nat \<Rightarrow> u64) \<Rightarrow> (int \<Rightarrow> tm) \<Rightarrow> arith_operator \<Rightarrow> heap \<Rightarrow> value_accessor \<Rightarrow> bool \<Rightarrow> attribute_id \<Rightarrow> column_vector \<Rightarrow> (tuple_id \<times> tuple_id) list \<Rightarrow> (native_column_vector \<times> heap) option" where
  "applyToValueAccessorAndColumnVectorForJoin p g gmtime c h left_accessor is_left left_id right ids =
     applyToColumnVectorAndValueAccessorForJoinHelper False p g gmtime c h right left_accessor is_left left_id ids"

subsection \<open>Accumulation\<close>

text \<open>
  The running value starts as the given literal; a step applies the operator and counts. For an operator whose
  result has not the type of its left argument the function is not implemented.
\<close>

fun accumulate_loop :: "(int \<Rightarrow> tm) \<Rightarrow> arith_operator \<Rightarrow> data_ptr list \<Rightarrow> literal \<Rightarrow> nat \<Rightarrow> (literal \<times> nat) option" where
  "accumulate_loop gmtime c [] acc num = Some (acc, num)"
| "accumulate_loop gmtime c (item # items) acc num =
     (if (ao_right_nullable c \<and> item \<noteq> None) \<or> \<not> ao_right_nullable c
      then do {
        r \<leftarrow> deref (ao_right c) item;
        l \<leftarrow> op_functor gmtime (ao_functor c) acc r;
        accumulate_loop gmtime c items (to_cpptype (ao_left c) l) (num + 1)
      }
      else accumulate_loop gmtime c items acc num)"

definition accumulate_from ::
  "(int \<Rightarrow> tm) \<Rightarrow> u16 \<Rightarrow> arith_operator \<Rightarrow> typed_value \<Rightarrow> data_ptr list option \<Rightarrow> (typed_value \<times> nat) option" where
  "accumulate_from gmtime padding c current items =
     (if ao_left c \<noteq> ao_result c then None
      else if ao_left_nullable c \<and> isNull current then Some (makeNullValue (Instance (ao_result c) (ao_left_nullable c)), 0)
      else do {
        items \<leftarrow> items;
        (acc, num) \<leftarrow> accumulate_loop gmtime c items (getLiteral (ao_left c) current) 0;
        Some (literal_value padding acc, num)
      })"

definition accumulateColumnVector ::
  "(int \<Rightarrow> tm) \<Rightarrow> u16 \<Rightarrow> arith_operator \<Rightarrow> heap \<Rightarrow> typed_value \<Rightarrow> column_vector \<Rightarrow> (typed_value \<times> nat) option" where
  "accumulateColumnVector gmtime padding c h current column_vector =
     (let native_column_vector = as_native column_vector
      in accumulate_from gmtime padding c current
           (Some (map (native_getUntypedValue (ao_right_nullable c) h native_column_vector) [0..<native_size native_column_vector])))"

definition accumulateValueAccessor ::
  "(int \<Rightarrow> tm) \<Rightarrow> u16 \<Rightarrow> arith_operator \<Rightarrow> heap \<Rightarrow> typed_value \<Rightarrow> value_accessor \<Rightarrow> attribute_id \<Rightarrow> (typed_value \<times> nat) option" where
  "accumulateValueAccessor gmtime padding c h current accessor attr_id =
     accumulate_from gmtime padding c current
       (on_accessor accessor (map_option (map (\<lambda>a. va_getUntypedValue (ao_right_nullable c) h a attr_id)) (accessor_loop accessor)))"


section \<open>Checked application\<close>

text \<open>
  The checked operations take both types and coerce numbers to the unifying type first; a null gives the null of
  the result type. \<open>None\<close> is also the fatal error for types the operation has no meaning for.
\<close>

definition applyToCheckedIntegerHelper ::
  "(int \<Rightarrow> tm) \<Rightarrow> u16 \<Rightarrow> arith_functor \<Rightarrow> u64 \<Rightarrow> heap \<Rightarrow> typed_value \<Rightarrow> sql_type \<Rightarrow> typed_value \<Rightarrow> sql_type \<Rightarrow> typed_value option" where
  "applyToCheckedIntegerHelper gmtime padding F p h left left_ty right right_ty =
     do {
       unifier \<leftarrow> GetUnifyingType left_ty right_ty;
       if isNull left \<or> isNull right then Some (makeNullValue unifier)
       else do {
         (left_coerced, _) \<leftarrow> coerceValue p unifier left left_ty h;
         (right_coerced, _) \<leftarrow> coerceValue p unifier right right_ty h;
         if type_id unifier \<in> {kInt, kLong}
         then map_option (literal_value padding)
                (op_functor gmtime F (getLiteral (type_id unifier) left_coerced) (getLiteral (type_id unifier) right_coerced))
         else None
       }
     }"

definition applyToCheckedNumericHelper ::
  "(int \<Rightarrow> tm) \<Rightarrow> u16 \<Rightarrow> arith_functor \<Rightarrow> u64 \<Rightarrow> heap \<Rightarrow> typed_value \<Rightarrow> sql_type \<Rightarrow> typed_value \<Rightarrow> sql_type \<Rightarrow> typed_value option" where
  "applyToCheckedNumericHelper gmtime padding F p h left left_ty right right_ty =
     do {
       unifier \<leftarrow> GetUnifyingType left_ty right_ty;
       if isNull left \<or> isNull right then Some (makeNullValue unifier)
       else do {
         (left_coerced, _) \<leftarrow> coerceValue p unifier left left_ty h;
         (right_coerced, _) \<leftarrow> coerceValue p unifier right right_ty h;
         if type_id unifier \<in> {kInt, kLong, kFloat, kDouble}
         then map_option (literal_value padding)
                (op_functor gmtime F (getLiteral (type_id unifier) left_coerced) (getLiteral (type_id unifier) right_coerced))
         else None
       }
     }"

text \<open>The repeated pattern on dates and intervals: the null of the result type, else the operator on the literals.\<close>

definition checked_apply ::
  "(int \<Rightarrow> tm) \<Rightarrow> u16 \<Rightarrow> arith_functor \<Rightarrow> TypeID \<Rightarrow> TypeID \<Rightarrow> typed_value \<Rightarrow> TypeID \<Rightarrow> typed_value \<Rightarrow> typed_value option" where
  "checked_apply gmtime padding F result left_id left right_id right =
     (if isNull left \<or> isNull right then Some (TypedValue_null result)
      else map_option (literal_value padding) (op_functor gmtime F (getLiteral left_id left) (getLiteral right_id right)))"

definition Add_applyToChecked ::
  "(int \<Rightarrow> tm) \<Rightarrow> u16 \<Rightarrow> u64 \<Rightarrow> heap \<Rightarrow> typed_value \<Rightarrow> sql_type \<Rightarrow> typed_value \<Rightarrow> sql_type \<Rightarrow> typed_value option" where
  "Add_applyToChecked gmtime padding p h left left_ty right right_ty =
     (let apply_literals = (\<lambda>result. checked_apply gmtime padding AddFunctor result (type_id left_ty) left (type_id right_ty) right)
      in if type_id left_ty \<in> {kInt, kLong, kFloat, kDouble}
         then if type_id right_ty \<in> {kInt, kLong, kFloat, kDouble}
              then applyToCheckedNumericHelper gmtime padding AddFunctor p h left left_ty right right_ty else None
         else if type_id left_ty = kDatetime
         then if type_id right_ty = kDatetimeInterval then apply_literals kDatetime
              else if type_id right_ty = kYearMonthInterval then apply_literals kDatetime else None
         else if type_id left_ty = kDatetimeInterval
         then if type_id right_ty = kDatetime then apply_literals kDatetime
              else if type_id right_ty = kDatetimeInterval then apply_literals kDatetimeInterval else None
         else if type_id left_ty = kYearMonthInterval
         then if type_id right_ty = kDatetime then apply_literals kDatetime
              else if type_id right_ty = kYearMonthInterval then apply_literals kYearMonthInterval else None
         else None)"

definition Subtract_applyToChecked ::
  "(int \<Rightarrow> tm) \<Rightarrow> u16 \<Rightarrow> u64 \<Rightarrow> heap \<Rightarrow> typed_value \<Rightarrow> sql_type \<Rightarrow> typed_value \<Rightarrow> sql_type \<Rightarrow> typed_value option" where
  "Subtract_applyToChecked gmtime padding p h left left_ty right right_ty =
     (let apply_literals = (\<lambda>result. checked_apply gmtime padding SubtractFunctor result (type_id left_ty) left (type_id right_ty) right)
      in if type_id left_ty \<in> {kInt, kLong, kFloat, kDouble}
         then if getSuperTypeID right_ty = kNumeric
              then applyToCheckedNumericHelper gmtime padding SubtractFunctor p h left left_ty right right_ty else None
         else if type_id left_ty = kDatetime
         then if type_id right_ty = kDatetime then apply_literals kDatetimeInterval
              else if type_id right_ty = kDatetimeInterval then apply_literals kDatetime
              else if type_id right_ty = kYearMonthInterval then apply_literals kDatetime else None
         else if type_id left_ty = kDatetimeInterval
         then if type_id right_ty = kDatetimeInterval then apply_literals kDatetimeInterval else None
         else if type_id left_ty = kYearMonthInterval
         then if type_id right_ty = kYearMonthInterval then apply_literals kYearMonthInterval else None
         else None)"

definition applyToCheckedIntervalMultiplyNumericHelper ::
  "(int \<Rightarrow> tm) \<Rightarrow> u16 \<Rightarrow> TypeID \<Rightarrow> typed_value \<Rightarrow> typed_value \<Rightarrow> sql_type \<Rightarrow> typed_value option" where
  "applyToCheckedIntervalMultiplyNumericHelper gmtime padding interval_id left right right_ty =
     (if isNull left \<or> isNull right then Some (TypedValue_null interval_id)
      else if type_id right_ty \<in> {kInt, kLong, kFloat, kDouble}
      then map_option (literal_value padding)
             (op_functor gmtime MultiplyFunctor (getLiteral interval_id left) (getLiteral (type_id right_ty) right))
      else None)"

definition Multiply_applyToChecked ::
  "(int \<Rightarrow> tm) \<Rightarrow> u16 \<Rightarrow> u64 \<Rightarrow> heap \<Rightarrow> typed_value \<Rightarrow> sql_type \<Rightarrow> typed_value \<Rightarrow> sql_type \<Rightarrow> typed_value option" where
  "Multiply_applyToChecked gmtime padding p h left left_ty right right_ty =
     (if type_id left_ty \<in> {kInt, kLong, kFloat, kDouble}
      then if getSuperTypeID right_ty = kNumeric
           then applyToCheckedNumericHelper gmtime padding MultiplyFunctor p h left left_ty right right_ty
           else if type_id right_ty = kDatetimeInterval
           then applyToCheckedIntervalMultiplyNumericHelper gmtime padding kDatetimeInterval right left left_ty
           else if type_id right_ty = kYearMonthInterval
           then applyToCheckedIntervalMultiplyNumericHelper gmtime padding kYearMonthInterval right left left_ty
           else None
      else if type_id left_ty = kDatetimeInterval
      then if getSuperTypeID right_ty = kNumeric
           then applyToCheckedIntervalMultiplyNumericHelper gmtime padding kDatetimeInterval left right right_ty else None
      else if type_id left_ty = kYearMonthInterval
      then if getSuperTypeID right_ty = kNumeric
           then applyToCheckedIntervalMultiplyNumericHelper gmtime padding kYearMonthInterval left right right_ty else None
      else None)"

definition Divide_applyToChecked ::
  "(int \<Rightarrow> tm) \<Rightarrow> u16 \<Rightarrow> u64 \<Rightarrow> heap \<Rightarrow> typed_value \<Rightarrow> sql_type \<Rightarrow> typed_value \<Rightarrow> sql_type \<Rightarrow> typed_value option" where
  "Divide_applyToChecked gmtime padding p h left left_ty right right_ty =
     (let apply_literals = (\<lambda>result. checked_apply gmtime padding DivideFunctor result (type_id left_ty) left (type_id right_ty) right)
      in if type_id left_ty \<in> {kInt, kLong, kFloat, kDouble}
         then if getSuperTypeID right_ty = kNumeric
              then applyToCheckedNumericHelper gmtime padding DivideFunctor p h left left_ty right right_ty else None
         else if type_id left_ty = kDatetimeInterval
         then if type_id right_ty \<in> {kInt, kLong, kFloat, kDouble} then apply_literals kDatetimeInterval else None
         else if type_id left_ty = kYearMonthInterval
         then if type_id right_ty \<in> {kInt, kLong, kFloat, kDouble} then apply_literals kYearMonthInterval else None
         else None)"

definition Modulo_applyToChecked ::
  "(int \<Rightarrow> tm) \<Rightarrow> u16 \<Rightarrow> u64 \<Rightarrow> heap \<Rightarrow> typed_value \<Rightarrow> sql_type \<Rightarrow> typed_value \<Rightarrow> sql_type \<Rightarrow> typed_value option" where
  "Modulo_applyToChecked gmtime padding p h left left_ty right right_ty =
     (if type_id left_ty \<in> {kInt, kLong} \<and> type_id right_ty \<in> {kInt, kLong}
      then applyToCheckedIntegerHelper gmtime padding IntegerModuloFunctor p h left left_ty right right_ty
      else if type_id left_ty \<in> {kInt, kLong, kFloat, kDouble}
      then if getSuperTypeID right_ty = kNumeric
           then applyToCheckedNumericHelper gmtime padding FloatModuloFunctor p h left left_ty right right_ty else None
      else None)"

definition applyToChecked ::
  "(int \<Rightarrow> tm) \<Rightarrow> u16 \<Rightarrow> BinaryOperationID \<Rightarrow> u64 \<Rightarrow> heap \<Rightarrow> typed_value \<Rightarrow> sql_type \<Rightarrow> typed_value \<Rightarrow> sql_type \<Rightarrow> typed_value option" where
  "applyToChecked gmtime padding op =
     (case op of kAdd \<Rightarrow> Add_applyToChecked gmtime padding | kSubtract \<Rightarrow> Subtract_applyToChecked gmtime padding
      | kMultiply \<Rightarrow> Multiply_applyToChecked gmtime padding | kDivide \<Rightarrow> Divide_applyToChecked gmtime padding
      | kModulo \<Rightarrow> Modulo_applyToChecked gmtime padding)"

section \<open>Making an operator\<close>

definition new_operator :: "arith_functor \<Rightarrow> TypeID \<Rightarrow> TypeID \<Rightarrow> bool \<Rightarrow> TypeID \<Rightarrow> bool \<Rightarrow> arith_operator" where
  "new_operator F result left left_null right right_null =
     \<lparr>ao_functor = F, ao_result = result, ao_left = left, ao_left_nullable = left_null, ao_right = right,
      ao_right_nullable = right_null\<rparr>"

definition makeIntegerBinaryOperatorInnerHelper :: "arith_functor \<Rightarrow> TypeID \<Rightarrow> bool \<Rightarrow> sql_type \<Rightarrow> arith_operator option" where
  "makeIntegerBinaryOperatorInnerHelper F left_id left_null right =
     (if type_id right \<in> {kInt, kLong}
      then map_option (\<lambda>result. new_operator F result left_id left_null (type_id right) (nullable right))
             (NumericTypeUnifier left_id (type_id right))
      else None)"

definition makeIntegerBinaryOperatorOuterHelper :: "arith_functor \<Rightarrow> sql_type \<Rightarrow> sql_type \<Rightarrow> arith_operator option" where
  "makeIntegerBinaryOperatorOuterHelper F left right =
     (if type_id left \<in> {kInt, kLong} then makeIntegerBinaryOperatorInnerHelper F (type_id left) (nullable left) right else None)"

definition makeNumericBinaryOperatorInnerHelper :: "arith_functor \<Rightarrow> TypeID \<Rightarrow> bool \<Rightarrow> sql_type \<Rightarrow> arith_operator option" where
  "makeNumericBinaryOperatorInnerHelper F left_id left_null right =
     (if type_id right \<in> {kInt, kLong, kFloat, kDouble}
      then map_option (\<lambda>result. new_operator F result left_id left_null (type_id right) (nullable right))
             (NumericTypeUnifier left_id (type_id right))
      else None)"

definition makeNumericBinaryOperatorOuterHelper :: "arith_functor \<Rightarrow> sql_type \<Rightarrow> sql_type \<Rightarrow> arith_operator option" where
  "makeNumericBinaryOperatorOuterHelper F left right =
     (if type_id left \<in> {kInt, kLong, kFloat, kDouble}
      then makeNumericBinaryOperatorInnerHelper F (type_id left) (nullable left) right else None)"

definition makeDateBinaryOperatorInnerHelper :: "arith_functor \<Rightarrow> TypeID \<Rightarrow> TypeID \<Rightarrow> bool \<Rightarrow> TypeID \<Rightarrow> sql_type \<Rightarrow> arith_operator" where
  "makeDateBinaryOperatorInnerHelper F result left_id left_null right_id right =
     new_operator F result left_id left_null right_id (nullable right)"

definition makeDateBinaryOperatorOuterHelper :: "arith_functor \<Rightarrow> TypeID \<Rightarrow> TypeID \<Rightarrow> TypeID \<Rightarrow> sql_type \<Rightarrow> sql_type \<Rightarrow> arith_operator option" where
  "makeDateBinaryOperatorOuterHelper F result left_id right_id left right =
     Some (makeDateBinaryOperatorInnerHelper F result left_id (nullable left) right_id right)"

definition Add_makeUncheckedBinaryOperatorForTypes :: "sql_type \<Rightarrow> sql_type \<Rightarrow> arith_operator option" where
  "Add_makeUncheckedBinaryOperatorForTypes left right =
     (let date = (\<lambda>result. makeDateBinaryOperatorOuterHelper AddFunctor result (type_id left) (type_id right) left right)
      in if type_id left \<in> {kInt, kLong, kFloat, kDouble}
         then if getSuperTypeID right = kNumeric then makeNumericBinaryOperatorOuterHelper AddFunctor left right else None
         else if type_id left = kDatetime
         then if type_id right = kDatetimeInterval then date kDatetime
              else if type_id right = kYearMonthInterval then date kDatetime else None
         else if type_id left = kDatetimeInterval
         then if type_id right = kDatetime then date kDatetime
              else if type_id right = kDatetimeInterval then date kDatetimeInterval else None
         else if type_id left = kYearMonthInterval
         then if type_id right = kDatetime then date kDatetime
              else if type_id right = kYearMonthInterval then date kYearMonthInterval else None
         else None)"

definition Subtract_makeUncheckedBinaryOperatorForTypes :: "sql_type \<Rightarrow> sql_type \<Rightarrow> arith_operator option" where
  "Subtract_makeUncheckedBinaryOperatorForTypes left right =
     (let date = (\<lambda>result. makeDateBinaryOperatorOuterHelper SubtractFunctor result (type_id left) (type_id right) left right)
      in if type_id left \<in> {kInt, kLong, kFloat, kDouble}
         then if getSuperTypeID right = kNumeric then makeNumericBinaryOperatorOuterHelper SubtractFunctor left right else None
         else if type_id left = kDatetime
         then if type_id right = kDatetime then date kDatetimeInterval
              else if type_id right = kDatetimeInterval then date kDatetime
              else if type_id right = kYearMonthInterval then date kDatetime else None
         else if type_id left = kDatetimeInterval
         then if type_id right = kDatetimeInterval then date kDatetimeInterval else None
         else if type_id left = kYearMonthInterval
         then if type_id right = kYearMonthInterval then date kYearMonthInterval else None
         else None)"

definition Multiply_makeUncheckedBinaryOperatorForTypes :: "sql_type \<Rightarrow> sql_type \<Rightarrow> arith_operator option" where
  "Multiply_makeUncheckedBinaryOperatorForTypes left right =
     (let date = (\<lambda>result. makeDateBinaryOperatorOuterHelper MultiplyFunctor result (type_id left) (type_id right) left right)
      in if type_id left \<in> {kInt, kLong, kFloat, kDouble}
         then if getSuperTypeID right = kNumeric then makeNumericBinaryOperatorOuterHelper MultiplyFunctor left right
              else if type_id right = kDatetimeInterval then date kDatetimeInterval
              else if type_id right = kYearMonthInterval then date kYearMonthInterval else None
         else if type_id left = kDatetimeInterval
         then if type_id right \<in> {kInt, kLong, kFloat, kDouble} then date kDatetimeInterval else None
         else if type_id left = kYearMonthInterval
         then if type_id right \<in> {kInt, kLong, kFloat, kDouble} then date kYearMonthInterval else None
         else None)"

definition Divide_makeUncheckedBinaryOperatorForTypes :: "sql_type \<Rightarrow> sql_type \<Rightarrow> arith_operator option" where
  "Divide_makeUncheckedBinaryOperatorForTypes left right =
     (let date = (\<lambda>result. makeDateBinaryOperatorOuterHelper DivideFunctor result (type_id left) (type_id right) left right)
      in if type_id left \<in> {kInt, kLong, kFloat, kDouble}
         then if getSuperTypeID right = kNumeric then makeNumericBinaryOperatorOuterHelper DivideFunctor left right else None
         else if type_id left = kDatetimeInterval
         then if type_id right \<in> {kInt, kLong, kFloat, kDouble} then date kDatetimeInterval else None
         else if type_id left = kYearMonthInterval
         then if type_id right \<in> {kInt, kLong, kFloat, kDouble} then date kYearMonthInterval else None
         else None)"

definition Modulo_makeUncheckedBinaryOperatorForTypes :: "sql_type \<Rightarrow> sql_type \<Rightarrow> arith_operator option" where
  "Modulo_makeUncheckedBinaryOperatorForTypes left right =
     (if type_id left \<in> {kInt, kLong} \<and> type_id right \<in> {kInt, kLong}
      then makeIntegerBinaryOperatorOuterHelper IntegerModuloFunctor left right
      else if type_id left \<in> {kInt, kLong, kFloat, kDouble}
      then if getSuperTypeID right = kNumeric then makeNumericBinaryOperatorOuterHelper FloatModuloFunctor left right else None
      else None)"

definition makeUncheckedBinaryOperatorForTypes :: "BinaryOperationID \<Rightarrow> sql_type \<Rightarrow> sql_type \<Rightarrow> arith_operator option" where
  "makeUncheckedBinaryOperatorForTypes op =
     (case op of kAdd \<Rightarrow> Add_makeUncheckedBinaryOperatorForTypes | kSubtract \<Rightarrow> Subtract_makeUncheckedBinaryOperatorForTypes
      | kMultiply \<Rightarrow> Multiply_makeUncheckedBinaryOperatorForTypes | kDivide \<Rightarrow> Divide_makeUncheckedBinaryOperatorForTypes
      | kModulo \<Rightarrow> Modulo_makeUncheckedBinaryOperatorForTypes)"

lemmas make_helpers = makeIntegerBinaryOperatorInnerHelper_def makeIntegerBinaryOperatorOuterHelper_def
  makeNumericBinaryOperatorInnerHelper_def makeNumericBinaryOperatorOuterHelper_def makeDateBinaryOperatorInnerHelper_def
  makeDateBinaryOperatorOuterHelper_def

lemmas make_operators = makeUncheckedBinaryOperatorForTypes_def Add_makeUncheckedBinaryOperatorForTypes_def
  Subtract_makeUncheckedBinaryOperatorForTypes_def Multiply_makeUncheckedBinaryOperatorForTypes_def
  Divide_makeUncheckedBinaryOperatorForTypes_def Modulo_makeUncheckedBinaryOperatorForTypes_def

lemmas apply_checked = applyToChecked_def Add_applyToChecked_def Subtract_applyToChecked_def Multiply_applyToChecked_def
  Divide_applyToChecked_def Modulo_applyToChecked_def


section \<open>An integer other than zero is rounded to a number other than zero\<close>

lemma round_to_positive:
  assumes "0 < m" "fp_emin fmt \<le> 0"
  shows "0 < round_to (fp_unit fmt m 0) m 0 \<and> round_to (fp_unit fmt m 0) m 0 \<le> 2 ^ (frac_bits fmt + 1)"
proof (cases "fp_unit fmt m 0 \<le> 0")
  case True
  have "nat (- fp_unit fmt m 0) \<le> frac_bits fmt + 1 - bit_length m" by (simp add: fp_unit_def)
  moreover have "bit_length m \<le> frac_bits fmt + 1" using True by (simp add: fp_unit_def)
  ultimately have exponent: "bit_length m + nat (- fp_unit fmt m 0) \<le> frac_bits fmt + 1" by linarith
  have "m * 2 ^ nat (- fp_unit fmt m 0) \<le> 2 ^ bit_length m * 2 ^ nat (- fp_unit fmt m 0)"
    using bit_length_bounds [OF assms(1)] by (intro mult_right_mono) simp_all
  also have "\<dots> \<le> 2 ^ (frac_bits fmt + 1)"
    unfolding power_add [symmetric] by (rule power_increasing [OF exponent]) simp
  finally show ?thesis using True assms by (simp add: round_to_def)
next
  case False
  define n where "n = bit_length m - (frac_bits fmt + 1)"
  have unit: "fp_unit fmt m 0 = int n" "bit_length m = n + (frac_bits fmt + 1)" and n: "0 < n"
    using False assms(2) by (auto simp: fp_unit_def n_def)
  have bounds: "2 ^ (n + frac_bits fmt) \<le> m" "m < 2 ^ (n + (frac_bits fmt + 1))"
    using bit_length_bounds [OF assms(1)] unit(2) by simp_all
  have d: "(0 :: nat) < 2 ^ n" by simp
  have "2 ^ frac_bits fmt * 2 ^ n \<le> m" using bounds(1) by (simp add: power_add mult.commute)
  then have "2 ^ frac_bits fmt \<le> m div 2 ^ n" by (simp add: less_eq_div_iff_mult_less_eq)
  moreover have "m < 2 ^ (frac_bits fmt + 1) * 2 ^ n" using bounds(2) by (simp add: power_add mult_ac)
  then have "m div 2 ^ n < 2 ^ (frac_bits fmt + 1)" by (simp add: div_less_iff_less_mult)
  ultimately have "0 < m div 2 ^ n" "m div 2 ^ n < 2 ^ (frac_bits fmt + 1)"
    by (meson less_le_trans zero_less_numeral zero_less_power)+
  then show ?thesis using n unit(1) by (simp add: round_to_def Let_def)
qed

lemma pack_normal_nonzero:
  assumes "0 < k" "k < 2 ^ (frac_bits fmt + 1)" "2 \<le> exp_bits fmt"
  shows "fp_pack_normal fmt s q k < 2 ^ (frac_bits fmt + exp_bits fmt + 1) \<and>
    \<not> fp_equal (fp_decode fmt (fp_pack_normal fmt s q k)) (Fin False 0 0)"
proof -
  let ?E = "2 ^ exp_bits fmt :: nat" and ?F = "2 ^ frac_bits fmt :: nat"
  have e: "1 < ?E" using exp_bits_large [OF assms(3)] .
  have small: "fp_bits fmt s x f < 2 ^ (frac_bits fmt + exp_bits fmt + 1)" if "x < ?E" "f < ?F" for x f
  proof -
    have "x * ?F + f < (x + 1) * ?F" using that(2) by simp
    also have "\<dots> \<le> ?E * ?F" using that(1) by (intro mult_right_mono) simp_all
    finally show ?thesis by (simp add: fp_bits_def power_add mult_ac)
  qed
  have fin: "\<not> fp_equal (Fin t m x) (Fin False 0 0)" if "0 < m" for t m x
    using that by (simp add: fp_align_def signed_mant_def)
  have nonzero: "\<not> fp_equal (fp_decode fmt (fp_bits fmt s x f)) (Fin False 0 0)" if "x < ?E" "f < ?F" "0 < x \<or> 0 < f" for x f
    using that fin by (auto simp: fp_decode_bits simp del: fp_equal.simps(6))
  have f: "k - ?F < ?F" if "\<not> k < ?F" using assms(2) that by simp
  define P where "P w \<longleftrightarrow> w < 2 ^ (frac_bits fmt + exp_bits fmt + 1) \<and> \<not> fp_equal (fp_decode fmt w) (Fin False 0 0)" for w
  have P: "P (fp_bits fmt s x f)" if "x < ?E" "f < ?F" "0 < x \<or> 0 < f" for x f
    unfolding P_def using small nonzero that by blast
  have "P (fp_pack_normal fmt s q k)"
    unfolding fp_pack_normal_def Let_def using assms(1) e f by (auto intro!: P)
  then show ?thesis by (simp add: P_def)
qed

lemma round_nonzero:
  assumes "0 < m" "fp_emin fmt \<le> 0" "2 \<le> exp_bits fmt"
  shows "fp_round fmt s m 0 < 2 ^ (frac_bits fmt + exp_bits fmt + 1) \<and>
    \<not> fp_equal (fp_decode fmt (fp_round fmt s m 0)) (Fin False 0 0)"
proof -
  define k where "k = round_to (fp_unit fmt m 0) m 0"
  have k: "0 < k" "k \<le> 2 ^ (frac_bits fmt + 1)" using round_to_positive [OF assms(1,2)] by (simp_all add: k_def)
  have half: "(0::nat) < 2 ^ frac_bits fmt" "(2::nat) ^ frac_bits fmt < 2 ^ (frac_bits fmt + 1)" by simp_all
  show ?thesis
    unfolding fp_round_def fp_pack_def k_def [symmetric]
    using pack_normal_nonzero [OF _ _ assms(3)] k half by (cases "k = 2 ^ (frac_bits fmt + 1)") simp_all
qed

lemma int_f32_zero:
  assumes "fp_equal (f32 (to_f32 (fp_of_int i))) (fp_of_int 0)" shows "i = 0"
proof (rule ccontr)
  assume "i \<noteq> 0"
  then have "fp_round binary32 (i < 0) (nat \<bar>i\<bar>) 0 < 2 ^ 32" 
    "\<not> fp_equal (fp_decode binary32 (fp_round binary32 (i < 0) (nat \<bar>i\<bar>) 0)) (Fin False 0 0)"
    using round_nonzero [of "nat \<bar>i\<bar>" binary32 "i < 0"] by (simp_all add: emin32)
  then show False using assms by (simp add: f32_def to_f32_def fp_of_int_def fp_encode_def unat_of_nat)
qed

lemma int_f64_zero:
  assumes "fp_equal (f64 (to_f64 (fp_of_int i))) (fp_of_int 0)" shows "i = 0"
proof (rule ccontr)
  assume "i \<noteq> 0"
  then have "fp_round binary64 (i < 0) (nat \<bar>i\<bar>) 0 < 2 ^ 64" 
    "\<not> fp_equal (fp_decode binary64 (fp_round binary64 (i < 0) (nat \<bar>i\<bar>) 0)) (Fin False 0 0)"
    using round_nonzero [of "nat \<bar>i\<bar>" binary64 "i < 0"] by (simp_all add: emin64)
  then show False using assms by (simp add: f64_def to_f64_def fp_of_int_def fp_encode_def unat_of_nat)
qed

lemma zero_words: "to_f32 (fp_of_int 0) = 0" "to_f64 (fp_of_int 0) = 0"
  by (simp_all add: to_f32_def to_f64_def fp_of_int_def fp_encode_def fp_round_0 fp_bits_def)

lemma stored_int_f64: "(if fp_equal (f64 (to_f64 (fp_of_int i))) (fp_of_int 0) then 0 else to_f64 (fp_of_int i)) = to_f64 (fp_of_int i)"
  using int_f64_zero zero_words(2) by metis

lemma stored_int_f32: "(if fp_equal (f32 (to_f32 (fp_of_int i))) (fp_of_int 0) then 0 else to_f32 (fp_of_int i)) = to_f32 (fp_of_int i)"
  using int_f32_zero zero_words(1) by metis

lemma f64_of_f32_zero:
  assumes "fp_equal (f64 (to_f64 (f32 f))) (fp_of_int 0)"
  shows "fp_equal (f32 f) (fp_of_int 0)"
proof (cases "f32 f")
  case (Fin s m e)
  note fin = f32_finite [OF Fin]
  obtain k where k: "f64 (to_f64 (f32 f)) = Fin s (m * 2 ^ k) (e - int k)" using f64_to_f64 [of m e s] fin Fin by auto
  then have "m = 0" using assms by (simp add: fp_of_int_def fp_align_def signed_mant_def split: if_splits)
  then show ?thesis using Fin by (simp add: fp_of_int_def fp_align_def signed_mant_def)
next
  case (Inf s)
  then show ?thesis using assms
    by (cases s) (simp_all add: f64_def to_f64_def fp_encode_def fp_bits_def fp_decode_def Let_def unat_of_nat fp_of_int_def)
next
  case NaN
  then show ?thesis using assms
    by (simp add: f64_def to_f64_def fp_encode_def fp_bits_def fp_decode_def Let_def unat_of_nat fp_of_int_def)
qed

lemma f32_zero_word: "f32 0 = Fin False 0 (- 149)"
  by (simp add: f32_def fp_decode_def Let_def emin32)

lemma to_f64_zero: "to_f64 (f32 0) = 0"
  by (simp add: f32_zero_word to_f64_def fp_encode_def fp_round_0 fp_bits_def)

section \<open>Checked and unchecked application agree\<close>

lemma coerced_as_double: "as_double (coerced_number kDouble x) = as_double (stored_number x)"
proof (cases x)
  case (FloatLit f)
  show ?thesis
  proof (cases "fp_equal (f32 f) (fp_of_int 0)")
    case True
    then show ?thesis using FloatLit by (simp add: to_f64_zero)
  next
    case False
    then show ?thesis using FloatLit f64_of_f32_zero [of f] by auto
  qed
qed (simp_all only: coerced_number.simps stored_number.simps as_double.simps stored_int_f64)

lemma coerced_as_float:
  assumes "literal_type (number x) \<in> {kInt, kFloat}"
  shows "as_float (coerced_number kFloat x) = as_float (stored_number x)"
  using assms by (cases x) (simp_all add: stored_int_f32)

lemma coerced_shapes:
  "is_double (coerced_number kDouble x)" "literal_type (number x) \<in> {kInt, kFloat} \<Longrightarrow> is_float (coerced_number kFloat x)"
  "\<not> is_double (coerced_number kFloat x) \<or> is_double x"
  by (cases x; simp)+

lemma number_op_double:
  assumes "is_double l \<or> is_double r \<or> (is_long l \<and> is_float r) \<or> (is_float l \<and> is_long r)"
  shows "number_op F l r = map_option (\<lambda>x. DoubleLit (to_f64 x)) (float_op F (as_double l) (as_double r))"
  unfolding number_op_def using assms by (intro if_P) blast

lemma coerced_number_op:
  assumes "NumericTypeUnifier (literal_type (number x)) (literal_type (number y)) = Some u"
    "\<not> (F = FloatModuloFunctor \<and> {literal_type (number x), literal_type (number y)} = {kInt, kFloat})"
  shows "number_op F (coerced_number u x) (coerced_number u y) = number_op F (stored_number x) (stored_number y)"
proof (cases u)
  case kDouble
  have "is_double (stored_number x) \<or> is_double (stored_number y) \<or> (is_long (stored_number x) \<and> is_float (stored_number y)) \<or>
      (is_float (stored_number x) \<and> is_long (stored_number y))"
    using assms(1) kDouble by (cases x; cases y) simp_all
  then show ?thesis using kDouble coerced_shapes(1) by (simp add: number_op_double coerced_as_double)
next
  case kFloat
  have types: "literal_type (number x) \<in> {kInt, kFloat}" "literal_type (number y) \<in> {kInt, kFloat}"
    using assms(1) kFloat by (cases x; cases y; simp)+
  have "\<not> is_double (stored_number x) \<and> \<not> is_double (stored_number y) \<and> \<not> is_long (stored_number x) \<and> \<not> is_long (stored_number y) \<and>
      (is_float (stored_number x) \<or> is_float (stored_number y)) \<and>
      (F = FloatModuloFunctor \<longrightarrow> is_float (stored_number x) \<and> is_float (stored_number y))"
    using assms kFloat by (cases x; cases y) auto
  moreover have "\<not> is_double (coerced_number kFloat x) \<and> \<not> is_double (coerced_number kFloat y) \<and>
      \<not> is_long (coerced_number kFloat x) \<and> \<not> is_long (coerced_number kFloat y)"
    using types by (cases x; cases y) auto
  ultimately show ?thesis using kFloat types coerced_shapes(2)
    by (simp add: number_op_def coerced_as_float)
qed (use assms in \<open>cases x; cases y; simp add: number_op_def sint_scast\<close>)+


text \<open>Every operator is made of the types of its arguments and the result type.\<close>

definition functor_for :: "BinaryOperationID \<Rightarrow> TypeID \<Rightarrow> TypeID \<Rightarrow> arith_functor" where
  "functor_for op left right =
     (case op of kAdd \<Rightarrow> AddFunctor | kSubtract \<Rightarrow> SubtractFunctor | kMultiply \<Rightarrow> MultiplyFunctor | kDivide \<Rightarrow> DivideFunctor
      | kModulo \<Rightarrow> if left \<in> {kInt, kLong} \<and> right \<in> {kInt, kLong} then IntegerModuloFunctor else FloatModuloFunctor)"

lemma made_operator:
  "makeUncheckedBinaryOperatorForTypes op left right =
    map_option (\<lambda>result. new_operator (functor_for op (type_id left) (type_id right)) result (type_id left) (nullable left)
      (type_id right) (nullable right)) (result_id op (type_id left) (type_id right))"
  by (cases op; cases "type_id left"; cases "type_id right")
    (simp_all add: make_operators make_helpers functor_for_def result_id_def date_result_id_def getSuperTypeID_def)

text \<open>
  C35: An operator is made for exactly the types the operation applies to, and it is made for the result type that the
  operation announces for them; it is nullable exactly if that type is.
\<close>

theorem operators_are_made:
  assumes "type_wf left" "type_wf right"
  shows "(makeUncheckedBinaryOperatorForTypes op left right \<noteq> None \<longleftrightarrow> canApplyToTypes op left right) \<and>
    resultTypeForArgumentTypes op left right =
      map_option (\<lambda>c. Instance (ao_result c) (ao_nullable c)) (makeUncheckedBinaryOperatorForTypes op left right)"
  by (simp add: made_operator can_apply_ids result_by_ids [OF assms] option.map_comp comp_def new_operator_def ao_nullable_def)

theorem operators_are_made_witness:
  "(makeUncheckedBinaryOperatorForTypes kMultiply (Instance kInt False) (Instance kFloat True) \<noteq> None \<longleftrightarrow>
     canApplyToTypes kMultiply (Instance kInt False) (Instance kFloat True)) \<and>
   resultTypeForArgumentTypes kMultiply (Instance kInt False) (Instance kFloat True) =
     map_option (\<lambda>c. Instance (ao_result c) (ao_nullable c))
       (makeUncheckedBinaryOperatorForTypes kMultiply (Instance kInt False) (Instance kFloat True)) \<and>
   canApplyToTypes kMultiply (Instance kInt False) (Instance kFloat True)"
proof -
  have "type_wf (Instance kInt False)" "type_wf (Instance kFloat True)" by (simp_all add: type_wf_def)
  moreover have "canApplyToTypes kMultiply (Instance kInt False) (Instance kFloat True)"
    by (simp add: can_apply_ids result_id_def)
  ultimately show ?thesis using operators_are_made [of "Instance kInt False" "Instance kFloat True" kMultiply] by blast
qed

lemma result_numeric:
  assumes "NumericTypeUnifier a b = Some u"
  shows "result_id op a b = Some u"
  using assms by (simp add: result_id_def)

text \<open>A value of one of the types with arithmetic is null or a literal of its type.\<close>

lemma operand_cases:
  assumes "value_of_type h v t" "type_id t \<notin> {kChar, kVarChar}"
  shows "(isNull v \<and> nullable t) \<or> (\<exists>pad l. v = literal_value pad l \<and> literal_type l = type_id t)"
proof (cases "isNull v")
  case True
  then show ?thesis using value_null [OF assms(1)] by blast
next
  case False
  from literal_facts [OF assms False] obtain pad l where "v = literal_value pad l" "literal_type l = type_id t" .
  then show ?thesis by blast
qed

definition arithmetic_type :: "sql_type \<Rightarrow> bool" where
  "arithmetic_type t \<longleftrightarrow> type_id t \<in> {kInt, kLong, kFloat, kDouble, kDatetime, kDatetimeInterval, kYearMonthInterval}"

lemma result_arithmetic: "result_id op (type_id lt) (type_id rt) = Some u \<Longrightarrow> arithmetic_type lt \<and> arithmetic_type rt"
  by (cases op; cases "type_id lt"; cases "type_id rt")
    (simp_all add: result_id_def date_result_id_def arithmetic_type_def)

lemma apply_to_null:
  assumes "value_of_type h l lt" "value_of_type h r rt" "isNull l \<or> isNull r"
  shows "applyToTypedValues gmtime pad (new_operator F u (type_id lt) (nullable lt) (type_id rt) (nullable rt)) l r =
    Some (TypedValue_null u)"
  using assms value_null [OF assms(1)] value_null [OF assms(2)] by (auto simp: applyToTypedValues_def new_operator_def)

lemma checked_null_operand:
  assumes "type_wf lt" "type_wf rt" "result_id op (type_id lt) (type_id rt) = Some u" "isNull l \<or> isNull r"
  shows "applyToChecked gmtime pad op p h l lt r rt = Some (TypedValue_null u)"
proof (cases "NumericTypeUnifier (type_id lt) (type_id rt)")
  case (Some w)
  have num: "type_id lt \<in> {kInt, kLong, kFloat, kDouble}" "type_id rt \<in> {kInt, kLong, kFloat, kDouble}"
    using unifier_none [of "type_id lt" "type_id rt"] Some by (cases "type_id lt"; cases "type_id rt"; simp)+
  then have sup: "getSuperTypeID lt = kNumeric" "getSuperTypeID rt = kNumeric" by (auto simp: getSuperTypeID_def)
  have "GetUnifyingType lt rt = Some (Instance w (nullable lt \<or> nullable rt))" "w = u"
    using numeric_unifier [OF assms(1,2) sup] Some assms(3) by (simp_all add: result_id_def)
  then show ?thesis using num sup assms(4)
    by (cases op) (simp_all add: apply_checked applyToCheckedNumericHelper_def applyToCheckedIntegerHelper_def makeNullValue_def)
next
  case None
  then have "date_result_id op (type_id lt) (type_id rt) = Some u" using assms(3) by (simp add: result_id_def)
  then show ?thesis using assms(4)
    by (cases op; cases "type_id lt"; cases "type_id rt")
      (simp_all add: date_result_id_def apply_checked checked_apply_def applyToCheckedIntervalMultiplyNumericHelper_def getSuperTypeID_def disj_commute)
qed

lemma checked_numbers_apply:
  assumes "type_wf lt" "type_wf rt" "type_id lt = literal_type (number x)" "type_id rt = literal_type (number y)"
    "NumericTypeUnifier (type_id lt) (type_id rt) = Some u"
    "\<not> (F = FloatModuloFunctor \<and> {type_id lt, type_id rt} = {kInt, kFloat})"
  shows "applyToCheckedNumericHelper gmtime pad F p h (literal_value a (number x)) lt (literal_value b (number y)) rt =
      map_option (literal_value pad) (op_functor gmtime F (number (stored_number x)) (number (stored_number y))) \<and>
    (u \<in> {kInt, kLong} \<longrightarrow>
      applyToCheckedIntegerHelper gmtime pad F p h (literal_value a (number x)) lt (literal_value b (number y)) rt =
        map_option (literal_value pad) (op_functor gmtime F (number (stored_number x)) (number (stored_number y))))"
proof -
  have sup: "getSuperTypeID lt = kNumeric" "getSuperTypeID rt = kNumeric"
    using assms(3,4) by (cases x; cases y; simp add: getSuperTypeID_def)+
  let ?u = "Instance u (nullable lt \<or> nullable rt)"
  have un: "GetUnifyingType lt rt = Some ?u" using numeric_unifier [OF assms(1,2) sup] assms(5) by simp
  note below = unifier_below [OF assms(5)]
  have nn: "u \<noteq> kNullType" using below(3) by auto
  obtain v where v: "coerceValue p ?u (literal_value a (number x)) lt h = Some (v, h)" "getLiteral u v = number (coerced_number u x)"
    using coerce_number [OF assms(3), of ?u p a h] below(1) nn by auto
  obtain w where w: "coerceValue p ?u (literal_value b (number y)) rt h = Some (w, h)" "getLiteral u w = number (coerced_number u y)"
    using coerce_number [OF assms(4), of ?u p b h] below(2) nn by auto
  have "op_functor gmtime F (number (coerced_number u x)) (number (coerced_number u y)) =
      op_functor gmtime F (number (stored_number x)) (number (stored_number y))"
    using coerced_number_op [of x y u F] assms(3-6) by (cases F) (auto simp: op_functor_defs)
  moreover have "\<not> isNull (literal_value a (number x))" "\<not> isNull (literal_value b (number y))" by simp_all
  ultimately show ?thesis using un v w below(3) by (simp add: applyToCheckedNumericHelper_def applyToCheckedIntegerHelper_def)
qed

lemma number_literal: "literal_type l \<in> {kInt, kLong, kFloat, kDouble} \<longleftrightarrow> (\<exists>x. l = number x)"
  by (induction l rule: literal_type.induct) auto

lemma checked_operands:
  assumes "type_wf lt" "type_wf rt" "result_id op (type_id lt) (type_id rt) = Some u"
    "literal_type a = type_id lt" "literal_type b = type_id rt"
    "\<not> (op = kModulo \<and> {type_id lt, type_id rt} = {kInt, kFloat})"
  shows "applyToChecked gmtime pad op p h (literal_value pl a) lt (literal_value pr b) rt =
    map_option (literal_value pad) (op_functor gmtime (functor_for op (type_id lt) (type_id rt)) (stored_literal a) (stored_literal b))"
proof (cases "NumericTypeUnifier (type_id lt) (type_id rt)")
  case (Some w)
  have num: "type_id lt \<in> {kInt, kLong, kFloat, kDouble}" "type_id rt \<in> {kInt, kLong, kFloat, kDouble}"
    using unifier_none [of "type_id lt" "type_id rt"] Some by (cases "type_id lt"; cases "type_id rt"; simp)+
  then obtain x y where xy: "a = number x" "b = number y" using assms(4,5) number_literal [of a] number_literal [of b] by metis
  have sup: "getSuperTypeID rt = kNumeric" using num by (auto simp: getSuperTypeID_def)
  have w: "w = u" using Some assms(3) by (simp add: result_id_def)
  have "\<not> (functor_for op (type_id lt) (type_id rt) = FloatModuloFunctor \<and> {type_id lt, type_id rt} = {kInt, kFloat})"
    using assms(6) by (cases op) (auto simp: functor_for_def)
  from checked_numbers_apply [OF assms(1,2) assms(4) [symmetric, unfolded xy] assms(5) [symmetric, unfolded xy] Some this]
  have helpers: "applyToCheckedNumericHelper gmtime pad (functor_for op (type_id lt) (type_id rt)) p h (literal_value pl a) lt (literal_value pr b) rt =
      map_option (literal_value pad) (op_functor gmtime (functor_for op (type_id lt) (type_id rt)) (stored_literal a) (stored_literal b))"
    "w \<in> {kInt, kLong} \<Longrightarrow> applyToCheckedIntegerHelper gmtime pad (functor_for op (type_id lt) (type_id rt)) p h (literal_value pl a) lt (literal_value pr b) rt =
      map_option (literal_value pad) (op_functor gmtime (functor_for op (type_id lt) (type_id rt)) (stored_literal a) (stored_literal b))"
    by (simp_all add: xy)
  have ints: "w \<in> {kInt, kLong}" if "type_id lt \<in> {kInt, kLong}" "type_id rt \<in> {kInt, kLong}"
    using Some that by auto
  show ?thesis using helpers ints num sup
    by (cases op) (auto simp: apply_checked functor_for_def)
next
  case None
  then have "date_result_id op (type_id lt) (type_id rt) = Some u" using assms(3) by (simp add: result_id_def)
  moreover note getLiteral_value [of a, unfolded assms(4)] getLiteral_value [of b, unfolded assms(5)]
  moreover have "op_functor gmtime MultiplyFunctor (stored_literal b) (stored_literal a) = op_functor gmtime MultiplyFunctor (stored_literal a) (stored_literal b)"
    if ids: "type_id lt \<in> {kInt, kLong, kFloat, kDouble}" "type_id rt \<in> {kDatetimeInterval, kYearMonthInterval}"
  proof -
    obtain x where "a = number x" using number_literal [of a] assms(4) ids(1) by auto
    moreover have "\<nexists>y. b = number y" using number_literal [of b] assms(5) ids(2) by auto
    ultimately show ?thesis
      by (cases b) (simp_all add: op_functor_defs interval_times_def times_interval_def yearmonth_times_def times_yearmonth_def)
  qed
  moreover have "\<not> isNull (literal_value pl a)" "\<not> isNull (literal_value pr b)" by simp_all
  ultimately show ?thesis
    by (cases op; cases "type_id lt"; cases "type_id rt")
      (simp_all add: date_result_id_def apply_checked checked_apply_def applyToCheckedIntervalMultiplyNumericHelper_def
        getSuperTypeID_def functor_for_def)
qed

lemma unchecked_operands:
  assumes "literal_type a = type_id lt" "literal_type b = type_id rt"
  shows "applyToTypedValues gmtime pad (new_operator F u (type_id lt) n (type_id rt) m) (literal_value pl a) (literal_value pr b) =
    map_option (literal_value pad) (op_functor gmtime F (stored_literal a) (stored_literal b))"
  unfolding assms [symmetric] by (simp add: applyToTypedValues_def new_operator_def)

lemma applied_items:
  assumes "value_of_type h l lt" "value_of_type h r rt" "type_id lt \<notin> {kChar, kVarChar}" "type_id rt \<notin> {kChar, kVarChar}"
  shows "applyToDataPtrs gmtime pad (new_operator F u (type_id lt) (nullable lt) (type_id rt) (nullable rt)) (item_of h l) (item_of h r) =
    applyToTypedValues gmtime pad (new_operator F u (type_id lt) (nullable lt) (type_id rt) (nullable rt)) l r"
proof -
  have none: "item_of h v = None \<longleftrightarrow> isNull v" for v by (simp add: item_of_def)
  show ?thesis
    using deref_value [OF assms(1,3)] deref_value [OF assms(2,4)] value_null [OF assms(1)] value_null [OF assms(2)]
    by (auto simp: applyToDataPtrs_def applyToTypedValues_def new_operator_def none)
qed

text \<open>
  C36: Applied to two values of their types, an unchecked operator, given the values or pointers to the data of the values,
  and the checked operation have the same result, or the same undefined behaviour: a null gives the null of the result
  type, and numbers of two types may be coerced to the unifying type first or be left to the conversions of C++. The
  exception is the remainder of an Int and a Float.
\<close>

theorem application_paths_agree:
  assumes "type_wf lt" "type_wf rt" "makeUncheckedBinaryOperatorForTypes op lt rt = Some c"
    "value_of_type h l lt" "value_of_type h r rt" "\<not> (op = kModulo \<and> {type_id lt, type_id rt} = {kInt, kFloat})"
  shows "applyToChecked gmtime pad op p h l lt r rt = applyToTypedValues gmtime pad c l r \<and>
    applyToDataPtrs gmtime pad c (item_of h l) (item_of h r) = applyToTypedValues gmtime pad c l r \<and>
    (isNull l \<or> isNull r \<longrightarrow> applyToTypedValues gmtime pad c l r = Some (TypedValue_null (ao_result c)))"
proof -
  from assms(3) obtain u where u: "result_id op (type_id lt) (type_id rt) = Some u" and
    c: "c = new_operator (functor_for op (type_id lt) (type_id rt)) u (type_id lt) (nullable lt) (type_id rt) (nullable rt)"
    by (auto simp: made_operator)
  have arith: "type_id lt \<notin> {kChar, kVarChar}" "type_id rt \<notin> {kChar, kVarChar}"
    using result_arithmetic [OF u] by (auto simp: arithmetic_type_def)
  have null: "applyToTypedValues gmtime pad c l r = Some (TypedValue_null (ao_result c))" if "isNull l \<or> isNull r"
    unfolding c using apply_to_null [OF assms(4,5) that] by (simp add: new_operator_def)
  have "applyToChecked gmtime pad op p h l lt r rt = applyToTypedValues gmtime pad c l r"
  proof (cases "isNull l \<or> isNull r")
    case True
    then show ?thesis using checked_null_operand [OF assms(1,2) u True] null by (simp add: c new_operator_def)
  next
    case False
    then obtain pl a pr b where ops: "l = literal_value pl a" "literal_type a = type_id lt" "r = literal_value pr b" "literal_type b = type_id rt"
      using operand_cases [OF assms(4) arith(1)] operand_cases [OF assms(5) arith(2)] by blast
    show ?thesis
      unfolding ops(1,3) c checked_operands [OF assms(1,2) u ops(2,4) assms(6)] unchecked_operands [OF ops(2,4)] by (rule refl)
  qed
  then show ?thesis using null applied_items [OF assms(4,5) arith] by (simp add: c)
qed

theorem application_paths_agree_witness:
  "applyToChecked (\<lambda>_. undefined) 0 kAdd 0 sample_heap (TypedValue_int 5) (Instance kInt False) (TypedValue_long (- 7)) (Instance kLong True) =
     Some (TypedValue_long (- 2)) \<and>
   applyToTypedValues (\<lambda>_. undefined) 0 (new_operator AddFunctor kLong kInt False kLong True) (TypedValue_int 5) (TypedValue_long (- 7)) =
     Some (TypedValue_long (- 2))"
proof -
  have wf: "type_wf (Instance kInt False)" "type_wf (Instance kLong True)" by (simp_all add: type_wf_def)
  have v: "value_of_type sample_heap (TypedValue_int 5) (Instance kInt False)" "value_of_type sample_heap (TypedValue_long (- 7)) (Instance kLong True)"
    using value_of_literal [of "number (IntLit 5)" "Instance kInt False" sample_heap 0]
      value_of_literal [of "number (LongLit (- 7))" "Instance kLong True" sample_heap 0]
    by simp_all
  have m: "makeUncheckedBinaryOperatorForTypes kAdd (Instance kInt False) (Instance kLong True) = Some (new_operator AddFunctor kLong kInt False kLong True)"
    by (simp add: made_operator result_id_def functor_for_def)
  have "applyToTypedValues (\<lambda>_. undefined) 0 (new_operator AddFunctor kLong kInt False kLong True) (TypedValue_int 5) (TypedValue_long (- 7)) =
      Some (TypedValue_long (- 2))"
    by (simp add: applyToTypedValues_def new_operator_def getLiteral_def value_simps op_functor_defs number_op_def checked64_def)
  then show ?thesis using application_paths_agree [OF wf m v, of "\<lambda>_. undefined" 0 0] by simp
qed


section \<open>Results in columns\<close>

text \<open>The result of an operator on two SQL values: null if one is null, undefined where the operator is.\<close>

fun arith_sql :: "(int \<Rightarrow> tm) \<Rightarrow> arith_functor \<Rightarrow> TypeID \<Rightarrow> sql_value \<Rightarrow> sql_value \<Rightarrow> sql_value option" where
  "arith_sql gmtime F result (SqlLiteral l) (SqlLiteral r) = map_option (\<lambda>x. SqlLiteral (to_cpptype result x)) (op_functor gmtime F l r)"
| "arith_sql gmtime F result l r = Some SqlNull"

text \<open>An operator made for two types, as \<open>made_operator\<close> shows.\<close>

definition operator_for :: "BinaryOperationID \<Rightarrow> sql_type \<Rightarrow> sql_type \<Rightarrow> arith_operator \<Rightarrow> bool" where
  "operator_for op lt rt c \<longleftrightarrow> makeUncheckedBinaryOperatorForTypes op lt rt = Some c"

lemma operator_fields:
  assumes "operator_for op lt rt c"
  shows "ao_left c = type_id lt" "ao_right c = type_id rt" "ao_left_nullable c = nullable lt" "ao_right_nullable c = nullable rt"
    "result_id op (type_id lt) (type_id rt) = Some (ao_result c)" "ao_functor c = functor_for op (type_id lt) (type_id rt)"
    "ao_nullable c \<longleftrightarrow> nullable lt \<or> nullable rt" "type_id lt \<notin> {kChar, kVarChar}" "type_id rt \<notin> {kChar, kVarChar}"
proof -
  obtain u where u: "result_id op (type_id lt) (type_id rt) = Some u" and
    c: "c = new_operator (functor_for op (type_id lt) (type_id rt)) u (type_id lt) (nullable lt) (type_id rt) (nullable rt)"
    using assms by (auto simp: operator_for_def made_operator)
  show "ao_left c = type_id lt" "ao_right c = type_id rt" "ao_left_nullable c = nullable lt" "ao_right_nullable c = nullable rt"
    "result_id op (type_id lt) (type_id rt) = Some (ao_result c)" "ao_functor c = functor_for op (type_id lt) (type_id rt)"
    "ao_nullable c \<longleftrightarrow> nullable lt \<or> nullable rt"
    using u by (simp_all add: c new_operator_def ao_nullable_def)
  show "type_id lt \<notin> {kChar, kVarChar}" "type_id rt \<notin> {kChar, kVarChar}"
    using result_arithmetic [OF u] by (auto simp: arithmetic_type_def)
qed

text \<open>What the operator yields is of the result type, once converted to its C++ type.\<close>

lemma number_op_type:
  assumes "number_op F l r = Some x" "NumericTypeUnifier (literal_type (number l)) (literal_type (number r)) = Some u"
    "F = FloatModuloFunctor \<longrightarrow> u \<in> {kFloat, kDouble}"
  shows "literal_type (to_cpptype u (number x)) = u"
  using assms by (cases l; cases r; cases F) (auto simp: number_op_def)

lemma number_type: "literal_type (number x) \<notin> {kDate, kDatetime, kDatetimeInterval, kYearMonthInterval}"
  by (cases x) simp_all

lemma op_functor_type:
  assumes "op_functor gmtime (functor_for op (literal_type l) (literal_type r)) l r = Some x"
    "result_id op (literal_type l) (literal_type r) = Some u"
  shows "literal_type (to_cpptype u x) = u"
proof (cases "NumericTypeUnifier (literal_type l) (literal_type r)")
  case (Some w)
  have num: "literal_type l \<in> {kInt, kLong, kFloat, kDouble}" "literal_type r \<in> {kInt, kLong, kFloat, kDouble}"
    using unifier_none [of "literal_type l" "literal_type r"] Some by (cases "literal_type l"; cases "literal_type r"; simp)+
  then obtain a b where ab: "l = number a" "r = number b" using number_literal [of l] number_literal [of r] by auto
  let ?F = "functor_for op (literal_type l) (literal_type r)"
  have w: "w = u" using Some assms(2) by (simp add: result_id_def)
  obtain y where y: "number_op ?F a b = Some y" "x = number y"
    using assms(1) ab by (cases ?F) (auto simp: op_functor_defs)
  have "?F = FloatModuloFunctor \<longrightarrow> w \<in> {kFloat, kDouble}"
    using Some num by (cases op) (auto simp: functor_for_def)
  then show ?thesis using number_op_type [OF y(1)] Some y(2) w ab by simp
next
  case None
  then have "date_result_id op (literal_type l) (literal_type r) = Some u" using assms(2) by (simp add: result_id_def)
  then show ?thesis using assms(1) None number_type
    by (cases op; cases l; cases r) (auto simp: date_result_id_def functor_for_def op_functor_defs split: if_splits)
qed


subsection \<open>Writing directly keeps the promise of a column\<close>

text \<open>The bytes of a literal are read back as the literal.\<close>

lemma literal_bytes_back:
  assumes "literal_type l \<noteq> kDate"
  shows "length (literal_bytes l) = cpp_size (literal_type l)" "deref (literal_type l) (Some (literal_bytes l @ rest)) = Some l"
proof -
  have size: "length (word_bytes n w) = n" for n w by (simp add: word_bytes_def)
  have full: "bytes_word (word_bytes 8 w) = w" for w using bytes_word_word_bytes [of 8 w] by (simp add: take_bit_word_eq_self)
  have low: "ucast (bytes_word (word_bytes 4 (ucast w))) = (w :: u32)" for w
    using bytes_word_word_bytes [of 4 "ucast w"] by (simp add: take_low_bits) (rule bit_word_eqI, simp add: bit_simps)
  show "length (literal_bytes l) = cpp_size (literal_type l)"
    using assms by (induction l rule: literal_bytes.induct) (simp_all add: size cpp_size_def)
  show "deref (literal_type l) (Some (literal_bytes l @ rest)) = Some l"
    using assms by (induction l rule: literal_bytes.induct) (simp_all add: deref_def size cpp_size_def literal_of_bytes_def full low)
qed

text \<open>One more result: a null, or a literal that is written where \<^verbatim>\<open>getPtrForDirectWrite()\<close> says.\<close>

fun append_result :: "sql_value \<Rightarrow> native_column_vector \<times> heap \<Rightarrow> native_column_vector \<times> heap" where
  "append_result (SqlLiteral l) s =
     (let (ptr, cv) = native_getPtrForDirectWrite (fst s) in (cv, write_bytes ptr (literal_bytes l) (snd s)))"
| "append_result _ s = (case native_appendNullValue (fst s) of Some cv \<Rightarrow> (cv, snd s) | None \<Rightarrow> s)"

definition result_ok :: "native_column_vector \<times> heap \<Rightarrow> sql_value \<Rightarrow> bool" where
  "result_ok s v \<longleftrightarrow> sql_of_type (column_type (fst s)) v \<and> type_id (column_type (fst s)) \<notin> {kChar, kVarChar, kDate}"

lemma append_result_inv:
  assumes "native_inv (fst s)" "actual_length (fst s) < reserved_length (fst s)" "result_ok s v"
  shows "native_inv (fst (append_result v s)) \<and> actual_length (fst (append_result v s)) = Suc (actual_length (fst s)) \<and>
    reserved_length (fst (append_result v s)) = reserved_length (fst s) \<and> column_type (fst (append_result v s)) = column_type (fst s) \<and>
    null_set (fst (append_result v s)) = (if v = SqlNull then insert (actual_length (fst s)) (null_set (fst s)) else null_set (fst s))"
proof (cases v)
  case (SqlLiteral l)
  have "bv_set bm \<subseteq> {..<Suc n}" if "bv_set bm \<subseteq> {..<n}" for bm n using that by auto
  then show ?thesis
    using assms SqlLiteral by (auto simp: native_getPtrForDirectWrite_def native_inv_def null_set_def split: option.splits)
next
  case SqlNull
  then have "nullable (column_type (fst s))" using assms(3) by (simp add: result_ok_def)
  then obtain bm where b: "null_bitmap (fst s) = Some bm" "bv_inv bm" "num_bits bm = reserved_length (fst s)" "bv_set bm \<subseteq> {..<actual_length (fst s)}"
    using assms(1) by (cases "null_bitmap (fst s)") (auto simp: native_inv_def)
  have "actual_length (fst s) < num_bits bm" using assms(2) b(3) by simp
  then have "bv_inv (setBit (actual_length (fst s)) True bm)"
    "bv_set (setBit (actual_length (fst s)) True bm) = insert (actual_length (fst s)) (bv_set bm)"
    using setBit_inv [OF b(2)] setBit_set [OF b(2)] by simp_all
  then show ?thesis
    using assms(1,2) b SqlNull by (auto simp: native_appendNullValue_def native_inv_def null_set_def)
next
  case (SqlString cs)
  then show ?thesis using assms(3) by (auto simp: result_ok_def)
qed

lemma append_result_slots:
  assumes "native_inv (fst s)" "actual_length (fst s) < reserved_length (fst s)" "result_ok s v" "j < reserved_length (fst s)"
  shows "slot (snd (append_result v s)) (fst (append_result v s)) j =
    (case v of SqlLiteral l \<Rightarrow> if j = actual_length (fst s) then literal_bytes l @ drop (length (literal_bytes l)) (slot (snd s) (fst s) j)
        else slot (snd s) (fst s) j
     | _ \<Rightarrow> slot (snd s) (fst s) j)"
proof (cases v)
  case (SqlLiteral l)
  have same: "slot h (cv\<lparr>actual_length := n\<rparr>) j = slot h cv j" for h cv n by (simp add: slot_def slot_address_def)
  have "literal_type l = type_id (column_type (fst s))" "literal_type l \<noteq> kDate" "type_id (column_type (fst s)) \<notin> {kChar, kVarChar}"
    using assms(3) SqlLiteral by (auto simp: result_ok_def)
  then have "length (literal_bytes l) \<le> type_length (fst s)"
    using literal_bytes_back(1) [of l] literal_inline(2) [of l] assms(1) by (cases "type_id (column_type (fst s))") (simp_all add: native_inv_def maximumByteLength_def cpp_size_def)
  then show ?thesis
    using write_slot [OF assms(1,2,4), of "literal_bytes l" "snd s"] SqlLiteral same by (simp add: native_getPtrForDirectWrite_def)
qed (auto simp: native_appendNullValue_def slot_def slot_address_def split: option.splits bind_splits)

lemma literal_result_held: "result_ok s (SqlLiteral l) \<Longrightarrow> item_holds (column_type (fst s)) (Some (literal_bytes l @ rest)) (SqlLiteral l)"
  using literal_bytes_back(2) [of l rest] by (simp add: result_ok_def item_holds_def)

interpretation results: column_store "\<lambda>s. native_inv (fst s)" "\<lambda>s. column_type (fst s)" "\<lambda>s. native_size (fst s)"
  "\<lambda>s. reserved_length (fst s)" "\<lambda>s. native_getUntypedValue True (snd s) (fst s)" result_ok "\<lambda>s v. v" "\<lambda>v w. True" append_result
proof
  fix s :: "native_column_vector \<times> heap" and v
  assume s: "native_inv (fst s)" "native_size (fst s) < reserved_length (fst s)" "result_ok s v"
  have n: "actual_length (fst s) < reserved_length (fst s)" using s(2) by (simp add: native_size_def)
  note inv = append_result_inv [OF s(1) n s(3)] and slots = append_result_slots [OF s(1) n s(3)]
  show "native_inv (fst (append_result v s))" using inv by blast
  show "native_size (fst (append_result v s)) = Suc (native_size (fst s)) \<and> reserved_length (fst (append_result v s)) = reserved_length (fst s) \<and>
      column_type (fst (append_result v s)) = column_type (fst s)"
    using inv by (simp add: native_size_def)
  have item: "native_getUntypedValue True (snd (append_result v s)) (fst (append_result v s)) j =
      (if j \<in> null_set (fst (append_result v s)) then None else Some (slot (snd (append_result v s)) (fst (append_result v s)) j))"
    if "j < reserved_length (fst s)" for j
    using native_item [of "fst (append_result v s)" j] inv that by simp
  have fresh: "actual_length (fst s) \<notin> null_set (fst s)" using s(1) by (auto simp: native_inv_def null_set_def split: option.splits)
  show "item_holds (column_type (fst s)) (native_getUntypedValue True (snd (append_result v s)) (fst (append_result v s)) (native_size (fst s))) v"
    using item [OF n] slots [OF n] inv fresh s(3) literal_result_held [of s]
    by (cases v) (auto simp: native_size_def item_holds_def result_ok_def simp del: append_result.simps)
  show "native_getUntypedValue True (snd (append_result v s)) (fst (append_result v s)) j = native_getUntypedValue True (snd s) (fst s) j"
    if "j < native_size (fst s)" for j
  proof -
    have j: "j < reserved_length (fst s)" "j \<noteq> actual_length (fst s)" using that n by (simp_all add: native_size_def)
    show ?thesis using item [OF j(1)] native_item [OF s(1) j(1), of "snd s"] slots [OF j(1)] inv j(2) by (cases v) simp_all
  qed
  show "result_ok (append_result v s) w \<and> w = w" if "result_ok s w" for w using that inv by (simp add: result_ok_def)
qed


subsection \<open>The loops\<close>

text \<open>What a function on columns computes: a native column with the given values, or nothing defined.\<close>

definition computes :: "(native_column_vector \<times> heap) option \<Rightarrow> sql_type \<Rightarrow> sql_value list option \<Rightarrow> bool" where
  "computes res t vs \<longleftrightarrow>
     (case vs of None \<Rightarrow> res = None
      | Some xs \<Rightarrow> (\<exists>cv h. res = Some (cv, h) \<and> column_holds t h (NativeColumn cv) xs))"

definition result_type :: "arith_operator \<Rightarrow> sql_type" where
  "result_type c = Instance (ao_result c) (ao_nullable c)"

abbreviation arith_of :: "(int \<Rightarrow> tm) \<Rightarrow> arith_operator \<Rightarrow> sql_value \<Rightarrow> sql_value \<Rightarrow> sql_value option" where
  "arith_of gmtime c \<equiv> arith_sql gmtime (ao_functor c) (ao_result c)"

lemma result_plain: "operator_for op lt rt c \<Longrightarrow> ao_result c \<notin> {kChar, kVarChar, kDate, kNullType}"
  using operator_fields(5) [of op lt rt c]
  by (cases op; cases "type_id lt"; cases "type_id rt") (simp_all add: result_id_def date_result_id_def eq_commute [of _ "ao_result c"])

lemma arith_result_ok:
  assumes "operator_for op lt rt c" "item_holds lt dl l" "item_holds rt dr r" "arith_of gmtime c l r = Some v"
  shows "sql_of_type (result_type c) v \<and> v \<notin> range SqlString"
proof -
  note c = operator_fields [OF assms(1)]
  show ?thesis
    using assms(2)
  proof (cases rule: item_holdsE)
    case null
    then show ?thesis using assms(4) c(7) by (auto simp: result_type_def)
  next
    case string
    then show ?thesis using c(8) by simp
  next
    case l: (literal a)
    show ?thesis
      using assms(3)
    proof (cases rule: item_holdsE)
      case null
      then show ?thesis using assms(4) l(1) c(7) by (auto simp: result_type_def)
    next
      case string
      then show ?thesis using c(9) by simp
    next
      case r: (literal b)
      obtain x where "op_functor gmtime (functor_for op (literal_type a) (literal_type b)) a b = Some x" "v = SqlLiteral (to_cpptype (ao_result c) x)"
        using assms(4) l r c(6) by auto
      then show ?thesis using op_functor_type [of gmtime op a b x "ao_result c"] c(5) l(2) r(2) by (auto simp: result_type_def)
    qed
  qed
qed

lemma append_item_result:
  assumes "operator_for op lt rt c" "item_holds lt dl l" "item_holds rt dr r" "native_inv (fst s)" "column_type (fst s) = result_type c"
  shows "append_item gmtime c dl dr s = map_option (\<lambda>v. append_result v s) (arith_of gmtime c l r)"
proof -
  note c = operator_fields [OF assms(1)]
  have null: "append_item gmtime c dl dr s = map_option (\<lambda>v. append_result v s) (arith_of gmtime c l r)" if "l = SqlNull \<or> r = SqlNull"
  proof -
    have n: "(nullable lt \<and> dl = None) \<or> (nullable rt \<and> dr = None)" using that assms(2,3) by (auto simp: item_holds_def)
    then have "null_bitmap (fst s) \<noteq> None"
      using assms(4,5) c(7) by (auto simp: native_inv_def result_type_def split: option.splits)
    then have "native_appendNullValue (fst s) \<noteq> None" by (auto simp: native_appendNullValue_def)
    moreover have "arith_of gmtime c l r = Some SqlNull" using that by (cases l; cases r) auto
    ultimately show ?thesis using n c(3,4) by (auto simp: append_item_def)
  qed
  show ?thesis
  proof (cases "l = SqlNull \<or> r = SqlNull")
    case False
    obtain a where a: "l = SqlLiteral a" "deref (type_id lt) dl = Some a" using assms(2) False c(8) by (cases rule: item_holdsE) auto
    obtain b where b: "r = SqlLiteral b" "deref (type_id rt) dr = Some b" using assms(3) False c(9) by (cases rule: item_holdsE) auto
    have "dl \<noteq> None" "dr \<noteq> None" using a b deref_some by blast+
    then show ?thesis
      using a b c(1,2) by (cases "op_functor gmtime (ao_functor c) a b")
        (auto simp: append_item_def castAndApply_def split: prod.splits)
  qed (rule null)
qed

lemma append_items_results:
  assumes "operator_for op lt rt c" "list_all2 (\<lambda>d v. item_holds lt (fst d) (fst v) \<and> item_holds rt (snd d) (snd v)) items vals"
    "native_inv (fst s)" "column_type (fst s) = result_type c" "actual_length (fst s) + length items \<le> reserved_length (fst s)"
  shows "append_items gmtime c items s =
    map_option (\<lambda>vs. fold append_result vs s) (those (map (\<lambda>v. arith_of gmtime c (fst v) (snd v)) vals))"
  using assms(2-)
proof (induction items vals arbitrary: s rule: list_all2_induct)
  case (Cons d items v vals)
  have held: "item_holds lt (fst d) (fst v)" "item_holds rt (snd d) (snd v)" using Cons.hyps(1) by simp_all
  note step = append_item_result [OF assms(1) held Cons.prems(1,2), of gmtime]
  show ?case
  proof (cases "arith_of gmtime c (fst v) (snd v)")
    case None
    then show ?thesis using step by (cases d) simp
  next
    case (Some x)
    have "result_ok s x"
      using arith_result_ok [OF assms(1) held Some] result_plain [OF assms(1)] Cons.prems(2)
      by (auto simp: result_ok_def result_type_def)
    then have "native_inv (fst (append_result x s)) \<and> column_type (fst (append_result x s)) = result_type c \<and>
        actual_length (fst (append_result x s)) + length items \<le> reserved_length (fst (append_result x s))"
      using append_result_inv [OF Cons.prems(1)] Cons.prems(2,3) by simp
    then show ?thesis using Cons.IH [of "append_result x s"] step Some by (cases d) (simp add: option.map_comp comp_def)
  qed
qed simp

lemma those_Some: "those xs = Some ys \<Longrightarrow> map Some ys = xs"
  by (induction xs arbitrary: ys) (auto split: option.splits)

lemma loop_computes:
  assumes "operator_for op lt rt c" "length items = length vals" "length items \<le> n" "n < 2 ^ 60"
    "\<And>i. i < length vals \<Longrightarrow> item_holds lt (fst (items ! i)) (fst (vals ! i)) \<and> item_holds rt (snd (items ! i)) (snd (vals ! i))"
  shows "computes (append_items gmtime c items (new_result_column p g c n h)) (result_type c)
    (those (map (\<lambda>v. arith_of gmtime c (fst v) (snd v)) vals))"
proof -
  let ?vs = "map (\<lambda>v. arith_of gmtime c (fst v) (snd v)) vals"
  obtain cv h' where new: "NativeColumnVector_new p g (result_type c) n h = (cv, h')" by fastforce
  have t: "type_id (result_type c) = ao_result c" by (simp add: result_type_def)
  note plain = result_plain [OF assms(1)]
  have "maximumByteLength (result_type c) \<le> 8" using plain t by (cases "ao_result c") (simp_all add: maximumByteLength_def)
  then have "n * maximumByteLength (result_type c) \<le> n * 8" by (rule mult_le_mono2)
  also have "\<dots> \<le> 2 ^ 64" using assms(4) by simp
  finally have size: "n * maximumByteLength (result_type c) \<le> 2 ^ 64" .
  have "type_id (result_type c) \<noteq> kVarChar" "n < 2 ^ 63" using plain t assms(4) by simp_all
  from native_new_inv [OF this(1) size this(2) new]
  have inv: "native_inv cv" "column_type cv = result_type c" "reserved_length cv = n" "native.holds (cv, h') []" by blast+
  have empty: "actual_length cv = 0" using new by (auto simp: NativeColumnVector_new_def)
  have all: "list_all2 (\<lambda>d v. item_holds lt (fst d) (fst v) \<and> item_holds rt (snd d) (snd v)) items vals"
    using assms(2,5) by (simp add: list_all2_conv_all_nth)
  have run: "append_items gmtime c items (new_result_column p g c n h) = map_option (\<lambda>vs. fold append_result vs (cv, h')) (those ?vs)"
    using append_items_results [OF assms(1) all, of "(cv, h')" gmtime] inv empty assms(3) new by (simp add: new_result_column_def result_type_def)
  show ?thesis
  proof (cases "those ?vs")
    case None
    then show ?thesis using run by (simp add: computes_def)
  next
    case (Some xs)
    note xs = those_Some [OF Some]
    have ok: "result_ok (cv, h') x" if "x \<in> set xs" for x
    proof -
      from that obtain i where i: "i < length xs" "x = xs ! i" by (auto simp: in_set_conv_nth)
      have len: "length xs = length vals" using arg_cong [OF xs, of length] by simp
      have "arith_of gmtime c (fst (vals ! i)) (snd (vals ! i)) = Some x"
        using arg_cong [OF xs, of "\<lambda>l. l ! i"] i len by simp
      then show ?thesis
        using arith_result_ok [OF assms(1)] assms(5) [of i] i(1) len plain inv(2) t by (auto simp: result_ok_def)
    qed
    have len: "length xs \<le> n" using arg_cong [OF xs, of length] assms(2,3) by simp
    obtain cv' h'' where folded: "fold append_result xs (cv, h') = (cv', h'')" by fastforce
    have "native_inv cv' \<and> column_type cv' = result_type c \<and> results.holds (cv', h'') xs"
      using results.append_all [of "(cv, h')" xs "[]"] inv empty ok len folded
      by (simp add: native_size_def results.holds_def native.holds_def)
    then have "column_holds (result_type c) h'' (NativeColumn cv') xs"
      using native_column_holds [of cv' h'' xs] by auto
    then show ?thesis using run Some folded by (simp add: computes_def)
  qed
qed

lemma all_null_computes:
  assumes "operator_for op lt rt c" "ao_nullable c" "n < 2 ^ 60"
  shows "computes (all_null_column (new_result_column p g c n h)) (result_type c) (Some (replicate n SqlNull))"
proof -
  obtain cv h' where new: "NativeColumnVector_new p g (result_type c) n h = (cv, h')" by fastforce
  note plain = result_plain [OF assms(1)]
  have t: "type_id (result_type c) = ao_result c" by (simp add: result_type_def)
  have "maximumByteLength (result_type c) \<le> 8" using plain t by (cases "ao_result c") (simp_all add: maximumByteLength_def)
  then have "n * maximumByteLength (result_type c) \<le> n * 8" by (rule mult_le_mono2)
  also have "\<dots> \<le> 2 ^ 64" using assms(3) by simp
  finally have inv: "native_inv cv" "column_type cv = result_type c" "reserved_length cv = n"
    using native_new_inv [OF _ _ _ new] plain t assms(3) by simp_all
  let ?v = "TypedValue_null (ao_result c)"
  have "value_of_type h' ?v (result_type c)" using assms(2) by (simp add: value_of_type_def result_type_def value_simps)
  then obtain cv' h'' where "native_fillWithValue ?v cv h' = Some (cv', h'')"
    "column_holds (result_type c) h'' (NativeColumn cv') (replicate n (sql_value_of h' ?v))"
    using native_fill [OF inv(1), of h' ?v] inv by (auto simp: outside_def value_simps)
  then show ?thesis
    using new by (auto simp: computes_def all_null_column_def new_result_column_def result_type_def native_fillWithValue_def value_simps sql_value_of_def)
qed


lemma static_held:
  assumes "value_of_type h v t" "type_id t \<notin> {kChar, kVarChar}" "\<not> isNull v"
  shows "item_holds t (static_item (type_id t) v) (sql_value_of h v)"
  using literal_data_ptr(2) [OF assms] by (simp add: static_item_def)

lemma those_all_null: "those (map (\<lambda>x. Some SqlNull) xs) = Some (replicate (length xs) SqlNull)"
  by (induction xs) simp_all

lemma arith_sql_null [simp]: "arith_sql gmtime F u l SqlNull = Some SqlNull" "arith_sql gmtime F u SqlNull r = Some SqlNull"
  by (cases l; simp) (cases r; simp)

lemma native_column_item:
  assumes "column_holds t h cv xs" "isNative cv" "i < length xs"
  shows "item_holds t (native_getUntypedValue (nullable t) h (as_native cv) i) (xs ! i)"
  using column_item [OF assms(1,3)] native_column [OF assms(2)] by simp

lemma native_length: "column_holds t h cv xs \<Longrightarrow> isNative cv \<Longrightarrow> native_size (as_native cv) = length xs"
  using native_column(2) by (simp add: column_holds_def)

lemma map_zip_nth: "length rs = length ls \<Longrightarrow> map (\<lambda>v. f (fst v) (snd v)) (map (\<lambda>i. (ls ! i, rs ! i)) [0..<length ls]) = map2 f ls rs"
  by (rule nth_equalityI) simp_all

text \<open>
  C37: On native columns an operator computes a native column of its result type that holds, in order, the operator's
  result for each pair of SQL values of two columns of equal length, or for each value of a column and a static value on
  either side: null for a null operand. If one result is undefined so is the call.
\<close>

theorem column_arithmetic:
  assumes "operator_for op lt rt c" "column_holds lt h left ls" "column_holds rt h right rs" "isNative left" "isNative right"
    "length rs = length ls" "length ls < 2 ^ 60" "value_of_type h v rt" "value_of_type h w lt"
  shows "computes (applyToColumnVectors p g gmtime c h left right) (result_type c) (those (map2 (arith_of gmtime c) ls rs)) \<and>
    computes (applyToColumnVectorAndStaticValueHelper True p g gmtime c h left v) (result_type c)
      (those (map (\<lambda>l. arith_of gmtime c l (sql_value_of h v)) ls)) \<and>
    computes (applyToColumnVectorAndStaticValueHelper False p g gmtime c h right w) (result_type c)
      (those (map (\<lambda>r. arith_of gmtime c (sql_value_of h w) r) rs))"
proof (intro conjI)
  note c = operator_fields [OF assms(1)]
  note items = native_column_item [OF assms(2,4)] native_column_item [OF assms(3,5)]
  note sizes = native_length [OF assms(2,4)] native_length [OF assms(3,5)]
  show "computes (applyToColumnVectors p g gmtime c h left right) (result_type c) (those (map2 (arith_of gmtime c) ls rs))"
    unfolding applyToColumnVectors_def Let_def sizes c(3,4) map_zip_nth [OF assms(6), symmetric]
    using items assms(6,7) by (intro loop_computes [OF assms(1)]) simp_all
  have static: "item_holds rt (static_item (type_id rt) v) (sql_value_of h v)" if "\<not> isNull v"
    using static_held [OF assms(8) c(9) that] .
  show "computes (applyToColumnVectorAndStaticValueHelper True p g gmtime c h left v) (result_type c)
      (those (map (\<lambda>l. arith_of gmtime c l (sql_value_of h v)) ls))"
  proof (cases "isNull v")
    case True
    then show ?thesis
      using all_null_computes [OF assms(1) _ assms(7)] value_null [OF assms(8) True] c(4,7) sizes
      by (simp add: applyToColumnVectorAndStaticValueHelper_def sql_null those_all_null)
  next
    case False
    have "computes (append_items gmtime c (map (\<lambda>pos. (native_getUntypedValue (nullable lt) h (as_native left) pos, static_item (type_id rt) v)) [0..<length ls])
        (new_result_column p g c (length ls) h)) (result_type c)
      (those (map (\<lambda>v. arith_of gmtime c (fst v) (snd v)) (map (\<lambda>l. (l, sql_value_of h v)) ls)))"
      using items static [OF False] assms(7) by (intro loop_computes [OF assms(1)]) simp_all
    then show ?thesis using False c sizes by (simp add: applyToColumnVectorAndStaticValueHelper_def Let_def comp_def)
  qed
  have static: "item_holds lt (static_item (type_id lt) w) (sql_value_of h w)" if "\<not> isNull w"
    using static_held [OF assms(9) c(8) that] .
  show "computes (applyToColumnVectorAndStaticValueHelper False p g gmtime c h right w) (result_type c)
      (those (map (\<lambda>r. arith_of gmtime c (sql_value_of h w) r) rs))"
  proof (cases "isNull w")
    case True
    then show ?thesis
      using all_null_computes [OF assms(1) _ assms(7)] value_null [OF assms(9) True] c(3,7) sizes assms(6)
      by (simp add: applyToColumnVectorAndStaticValueHelper_def sql_null those_all_null)
  next
    case False
    have "computes (append_items gmtime c (map (\<lambda>pos. (static_item (type_id lt) w, native_getUntypedValue (nullable rt) h (as_native right) pos)) [0..<length rs])
        (new_result_column p g c (length rs) h)) (result_type c)
      (those (map (\<lambda>v. arith_of gmtime c (fst v) (snd v)) (map (\<lambda>r. (sql_value_of h w, r)) rs)))"
      using items static [OF False] assms(6,7) by (intro loop_computes [OF assms(1)]) simp_all
    then show ?thesis using False c sizes by (simp add: applyToColumnVectorAndStaticValueHelper_def Let_def comp_def)
  qed
qed

subsection \<open>Accessors and joins\<close>

lemma num_tuples:
  assumes "va_ok acc" "\<not> isOrderedTupleIdSequenceAdapter acc"
  shows "nat (va_getNumTuples acc) = length (va_positions acc)"
proof -
  note range = accessor_range(5) [OF assms]
  have "length (tis_tuples s) = tis_numTuples s" if "tis_inv s" for s
    using that by (simp add: tuples_sorted numTuples_slots)
  then show ?thesis
    using assms range
    by (cases acc rule: va_kinds) (simp_all add: va_getNumTuples_def InvokeOnAnyValueAccessor_def tv_getEndPosition_def
        cva_getEndPosition_def ia_getNumTuples_def)
qed


lemma held_position:
  assumes "accessor_holds t h acc attr x" "q \<in> set (va_positions acc)" "va_ok acc" "\<not> isOrderedTupleIdSequenceAdapter acc"
  shows "item_holds t (value_at (nullable t) h acc attr q) (x (nat q))"
  using held_at [OF assms(1), of "nat q"] accessor_range(3) [OF assms(3,4,2)] assms(2) by simp

lemma accessor_loop_computes:
  assumes "operator_for op lt rt c" "va_ok acc" "\<not> isOrderedTupleIdSequenceAdapter acc"
    "\<And>i a. i < length (va_positions acc) \<Longrightarrow>
      (\<forall>cn h attr. va_getUntypedValue cn h a attr = value_at cn h acc attr (va_positions acc ! i)) \<Longrightarrow>
      item_holds lt (fst (pick i a)) (fst (val i)) \<and> item_holds rt (snd (pick i a)) (snd (val i))"
    "length (va_positions acc) \<le> n" "n < 2 ^ 60"
  shows "\<exists>ss. accessor_loop acc = Some ss \<and> length ss = length (va_positions acc) \<and>
    computes (append_items gmtime c (map (\<lambda>(i, a). pick i a) (zip [0..<length ss] ss)) (new_result_column p g c n h)) (result_type c)
      (those (map (\<lambda>v. arith_of gmtime c (fst v) (snd v)) (map val [0..<length (va_positions acc)])))"
proof -
  obtain ss where ss: "accessor_loop acc = Some ss" "map va_getCurrentPosition ss = va_positions acc"
    "\<forall>s\<in>set ss. \<forall>cn h attr. va_getUntypedValue cn h s attr = value_at cn h acc attr (va_getCurrentPosition s)"
    using accessor_cursors [OF assms(2,3)] by blast
  have len: "length ss = length (va_positions acc)" using arg_cong [OF ss(2), of length] by simp
  have at: "va_getCurrentPosition (ss ! i) = va_positions acc ! i" if "i < length ss" for i
    using arg_cong [OF ss(2), of "\<lambda>l. l ! i"] that by simp
  have "item_holds lt (fst (pick i (ss ! i))) (fst (val i)) \<and> item_holds rt (snd (pick i (ss ! i))) (snd (val i))" if "i < length ss" for i
    using assms(4) [of i "ss ! i"] that len ss(3) at by simp
  then have "computes (append_items gmtime c (map (\<lambda>(i, a). pick i a) (zip [0..<length ss] ss)) (new_result_column p g c n h)) (result_type c)
      (those (map (\<lambda>v. arith_of gmtime c (fst v) (snd v)) (map val [0..<length (va_positions acc)])))"
    using assms(5,6) len by (intro loop_computes [OF assms(1)]) simp_all
  then show ?thesis using ss(1) len by blast
qed

lemma unzip_loop: "map (\<lambda>(i, a). f a) (zip [0..<length ss] ss) = map f ss"
  by (rule nth_equalityI) simp_all

lemma map_positions: "map (\<lambda>v. f (fst v) (snd v)) (map (\<lambda>i. (x (nat (ps ! i)), y (nat (ps ! i)))) [0..<length ps]) = map (\<lambda>q. f (x (nat q)) (y (nat q))) ps"
  by (rule nth_equalityI) simp_all

text \<open>
  C38: On the tuples of an accessor the operator computes its results for the tuples in order, for two
  attributes, for an attribute and a static value on its right, and for a native column of as many values and an attribute.
\<close>

theorem accessor_arithmetic:
  assumes "operator_for op lt rt c" "va_ok acc" "\<not> isOrderedTupleIdSequenceAdapter acc"
    "accessor_holds lt h acc left_id x" "accessor_holds rt h acc right_id y" "value_of_type h v rt"
    "column_holds lt h cv ls" "isNative cv" "length ls = length (va_positions acc)"
  shows "computes (applyToSingleValueAccessor p g gmtime c h acc left_id right_id) (result_type c)
      (those (map (\<lambda>q. arith_of gmtime c (x (nat q)) (y (nat q))) (va_positions acc))) \<and>
    computes (applyToValueAccessorAndStaticValueHelper True p g gmtime c h acc left_id v) (result_type c)
      (those (map (\<lambda>q. arith_of gmtime c (x (nat q)) (sql_value_of h v)) (va_positions acc))) \<and>
    computes (applyToColumnVectorAndValueAccessorHelper True p g gmtime c h cv acc right_id) (result_type c)
      (those (map2 (\<lambda>l q. arith_of gmtime c l (y (nat q))) ls (va_positions acc)))"
proof (intro conjI)
  note c = operator_fields [OF assms(1)]
  note held = held_position [OF assms(4) _ assms(2,3)] held_position [OF assms(5) _ assms(2,3)]
  note any = not_ordered_accessor [OF assms(3)]
  let ?n = "length (va_positions acc)" and ?ps = "va_positions acc"
  have n: "?n < 2 ^ 60" using accessor_range(5) [OF assms(2,3)] by simp
  note count = num_tuples [OF assms(2,3)]
  obtain ss where "accessor_loop acc = Some ss" "computes (append_items gmtime c (map (\<lambda>(i, a). (va_getUntypedValue (nullable lt) h a left_id,
        va_getUntypedValue (nullable rt) h a right_id)) (zip [0..<length ss] ss)) (new_result_column p g c ?n h)) (result_type c)
      (those (map (\<lambda>v. arith_of gmtime c (fst v) (snd v)) (map (\<lambda>i. (x (nat (?ps ! i)), y (nat (?ps ! i)))) [0..<?n])))"
    using accessor_loop_computes [OF assms(1-3), where n = ?n and val = "\<lambda>i. (x (nat (?ps ! i)), y (nat (?ps ! i)))" and gmtime = gmtime and p = p and g = g and h = h and
        pick = "\<lambda>i a. (va_getUntypedValue (nullable lt) h a left_id, va_getUntypedValue (nullable rt) h a right_id)"] held n by auto
  then show "computes (applyToSingleValueAccessor p g gmtime c h acc left_id right_id) (result_type c)
      (those (map (\<lambda>q. arith_of gmtime c (x (nat q)) (y (nat q))) ?ps))"
    unfolding map_positions unzip_loop by (simp add: applyToSingleValueAccessor_def any count c)
  show "computes (applyToValueAccessorAndStaticValueHelper True p g gmtime c h acc left_id v) (result_type c)
      (those (map (\<lambda>q. arith_of gmtime c (x (nat q)) (sql_value_of h v)) ?ps))"
  proof (cases "isNull v")
    case True
    then show ?thesis
      using all_null_computes [OF assms(1) _ n] value_null [OF assms(6) True] c(4,7)
      by (simp add: applyToValueAccessorAndStaticValueHelper_def any count sql_null those_all_null)
  next
    case False
    note static = static_held [OF assms(6) c(9) False]
    obtain ss where "accessor_loop acc = Some ss" "computes (append_items gmtime c (map (\<lambda>(i, a). (va_getUntypedValue (nullable lt) h a left_id,
          static_item (type_id rt) v)) (zip [0..<length ss] ss)) (new_result_column p g c ?n h)) (result_type c)
        (those (map (\<lambda>v. arith_of gmtime c (fst v) (snd v)) (map (\<lambda>i. (x (nat (?ps ! i)), sql_value_of h v)) [0..<?n])))"
      using accessor_loop_computes [OF assms(1-3), where n = ?n and val = "\<lambda>i. (x (nat (?ps ! i)), sql_value_of h v)" and gmtime = gmtime and p = p and g = g and h = h and
          pick = "\<lambda>i a. (va_getUntypedValue (nullable lt) h a left_id, static_item (type_id rt) v)"] held static n by auto
    then show ?thesis
      using False unfolding map_positions [where y = "\<lambda>_. sql_value_of h v"] unzip_loop
      by (simp add: applyToValueAccessorAndStaticValueHelper_def any count c Let_def)
  qed
  obtain ss where "accessor_loop acc = Some ss" "computes (append_items gmtime c (map (\<lambda>(i, a). (native_getUntypedValue (nullable lt) h (as_native cv) i,
        va_getUntypedValue (nullable rt) h a right_id)) (zip [0..<length ss] ss)) (new_result_column p g c ?n h)) (result_type c)
      (those (map (\<lambda>v. arith_of gmtime c (fst v) (snd v)) (map (\<lambda>i. (ls ! i, y (nat (?ps ! i)))) [0..<?n])))"
    using accessor_loop_computes [OF assms(1-3), where n = ?n and val = "\<lambda>i. (ls ! i, y (nat (?ps ! i)))" and gmtime = gmtime and p = p and g = g and h = h and
        pick = "\<lambda>i a. (native_getUntypedValue (nullable lt) h (as_native cv) i, va_getUntypedValue (nullable rt) h a right_id)"]
      held native_column_item [OF assms(7,8)] n assms(9) by auto
  moreover have "map (\<lambda>v. arith_of gmtime c (fst v) (snd v)) (map (\<lambda>i. (ls ! i, y (nat (?ps ! i)))) [0..<?n]) =
      map2 (\<lambda>l q. arith_of gmtime c l (y (nat q))) ls ?ps"
    using assms(9) by (intro nth_equalityI) simp_all
  ultimately show "computes (applyToColumnVectorAndValueAccessorHelper True p g gmtime c h cv acc right_id) (result_type c)
      (those (map2 (\<lambda>l q. arith_of gmtime c l (y (nat q))) ls ?ps))"
    using native_length [OF assms(7,8)] assms(9)
    by (simp add: applyToColumnVectorAndValueAccessorHelper_def any c Let_def)
qed


lemma plain_value_at: "value_at cn h (Plain acc) attr q = plain_getUntypedValueAt cn h acc attr q"
  by (cases acc) (simp_all add: value_at_def va_getUntypedValueAtAbsolutePosition_def InvokeOnAnyValueAccessor_def)

text \<open>
  C39: For a join the operator computes its results for the pairs of joined tuples, each taken from the relation that its
  accessor belongs to; also with a static value on the right and with a native column, one value for each pair, on the left.
\<close>

theorem join_arithmetic:
  assumes "operator_for op lt rt c" "va_ok (Plain la)" "va_ok (Plain ra)"
    "accessor_holds lt h (Plain la) left_id x" "accessor_holds rt h (Plain ra) right_id y" "value_of_type h v rt"
    "column_holds lt h cv ls" "isNative cv" "length ls = length pairs" "length pairs < 2 ^ 60"
    "\<forall>jp\<in>set pairs. joined left_first jp \<in> set (va_positions (Plain la)) \<and> joined right_first jp \<in> set (va_positions (Plain ra))"
  shows "computes (applyToValueAccessorsForJoin p g gmtime c h (Plain la) left_first left_id (Plain ra) right_first right_id pairs) (result_type c)
      (those (map (\<lambda>jp. arith_of gmtime c (x (nat (joined left_first jp))) (y (nat (joined right_first jp)))) pairs)) \<and>
    computes (applyToValueAccessorAndStaticValueForJoinHelper True p g gmtime c h (Plain la) left_first left_id v pairs) (result_type c)
      (those (map (\<lambda>jp. arith_of gmtime c (x (nat (joined left_first jp))) (sql_value_of h v)) pairs)) \<and>
    computes (applyToColumnVectorAndValueAccessorForJoinHelper True p g gmtime c h cv (Plain ra) right_first right_id pairs) (result_type c)
      (those (map2 (\<lambda>l jp. arith_of gmtime c l (y (nat (joined right_first jp)))) ls pairs))"
proof (intro conjI)
  note c = operator_fields [OF assms(1)]
  have plain: "\<not> isOrderedTupleIdSequenceAdapter (Plain a)" for a by simp
  have left: "item_holds lt (plain_getUntypedValueAt (nullable lt) h la left_id (joined left_first jp)) (x (nat (joined left_first jp)))"
    if "jp \<in> set pairs" for jp
    using held_position [OF assms(4) _ assms(2) plain] assms(11) that by (simp add: plain_value_at)
  have right: "item_holds rt (plain_getUntypedValueAt (nullable rt) h ra right_id (joined right_first jp)) (y (nat (joined right_first jp)))"
    if "jp \<in> set pairs" for jp
    using held_position [OF assms(5) _ assms(3) plain] assms(11) that by (simp add: plain_value_at)
  have "computes (append_items gmtime c (map (\<lambda>jp. (plain_getUntypedValueAt (nullable lt) h la left_id (joined left_first jp),
        plain_getUntypedValueAt (nullable rt) h ra right_id (joined right_first jp))) pairs) (new_result_column p g c (length pairs) h)) (result_type c)
      (those (map (\<lambda>v. arith_of gmtime c (fst v) (snd v)) (map (\<lambda>jp. (x (nat (joined left_first jp)), y (nat (joined right_first jp)))) pairs)))"
    using left right assms(10) by (intro loop_computes [OF assms(1)]) simp_all
  then show "computes (applyToValueAccessorsForJoin p g gmtime c h (Plain la) left_first left_id (Plain ra) right_first right_id pairs) (result_type c)
      (those (map (\<lambda>jp. arith_of gmtime c (x (nat (joined left_first jp))) (y (nat (joined right_first jp)))) pairs))"
    by (simp add: applyToValueAccessorsForJoin_def InvokeOnValueAccessorNotAdapter_def c comp_def)
  show "computes (applyToValueAccessorAndStaticValueForJoinHelper True p g gmtime c h (Plain la) left_first left_id v pairs) (result_type c)
      (those (map (\<lambda>jp. arith_of gmtime c (x (nat (joined left_first jp))) (sql_value_of h v)) pairs))"
  proof (cases "isNull v")
    case True
    then show ?thesis
      using all_null_computes [OF assms(1) _ assms(10)] value_null [OF assms(6) True] c(4,7)
      by (simp add: applyToValueAccessorAndStaticValueForJoinHelper_def sql_null those_all_null)
  next
    case False
    have "computes (append_items gmtime c (map (\<lambda>jp. (plain_getUntypedValueAt (nullable lt) h la left_id (joined left_first jp), static_item (type_id rt) v)) pairs)
        (new_result_column p g c (length pairs) h)) (result_type c)
      (those (map (\<lambda>v. arith_of gmtime c (fst v) (snd v)) (map (\<lambda>jp. (x (nat (joined left_first jp)), sql_value_of h v)) pairs)))"
      using left static_held [OF assms(6) c(9) False] assms(10) by (intro loop_computes [OF assms(1)]) simp_all
    then show ?thesis using False
      by (simp add: applyToValueAccessorAndStaticValueForJoinHelper_def InvokeOnValueAccessorNotAdapter_def c comp_def Let_def)
  qed
  have "computes (append_items gmtime c (map (\<lambda>i. (native_getUntypedValue (nullable lt) h (as_native cv) i,
        plain_getUntypedValueAt (nullable rt) h ra right_id (joined right_first (pairs ! i)))) [0..<length ls]) (new_result_column p g c (length ls) h)) (result_type c)
      (those (map (\<lambda>v. arith_of gmtime c (fst v) (snd v)) (map (\<lambda>i. (ls ! i, y (nat (joined right_first (pairs ! i))))) [0..<length ls])))"
    using native_column_item [OF assms(7,8)] right assms(9,10) by (intro loop_computes [OF assms(1)]) simp_all
  moreover have "map (\<lambda>v. arith_of gmtime c (fst v) (snd v)) (map (\<lambda>i. (ls ! i, y (nat (joined right_first (pairs ! i))))) [0..<length ls]) =
      map2 (\<lambda>l jp. arith_of gmtime c l (y (nat (joined right_first jp)))) ls pairs"
    using assms(9) by (intro nth_equalityI) simp_all
  ultimately show "computes (applyToColumnVectorAndValueAccessorForJoinHelper True p g gmtime c h cv (Plain ra) right_first right_id pairs) (result_type c)
      (those (map2 (\<lambda>l jp. arith_of gmtime c l (y (nat (joined right_first jp)))) ls pairs))"
    using native_length [OF assms(7,8)]
    by (simp add: applyToColumnVectorAndValueAccessorForJoinHelper_def InvokeOnValueAccessorNotAdapter_def c Let_def)
qed

subsection \<open>Accumulation\<close>

text \<open>The literals of a list of SQL values, the nulls left out, and the operator folded over them.\<close>

fun literals_of :: "sql_value list \<Rightarrow> literal list" where
  "literals_of [] = []"
| "literals_of (SqlLiteral l # xs) = l # literals_of xs"
| "literals_of (_ # xs) = literals_of xs"

definition folded :: "(int \<Rightarrow> tm) \<Rightarrow> arith_operator \<Rightarrow> literal list \<Rightarrow> literal \<Rightarrow> literal option" where
  "folded gmtime c ls l = foldl (\<lambda>acc r. do { a \<leftarrow> acc; map_option (to_cpptype (ao_left c)) (op_functor gmtime (ao_functor c) a r) }) (Some l) ls"

lemma folded_undefined: "foldl (\<lambda>acc r. do { a \<leftarrow> acc; f a r }) None ls = None"
  by (induction ls) simp_all

lemma accumulate_loop_folded:
  assumes "operator_for op lt rt c" "list_all2 (item_holds rt) items xs"
  shows "accumulate_loop gmtime c items l n = map_option (\<lambda>r. (r, n + length (literals_of xs))) (folded gmtime c (literals_of xs) l)"
  using assms(2)
proof (induction items xs arbitrary: l n rule: list_all2_induct)
  case (Cons d items x xs)
  note c = operator_fields [OF assms(1)]
  show ?case
    using Cons.hyps(1)
  proof (cases rule: item_holdsE)
    case null
    then show ?thesis using Cons.IH c(4) by simp
  next
    case (literal r)
    then have "d \<noteq> None" using deref_some by blast
    then show ?thesis
      using Cons.IH literal c(2,4) folded_undefined
      by (cases "op_functor gmtime (ao_functor c) l r") (auto simp: folded_def)
  next
    case string
    then show ?thesis using c(9) by simp
  qed
qed (simp add: folded_def)

lemma accumulate_from_folded:
  assumes "operator_for op lt rt c" "ao_left c = ao_result c" "value_of_type h v lt" "list_all2 (item_holds rt) items xs"
  shows "accumulate_from gmtime pad c v (Some items) =
    (if isNull v then Some (TypedValue_null (ao_result c), 0)
     else map_option (\<lambda>l. (literal_value pad l, length (literals_of xs))) (folded gmtime c (literals_of xs) (getLiteral (type_id lt) v)))"
  using accumulate_loop_folded [OF assms(1,4), of gmtime "getLiteral (type_id lt) v" 0] assms(2) operator_fields(1,3) [OF assms(1)]
    value_null [OF assms(3)]
  by (cases "folded gmtime c (literals_of xs) (getLiteral (type_id lt) v)") (auto simp: accumulate_from_def makeNullValue_def)

text \<open>
  C40: For an operator whose result is of the type of its left argument, accumulating over a native column or over an
  attribute of the tuples of an accessor folds the operator over the values that are not null, from the left, and
  counts them; a null to start with gives null and counts none.
\<close>

theorem accumulation_folds:
  assumes "operator_for op lt rt c" "ao_left c = ao_result c" "value_of_type h v lt" "column_holds rt h cv xs" "isNative cv"
    "va_ok acc" "\<not> isOrderedTupleIdSequenceAdapter acc" "accessor_holds rt h acc attr y"
  shows "let total = (\<lambda>xs. if isNull v then Some (TypedValue_null (ao_result c), 0)
        else map_option (\<lambda>l. (literal_value pad l, length (literals_of xs))) (folded gmtime c (literals_of xs) (getLiteral (type_id lt) v)))
    in accumulateColumnVector gmtime pad c h v cv = total xs \<and>
      accumulateValueAccessor gmtime pad c h v acc attr = total (map (\<lambda>q. y (nat q)) (va_positions acc))"
proof -
  note c = operator_fields [OF assms(1)]
  have "list_all2 (item_holds rt) (map (native_getUntypedValue (nullable rt) h (as_native cv)) [0..<native_size (as_native cv)]) xs"
    using native_column_item [OF assms(4,5)] native_length [OF assms(4,5)] by (simp add: list_all2_conv_all_nth)
  note column = accumulate_from_folded [OF assms(1-3) this, of gmtime pad]
  obtain ss where ss: "accessor_loop acc = Some ss" "map va_getCurrentPosition ss = va_positions acc"
    "\<forall>s\<in>set ss. \<forall>cn h attr. va_getUntypedValue cn h s attr = value_at cn h acc attr (va_getCurrentPosition s)"
    using accessor_cursors [OF assms(6,7)] by blast
  have "item_holds rt (va_getUntypedValue (nullable rt) h s attr) (y (nat (va_getCurrentPosition s)))" if "s \<in> set ss" for s
  proof -
    have "va_getCurrentPosition s \<in> set (va_positions acc)" using that ss(2) by (metis image_eqI list.set_map)
    then show ?thesis using held_position [OF assms(8) _ assms(6,7)] ss(3) that by simp
  qed
  then have "list_all2 (item_holds rt) (map (\<lambda>a. va_getUntypedValue (nullable rt) h a attr) ss) (map (\<lambda>q. y (nat q)) (va_positions acc))"
    unfolding ss(2) [symmetric] by (simp add: list_all2_conv_all_nth)
  note accessor = accumulate_from_folded [OF assms(1-3) this, of gmtime pad]
  show ?thesis
    using column accessor ss(1)
    by (simp add: not_ordered_accessor [OF assms(7)] accumulateColumnVector_def accumulateValueAccessor_def c Let_def)
qed


subsection \<open>Witnesses\<close>

definition int_plus :: arith_operator where
  "int_plus = new_operator AddFunctor kInt kInt False kInt False"

lemma int_plus_made: "operator_for kAdd (basic_type kInt) (basic_type kInt) int_plus"
  by (simp add: operator_for_def made_operator result_id_def functor_for_def int_plus_def basic_type_def)

lemma int_plus_shape: "ao_left int_plus = ao_result int_plus" "result_type int_plus = Instance kInt False" "ao_functor int_plus = AddFunctor"
  "ao_result int_plus = kInt"
  by (simp_all add: int_plus_def new_operator_def result_type_def ao_nullable_def)

lemma plus_ints:
  "arith_sql gmtime AddFunctor kInt (SqlLiteral (number (IntLit a))) (SqlLiteral (number (IntLit b))) =
    map_option (\<lambda>x. SqlLiteral (number (IntLit x))) (checked32 (sint a + sint b))"
  by (simp add: int_plus_shape op_functor_defs number_op_def option.map_comp comp_def)

text \<open>A native column of integers, as the loops fill it.\<close>

lemma native_ints:
  assumes "length is < 2 ^ 31"
  shows "\<exists>cv h. column_holds (basic_type kInt) h (NativeColumn cv) (map (\<lambda>i. SqlLiteral (number (IntLit i))) is)"
proof -
  let ?t = "basic_type kInt" and ?n = "length is"
  define vs where "vs = map (\<lambda>i. SqlLiteral (number (IntLit i))) is"
  have len: "length vs = ?n" by (simp add: vs_def)
  obtain cv h where new: "NativeColumnVector_new 0x4000 (\<lambda>_. 0) ?t ?n sample_heap = (cv, h)" by fastforce
  have t: "type_id ?t = kInt" "maximumByteLength ?t = 4" by (simp_all add: basic_type_def maximumByteLength_def)
  have "type_id ?t \<noteq> kVarChar" "?n * maximumByteLength ?t \<le> 2 ^ 64" "?n < 2 ^ 63" using t assms by simp_all
  from native_new_inv [OF this new]
  have inv: "native_inv cv" "column_type cv = ?t" "reserved_length cv = ?n" "native.holds (cv, h) []" by blast+
  have ok: "result_ok (cv, h) v" if "v \<in> set vs" for v using that t inv(2) by (auto simp: result_ok_def vs_def)
  have size: "native_size cv = 0" using inv(4) by (simp add: native.holds_def)
  obtain cv' h' where folded: "fold append_result vs (cv, h) = (cv', h')" by fastforce
  have "native_inv cv' \<and> column_type cv' = ?t \<and> results.holds (cv', h') vs"
    using results.append_all [of "(cv, h)" vs "[]"] inv ok size len folded by simp
  then have "column_holds ?t h' (NativeColumn cv') vs" using native_column_holds [of cv' h' vs] by auto
  then show ?thesis unfolding vs_def by blast
qed


theorem column_arithmetic_witness:
  "\<exists>h cv. column_holds (basic_type kInt) h cv (map (\<lambda>i. SqlLiteral (number (IntLit i))) [1, 5]) \<and>
    computes (applyToColumnVectors 0x8000 (\<lambda>_. 0) (\<lambda>_. undefined) int_plus h cv cv) (Instance kInt False)
      (Some [SqlLiteral (number (IntLit 2)), SqlLiteral (number (IntLit 10))]) \<and>
    computes (applyToColumnVectorAndStaticValueHelper True 0x8000 (\<lambda>_. 0) (\<lambda>_. undefined) int_plus h cv (TypedValue_int 10)) (Instance kInt False)
      (Some [SqlLiteral (number (IntLit 11)), SqlLiteral (number (IntLit 15))])"
proof -
  obtain cv h where held: "column_holds (basic_type kInt) h (NativeColumn cv) (map (\<lambda>i. SqlLiteral (number (IntLit i))) [1, 5])"
    using native_ints [of "[1, 5]"] by auto
  then show ?thesis
    using column_arithmetic [OF int_plus_made held held _ _ _ _ int_value(1) int_value(1), of "0x8000" "\<lambda>_. 0" "\<lambda>_. undefined" 10 10]
    by (intro exI [of _ h] exI [of _ "NativeColumn cv"])
      (simp add: int_plus_shape int_value(2) plus_ints checked32_def del: arith_sql.simps)
qed

theorem accessor_arithmetic_witness:
  "\<exists>h cv. computes (applyToSingleValueAccessor 0x8000 (\<lambda>_. 0) (\<lambda>_. undefined) int_plus h (int_accessor [1, 5]) 0 0) (Instance kInt False)
     (Some [SqlLiteral (number (IntLit 2)), SqlLiteral (number (IntLit 10))]) \<and>
   computes (applyToColumnVectorAndValueAccessorHelper True 0x8000 (\<lambda>_. 0) (\<lambda>_. undefined) int_plus h cv (int_accessor [1, 5]) 0) (Instance kInt False)
     (Some [SqlLiteral (number (IntLit 2)), SqlLiteral (number (IntLit 10))])"
proof -
  have short: "length [1 :: u32, 5] < 2 ^ 31" by simp
  obtain cv h where held: "column_holds (basic_type kInt) h (NativeColumn cv) (map (\<lambda>i. SqlLiteral (number (IntLit i))) [1, 5])"
    using native_ints [OF short] by auto
  note holds = int_accessor_facts(1) [of "[1, 5]" h, simplified] and facts = int_accessor_facts(2-4) [of "[1, 5]", simplified]
  have ok: "va_ok (int_accessor [1, 5])" "\<not> isOrderedTupleIdSequenceAdapter (int_accessor [1, 5])"
    using facts(2) by (simp_all add: filter_ok_def)
  have positions: "va_positions (int_accessor [1, 5]) = [0, 1]" using facts(1) by (simp add: upt_rec)
  have "nat 1 = Suc 0" by simp
  then show ?thesis
    using accessor_arithmetic [OF int_plus_made ok holds holds int_value(1) held, of "0x8000" "\<lambda>_. 0" "\<lambda>_. undefined" 10]
    by (intro exI [of _ h] exI [of _ "NativeColumn cv"])
      (simp add: positions int_plus_shape plus_ints checked32_def del: arith_sql.simps)
qed

theorem join_arithmetic_witness:
  "\<exists>h cv. computes (applyToValueAccessorsForJoin 0x8000 (\<lambda>_. 0) (\<lambda>_. undefined) int_plus h (int_accessor [1, 5]) True 0 (int_accessor [1, 5]) False 0
     [(0, 1), (1, 1)]) (Instance kInt False) (Some [SqlLiteral (number (IntLit 6)), SqlLiteral (number (IntLit 10))]) \<and>
   computes (applyToColumnVectorAndValueAccessorForJoinHelper True 0x8000 (\<lambda>_. 0) (\<lambda>_. undefined) int_plus h cv (int_accessor [1, 5]) False 0
     [(0, 1), (1, 1)]) (Instance kInt False) (Some [SqlLiteral (number (IntLit 6)), SqlLiteral (number (IntLit 10))])"
proof -
  have short: "length [1 :: u32, 5] < 2 ^ 31" by simp
  obtain cv h where held: "column_holds (basic_type kInt) h (NativeColumn cv) (map (\<lambda>i. SqlLiteral (number (IntLit i))) [1, 5])"
    using native_ints [OF short] by auto
  note holds = int_accessor_facts(1) [of "[1, 5]" h, simplified] and facts = int_accessor_facts(2-4) [of "[1, 5]", simplified]
  obtain acc where acc: "int_accessor [1, 5] = Plain acc" by (simp add: int_accessor_def)
  have ok: "va_ok (Plain acc)" using facts(2) acc by (simp add: filter_ok_def)
  have positions: "va_positions (Plain acc) = [0, 1]" using facts(1) acc by (simp add: upt_rec)
  show ?thesis
    unfolding acc
    using join_arithmetic [OF int_plus_made ok ok holds [unfolded acc] holds [unfolded acc] int_value(1) held, of "[(0, 1), (1, 1)]" True False "0x8000" "\<lambda>_. 0" "\<lambda>_. undefined" 10]
    by (intro exI [of _ h] exI [of _ "NativeColumn cv"])
      (simp add: positions joined_def int_plus_shape plus_ints checked32_def del: arith_sql.simps)
qed

theorem accumulation_folds_witness:
  "\<exists>h cv. accumulateColumnVector (\<lambda>_. undefined) 0 int_plus h (TypedValue_int 3) cv = Some (TypedValue_int 9, 2) \<and>
   accumulateValueAccessor (\<lambda>_. undefined) 0 int_plus h (TypedValue_int 3) (int_accessor [1, 5]) 0 = Some (TypedValue_int 9, 2)"
proof -
  have short: "length [1 :: u32, 5] < 2 ^ 31" by simp
  obtain cv h where held: "column_holds (basic_type kInt) h (NativeColumn cv) (map (\<lambda>i. SqlLiteral (number (IntLit i))) [1, 5])"
    using native_ints [OF short] by auto
  note holds = int_accessor_facts(1) [of "[1, 5]" h, simplified] and facts = int_accessor_facts(2-4) [of "[1, 5]", simplified]
  have ok: "va_ok (int_accessor [1, 5])" "\<not> isOrderedTupleIdSequenceAdapter (int_accessor [1, 5])"
    using facts(2) by (simp_all add: filter_ok_def)
  have positions: "va_positions (int_accessor [1, 5]) = [0, 1]" using facts(1) by (simp add: upt_rec)
  have total: "folded (\<lambda>_. undefined) int_plus [number (IntLit 1), number (IntLit 5)] (number (IntLit 3)) = Some (number (IntLit 9))"
    by (simp add: folded_def int_plus_shape int_plus_def new_operator_def op_functor_defs number_op_def checked32_def)
  have start: "getLiteral kInt (TypedValue_int 3) = number (IntLit 3)"
    by (simp add: getLiteral_def value_simps)
  show ?thesis
    using accumulation_folds [OF int_plus_made int_plus_shape(1) int_value(1) [of _ 3] held _ ok holds, where pad = 0 and gmtime = "\<lambda>_. undefined"]
    by (intro exI [of _ h] exI [of _ "NativeColumn cv"]) (simp add: Let_def positions total start int_value(3))
qed

end
