(* ===== verification/Spec2Isabelle.thy ===== *)
theory Spec2Isabelle
  imports BitProps TupleIds Types Floats BinaryOpTypes DateTimes TypedValues Predicates Coercion Comparisons
    VectorComparisons Arithmetic
begin

text \<open>
  Quickstep-Streaming: the execution core of a streaming relational engine, in C++ under \<^verbatim>\<open>src\<close>. The
  engine evaluates predicates and scalar expressions over blocks of tuples. A type system
  (\<^verbatim>\<open>types\<close>) says which values exist, how they are coerced and which operations apply to them; a
  value with its type is a \<^verbatim>\<open>TypedValue\<close>; the sets of tuples a predicate selects are bit vectors
  (\<^verbatim>\<open>utility/BitVector.hpp\<close>) behind \<^verbatim>\<open>TupleIdSequence\<close>; expressions (\<^verbatim>\<open>expressions\<close>) are
  trees over comparisons and arithmetic (\<^verbatim>\<open>types/operations\<close>), and the streaming operators drive them.

  The theories, bottom up.

  \<^item> \<open>Prelude\<close>: abbreviations for the machine words, lemmas on words, lists and signed arithmetic with
    overflow. Signed overflow is undefined behaviour in C++ and is \<open>None\<close> (\<open>checked32\<close>, \<open>checked64\<close>).
  \<^item> \<open>BitManip\<close>, \<open>BitVector\<close>, \<open>BitSearch\<close>, \<open>BitShift\<close>, \<open>BitProps\<close>: \<^verbatim>\<open>utility/BitManipulation.hpp\<close> and
    \<^verbatim>\<open>utility/BitVector.hpp\<close>. The record \<open>bitvector\<close> is the object: its length and its words, each
    operation a function of it. A store outside the words is kept as a flag of the record; sums with a shift
    distance wrap as \<open>size_t\<close>. The lemmas give every
    operation a meaning on the set of positions, and compare the word-wise searches and shifts with
    bit-by-bit references.
  \<^item> \<open>TidStore\<close>, \<open>TupleIds\<close>: \<^verbatim>\<open>common/TupleIdSequence.hpp\<close>, a locale for a set of tuple IDs and its
    interpretation on the bit vector; the loop over the constant iterator ends and visits each member once.
  \<^item> \<open>Types\<close>: the types, coercibility, unification and serialization of \<^verbatim>\<open>types/*Type.cpp\<close>,
    \<^verbatim>\<open>types/TypeFactory.cpp\<close> and \<^verbatim>\<open>types/NumericTypeUnifier.hpp\<close>.
  \<^item> \<open>Floats\<close>, \<open>FloatEquality\<close>: IEEE 754 numbers as bit patterns, executable, with correct rounding; they
    stand for the built-in \<^verbatim>\<open>float\<close> and \<^verbatim>\<open>double\<close>.
  \<^item> \<open>DateTimes\<close>: \<^verbatim>\<open>types/DatetimeLit.hpp\<close>, \<^verbatim>\<open>types/IntervalLit.hpp\<close>,
    \<^verbatim>\<open>types/DateOperatorOverloads.hpp\<close> and \<^verbatim>\<open>types/port/timegm.cpp\<close>. The C library function
    \<^verbatim>\<open>gmtime_r\<close> is a parameter; the theorems assume of it only that it inverts the calendar.
  \<^item> \<open>TypedValues\<close>: \<^verbatim>\<open>types/TypedValue.hpp\<close> and \<^verbatim>\<open>types/TypedValue.cpp\<close> over an explicit memory of bytes and
    allocated blocks. The address \<^verbatim>\<open>malloc\<close> returns is an argument. The lemmas show ownership of memory,
    independence of copies of owning values (a copied reference shares its bytes), equality, hashing and serialization.
  \<^item> \<open>BinaryOpTypes\<close>: the typing functions of \<^verbatim>\<open>types/operations/binary_operations\<close>; two locales state the
    contract every operation keeps and are interpreted for each of them.
  \<^item> \<open>Predicates\<close>: \<^verbatim>\<open>expressions/predicate\<close>. The single-tuple and the block evaluation of a predicate
    tree, with the comparison at a leaf a parameter; the lemmas show that both mean the logical formula.
  \<^item> \<open>Coercion\<close>: the \<^verbatim>\<open>coerceValue\<close>, \<^verbatim>\<open>makeValue\<close> and \<^verbatim>\<open>makeZeroValue\<close> functions of the types, over the
    memory of \<open>TypedValues\<close>, with the value each representation stands for.
  \<^item> \<open>Comparisons\<close>: \<^verbatim>\<open>types/operations/comparisons\<close>: the comparison objects, the checked comparison of
    values and the comparators for literals and strings, all entry points for single items. Reading a string
    past its bytes is \<open>None\<close>. The predicate \<open>value_of_type\<close> says which values the theorems are about; where the
    checked comparison trusts the reported length of a padded VarChar, \<open>lengths_disagree\<close> names the exception.
  \<^item> \<open>DataItems\<close>: the SQL value an item in memory holds, and the tests of \<open>Comparisons\<close> as tests on SQL values.
  \<^item> \<open>ColumnVectors\<close>: \<^verbatim>\<open>types/containers/ColumnVector.hpp\<close>. Native columns are bytes in the memory with a
    bitmap of nulls, indirect ones a list of values; a locale states what a store of values by position
    promises and is interpreted on both.
  \<^item> \<open>ValueAccessors\<close>: tuples, accessors over tuples and columns, and the adapters that restrict an accessor to
    a set or a sequence of tuples; a locale for cursors, interpreted on each, gives the meaning of the loop
    \<^verbatim>\<open>while (accessor->next())\<close>.
  \<^item> \<open>VectorComparisons\<close>: the vector functions of \<^verbatim>\<open>LiteralComparators-inl.hpp\<close>,
    \<^verbatim>\<open>AsciiStringComparators-inl.hpp\<close> and \<^verbatim>\<open>Comparison-inl.hpp\<close>, which compare columns and accessors and
    accumulate over them; each is shown to select the tuples whose SQL values compare so.
  \<^item> \<open>Arithmetic\<close>: \<^verbatim>\<open>ArithmeticBinaryOperators.hpp\<close>, \<^verbatim>\<open>ArithmeticBinaryOperation.hpp\<close> and the operations: the
    unchecked operators, their making, the loops that write a result column directly, and the checked application.
    The lemmas show that the ways to apply an operation agree and that the loops compute its results.

  Assertions. A \<^verbatim>\<open>DCHECK\<close> is a precondition: the definitions say what the release build does, and the theorems
  state the precondition where it matters. A \<^verbatim>\<open>LOG(FATAL)\<close> or \<^verbatim>\<open>FATAL_ERROR\<close> that can be reached is \<open>None\<close>.

  Bounds. Loops recurse structurally or on a measure, so no fuel is used; the loops of \<open>BitVector\<close> and
  \<open>TupleIds\<close> end within the length of the vector.

  Not modelled: printing and parsing of values, text-based tests, the threading layer and its ports, and the
  code listed as such in the table of components.
\<close>

end
